(* ===== verification/Alg_Prelude.thy ===== *)
theory Alg_Prelude
  imports Main "HOL-Library.Word" "HOL-Library.Monad_Syntax"
begin

text \<open>
  What every component of the development shares: the machine integers of the C++ code, memory
  buffers with the multi-byte loads and stores the code makes through \<open>uint16_t*\<close>, \<open>tcphdr*\<close> and
  the like, the byte-order functions, \<open>memcpy\<close> and \<open>memset\<close>, and the decimal and hexadecimal
  printing of \<open>sprintf\<close> and \<open>std::ostream\<close>.

  The host is little endian, as the code itself assumes (it writes the version of an IPv6 header as
  \<open>ip6_flow = 0x60\<close>).  A computation whose C++ meaning is undefined (a null or uninitialised
  pointer, an access outside an array) is \<^const>\<open>None\<close> in the option monad.
\<close>

unbundle bit_operations_syntax

type_synonym u8 = "8 word"
type_synonym u16 = "16 word"
type_synonym u32 = "32 word"

named_theorems buf_simps \<open>reads and writes of memory buffers\<close>
named_theorems frame_simps \<open>what an operation leaves unchanged\<close>

section \<open>Memory buffers\<close>

text \<open>
  An array of bytes is a function from offsets to bytes; the operations that take a variable length
  check it against the array's size themselves.
\<close>

type_synonym mem = "nat \<Rightarrow> u8"

definition rd16 :: "mem \<Rightarrow> nat \<Rightarrow> u16" where
  "rd16 m i = ucast (m i) OR push_bit 8 (ucast (m (i + 1)))"

definition wr16 :: "nat \<Rightarrow> u16 \<Rightarrow> mem \<Rightarrow> mem" where
  "wr16 i w m = m(i := ucast w, i + 1 := ucast (drop_bit 8 w))"

definition rd32 :: "mem \<Rightarrow> nat \<Rightarrow> u32" where
  "rd32 m i = ucast (rd16 m i) OR push_bit 16 (ucast (rd16 m (i + 2)))"

definition wr32 :: "nat \<Rightarrow> u32 \<Rightarrow> mem \<Rightarrow> mem" where
  "wr32 i w m = wr16 (i + 2) (ucast (drop_bit 16 w)) (wr16 i (ucast w) m)"

definition memcpy :: "mem \<Rightarrow> nat \<Rightarrow> mem \<Rightarrow> nat \<Rightarrow> nat \<Rightarrow> mem" where
  "memcpy d di s si n = (\<lambda>i. if di \<le> i \<and> i < di + n then s (si + (i - di)) else d i)"

definition memset :: "mem \<Rightarrow> nat \<Rightarrow> u8 \<Rightarrow> nat \<Rightarrow> mem" where
  "memset d di v n = (\<lambda>i. if di \<le> i \<and> i < di + n then v else d i)"

definition bytes_at :: "mem \<Rightarrow> nat \<Rightarrow> nat \<Rightarrow> u8 list" where
  "bytes_at m i n = map m [i..<i + n]"

lemma rd16_wr16_same [buf_simps]: "rd16 (wr16 i w m) i = w"
  by (rule bit_word_eqI) (auto simp: rd16_def wr16_def bit_simps)

lemma rd16_wr16_other [buf_simps]: "j + 1 < i \<or> i + 1 < j \<Longrightarrow> rd16 (wr16 i w m) j = rd16 m j"
  by (auto simp: rd16_def wr16_def)

lemma wr16_byte_other [buf_simps]: "j < i \<or> i + 1 < j \<Longrightarrow> wr16 i w m j = m j"
  by (auto simp: wr16_def)

lemma wr32_byte_other [buf_simps]: "j < i \<or> i + 3 < j \<Longrightarrow> wr32 i w m j = m j"
  by (auto simp: wr32_def wr16_def)

lemma rd16_wr32_other [buf_simps]: "j + 1 < i \<or> i + 3 < j \<Longrightarrow> rd16 (wr32 i w m) j = rd16 m j"
  by (auto simp: wr32_def buf_simps)

lemma rd32_wr32_same [buf_simps]: "rd32 (wr32 i w m) i = w"
proof -
  have "rd32 (wr32 i w m) i = ucast (ucast w :: u16) OR push_bit 16 (ucast (ucast (drop_bit 16 w) :: u16))"
    by (simp add: rd32_def wr32_def buf_simps)
  also have "\<dots> = w"
    by (rule bit_word_eqI) (auto simp: bit_simps)
  finally show ?thesis .
qed

lemma rd32_cong16: "rd16 m i = rd16 m' i \<Longrightarrow> rd16 m (i + 2) = rd16 m' (i + 2) \<Longrightarrow> rd32 m i = rd32 m' i"
  by (simp add: rd32_def)

lemma rd32_wr32_other [buf_simps]: "j + 3 < i \<or> i + 3 < j \<Longrightarrow> rd32 (wr32 i w m) j = rd32 m j"
  by (rule rd32_cong16) (auto simp: buf_simps)

lemma rd32_wr16_other [buf_simps]: "j + 3 < i \<or> i + 1 < j \<Longrightarrow> rd32 (wr16 i w m) j = rd32 m j"
  by (rule rd32_cong16) (auto simp: buf_simps)

lemma memcpy_in [buf_simps]: "di \<le> i \<Longrightarrow> i < di + n \<Longrightarrow> memcpy d di s si n i = s (si + (i - di))"
  by (simp add: memcpy_def)

lemma memcpy_out [buf_simps]: "i < di \<or> di + n \<le> i \<Longrightarrow> memcpy d di s si n i = d i"
  by (auto simp: memcpy_def)

lemma memset_out [buf_simps]: "i < di \<or> di + n \<le> i \<Longrightarrow> memset d di v n i = d i"
  by (auto simp: memset_def)

lemma memset_in [buf_simps]: "di \<le> i \<Longrightarrow> i < di + n \<Longrightarrow> memset d di v n i = v"
  by (simp add: memset_def)

lemma length_bytes_at [simp]: "length (bytes_at m i n) = n"
  by (simp add: bytes_at_def)

lemma nth_bytes_at [simp]: "j < n \<Longrightarrow> bytes_at m i n ! j = m (i + j)"
  by (simp add: bytes_at_def)

lemma bytes_at_cong: "(\<And>j. i \<le> j \<Longrightarrow> j < i + n \<Longrightarrow> m j = m' j) \<Longrightarrow> bytes_at m i n = bytes_at m' i n"
  by (simp add: bytes_at_def)

section \<open>Byte order\<close>

definition ntohs :: "u16 \<Rightarrow> u16" where
  "ntohs w = push_bit 8 w OR drop_bit 8 w"

abbreviation htons :: "u16 \<Rightarrow> u16" where
  "htons \<equiv> ntohs"

definition ntohl :: "u32 \<Rightarrow> u32" where
  "ntohl w = ucast (ntohs (ucast (drop_bit 16 w))) OR push_bit 16 (ucast (ntohs (ucast w)))"

lemma ntohs_ntohs [simp]: "ntohs (ntohs w) = w"
proof (rule bit_word_eqI)
  fix n assume "n < LENGTH(16)"
  then show "bit (ntohs (ntohs w)) n = bit w n"
    by (cases "n < 8") (auto simp: ntohs_def bit_simps)
qed

lemma ntohs_inj [simp]: "ntohs a = ntohs b \<longleftrightarrow> a = b"
  by (metis ntohs_ntohs)

lemma ntohl_ntohl [simp]: "ntohl (ntohl w) = w"
proof -
  have lo: "ucast (ntohl v) = ntohs (ucast (drop_bit 16 v))" for v
    by (rule bit_word_eqI) (auto simp: ntohl_def bit_simps)
  have hi: "ucast (drop_bit 16 (ntohl v)) = ntohs (ucast v)" for v
    by (rule bit_word_eqI) (auto simp: ntohl_def bit_simps dest: bit_imp_le_length)
  show ?thesis
    unfolding ntohl_def [of "ntohl w"] lo hi ntohs_ntohs
    by (rule bit_word_eqI) (auto simp: bit_simps)
qed

section \<open>Text\<close>

definition byte_of :: "char \<Rightarrow> u8" where
  "byte_of c = of_char c"

definition char_of_byte :: "u8 \<Rightarrow> char" where
  "char_of_byte b = char_of (unat b)"

lemma byte_of_char_of_byte [simp]: "byte_of (char_of_byte b) = b"
proof -
  have "unat b < 256" using unsigned_less [of b] by simp
  then have "of_char (char_of_byte b) = unat b"
    by (simp add: char_of_byte_def of_char_of)
  moreover have "byte_of (char_of_byte b) = of_nat (of_char (char_of_byte b))"
    by (simp only: byte_of_def of_nat_of_char)
  ultimately show ?thesis by simp
qed

lemma char_of_byte_of: "char_of_byte (byte_of c) = c"
proof -
  have "byte_of c = of_nat (of_char c)" by (simp only: byte_of_def of_nat_of_char)
  then have "unat (byte_of c) = of_char c mod 256" by (simp only: unat_of_nat) simp
  then show ?thesis by (simp only: char_of_byte_def of_char_mod_256 char_of_char)
qed

definition digit :: "nat \<Rightarrow> char" where
  "digit n = char_of (48 + n)"

definition is_digit :: "char \<Rightarrow> bool" where
  "is_digit c \<longleftrightarrow> 48 \<le> (of_char c :: nat) \<and> (of_char c :: nat) \<le> 57"

definition digit_val :: "char \<Rightarrow> nat" where
  "digit_val c = of_char c - 48"

lemma digit_digit_val [simp]: "n < 10 \<Longrightarrow> is_digit (digit n) \<and> digit_val (digit n) = n"
  by (simp add: digit_def is_digit_def digit_val_def of_char_of)

text \<open>\<open>sprintf(buf, "%d", n)\<close> of a non-negative number.\<close>

fun decimal :: "nat \<Rightarrow> string" where
  "decimal n = (if n < 10 then [digit n] else decimal (n div 10) @ [digit (n mod 10)])"

declare decimal.simps [simp del]

text \<open>The value of a string of digits, most significant first.\<close>

definition digits_val :: "string \<Rightarrow> nat" where
  "digits_val s = foldl (\<lambda>v c. 10 * v + digit_val c) 0 s"

lemma digits_val_snoc [simp]: "digits_val (s @ [c]) = 10 * digits_val s + digit_val c"
  by (simp add: digits_val_def)

lemma decimal_digits: "c \<in> set (decimal n) \<Longrightarrow> is_digit c"
  by (induction n rule: decimal.induct) (subst (asm) (2) decimal.simps, auto split: if_splits)

lemma decimal_nonempty [simp]: "decimal n \<noteq> []"
  by (subst decimal.simps) simp

lemma digits_val_decimal [simp]: "digits_val (decimal n) = n"
proof (induction n rule: decimal.induct)
  case (1 n)
  show ?case
  proof (cases "n < 10")
    case True
    then show ?thesis by (subst decimal.simps) (simp add: digits_val_def)
  next
    case False
    with "1.IH" show ?thesis by (subst decimal.simps) simp
  qed
qed

text \<open>\<open>std::hex\<close> of a non-negative number: lower-case digits.\<close>

definition hex_digit :: "nat \<Rightarrow> char" where
  "hex_digit n = (if n < 10 then char_of (48 + n) else char_of (87 + n))"

fun hexadecimal :: "nat \<Rightarrow> string" where
  "hexadecimal n = (if n < 16 then [hex_digit n] else hexadecimal (n div 16) @ [hex_digit (n mod 16)])"

declare hexadecimal.simps [simp del]

definition hex_digit_val :: "char \<Rightarrow> nat" where
  "hex_digit_val c = (if is_digit c then digit_val c else of_char c - 87)"

definition hex_val :: "string \<Rightarrow> nat" where
  "hex_val s = foldl (\<lambda>v c. 16 * v + hex_digit_val c) 0 s"

lemma hex_digit_hex_digit_val [simp]: "n < 16 \<Longrightarrow> hex_digit_val (hex_digit n) = n"
  by (auto simp: hex_digit_def hex_digit_val_def is_digit_def digit_val_def of_char_of)

lemma hex_val_hexadecimal [simp]: "hex_val (hexadecimal n) = n"
proof (induction n rule: hexadecimal.induct)
  case (1 n)
  show ?case
  proof (cases "n < 16")
    case True
    then show ?thesis by (subst hexadecimal.simps) (simp add: hex_val_def)
  next
    case False
    with "1.IH" show ?thesis by (subst hexadecimal.simps) (simp add: hex_val_def)
  qed
qed

end
