(* ===== verification/Std_Containers.thy ===== *)
theory Std_Containers
  imports Alg_Prelude
begin

text \<open>
  The containers of the C++ standard library the code keeps its state in.  A \<open>std::map\<close> compares
  keys with an ordering \<open>lt\<close> and takes two keys for the same when neither is below the other, so
  what a map distinguishes is decided by the key's \<open>operator<\<close>.  The library requires \<open>lt\<close> to be a
  strict weak ordering; that requirement is a locale, with the map's laws proved in it, and every
  ordering of the code is an interpretation.
\<close>

section \<open>Ordered maps\<close>

definition key_equiv :: "('k \<Rightarrow> 'k \<Rightarrow> bool) \<Rightarrow> 'k \<Rightarrow> 'k \<Rightarrow> bool" where
  "key_equiv lt x y \<longleftrightarrow> \<not> lt x y \<and> \<not> lt y x"

type_synonym ('k, 'v) std_map = "('k \<times> 'v) list"

text \<open>\<open>find\<close> (and \<open>count\<close>, which is whether \<open>find\<close> succeeds).\<close>

primrec map_find :: "('k \<Rightarrow> 'k \<Rightarrow> bool) \<Rightarrow> ('k, 'v) std_map \<Rightarrow> 'k \<Rightarrow> 'v option" where
  "map_find lt [] k = None"
| "map_find lt (e # m) k = (if key_equiv lt (fst e) k then Some (snd e) else map_find lt m k)"

text \<open>\<open>m[k] = v\<close>: keeps the key already stored, when there is an equivalent one.\<close>

primrec map_put :: "('k \<Rightarrow> 'k \<Rightarrow> bool) \<Rightarrow> 'k \<Rightarrow> 'v \<Rightarrow> ('k, 'v) std_map \<Rightarrow> ('k, 'v) std_map" where
  "map_put lt k v [] = [(k, v)]"
| "map_put lt k v (e # m) =
     (if lt k (fst e) then (k, v) # e # m
      else if lt (fst e) k then e # map_put lt k v m
      else (fst e, v) # m)"

text \<open>Reading \<open>m[k]\<close>: a key that is not there is inserted with the value type's default.\<close>

definition map_index ::
    "('k \<Rightarrow> 'k \<Rightarrow> bool) \<Rightarrow> 'v \<Rightarrow> 'k \<Rightarrow> ('k, 'v) std_map \<Rightarrow> 'v \<times> ('k, 'v) std_map" where
  "map_index lt dflt k m =
     (case map_find lt m k of Some v \<Rightarrow> (v, m) | None \<Rightarrow> (dflt, map_put lt k dflt m))"

definition map_sorted :: "('k \<Rightarrow> 'k \<Rightarrow> bool) \<Rightarrow> ('k, 'v) std_map \<Rightarrow> bool" where
  "map_sorted lt m \<longleftrightarrow> sorted_wrt (\<lambda>e f. lt (fst e) (fst f)) m"

locale strict_weak =
  fixes lt :: "'k \<Rightarrow> 'k \<Rightarrow> bool"
  assumes irrefl: "\<not> lt x x"
    and trans: "lt x y \<Longrightarrow> lt y z \<Longrightarrow> lt x z"
    and equiv_trans: "key_equiv lt x y \<Longrightarrow> key_equiv lt y z \<Longrightarrow> key_equiv lt x z"
begin

lemma equiv_refl [simp]: "key_equiv lt x x"
  by (simp add: key_equiv_def irrefl)

lemma equiv_sym: "key_equiv lt x y \<Longrightarrow> key_equiv lt y x"
  by (simp add: key_equiv_def)

lemma equiv_cong: "key_equiv lt x y \<Longrightarrow> key_equiv lt x z \<longleftrightarrow> key_equiv lt y z"
  by (meson equiv_sym equiv_trans)

lemma asym: "lt x y \<Longrightarrow> \<not> lt y x"
  using irrefl trans by blast

lemma lt_equiv_right: "lt x y \<Longrightarrow> key_equiv lt y z \<Longrightarrow> lt x z"
  by (metis key_equiv_def equiv_sym equiv_trans trans asym)

lemma find_cong: "key_equiv lt x y \<Longrightarrow> map_find lt m x = map_find lt m y"
  by (induction m) (auto dest: equiv_sym equiv_trans)

lemma find_put: "map_find lt (map_put lt k v m) k' = (if key_equiv lt k k' then Some v else map_find lt m k')"
proof (induction m)
  case Nil
  show ?case by simp
next
  case (Cons e m)
  have after: "lt (fst e) k \<Longrightarrow> key_equiv lt k k' \<Longrightarrow> \<not> key_equiv lt (fst e) k'"
    by (metis equiv_sym equiv_trans key_equiv_def)
  have same: "\<not> lt k (fst e) \<Longrightarrow> \<not> lt (fst e) k \<Longrightarrow> key_equiv lt (fst e) k' \<longleftrightarrow> key_equiv lt k k'"
    by (rule equiv_cong) (simp add: key_equiv_def)
  show ?case using Cons after same by auto
qed

lemma find_put_same: "map_find lt (map_put lt k v m) k = Some v"
  by (simp add: find_put)

lemma put_keys: "fst ` set (map_put lt k v m) \<subseteq> insert k (fst ` set m)"
  by (induction m) auto

lemma put_sorted: "map_sorted lt m \<Longrightarrow> map_sorted lt (map_put lt k v m)"
proof (induction m)
  case Nil
  show ?case by (simp add: map_sorted_def)
next
  case (Cons e m)
  then have below: "\<forall>f\<in>set m. lt (fst e) (fst f)" and IH: "map_sorted lt (map_put lt k v m)"
    by (auto simp: map_sorted_def)
  have "\<forall>f\<in>set (map_put lt k v m). lt (fst e) (fst f)" if "lt (fst e) k"
    using put_keys [of k v m] below that by fastforce
  with below IH Cons.prems show ?case
    by (auto simp: map_sorted_def intro: trans)
qed

lemma find_put_id: "map_find lt m k = Some v \<Longrightarrow> map_find lt (map_put lt k v m) = map_find lt m"
  by (auto simp: fun_eq_iff find_put find_cong)

lemma index_value: "fst (map_index lt d k m) = (case map_find lt m k of Some v \<Rightarrow> v | None \<Rightarrow> d)"
  by (simp add: map_index_def split: option.splits)

lemma index_find:
  "map_find lt (snd (map_index lt d k m)) k' =
     (if key_equiv lt k k' \<and> map_find lt m k' = None then Some d else map_find lt m k')"
  by (auto simp: map_index_def find_put find_cong split: option.splits)

end

text \<open>\<open>std::pair\<close> compares lexicographically, with its components' orderings.\<close>

definition pair_lt ::
    "('a \<Rightarrow> 'a \<Rightarrow> bool) \<Rightarrow> ('b \<Rightarrow> 'b \<Rightarrow> bool) \<Rightarrow> 'a \<times> 'b \<Rightarrow> 'a \<times> 'b \<Rightarrow> bool" where
  "pair_lt lt1 lt2 p q \<longleftrightarrow> lt1 (fst p) (fst q) \<or> (\<not> lt1 (fst q) (fst p) \<and> lt2 (snd p) (snd q))"

lemma key_equiv_pair [simp]:
  "key_equiv (pair_lt lt1 lt2) (a, b) (c, d) \<longleftrightarrow> key_equiv lt1 a c \<and> key_equiv lt2 b d"
  by (auto simp: key_equiv_def pair_lt_def)

locale strict_weak_pair = a: strict_weak lt1 + b: strict_weak lt2
  for lt1 :: "'a \<Rightarrow> 'a \<Rightarrow> bool" and lt2 :: "'b \<Rightarrow> 'b \<Rightarrow> bool"
begin

lemma pair_lt_trans:
  assumes xy: "pair_lt lt1 lt2 x y" and yz: "pair_lt lt1 lt2 y z"
  shows "pair_lt lt1 lt2 x z"
proof (cases "key_equiv lt1 (fst x) (fst y) \<and> key_equiv lt1 (fst y) (fst z)")
  case True
  then have "key_equiv lt1 (fst x) (fst z)" by (blast intro: a.equiv_trans)
  with True xy yz show ?thesis
    by (auto simp: pair_lt_def key_equiv_def intro: b.trans)
next
  case False
  have "lt1 (fst x) (fst z)"
  proof (cases "key_equiv lt1 (fst x) (fst y)")
    case True
    with False xy yz have "lt1 (fst y) (fst z)" by (auto simp: pair_lt_def key_equiv_def)
    with True show ?thesis
      by (metis a.asym a.equiv_cong a.equiv_sym a.trans key_equiv_def)
  next
    case False
    with xy have "lt1 (fst x) (fst y)" by (auto simp: pair_lt_def key_equiv_def)
    with yz show ?thesis
      by (metis a.lt_equiv_right a.trans key_equiv_def pair_lt_def)
  qed
  then show ?thesis by (simp add: pair_lt_def)
qed

end

sublocale strict_weak_pair \<subseteq> ab: strict_weak "pair_lt lt1 lt2"
proof unfold_locales
  fix x y z
  show "\<not> pair_lt lt1 lt2 x x"
    by (simp add: pair_lt_def a.irrefl b.irrefl)
  show "pair_lt lt1 lt2 x y \<Longrightarrow> pair_lt lt1 lt2 y z \<Longrightarrow> pair_lt lt1 lt2 x z"
    by (rule pair_lt_trans)
  show "key_equiv (pair_lt lt1 lt2) x y \<Longrightarrow> key_equiv (pair_lt lt1 lt2) y z \<Longrightarrow>
      key_equiv (pair_lt lt1 lt2) x z"
    by (cases x; cases y; cases z) (auto intro: a.equiv_trans b.equiv_trans)
qed

section \<open>Orderings that are linear\<close>

lemma key_equiv_linorder [simp]: "key_equiv (<) x y \<longleftrightarrow> x = (y :: 'a :: linorder)"
  by (auto simp: key_equiv_def)

interpretation lin: strict_weak "(<) :: 'a :: linorder \<Rightarrow> 'a \<Rightarrow> bool"
  by unfold_locales (auto simp: key_equiv_def)

end
