(* ===== verification/Ip.thy ===== *)
theory Ip
  imports Std_Containers
begin

text \<open>
  \<open>ip.h\<close> and \<open>ip.cc\<close>: IPv4 and IPv6 addresses, address/port pairs, their orderings (which decide
  what the tables of \<open>state.cc\<close> take for the same key) and the text forms of ports.  Addresses and
  ports are held as the code holds them, in network byte order.

  The text forms of addresses go through the C library's \<open>inet_pton\<close> and \<open>inet_ntop\<close>, which are
  parameters, together with what an object's memory holds where a constructor leaves it unset.
\<close>

section \<open>Addresses\<close>

datatype ipv4addr = IPv4Addr (getInt: u32)

definition IPv4Addr_default :: ipv4addr where
  "IPv4Addr_default = IPv4Addr 0"

definition ipv4addr_lt :: "ipv4addr \<Rightarrow> ipv4addr \<Rightarrow> bool" where
  "ipv4addr_lt a b \<longleftrightarrow> getInt a < getInt b"

text \<open>\<open>struct in6_addr\<close>, as the four 32-bit words the code reads it by.\<close>

datatype in6_addr = In6Addr (s6_addr32_0: u32) (s6_addr32_1: u32) (s6_addr32_2: u32) (s6_addr32_3: u32)

record libc =
  inet_pton6 :: "string \<Rightarrow> in6_addr option"
  inet_pton4 :: "string \<Rightarrow> u32 option"
  inet_ntop6 :: "in6_addr \<Rightarrow> string"
  inet_ntop4 :: "u32 \<Rightarrow> string"
  unset6 :: in6_addr
  unset4 :: u32
  unset16 :: u16

datatype ipv6addr = IPv6Addr (getIn6Addr: in6_addr)

definition IPv6Addr_default :: ipv6addr where
  "IPv6Addr_default = IPv6Addr (In6Addr 0 0 0 0)"

text \<open>
  The constructor from text: brackets around the address are stripped; where \<open>inet_pton\<close> refuses
  the text the address keeps what the memory held.
\<close>

definition strip_brackets :: "string \<Rightarrow> string" where
  "strip_brackets ip =
     (if 2 < length ip \<and> ip ! 0 = CHR ''['' \<and> ip ! (length ip - 1) = CHR '']''
      then take (length ip - 2) (drop 1 ip) else ip)"

definition IPv6Addr_of_string :: "libc \<Rightarrow> string \<Rightarrow> ipv6addr" where
  "IPv6Addr_of_string L ip =
     IPv6Addr (case inet_pton6 L (strip_brackets ip) of Some a \<Rightarrow> a | None \<Rightarrow> unset6 L)"

definition IPv4Addr_of_string :: "libc \<Rightarrow> string \<Rightarrow> ipv4addr" where
  "IPv4Addr_of_string L ip =
     IPv4Addr (case inet_pton4 L ip of Some a \<Rightarrow> a | None \<Rightarrow> unset4 L)"

definition getString4 :: "libc \<Rightarrow> ipv4addr \<Rightarrow> string" where
  "getString4 L a = inet_ntop4 L (getInt a)"

definition getString6 :: "libc \<Rightarrow> ipv6addr \<Rightarrow> string" where
  "getString6 L a = inet_ntop6 L (getIn6Addr a)"

text \<open>The comparisons of IPv6 addresses, both operands of every word comparison as written.\<close>

definition ipv6addr_lt :: "ipv6addr \<Rightarrow> ipv6addr \<Rightarrow> bool" where
  "ipv6addr_lt a b =
     (let aa = getIn6Addr a in
      if s6_addr32_0 aa \<noteq> s6_addr32_0 aa then s6_addr32_0 aa < s6_addr32_0 aa
      else if s6_addr32_1 aa \<noteq> s6_addr32_1 aa then s6_addr32_1 aa < s6_addr32_1 aa
      else if s6_addr32_2 aa \<noteq> s6_addr32_2 aa then s6_addr32_2 aa < s6_addr32_2 aa
      else s6_addr32_3 aa < s6_addr32_3 aa)"

definition ipv6addr_ne :: "ipv6addr \<Rightarrow> ipv6addr \<Rightarrow> bool" where
  "ipv6addr_ne a b =
     (let aa = getIn6Addr a in
      s6_addr32_0 aa \<noteq> s6_addr32_0 aa \<or> s6_addr32_1 aa \<noteq> s6_addr32_1 aa \<or>
      s6_addr32_2 aa \<noteq> s6_addr32_2 aa \<or> s6_addr32_3 aa \<noteq> s6_addr32_3 aa)"

section \<open>Address and port\<close>

datatype ip4port = IP4Port (getIP4: ipv4addr) (getPort4: u16)

datatype ip6port = IP6Port (getIP6: ipv6addr) (getPort6: u16)

definition IP4Port_default :: ip4port where
  "IP4Port_default = IP4Port (IPv4Addr 0) 0"

definition IP6Port_default :: "libc \<Rightarrow> ip6port" where
  "IP6Port_default L = IP6Port (IPv6Addr_of_string L ''::'') 0"

definition isNull4 :: "ip4port \<Rightarrow> bool" where
  "isNull4 p \<longleftrightarrow> getPort4 p = 0"

definition isNull6 :: "ip6port \<Rightarrow> bool" where
  "isNull6 p \<longleftrightarrow> getPort6 p = 0"

definition getPortString :: "ip4port \<Rightarrow> string" where
  "getPortString p = decimal (unat (ntohs (getPort4 p)))"

text \<open>The \<open>operator<<\<close> of the pairs.\<close>

definition show_ip4port :: "libc \<Rightarrow> ip4port \<Rightarrow> string" where
  "show_ip4port L p = getString4 L (getIP4 p) @ '':'' @ decimal (unat (ntohs (getPort4 p)))"

definition show_ip6port :: "libc \<Rightarrow> ip6port \<Rightarrow> string" where
  "show_ip6port L p = getString6 L (getIP6 p) @ '':'' @ decimal (unat (ntohs (getPort6 p)))"

text \<open>
  \<open>istringstream >> uint16_t\<close>: leading white space is skipped, then an optional sign and digits.
  Too large a number stores the type's maximum, no digits store 0; at the end of the text before
  any character the variable is left as it was (\<^const>\<open>None\<close>).
\<close>

definition is_space :: "char \<Rightarrow> bool" where
  "is_space c \<longleftrightarrow> c = CHR '' '' \<or> 9 \<le> (of_char c :: nat) \<and> (of_char c :: nat) \<le> 13"

definition extract_u16 :: "string \<Rightarrow> u16 option" where
  "extract_u16 s =
     (let t = dropWhile is_space s in
      if t = [] then None
      else let neg = (hd t = CHR ''-'');
               u = (if neg \<or> hd t = CHR ''+'' then tl t else t);
               ds = takeWhile is_digit u;
               v = digits_val ds
           in Some (if ds = [] then 0
                    else if 65535 < v then 65535
                    else if neg then - of_nat v else of_nat v))"

definition IP6Port_of_string :: "libc \<Rightarrow> ipv6addr \<Rightarrow> string \<Rightarrow> ip6port" where
  "IP6Port_of_string L ip port =
     IP6Port ip (ntohs (case extract_u16 port of Some p \<Rightarrow> p | None \<Rightarrow> unset16 L))"

definition ip4port_lt :: "ip4port \<Rightarrow> ip4port \<Rightarrow> bool" where
  "ip4port_lt a b =
     (if getInt (getIP4 a) \<noteq> getInt (getIP4 b) then getInt (getIP4 a) < getInt (getIP4 b)
      else getPort4 a < getPort4 b)"

definition ip4port_eq :: "ip4port \<Rightarrow> ip4port \<Rightarrow> bool" where
  "ip4port_eq a b \<longleftrightarrow> getInt (getIP4 a) = getInt (getIP4 b) \<and> getPort4 a = getPort4 b"

definition ip6port_lt :: "ip6port \<Rightarrow> ip6port \<Rightarrow> bool" where
  "ip6port_lt a b =
     (if ipv6addr_ne (getIP6 a) (getIP6 b) then ipv6addr_lt (getIP6 a) (getIP6 b)
      else getPort6 a < getPort6 b)"

section \<open>What the orderings are\<close>

text \<open>IPv4 addresses and pairs are linearly ordered, so the library's orders apply to them.\<close>

instantiation ipv4addr :: linorder
begin

definition less_ipv4addr :: "ipv4addr \<Rightarrow> ipv4addr \<Rightarrow> bool" where
  "less_ipv4addr = ipv4addr_lt"

definition less_eq_ipv4addr :: "ipv4addr \<Rightarrow> ipv4addr \<Rightarrow> bool" where
  "less_eq_ipv4addr a b \<longleftrightarrow> a = b \<or> ipv4addr_lt a b"

instance
proof
  fix a b c :: ipv4addr
  note defs = less_ipv4addr_def less_eq_ipv4addr_def ipv4addr_lt_def
  show "a < b \<longleftrightarrow> a \<le> b \<and> \<not> b \<le> a" by (auto simp: defs)
  show "a \<le> a" by (simp add: defs)
  show "a \<le> b \<Longrightarrow> b \<le> c \<Longrightarrow> a \<le> c" by (auto simp: defs)
  show "a \<le> b \<Longrightarrow> b \<le> a \<Longrightarrow> a = b" by (auto simp: defs)
  show "a \<le> b \<or> b \<le> a" by (auto simp: defs intro: ipv4addr.expand)
qed

end

instantiation ip4port :: linorder
begin

definition less_ip4port :: "ip4port \<Rightarrow> ip4port \<Rightarrow> bool" where
  "less_ip4port = ip4port_lt"

definition less_eq_ip4port :: "ip4port \<Rightarrow> ip4port \<Rightarrow> bool" where
  "less_eq_ip4port a b \<longleftrightarrow> a = b \<or> ip4port_lt a b"

instance
proof
  fix a b c :: ip4port
  note defs = less_ip4port_def less_eq_ip4port_def ip4port_lt_def
  show "a < b \<longleftrightarrow> a \<le> b \<and> \<not> b \<le> a" by (auto simp: defs split: if_splits)
  show "a \<le> a" by (simp add: defs)
  show "a \<le> b \<Longrightarrow> b \<le> c \<Longrightarrow> a \<le> c" by (auto simp: defs split: if_splits)
  show "a \<le> b \<Longrightarrow> b \<le> a \<Longrightarrow> a = b" by (auto simp: defs split: if_splits)
  show "a \<le> b \<or> b \<le> a"
    by (cases a; cases b) (auto simp: defs intro: ipv4addr.expand split: if_splits)
qed

end

interpretation v4: strict_weak ipv4addr_lt
  using lin.strict_weak_axioms [where 'a = ipv4addr] by (simp add: less_ipv4addr_def)

interpretation p4: strict_weak ip4port_lt
  using lin.strict_weak_axioms [where 'a = ip4port] by (simp add: less_ip4port_def)

lemma key_equiv_ipv4addr [simp]: "key_equiv ipv4addr_lt a b \<longleftrightarrow> a = b"
  using key_equiv_linorder [of a b] by (simp add: less_ipv4addr_def)

lemma key_equiv_ip4port [simp]: "key_equiv ip4port_lt a b \<longleftrightarrow> a = b"
  using key_equiv_linorder [of a b] by (simp add: less_ip4port_def)

lemma ip4port_eq_iff [simp]: "ip4port_eq a b \<longleftrightarrow> a = b"
  by (cases a; cases b) (auto simp: ip4port_eq_def intro: ipv4addr.expand)

text \<open>
  The IPv6 comparisons compare their first operand with itself, so no address is below or different
  from another, and a pair is ordered by its port alone.
\<close>

lemma ipv6addr_lt_False: "ipv6addr_lt a b = False"
  by (simp add: ipv6addr_lt_def Let_def)

lemma ipv6addr_ne_False: "ipv6addr_ne a b = False"
  by (simp add: ipv6addr_ne_def Let_def)

lemma ip6port_lt_port: "ip6port_lt a b \<longleftrightarrow> getPort6 a < getPort6 b"
  by (simp add: ip6port_lt_def ipv6addr_ne_False)

interpretation v6: strict_weak ipv6addr_lt
  by unfold_locales (simp_all add: key_equiv_def ipv6addr_lt_False)

interpretation p6: strict_weak ip6port_lt
  by unfold_locales (auto simp: key_equiv_def ip6port_lt_port)

lemma key_equiv_ipv6addr [simp]: "key_equiv ipv6addr_lt a b"
  by (simp add: key_equiv_def ipv6addr_lt_False)

lemma key_equiv_ip6port [simp]: "key_equiv ip6port_lt a b \<longleftrightarrow> getPort6 a = getPort6 b"
  by (auto simp: key_equiv_def ip6port_lt_port)

section \<open>Text forms of ports\<close>

lemma digit_not_space: "is_digit c \<Longrightarrow> \<not> is_space c"
  by (auto simp: is_digit_def is_space_def)

lemma digit_not_sign: "is_digit c \<Longrightarrow> c \<noteq> CHR ''-'' \<and> c \<noteq> CHR ''+''"
  by (auto simp: is_digit_def)

lemma extract_decimal:
  assumes "n \<le> 65535"
  shows "extract_u16 (decimal n) = Some (of_nat n)"
proof -
  have hd: "is_digit (hd (decimal n))"
    by (rule decimal_digits [of _ n]) simp
  then have dw: "dropWhile is_space (decimal n) = decimal n"
    by (cases "decimal n") (auto simp: digit_not_space)
  have tw: "takeWhile is_digit (decimal n) = decimal n"
    by (auto simp: takeWhile_eq_all_conv dest: decimal_digits)
  show ?thesis
    using digit_not_sign [OF hd] assms by (simp add: extract_u16_def Let_def dw tw)
qed

text \<open>
   A port printed by \<open>getPortString\<close> is read back by the text constructor of \<open>IP6Port\<close> as the same
  port, whatever the port and the address.
\<close>

theorem port_string_roundtrip:
  "IP6Port_of_string L a (getPortString e) = IP6Port a (getPort4 e)"
proof -
  have "unat (ntohs (getPort4 e)) < 65536"
    using unsigned_less [of "ntohs (getPort4 e)"] by simp
  then have "unat (ntohs (getPort4 e)) \<le> 65535" by simp
  from extract_decimal [OF this] show ?thesis
    by (simp add: IP6Port_of_string_def getPortString_def)
qed

end
