(* ===== verification/Parser.thy ===== *)
theory Parser
  imports Ip
begin

text \<open>
  \<open>common/tokentype.h\<close>, \<open>parser.h\<close> and \<open>parser.cc\<close>: tokens with their positions in the stream, the
  edits (\<open>Operation\<close>) a protocol parser collects, and the base class that hands them over.  The
  parsers themselves are generated from the grammars at build time; \<open>process\<close> is given what they do
  as a parameter.
\<close>

section \<open>Tokens\<close>

record tokentype =
  tok_s :: string
  tok_pos :: int
  tok_pos_end :: int

definition TokenType :: "string \<Rightarrow> int \<Rightarrow> int \<Rightarrow> tokentype" where
  "TokenType s p e = \<lparr>tok_s = s, tok_pos = p, tok_pos_end = e\<rparr>"

definition tok_append :: "tokentype \<Rightarrow> string \<Rightarrow> tokentype" where
  "tok_append a b = TokenType (tok_s a @ b) (tok_pos a) (tok_pos_end a)"

definition tok_prepend :: "string \<Rightarrow> tokentype \<Rightarrow> tokentype" where
  "tok_prepend a b = TokenType (a @ tok_s b) (tok_pos b) (tok_pos_end b)"

definition tok_concat :: "tokentype \<Rightarrow> tokentype \<Rightarrow> tokentype" where
  "tok_concat a b = TokenType (tok_s a @ tok_s b) (tok_pos a) (tok_pos_end b)"

text \<open>
  \<open>sscanf("%d")\<close> and \<open>atoi\<close>: white space, an optional sign, digits; without digits \<open>sscanf\<close> stores
  nothing and \<open>atoi\<close> is 0.  Numbers are taken to fit an \<open>int\<close>, outside which both are undefined.
\<close>

definition scan_int :: "string \<Rightarrow> int option" where
  "scan_int s =
     (let t = dropWhile is_space s;
          neg = (t \<noteq> [] \<and> hd t = CHR ''-'');
          u = (if t \<noteq> [] \<and> (neg \<or> hd t = CHR ''+'') then tl t else t);
          ds = takeWhile is_digit u
      in if ds = [] then None
         else Some (if neg then - int (digits_val ds) else int (digits_val ds)))"

definition print_int :: "int \<Rightarrow> string" where
  "print_int i = (if i < 0 then CHR ''-'' # decimal (nat (- i)) else decimal (nat i))"

definition tok_add_int :: "int \<Rightarrow> tokentype \<Rightarrow> int \<Rightarrow> tokentype" where
  "tok_add_int unset a b =
     TokenType (print_int ((case scan_int (tok_s a) of Some v \<Rightarrow> v | None \<Rightarrow> unset) + b))
       (tok_pos a) (tok_pos_end a)"

definition tok_Int :: "tokentype \<Rightarrow> int" where
  "tok_Int a = (case scan_int (tok_s a) of Some v \<Rightarrow> v | None \<Rightarrow> 0)"

lemma scan_print_int [simp]: "scan_int (print_int i) = Some i"
proof -
  have tw: "takeWhile is_digit (decimal n) = decimal n" for n
    by (auto simp: takeWhile_eq_all_conv dest: decimal_digits)
  have hd: "is_digit (hd (decimal n))" for n
    by (rule decimal_digits [of _ n]) simp
  have dw: "dropWhile is_space (decimal n) = decimal n" for n
    using hd [of n] by (cases "decimal n") (auto simp: digit_not_space)
  have "\<not> is_space CHR ''-''" by (simp add: is_space_def)
  with digit_not_sign [OF hd] show ?thesis
    by (auto simp: scan_int_def print_int_def Let_def dw tw)
qed

section \<open>Edits\<close>

datatype OP = REPLACE

record operation =
  start_pos :: int
  end_pos :: int
  op :: OP
  newdata :: string
  op_cnt :: bool

definition operation_lt :: "operation \<Rightarrow> operation \<Rightarrow> bool" where
  "operation_lt a b \<longleftrightarrow> start_pos a < start_pos b"

text \<open>By how much an edit lengthens the text.\<close>

definition op_delta :: "operation \<Rightarrow> int" where
  "op_delta o' = int (length (newdata o')) - (end_pos o' - start_pos o')"

section \<open>The parser base class\<close>

datatype DEST = CLIENT | SERVER

datatype comm_kind = StatelessCommunicator | StatefulCommunicator

record parser =
  p_protocol :: string
  p_comm :: comm_kind
  endPos :: int
  parser_end :: bool
  maxPos :: int
  maxLen :: int
  ops :: "operation list"
  correct :: bool

text \<open>The constructor leaves \<open>maxLen\<close> unset.\<close>

definition new_parser :: "int \<Rightarrow> string \<Rightarrow> comm_kind \<Rightarrow> parser" where
  "new_parser unset protocol c =
     \<lparr>p_protocol = protocol, p_comm = c, endPos = -1, parser_end = False, maxPos = -1,
      maxLen = unset, ops = [], correct = False\<rparr>"

definition addOperation :: "operation \<Rightarrow> parser \<Rightarrow> parser" where
  "addOperation o' p = (case op o' of REPLACE \<Rightarrow> p\<lparr>ops := ops p @ [o']\<rparr>)"

definition addOperation_range :: "int \<Rightarrow> int \<Rightarrow> OP \<Rightarrow> string \<Rightarrow> bool \<Rightarrow> parser \<Rightarrow> parser" where
  "addOperation_range startPos endPos' operation' newdata' count p =
     addOperation \<lparr>start_pos = startPos, end_pos = endPos', op = operation', newdata = newdata',
       op_cnt = count\<rparr> p"

definition addOperation_token :: "tokentype \<Rightarrow> OP \<Rightarrow> string \<Rightarrow> bool \<Rightarrow> parser \<Rightarrow> parser" where
  "addOperation_token token operation' newdata' count p =
     addOperation_range (tok_pos token) (tok_pos_end token) operation' newdata' count p"

primrec totalDelta_loop :: "operation list \<Rightarrow> int \<Rightarrow> int" where
  "totalDelta_loop [] delta = delta"
| "totalDelta_loop (o' # os) delta =
     totalDelta_loop os (if op_cnt o' then delta + op_delta o' else delta)"

definition totalDelta :: "parser \<Rightarrow> int" where
  "totalDelta p = totalDelta_loop (ops p) 0"

definition setLengthEnd :: "int \<Rightarrow> int \<Rightarrow> parser \<Rightarrow> parser" where
  "setLengthEnd pos len p = p\<lparr>endPos := pos + len\<rparr>"

definition setLengthMax :: "int \<Rightarrow> int \<Rightarrow> parser \<Rightarrow> parser" where
  "setLengthMax pos len p = p\<lparr>maxPos := pos, maxLen := len\<rparr>"

definition setCorrectProtocol :: "parser \<Rightarrow> parser" where
  "setCorrectProtocol p = p\<lparr>correct := True\<rparr>"

definition isCorrectProtocol :: "parser \<Rightarrow> bool" where
  "isCorrectProtocol p = correct p"

text \<open>
  \<open>addData\<close> is the communicator's (\<open>Communicator\<close>): it runs the generated parser, which calls the
  operations above, and returns a status.
\<close>

definition process :: "(string \<Rightarrow> parser \<Rightarrow> int \<times> parser) \<Rightarrow> string \<Rightarrow> parser \<Rightarrow> operation list \<times> parser" where
  "process addData data p =
     (let (r, p1) = addData data p;
          p2 = (if r < 0 then p1\<lparr>parser_end := True\<rparr> else p1)
      in (ops p2, p2\<lparr>ops := []\<rparr>))"

text \<open>
  \<open>Parser::make\<close>, as \<open>parser_make_maker.cc\<close> writes it for the protocols of the \<open>Makefile\<close>: a
  parser for a protocol that was built in, a null pointer for any other name.
\<close>

definition built_protocols :: "string list" where
  "built_protocols = [''http'', ''ftp'', ''sip'']"

definition make_parser :: "int \<Rightarrow> string \<Rightarrow> comm_kind \<Rightarrow> parser option" where
  "make_parser unset protocol c =
     (if protocol \<in> set built_protocols then Some (new_parser unset protocol c) else None)"

lemma totalDelta_loop_sum:
  "totalDelta_loop os d = d + sum_list (map op_delta (filter op_cnt os))"
  by (induction os arbitrary: d) auto

lemma totalDelta_sum: "totalDelta p = sum_list (map op_delta (filter op_cnt (ops p)))"
  by (simp add: totalDelta_def totalDelta_loop_sum)

lemma ops_addOperation [simp]: "ops (addOperation o' p) = ops p @ [o']"
  by (simp add: addOperation_def split: OP.splits)

lemma totalDelta_addOperation [simp]:
  "totalDelta (addOperation o' p) = totalDelta p + (if op_cnt o' then op_delta o' else 0)"
  by (simp add: totalDelta_sum)

text \<open>
   Adding a number to a token that reads as one gives a token at the same place that reads as the
  sum, the form in which a rewritten length field is sent.
\<close>

theorem tok_add_int_value:
  assumes "scan_int (tok_s a) = Some v"
  shows "tok_Int (tok_add_int u a b) = tok_Int a + b \<and>
    tok_pos (tok_add_int u a b) = tok_pos a \<and> tok_pos_end (tok_add_int u a b) = tok_pos_end a"
  using assms by (simp add: tok_Int_def tok_add_int_def TokenType_def)

theorem tok_add_int_value_witness:
  "tok_Int (tok_add_int 0 \<lparr>tok_s = ''147'', tok_pos = 5, tok_pos_end = 8\<rparr> (-3)) = 144"
proof -
  have "scan_int (tok_s \<lparr>tok_s = ''147'', tok_pos = 5, tok_pos_end = 8\<rparr>) = Some 147"
    by (simp add: scan_int_def is_space_def is_digit_def digits_val_def digit_val_def)
  from tok_add_int_value [OF this, of 0 "-3"] this show ?thesis
    by (simp add: tok_Int_def)
qed

text \<open>A sequence of calls.\<close>

primrec process_all ::
    "(string \<Rightarrow> parser \<Rightarrow> int \<times> parser) \<Rightarrow> string list \<Rightarrow> parser \<Rightarrow> operation list \<times> parser" where
  "process_all addData [] p = ([], p)"
| "process_all addData (d # ds) p =
     (let (os, p1) = process addData d p; (os', p2) = process_all addData ds p1 in (os @ os', p2))"

text \<open>
   \<open>process\<close> hands over every edit exactly once: what a sequence of calls returns, put together, is
  what the parser held plus what the calls added, in order, and nothing is left in the parser.
\<close>

theorem process_hands_over_once:
  assumes "\<forall>d p. ops (snd (addData d p)) = ops p @ added d"
  shows "fst (process_all addData ds p) = (if ds = [] then [] else ops p) @ concat (map added ds) \<and>
    (ds \<noteq> [] \<longrightarrow> ops (snd (process_all addData ds p)) = [])"
proof (induction ds arbitrary: p)
  case Nil
  show ?case by simp
next
  case (Cons d ds)
  have "fst (process addData d p) = ops p @ added d" "ops (snd (process addData d p)) = []"
    using assms by (auto simp: process_def split_beta Let_def)
  with Cons [of "snd (process addData d p)"] show ?case
    by (cases ds) (auto simp: split_beta Let_def)
qed

theorem process_hands_over_once_witness:
  "fst (process_all (\<lambda>d p. (0, addOperation \<lparr>start_pos = 0, end_pos = 1, op = REPLACE, newdata = d, op_cnt = False\<rparr> p))
     [''a'', ''b''] (new_parser 0 ''ftp'' StatelessCommunicator)) =
   map (\<lambda>d. \<lparr>start_pos = 0, end_pos = 1, op = REPLACE, newdata = d, op_cnt = False\<rparr>) [''a'', ''b'']"
  using process_hands_over_once [of
      "\<lambda>d p. (0, addOperation \<lparr>start_pos = 0, end_pos = 1, op = REPLACE, newdata = d, op_cnt = False\<rparr> p)"
      "\<lambda>d. [\<lparr>start_pos = 0, end_pos = 1, op = REPLACE, newdata = d, op_cnt = False\<rparr>]"
      "[''a'', ''b'']" "new_parser 0 ''ftp'' StatelessCommunicator"]
  by (simp add: new_parser_def)

end
