(* ===== verification/Flow.thy ===== *)
theory Flow
  imports Parser
begin

text \<open>
  \<open>flow.h\<close> and the operations of \<open>flow.cc\<close> that touch the flow alone: the record kept for one
  translated connection, its constructors, the sequence-number offsets and the segment log.
  \<open>Flow::getParser\<close> is in \<open>State\<close> (it reads the configuration), \<open>Flow::modify\<close> and \<open>Flow::shift\<close>
  in \<open>Modify\<close> (they rewrite packets).  The stream \<open>fout\<close> of the debugging routine \<open>save\<close> is left
  out.
\<close>

record segment =
  seg_seq :: u32
  seg_len :: u32

text \<open>
  \<open>int init_seq[2]\<close> only ever holds a 32-bit sequence number and is subtracted from one, so it is a
  32-bit word here; parsers are shared objects, held by their index in the heap of \<open>State\<close>.
\<close>

record flow =
  ip6p :: ip6port
  ip6srv :: ipv6addr
  ip4p :: ip4port
  ip4srv :: ipv4addr
  trail :: "DEST \<Rightarrow> string"
  trail_shift :: "(u32, string) std_map"
  tid :: int
  analyze :: int
  offset_c2s :: int
  offset_s2c :: int
  flow_ignore :: bool
  protocol :: string
  parsers_c2s :: "(string, nat option) std_map"
  parsers_s2c :: "(string, nat option) std_map"
  segments :: "DEST \<Rightarrow> segment list"
  init_seq_set :: "DEST \<Rightarrow> bool"
  init_seq :: "DEST \<Rightarrow> u32"

definition Flow_default :: "libc \<Rightarrow> flow" where
  "Flow_default L =
     \<lparr>ip6p = IP6Port_default L, ip6srv = IPv6Addr_default, ip4p = IP4Port_default,
      ip4srv = IPv4Addr_default, trail = (\<lambda>_. []), trail_shift = [], tid = -1, analyze = 0,
      offset_c2s = 0, offset_s2c = 0, flow_ignore = False, protocol = [], parsers_c2s = [],
      parsers_s2c = [], segments = (\<lambda>_. []), init_seq_set = (\<lambda>_. False), init_seq = (\<lambda>_. 0)\<rparr>"

definition Flow_new64 :: "libc \<Rightarrow> ip6port \<Rightarrow> ip4port \<Rightarrow> ipv6addr \<Rightarrow> ipv4addr \<Rightarrow> flow" where
  "Flow_new64 L ip6p' ip4p' ip6srv' ip4srv' =
     (Flow_default L)\<lparr>ip6p := ip6p', ip4p := ip4p', ip6srv := ip6srv', ip4srv := ip4srv'\<rparr>"

definition Flow_new44 :: "libc \<Rightarrow> ip4port \<Rightarrow> ip4port \<Rightarrow> flow" where
  "Flow_new44 L ip4p1 ip4p2 = (Flow_default L)\<lparr>ip4p := ip4p1\<rparr>"

definition getOffset :: "DEST \<Rightarrow> flow \<Rightarrow> int" where
  "getOffset dest f = (if dest = SERVER then offset_c2s f else offset_s2c f)"

definition addOffset :: "DEST \<Rightarrow> int \<Rightarrow> flow \<Rightarrow> flow" where
  "addOffset dest delta f =
     (if dest = SERVER then f\<lparr>offset_c2s := offset_c2s f + delta\<rparr>
      else f\<lparr>offset_s2c := offset_s2c f + delta\<rparr>)"

definition setIgnore :: "flow \<Rightarrow> flow" where
  "setIgnore f = f\<lparr>flow_ignore := True\<rparr>"

definition ignored :: "flow \<Rightarrow> bool" where
  "ignored f = flow_ignore f"

definition setProtocol :: "string \<Rightarrow> flow \<Rightarrow> flow" where
  "setProtocol protocol' f = f\<lparr>protocol := protocol'\<rparr>"

definition getProtocol :: "flow \<Rightarrow> string" where
  "getProtocol f = protocol f"

text \<open>
  \<open>getPktOffset\<close>, of a packet's direction and TCP sequence number: the position of the packet in
  the stream, counted from the first packet asked about.
\<close>

definition getPktOffset :: "bool \<Rightarrow> DEST \<Rightarrow> u32 \<Rightarrow> flow \<Rightarrow> int \<times> flow" where
  "getPktOffset isTCP dest seq f =
     (if \<not> isTCP then (0, f)
      else if \<not> init_seq_set f dest
      then (0, f\<lparr>init_seq_set := (init_seq_set f)(dest := True),
                 init_seq := (init_seq f)(dest := seq)\<rparr>)
      else (sint (seq - init_seq f dest), f))"

text \<open>
  \<open>count\<close>, of a packet's sequence number and payload length: the log grows by a segment that
  continues it.
\<close>

definition flow_count :: "bool \<Rightarrow> u32 \<Rightarrow> int \<Rightarrow> DEST \<Rightarrow> flow \<Rightarrow> flow" where
  "flow_count isTCP seq paylen dest f =
     (if \<not> isTCP then f
      else let s = \<lparr>seg_seq = seq, seg_len = of_int paylen\<rparr>; ss = segments f dest in
        if ss = [] then f\<lparr>segments := (segments f)(dest := ss @ [s])\<rparr>
        else if seg_seq s = seg_seq (last ss) + seg_len (last ss)
        then f\<lparr>segments := (segments f)(dest := ss @ [s])\<rparr>
        else f)"

section \<open>Facts\<close>

text \<open>A contiguous log: every segment starts where the one before it ends.\<close>

fun contiguous :: "segment list \<Rightarrow> bool" where
  "contiguous (a # b # ss) \<longleftrightarrow> seg_seq b = seg_seq a + seg_len a \<and> contiguous (b # ss)"
| "contiguous _ \<longleftrightarrow> True"

lemma contiguous_snoc:
  "contiguous ss \<Longrightarrow> ss = [] \<or> seg_seq s = seg_seq (last ss) + seg_len (last ss) \<Longrightarrow>
   contiguous (ss @ [s])"
  by (induction ss rule: contiguous.induct) auto

lemma contiguous_flow_count:
  "contiguous (segments f d) \<Longrightarrow> contiguous (segments (flow_count t q n dest f) d)"
  by (auto simp: flow_count_def Let_def intro!: contiguous_snoc)

lemma getOffset_addOffset:
  "getOffset d (addOffset e n f) = (if d = e then getOffset d f + n else getOffset d f)"
  by (cases d; cases e) (auto simp: getOffset_def addOffset_def)

end
