(* ===== verification/State.thy ===== *)
theory State
  imports Flow "HOL-Library.Char_ord" "HOL-Library.List_Lexorder"
begin

text \<open>
  \<open>state.h\<close> and \<open>state.cc\<close>: the global \<open>StateManager sm\<close>, with the pool of external address/port
  pairs, the three tables of flows, the configuration and the profiling clocks; and
  \<open>Flow::getParser\<close>, which reads the configuration.  Flows and parsers are objects shared through
  \<open>boost::shared_ptr\<close>; a pointer is an index into the heaps \<open>flows\<close> and \<open>parser_heap\<close>.  Each table
  operation runs under one mutex, so it is one step here.
\<close>

section \<open>The state\<close>

datatype PROCESS_TYPE = STATELESS | STATEFUL | PROCESS_NONE

datatype EXTRAType = EXTRA_NONE | EXTRA_IP | EXTRA_TCP | EXTRA_SHIFT

record protocol_conf =
  conf_protocol :: string
  ptype_c2s :: PROCESS_TYPE
  ptype_s2c :: PROCESS_TYPE

definition Protocol_default :: protocol_conf where
  "Protocol_default = \<lparr>conf_protocol = ''tcp'', ptype_c2s = STATELESS, ptype_s2c = STATELESS\<rparr>"

text \<open>A \<open>struct timeval\<close> is seconds and microseconds; \<open>clock\<close> is what successive calls of
  \<open>gettimeofday\<close> read, \<open>ticks\<close> how many there have been.\<close>

type_synonym timeval = "int \<times> int"

type_synonym FlowPtr = "nat option"

record state_manager =
  analysisMode :: bool
  extra :: EXTRAType
  flow_cnt :: int
  pool :: "ip4port list"
  map_pool :: "(u32, bool) std_map"
  map64 :: "(ip6port \<times> ipv6addr, nat) std_map"
  map46 :: "(ip4port \<times> ipv4addr, nat) std_map"
  map44 :: "(ip4port \<times> ip4port, nat) std_map"
  prefix6 :: ipv6addr
  ip6srv_cur :: ipv6addr
  protocols :: "(string, protocol_conf) std_map"
  mptime :: "(string, timeval) std_map"
  sm_time :: "(string, int) std_map"
  flows :: "flow list"
  parser_heap :: "parser list"
  clock :: "nat \<Rightarrow> timeval"
  ticks :: nat

abbreviation k64_lt :: "ip6port \<times> ipv6addr \<Rightarrow> ip6port \<times> ipv6addr \<Rightarrow> bool" where
  "k64_lt \<equiv> pair_lt ip6port_lt ipv6addr_lt"

abbreviation k46_lt :: "ip4port \<times> ipv4addr \<Rightarrow> ip4port \<times> ipv4addr \<Rightarrow> bool" where
  "k46_lt \<equiv> pair_lt ip4port_lt ipv4addr_lt"

abbreviation k44_lt :: "ip4port \<times> ip4port \<Rightarrow> ip4port \<times> ip4port \<Rightarrow> bool" where
  "k44_lt \<equiv> pair_lt ip4port_lt ip4port_lt"

text \<open>An object on the heap, and a change of it that every pointer to it sees.\<close>

definition flow_at :: "state_manager \<Rightarrow> nat \<Rightarrow> flow" where
  "flow_at s i = flows s ! i"

definition upd_flow :: "nat \<Rightarrow> (flow \<Rightarrow> flow) \<Rightarrow> state_manager \<Rightarrow> state_manager" where
  "upd_flow i g s = s\<lparr>flows := (flows s)[i := g (flows s ! i)]\<rparr>"

section \<open>The pool and the prefix\<close>

definition MIN_PORT :: u16 where "MIN_PORT = 32000"

definition MAX_PORT :: u16 where "MAX_PORT = 60000"

text \<open>The loop of \<open>addIPv4Pool\<close> over a 16-bit counter.\<close>

function push_ports :: "ipv4addr \<Rightarrow> u16 \<Rightarrow> ip4port list \<Rightarrow> ip4port list" where
  "push_ports ip p q = (if p \<le> MAX_PORT then push_ports ip (p + 1) (q @ [IP4Port ip (htons p)]) else q)"
  by pat_completeness auto

lemma unat_Suc_port: "p \<le> MAX_PORT \<Longrightarrow> unat (p + 1) = Suc (unat p)"
proof -
  assume "p \<le> MAX_PORT"
  then have "unat p \<le> 60000" by (simp add: MAX_PORT_def word_le_nat_alt)
  then show ?thesis by (simp add: unat_word_ariths)
qed

termination push_ports
proof (relation "measure (\<lambda>(ip, p, q). 60001 - unat p)")
  fix ip :: ipv4addr and p :: u16 and q :: "ip4port list"
  assume "p \<le> MAX_PORT"
  moreover from this have "unat p \<le> 60000"
    by (simp add: MAX_PORT_def word_le_nat_alt)
  ultimately show "((ip, p + 1, q @ [IP4Port ip (htons p)]), ip, p, q)
      \<in> measure (\<lambda>(ip, p, q). 60001 - unat p)"
    by (simp add: unat_Suc_port)
qed simp

declare push_ports.simps [simp del]

definition addIPv4Pool :: "ipv4addr \<Rightarrow> state_manager \<Rightarrow> state_manager" where
  "addIPv4Pool ip s =
     s\<lparr>pool := push_ports ip MIN_PORT (pool s),
       map_pool := map_put (<) (getInt ip) True (map_pool s)\<rparr>"

definition setIPv6Prefix :: "ipv6addr \<Rightarrow> state_manager \<Rightarrow> state_manager" where
  "setIPv6Prefix p s = s\<lparr>prefix6 := p\<rparr>"

definition getServerAddr6 :: "ipv4addr \<Rightarrow> state_manager \<Rightarrow> ipv6addr" where
  "getServerAddr6 ip s =
     (let addr = getIn6Addr (prefix6 s)
      in IPv6Addr (In6Addr (s6_addr32_0 addr) (s6_addr32_1 addr) (s6_addr32_2 addr) (getInt ip)))"

definition getServerAddr4 :: "ipv6addr \<Rightarrow> ipv4addr" where
  "getServerAddr4 ip = IPv4Addr (s6_addr32_3 (getIn6Addr ip))"

definition isAddrInRange6 :: "ipv6addr \<Rightarrow> state_manager \<Rightarrow> bool" where
  "isAddrInRange6 ip s =
     (let addr1 = getIn6Addr (prefix6 s); addr2 = getIn6Addr ip in
      s6_addr32_0 addr1 = s6_addr32_0 addr2 \<and> s6_addr32_1 addr1 = s6_addr32_1 addr2 \<and>
      s6_addr32_2 addr1 = s6_addr32_2 addr2)"

text \<open>\<open>map_pool_[ip]\<close> inserts an address it does not know.\<close>

definition isAddrInRange4 :: "ipv4addr \<Rightarrow> state_manager \<Rightarrow> bool \<times> state_manager" where
  "isAddrInRange4 ip s =
     (let (b, m) = map_index (<) False (getInt ip) (map_pool s) in (b, s\<lparr>map_pool := m\<rparr>))"

definition setCurIPv6SrvAddr :: "ipv6addr \<Rightarrow> state_manager \<Rightarrow> state_manager" where
  "setCurIPv6SrvAddr addr s = s\<lparr>ip6srv_cur := addr\<rparr>"

section \<open>The tables\<close>

definition doMapping :: "libc \<Rightarrow> ip6port \<Rightarrow> ipv6addr \<Rightarrow> state_manager \<Rightarrow> FlowPtr \<times> state_manager" where
  "doMapping L ip6Port ip6srv' s =
     (case map_find k64_lt (map64 s) (ip6Port, ip6srv') of
        Some fid \<Rightarrow> (Some fid, s)
      | None \<Rightarrow>
          (case pool s of
             ip4Port # rest \<Rightarrow>
               (let f = Flow_new64 L ip6Port ip4Port ip6srv' (getServerAddr4 ip6srv');
                    fid = length (flows s);
                    newkey = (ip4Port, getServerAddr4 ip6srv')
                in (Some fid,
                    s\<lparr>pool := rest, flows := flows s @ [f],
                      map64 := map_put k64_lt (ip6Port, ip6srv') fid (map64 s),
                      map46 := map_put k46_lt newkey fid (map46 s)\<rparr>))
           | [] \<Rightarrow> (None, s)))"

definition doMapping_cur :: "libc \<Rightarrow> ip6port \<Rightarrow> state_manager \<Rightarrow> FlowPtr \<times> state_manager" where
  "doMapping_cur L ip6Port s = doMapping L ip6Port (ip6srv_cur s) s"

definition getMapping6 :: "ip6port \<Rightarrow> ipv6addr \<Rightarrow> state_manager \<Rightarrow> FlowPtr" where
  "getMapping6 ip6Port ip6srv' s = map_find k64_lt (map64 s) (ip6Port, ip6srv')"

definition getMapping4 :: "ip4port \<Rightarrow> ipv4addr \<Rightarrow> state_manager \<Rightarrow> FlowPtr" where
  "getMapping4 ip4Port ip4srv' s = map_find k46_lt (map46 s) (ip4Port, ip4srv')"

definition doMapping44 :: "libc \<Rightarrow> ip4port \<Rightarrow> ip4port \<Rightarrow> state_manager \<Rightarrow> FlowPtr \<times> state_manager" where
  "doMapping44 L ip4Port1 ip4Port2 s =
     (let key1 = (ip4Port1, ip4Port2); key2 = (ip4Port2, ip4Port1) in
      case map_find k44_lt (map44 s) key1 of
        Some fid \<Rightarrow> (Some fid, s)
      | None \<Rightarrow>
          (case map_find k44_lt (map44 s) key2 of
             Some fid \<Rightarrow> (Some fid, s)
           | None \<Rightarrow>
               (let key = (if ntohs (getPort4 ip4Port2) = 80 \<and> ntohs (getPort4 ip4Port1) \<noteq> 80
                           then key2 else key1);
                    fid = length (flows s)
                in (Some fid,
                    s\<lparr>flow_cnt := flow_cnt s + 1,
                      flows := flows s @ [Flow_new44 L (fst key) (snd key)],
                      map44 := map_put k44_lt key fid (map44 s)\<rparr>))))"

section \<open>Profiling\<close>

definition gettimeofday :: "state_manager \<Rightarrow> timeval \<times> state_manager" where
  "gettimeofday s = (clock s (ticks s), s\<lparr>ticks := ticks s + 1\<rparr>)"

definition count1 :: "string \<Rightarrow> state_manager \<Rightarrow> state_manager" where
  "count1 label s =
     (let (t1, s1) = gettimeofday s in s1\<lparr>mptime := map_put (<) label t1 (mptime s1)\<rparr>)"

definition count2 :: "string \<Rightarrow> state_manager \<Rightarrow> int \<times> state_manager" where
  "count2 label s =
     (let (t2, s1) = gettimeofday s;
          (t1, m) = map_index (<) (0, 0) label (mptime s1);
          d = (fst t2 - fst t1) * 1000000 + (snd t2 - snd t1)
      in (d, s1\<lparr>mptime := m, sm_time := map_put (<) label d (sm_time s1)\<rparr>))"

section \<open>The configuration\<close>

text \<open>
  \<open>init\<close> reads a JSON file through Boost's property trees.  What it gets from them is the parameter
  \<open>config\<close>: whether the file opens and parses, the string at a key, the (key, text) pairs below a
  key.  A missing key throws, which \<open>init\<close> catches only for a protocol's own section.
\<close>

record config =
  cfg_opens :: bool
  cfg_parses :: bool
  cfg_string :: "string \<Rightarrow> string option"
  cfg_children :: "string \<Rightarrow> (string \<times> string) list option"

datatype init_error = ExitNoFile | UncaughtException

definition conf_entry :: "string \<times> string \<Rightarrow> protocol_conf \<Rightarrow> protocol_conf" where
  "conf_entry w p =
     (let p1 = (if fst w = ''ServerToClient'' then
                  (if snd w = ''stateful'' then p\<lparr>ptype_s2c := STATEFUL\<rparr>
                   else if snd w = ''none'' then p\<lparr>ptype_s2c := PROCESS_NONE\<rparr> else p)
                else p);
          p2 = (if fst w = ''ClientToServer'' then
                  (if snd w = ''stateful'' then p1\<lparr>ptype_c2s := STATEFUL\<rparr>
                   else if snd w = ''none'' then p1\<lparr>ptype_c2s := PROCESS_NONE\<rparr> else p1)
                else p1)
      in if fst w = ''Protocol'' then p2\<lparr>conf_protocol := snd w\<rparr> else p2)"

definition conf_protocol_of :: "(string \<times> string) list option \<Rightarrow> protocol_conf" where
  "conf_protocol_of ws =
     (case ws of None \<Rightarrow> Protocol_default | Some ws' \<Rightarrow> fold conf_entry ws' Protocol_default)"

definition init_protocol :: "config \<Rightarrow> string \<times> string \<Rightarrow> state_manager \<Rightarrow> state_manager" where
  "init_protocol c v s =
     s\<lparr>protocols := map_put (<) (snd v) (conf_protocol_of (cfg_children c (snd v))) (protocols s)\<rparr>"

definition init :: "libc \<Rightarrow> config \<Rightarrow> state_manager \<Rightarrow> init_error + state_manager" where
  "init L c s =
     (let s0 = s\<lparr>analysisMode := False, flow_cnt := 0\<rparr> in
      if \<not> cfg_opens c then Inl ExitNoFile
      else if \<not> cfg_parses c then Inl UncaughtException
      else case cfg_string c ''IPv6Prefix'' of
        None \<Rightarrow> Inl UncaughtException
      | Some p \<Rightarrow>
          (case cfg_string c ''IPv4Pool'' of
             None \<Rightarrow> Inl UncaughtException
           | Some ip4 \<Rightarrow>
               (let s2 = addIPv4Pool (IPv4Addr_of_string L ip4)
                           (setIPv6Prefix (IPv6Addr_of_string L p) s0)
                in case cfg_children c ''Protocols'' of
                     None \<Rightarrow> Inl UncaughtException
                   | Some vs \<Rightarrow> Inr (fold (init_protocol c) vs s2))))"

section \<open>Choosing a parser\<close>

definition stateful_parser ::
    "int \<Rightarrow> string \<Rightarrow> (string, nat option) std_map \<Rightarrow> parser list \<Rightarrow>
     nat option \<times> (string, nat option) std_map \<times> parser list" where
  "stateful_parser unset proto m heap =
     (let usable = (case map_find (<) m proto of
                      Some (Some p) \<Rightarrow> \<not> parser_end (heap ! p) | _ \<Rightarrow> False)
      in if usable then (Option.bind (map_find (<) m proto) id, m, heap)
         else case make_parser unset proto StatefulCommunicator of
                None \<Rightarrow> (None, map_put (<) proto None m, heap)
              | Some p \<Rightarrow> (Some (length heap), map_put (<) proto (Some (length heap)) m, heap @ [p]))"

definition stateless_parser :: "int \<Rightarrow> string \<Rightarrow> parser list \<Rightarrow> nat option \<times> parser list" where
  "stateless_parser unset proto heap =
     (case make_parser unset proto StatelessCommunicator of
        None \<Rightarrow> (None, heap)
      | Some p \<Rightarrow> (Some (length heap), heap @ [p]))"

definition getParser :: "int \<Rightarrow> string \<Rightarrow> DEST \<Rightarrow> nat \<Rightarrow> state_manager \<Rightarrow> nat option \<times> state_manager" where
  "getParser unset proto dest fid s =
     (let (conf, ps) = map_index (<) Protocol_default proto (protocols s);
          s1 = s\<lparr>protocols := ps\<rparr>
      in case (if dest = CLIENT then ptype_s2c conf else ptype_c2s conf) of
           STATELESS \<Rightarrow>
             (let (r, h) = stateless_parser unset proto (parser_heap s1)
              in (r, s1\<lparr>parser_heap := h\<rparr>))
         | STATEFUL \<Rightarrow>
             (if dest = CLIENT
              then let (r, m, h) = stateful_parser unset proto (parsers_s2c (flow_at s1 fid)) (parser_heap s1)
                   in (r, upd_flow fid (\<lambda>f. f\<lparr>parsers_s2c := m\<rparr>) (s1\<lparr>parser_heap := h\<rparr>))
              else let (r, m, h) = stateful_parser unset proto (parsers_c2s (flow_at s1 fid)) (parser_heap s1)
                   in (r, upd_flow fid (\<lambda>f. f\<lparr>parsers_c2s := m\<rparr>) (s1\<lparr>parser_heap := h\<rparr>)))
         | PROCESS_NONE \<Rightarrow> (None, s1))"

end
