(* ===== verification/Tables.thy ===== *)
theory Tables
  imports State
begin

text \<open>
  What the tables of \<open>state.cc\<close> guarantee: the invariant of pool and tables, its preservation, the
  contract of a binding table (a locale, interpreted on \<open>doMapping\<close> and \<open>getMapping\<close>), the
  refinement of \<open>doMapping\<close> to an allocator of external endpoints, and the address translation
  between the IPv6 prefix and IPv4.
\<close>

interpretation k64: strict_weak_pair ip6port_lt ipv6addr_lt
  by unfold_locales

interpretation k46: strict_weak_pair ip4port_lt ipv4addr_lt
  by unfold_locales

interpretation k44: strict_weak_pair ip4port_lt ip4port_lt
  by unfold_locales

lemma k64_equiv [simp]: "key_equiv k64_lt p q \<longleftrightarrow> getPort6 (fst p) = getPort6 (fst q)"
  by (cases p; cases q) simp

lemma k46_equiv [simp]: "key_equiv k46_lt p q \<longleftrightarrow> p = q"
  by (cases p; cases q) simp

lemma k44_equiv [simp]: "key_equiv k44_lt p q \<longleftrightarrow> p = q"
  by (cases p; cases q) simp

text \<open>The tables' lookups after a store, and what keys the IPv6 table tells apart.\<close>

lemmas table_find = k64.ab.find_put k46.ab.find_put k44.ab.find_put

lemma find64_port:
  "getPort6 (fst k) = getPort6 (fst k') \<Longrightarrow> map_find k64_lt m k = map_find k64_lt m k'"
  by (rule k64.ab.find_cong) simp

section \<open>The pool\<close>

text \<open>The pairs of one address from port \<open>lo\<close> up to the last one.\<close>

definition pool_ports :: "ipv4addr \<Rightarrow> nat \<Rightarrow> ip4port list" where
  "pool_ports ip lo = map (\<lambda>n. IP4Port ip (htons (of_nat n))) [lo..<60001]"

lemma pool_ports_Cons: "lo < 60001 \<Longrightarrow> pool_ports ip lo = IP4Port ip (htons (of_nat lo)) # pool_ports ip (Suc lo)"
  by (simp add: pool_ports_def upt_conv_Cons)

lemma pool_ports_Nil: "60001 \<le> lo \<Longrightarrow> pool_ports ip lo = []"
  by (simp add: pool_ports_def)

lemma push_ports_eq: "push_ports ip p q = q @ pool_ports ip (unat p)"
proof (induction ip p q rule: push_ports.induct)
  case (1 ip p q)
  show ?case
  proof (cases "p \<le> MAX_PORT")
    case True
    then have "unat p < 60001" by (simp add: MAX_PORT_def word_le_nat_alt)
    with "1.IH" [OF True] True show ?thesis
      by (subst push_ports.simps) (simp add: unat_Suc_port pool_ports_Cons)
  next
    case False
    then have "60001 \<le> unat p" by (simp add: MAX_PORT_def word_le_nat_alt)
    with False show ?thesis by (subst push_ports.simps) (simp add: pool_ports_Nil)
  qed
qed

lemma pool_addIPv4Pool: "pool (addIPv4Pool ip s) = pool s @ pool_ports ip 32000"
  by (simp add: addIPv4Pool_def push_ports_eq MIN_PORT_def)

lemma of_nat_port_inj: "n < 65536 \<Longrightarrow> m < 65536 \<Longrightarrow> (of_nat n :: u16) = of_nat m \<longleftrightarrow> n = m"
  by (simp add: word_of_nat_eq_iff take_bit_nat_eq_self)

lemma distinct_pool_ports: "distinct (pool_ports ip lo)"
  by (simp add: pool_ports_def distinct_map inj_on_def of_nat_port_inj)

lemma length_pool_ports: "length (pool_ports ip lo) = 60001 - lo"
  by (simp add: pool_ports_def)

lemma set_pool_ports:
  "e \<in> set (pool_ports ip lo) \<longleftrightarrow>
   getIP4 e = ip \<and> lo \<le> unat (ntohs (getPort4 e)) \<and> unat (ntohs (getPort4 e)) \<le> 60000"
proof
  assume "e \<in> set (pool_ports ip lo)"
  then obtain n where "e = IP4Port ip (htons (of_nat n))" "lo \<le> n" "n < 60001"
    by (auto simp: pool_ports_def)
  moreover from this have "unat (of_nat n :: u16) = n"
    by (simp add: unsigned_of_nat take_bit_nat_eq_self)
  ultimately show "getIP4 e = ip \<and> lo \<le> unat (ntohs (getPort4 e)) \<and> unat (ntohs (getPort4 e)) \<le> 60000"
    by simp
next
  assume "getIP4 e = ip \<and> lo \<le> unat (ntohs (getPort4 e)) \<and> unat (ntohs (getPort4 e)) \<le> 60000"
  then have "unat (ntohs (getPort4 e)) \<in> set [lo..<60001] \<and>
      e = IP4Port ip (htons (of_nat (unat (ntohs (getPort4 e)))))"
    by (cases e) simp
  then show "e \<in> set (pool_ports ip lo)"
    unfolding pool_ports_def set_map by blast
qed

section \<open>The invariant\<close>

text \<open>
  A flow that is bound: both tables lead to it, under its own endpoints, and its external endpoint
  has left the pool.
\<close>

definition flow_bound :: "state_manager \<Rightarrow> nat \<Rightarrow> bool" where
  "flow_bound s fid \<longleftrightarrow>
     fid < length (flows s) \<and>
     (let f = flow_at s fid in
      ip4p f \<notin> set (pool s) \<and> ip4srv f = getServerAddr4 (ip6srv f) \<and>
      map_find k46_lt (map46 s) (ip4p f, ip4srv f) = Some fid \<and>
      map_find k64_lt (map64 s) (ip6p f, ip6srv f) = Some fid)"

definition table_inv :: "state_manager \<Rightarrow> bool" where
  "table_inv s \<longleftrightarrow>
     distinct (pool s) \<and>
     (\<forall>k fid. map_find k64_lt (map64 s) k = Some fid \<longrightarrow>
        flow_bound s fid \<and> getPort6 (ip6p (flow_at s fid)) = getPort6 (fst k)) \<and>
     (\<forall>k fid. map_find k46_lt (map46 s) k = Some fid \<longrightarrow>
        flow_bound s fid \<and> k = (ip4p (flow_at s fid), ip4srv (flow_at s fid))) \<and>
     (\<forall>k k' fid fid'. map_find k46_lt (map46 s) k = Some fid \<longrightarrow>
        map_find k46_lt (map46 s) k' = Some fid' \<longrightarrow> fst k = fst k' \<longrightarrow> fid = fid')"

lemma table_inv64:
  assumes "table_inv s" and "map_find k64_lt (map64 s) k = Some fid"
  shows "flow_bound s fid" and "getPort6 (ip6p (flow_at s fid)) = getPort6 (fst k)"
  using assms unfolding table_inv_def by blast+

lemma table_inv46:
  assumes "table_inv s" and "map_find k46_lt (map46 s) k = Some fid"
  shows "flow_bound s fid" and "k = (ip4p (flow_at s fid), ip4srv (flow_at s fid))"
  using assms unfolding table_inv_def by blast+

lemma table_inv_inj:
  assumes "table_inv s" and "flow_bound s f" and "flow_bound s g"
    and "ip4p (flow_at s f) = ip4p (flow_at s g)"
  shows "f = g"
proof -
  have "map_find k46_lt (map46 s) (ip4p (flow_at s f), ip4srv (flow_at s f)) = Some f"
    "map_find k46_lt (map46 s) (ip4p (flow_at s g), ip4srv (flow_at s g)) = Some g"
    using assms(2,3) by (auto simp: flow_bound_def Let_def)
  with assms(1,4) show ?thesis unfolding table_inv_def by (metis fst_conv)
qed

lemma table_inv_pool: "table_inv s \<Longrightarrow> distinct (pool s)"
  by (simp add: table_inv_def)

text \<open>The global object before \<open>init\<close>: static storage, so all zero and empty.\<close>

definition sm_start :: "(nat \<Rightarrow> timeval) \<Rightarrow> state_manager" where
  "sm_start c =
     \<lparr>analysisMode = False, extra = EXTRA_NONE, flow_cnt = 0, pool = [], map_pool = [], map64 = [],
      map46 = [], map44 = [], prefix6 = IPv6Addr_default, ip6srv_cur = IPv6Addr_default,
      protocols = [], mptime = [], sm_time = [], flows = [], parser_heap = [], clock = c, ticks = 0\<rparr>"

lemma table_inv_empty: "map64 s = [] \<Longrightarrow> map46 s = [] \<Longrightarrow> distinct (pool s) \<Longrightarrow> table_inv s"
  by (simp add: table_inv_def)

lemma table_inv_start: "table_inv (addIPv4Pool ip (setIPv6Prefix p (sm_start c)))"
proof (rule table_inv_empty)
  let ?s = "setIPv6Prefix p (sm_start c)"
  show "map64 (addIPv4Pool ip ?s) = []" "map46 (addIPv4Pool ip ?s) = []"
    by (simp_all add: addIPv4Pool_def setIPv6Prefix_def sm_start_def)
  show "distinct (pool (addIPv4Pool ip ?s))"
    by (simp add: pool_addIPv4Pool distinct_pool_ports, simp add: setIPv6Prefix_def sm_start_def)
qed

section \<open>One allocation\<close>

lemma doMapping_cases:
  obtains (known) fid where "map_find k64_lt (map64 s) (a, srv) = Some fid"
      "doMapping L a srv s = (Some fid, s)"
  | (fresh) e rest where "map_find k64_lt (map64 s) (a, srv) = None" "pool s = e # rest"
      "doMapping L a srv s =
         (Some (length (flows s)),
          s\<lparr>pool := rest, flows := flows s @ [Flow_new64 L a e srv (getServerAddr4 srv)],
            map64 := map_put k64_lt (a, srv) (length (flows s)) (map64 s),
            map46 := map_put k46_lt (e, getServerAddr4 srv) (length (flows s)) (map46 s)\<rparr>)"
  | (full) "map_find k64_lt (map64 s) (a, srv) = None" "pool s = []" "doMapping L a srv s = (None, s)"
  by (cases "map_find k64_lt (map64 s) (a, srv)"; cases "pool s")
    (auto simp: doMapping_def Let_def)

lemma Flow_new64_fields [simp]:
  "ip6p (Flow_new64 L a e srv v) = a" "ip4p (Flow_new64 L a e srv v) = e"
  "ip6srv (Flow_new64 L a e srv v) = srv" "ip4srv (Flow_new64 L a e srv v) = v"
  "tid (Flow_new64 L a e srv v) = -1"
  by (simp_all add: Flow_new64_def Flow_default_def)

text \<open>Storing a new flow: what the bound flows become.\<close>

lemma flow_bound_fresh:
  assumes inv: "table_inv s"
    and none: "map_find k64_lt (map64 s) (a, srv) = None" and p: "pool s = e # rest"
    and s': "s' = s\<lparr>pool := rest, flows := flows s @ [Flow_new64 L a e srv (getServerAddr4 srv)],
            map64 := map_put k64_lt (a, srv) (length (flows s)) (map64 s),
            map46 := map_put k46_lt (e, getServerAddr4 srv) (length (flows s)) (map46 s)\<rparr>"
  shows "flow_bound s fid \<Longrightarrow> flow_bound s' fid \<and> flow_at s' fid = flow_at s fid"
    and "flow_bound s' (length (flows s))"
    and "flow_at s' (length (flows s)) = Flow_new64 L a e srv (getServerAddr4 srv)"
proof -
  have e: "e \<notin> set rest" using table_inv_pool [OF inv] p by simp
  show new: "flow_at s' (length (flows s)) = Flow_new64 L a e srv (getServerAddr4 srv)"
    by (simp add: s' flow_at_def)
  then show "flow_bound s' (length (flows s))"
    using e by (simp add: flow_bound_def Let_def table_find s')
  assume b: "flow_bound s fid"
  then have eq: "flow_at s' fid = flow_at s fid"
    by (simp add: s' flow_at_def flow_bound_def nth_append)
  have "getPort6 (ip6p (flow_at s fid)) \<noteq> getPort6 a"
  proof
    assume "getPort6 (ip6p (flow_at s fid)) = getPort6 a"
    then have "map_find k64_lt (map64 s) (a, srv) =
        map_find k64_lt (map64 s) (ip6p (flow_at s fid), ip6srv (flow_at s fid))"
      by (intro find64_port) simp
    with b none show False by (simp add: flow_bound_def Let_def)
  qed
  moreover have "e \<noteq> ip4p (flow_at s fid)"
    using b p by (auto simp: flow_bound_def Let_def)
  ultimately show "flow_bound s' fid \<and> flow_at s' fid = flow_at s fid"
    using b p eq by (auto simp: flow_bound_def Let_def table_find s')
qed

lemma table_inv_doMapping:
  assumes inv: "table_inv s"
  shows "table_inv (snd (doMapping L a srv s))"
proof (cases rule: doMapping_cases [of s a srv L])
  case (fresh e rest)
  let ?n = "length (flows s)" and ?s' = "snd (doMapping L a srv s)"
  have s': "?s' = s\<lparr>pool := rest, flows := flows s @ [Flow_new64 L a e srv (getServerAddr4 srv)],
            map64 := map_put k64_lt (a, srv) ?n (map64 s),
            map46 := map_put k46_lt (e, getServerAddr4 srv) ?n (map46 s)\<rparr>"
    using fresh by simp
  note fb = flow_bound_fresh [OF inv fresh(1,2) s']
  have used: "fst k \<noteq> e" if "map_find k46_lt (map46 s) k = Some fid" for k fid
    using table_inv46 [OF inv that] fresh(2) by (auto simp: flow_bound_def Let_def)
  have d: "distinct (pool ?s')"
    using table_inv_pool [OF inv] fresh(2) by (simp add: s')
  have m64: "map_find k64_lt (map64 ?s') k =
      (if getPort6 a = getPort6 (fst k) then Some ?n else map_find k64_lt (map64 s) k)" for k
    by (simp add: s' table_find)
  have m46: "map_find k46_lt (map46 ?s') k =
      (if (e, getServerAddr4 srv) = k then Some ?n else map_find k46_lt (map46 s) k)" for k
    by (simp add: s' table_find)
  have "flow_bound ?s' fid \<and> getPort6 (ip6p (flow_at ?s' fid)) = getPort6 (fst k)"
    if "map_find k64_lt (map64 ?s') k = Some fid" for k fid
    using that fb table_inv64 [OF inv] by (fastforce simp: m64 split: if_splits)
  moreover have "flow_bound ?s' fid \<and> k = (ip4p (flow_at ?s' fid), ip4srv (flow_at ?s' fid))"
    if "map_find k46_lt (map46 ?s') k = Some fid" for k fid
    using that fb table_inv46 [OF inv] by (fastforce simp: m46 split: if_splits)
  moreover have "fid = fid'"
    if "map_find k46_lt (map46 ?s') k = Some fid" "map_find k46_lt (map46 ?s') k' = Some fid'"
      "fst k = fst k'" for k k' fid fid'
    using that used inv unfolding m46 table_inv_def by (metis (no_types, lifting) fst_conv option.inject)
  ultimately show ?thesis using d by (simp add: table_inv_def)
qed (use inv in simp_all)

lemma doMapping_bound:
  assumes "table_inv s" and "doMapping L a srv s = (Some fid, s')"
  shows "flow_bound s' fid" and "getPort6 (ip6p (flow_at s' fid)) = getPort6 a"
    and "map_find k64_lt (map64 s') (a, srv) = Some fid"
proof -
  have inv': "table_inv s'" using table_inv_doMapping [OF assms(1), of L a srv] assms(2) by simp
  show find: "map_find k64_lt (map64 s') (a, srv) = Some fid"
    by (cases rule: doMapping_cases [of s a srv L]) (use assms(2) in \<open>auto simp: table_find\<close>)
  show "flow_bound s' fid" "getPort6 (ip6p (flow_at s' fid)) = getPort6 a"
    using table_inv64 [OF inv' find] by simp_all
qed

lemma doMapping_keeps:
  assumes inv: "table_inv s" and b: "flow_bound s fid"
  shows "flow_bound (snd (doMapping L a srv s)) fid"
    and "flow_at (snd (doMapping L a srv s)) fid = flow_at s fid"
  by (cases rule: doMapping_cases [of s a srv L];
      use b flow_bound_fresh(1) [OF inv _ _ refl b] in \<open>fastforce\<close>)+

section \<open>The contract of a binding table\<close>

text \<open>
  What a translator needs of its tables: an allocation leaves a bound flow, bound flows stay bound
  with the same external key, and a bound flow is found from outside by that key.
\<close>

definition alloc_all :: "('k \<Rightarrow> 's \<Rightarrow> 'r \<times> 's) \<Rightarrow> 'k list \<Rightarrow> 's \<Rightarrow> 's" where
  "alloc_all alloc ks s = fold (\<lambda>k s. snd (alloc k s)) ks s"

lemma alloc_all_simps [simp]:
  "alloc_all alloc [] s = s"
  "alloc_all alloc (k # ks) s = alloc_all alloc ks (snd (alloc k s))"
  "alloc_all alloc (ks @ js) s = alloc_all alloc js (alloc_all alloc ks s)"
  by (simp_all add: alloc_all_def)

locale binding_table =
  fixes inv :: "'s \<Rightarrow> bool"
    and alloc :: "'k \<Rightarrow> 's \<Rightarrow> 'f option \<times> 's"
    and bound :: "'s \<Rightarrow> 'f \<Rightarrow> bool"
    and ext :: "'s \<Rightarrow> 'f \<Rightarrow> 'e"
    and route :: "'e \<Rightarrow> 's \<Rightarrow> 'f option"
  assumes alloc_inv: "inv s \<Longrightarrow> inv (snd (alloc k s))"
    and alloc_bound: "inv s \<Longrightarrow> alloc k s = (Some f, s') \<Longrightarrow> bound s' f"
    and bound_keeps: "inv s \<Longrightarrow> bound s f \<Longrightarrow> bound (snd (alloc k s)) f"
    and ext_keeps: "inv s \<Longrightarrow> bound s f \<Longrightarrow> ext (snd (alloc k s)) f = ext s f"
    and route_bound: "inv s \<Longrightarrow> bound s f \<Longrightarrow> route (ext s f) s = Some f"
begin

lemma all_inv: "inv s \<Longrightarrow> inv (alloc_all alloc ks s)"
  by (induction ks arbitrary: s) (auto simp: alloc_inv)

lemma all_keeps:
  "inv s \<Longrightarrow> bound s f \<Longrightarrow>
   bound (alloc_all alloc ks s) f \<and> ext (alloc_all alloc ks s) f = ext s f"
  by (induction ks arbitrary: s) (auto simp: alloc_inv bound_keeps ext_keeps)

lemma route_persists:
  assumes "inv s" and "alloc k s = (Some f, s')"
  shows "route (ext s' f) (alloc_all alloc ks s') = Some f"
proof -
  from assms have inv': "inv s'" and b: "bound s' f"
    using alloc_inv [of s k] alloc_bound by auto
  have "route (ext (alloc_all alloc ks s') f) (alloc_all alloc ks s') = Some f"
    using all_keeps [OF inv' b] all_inv [OF inv'] by (blast intro: route_bound)
  with all_keeps [OF inv' b, of ks] show ?thesis by simp
qed

lemma ext_inj: "inv s \<Longrightarrow> bound s f \<Longrightarrow> bound s g \<Longrightarrow> ext s f = ext s g \<Longrightarrow> f = g"
  by (metis option.inject route_bound)

end

text \<open>The code's tables, addressed by a client key (address, port and server).\<close>

definition map_client :: "libc \<Rightarrow> ip6port \<times> ipv6addr \<Rightarrow> state_manager \<Rightarrow> FlowPtr \<times> state_manager" where
  "map_client L k = doMapping L (fst k) (snd k)"

definition ext_key :: "state_manager \<Rightarrow> nat \<Rightarrow> ip4port \<times> ipv4addr" where
  "ext_key s fid = (ip4p (flow_at s fid), ip4srv (flow_at s fid))"

interpretation nt: binding_table table_inv "map_client L" flow_bound ext_key
    "\<lambda>e. getMapping4 (fst e) (snd e)" for L
proof unfold_locales
  fix s s' :: state_manager and k f
  assume inv: "table_inv s"
  show "table_inv (snd (map_client L k s))"
    by (simp add: map_client_def table_inv_doMapping inv)
  show "map_client L k s = (Some f, s') \<Longrightarrow> flow_bound s' f"
    by (auto simp: map_client_def intro: doMapping_bound(1) inv)
  show "flow_bound s f \<Longrightarrow> flow_bound (snd (map_client L k s)) f"
    by (simp add: map_client_def doMapping_keeps(1) inv)
  show "flow_bound s f \<Longrightarrow> ext_key (snd (map_client L k s)) f = ext_key s f"
    by (simp add: map_client_def ext_key_def doMapping_keeps(2) inv)
  show "flow_bound s f \<Longrightarrow> getMapping4 (fst (ext_key s f)) (snd (ext_key s f)) s = Some f"
    by (auto simp: getMapping4_def ext_key_def flow_bound_def Let_def)
qed

lemma flow_at_all_keeps:
  "table_inv s \<Longrightarrow> flow_bound s fid \<Longrightarrow>
   flow_bound (alloc_all (map_client L) ks s) fid \<and> flow_at (alloc_all (map_client L) ks s) fid = flow_at s fid"
  by (induction ks arbitrary: s)
    (auto simp: map_client_def table_inv_doMapping doMapping_keeps)

section \<open>The contract of doMapping as an allocator\<close>

text \<open>
  The specification: an allocator of external endpoints, keyed by the client's source port (all the
  tables' ordering tells apart), over a first-in first-out pool.
\<close>

type_synonym allocator = "(u16 \<rightharpoonup> ip4port) \<times> ip4port list"

definition spec_alloc :: "u16 \<Rightarrow> allocator \<Rightarrow> ip4port option \<times> allocator" where
  "spec_alloc port al =
     (case fst al port of
        Some e \<Rightarrow> (Some e, al)
      | None \<Rightarrow> (case snd al of [] \<Rightarrow> (None, al) | e # q \<Rightarrow> (Some e, ((fst al)(port \<mapsto> e), q))))"

definition any_key :: "u16 \<Rightarrow> ip6port \<times> ipv6addr" where
  "any_key port = (IP6Port IPv6Addr_default port, IPv6Addr_default)"

definition abs_alloc :: "state_manager \<Rightarrow> allocator" where
  "abs_alloc s =
     ((\<lambda>port. map_option (\<lambda>fid. ip4p (flow_at s fid)) (map_find k64_lt (map64 s) (any_key port))), pool s)"

lemma find_any_key: "map_find k64_lt m (any_key (getPort6 a)) = map_find k64_lt m (a, srv)"
  by (rule find64_port) (simp add: any_key_def)

text \<open>The flow a fresh mapping makes for a port the table does not hold.\<close>

lemma pool_doMapping:
  "pool (snd (doMapping L a srv s)) =
     (if map_find k64_lt (map64 s) (a, srv) = None then tl (pool s) else pool s)"
  by (cases rule: doMapping_cases [of s a srv L]) auto

lemma find64_doMapping:
  "map_find k64_lt (map64 (snd (doMapping L a srv s))) k \<noteq> None \<longleftrightarrow>
     map_find k64_lt (map64 s) k \<noteq> None \<or> (getPort6 (fst k) = getPort6 a \<and> pool s \<noteq> [])"
proof (cases rule: doMapping_cases [of s a srv L])
  case (known fid)
  have "getPort6 (fst k) = getPort6 a \<Longrightarrow> map_find k64_lt (map64 s) k = Some fid"
    using known(1) by (metis find64_port fst_conv)
  with known show ?thesis by auto
qed (auto simp: table_find)

text \<open>Pool accounting: every source port takes one pair, the first time it is seen.\<close>

lemma pool_alloc_all:
  assumes "\<forall>k. map_find k64_lt (map64 s) k = None"
    and "card (getPort6 ` fst ` set ks) \<le> length (pool s)"
  shows "length (pool (alloc_all (map_client L) ks s)) = length (pool s) - card (getPort6 ` fst ` set ks) \<and>
    (\<forall>k. map_find k64_lt (map64 (alloc_all (map_client L) ks s)) k \<noteq> None \<longleftrightarrow>
         getPort6 (fst k) \<in> getPort6 ` fst ` set ks)"
  using assms(2)
proof (induction ks rule: rev_induct)
  case Nil
  with assms(1) show ?case by simp
next
  case (snoc k ks)
  let ?P = "getPort6 ` fst ` set ks" and ?s = "alloc_all (map_client L) ks s"
  have ins: "getPort6 ` fst ` set (ks @ [k]) = insert (getPort6 (fst k)) ?P" by auto
  have "card ?P \<le> length (pool s)"
    using snoc.prems card_insert_le [of ?P "getPort6 (fst k)"] unfolding ins by linarith
  note IH = snoc.IH [OF this]
  have known: "map_find k64_lt (map64 ?s) k \<noteq> None \<longleftrightarrow> getPort6 (fst k) \<in> ?P"
    using IH by blast
  have pool': "pool (alloc_all (map_client L) (ks @ [k]) s) =
      (if map_find k64_lt (map64 ?s) k = None then tl (pool ?s) else pool ?s)"
    by (simp add: map_client_def pool_doMapping)
  have find': "map_find k64_lt (map64 (alloc_all (map_client L) (ks @ [k]) s)) j \<noteq> None \<longleftrightarrow>
      map_find k64_lt (map64 ?s) j \<noteq> None \<or> (getPort6 (fst j) = getPort6 (fst k) \<and> pool ?s \<noteq> [])" for j
    using find64_doMapping [of L "fst k" "snd k" ?s j] by (simp add: map_client_def)
  show ?case
  proof (cases "getPort6 (fst k) \<in> ?P")
    case True
    then have "insert (getPort6 (fst k)) ?P = ?P" by blast
    then show ?thesis
      unfolding ins find' pool' using IH known True by auto
  next
    case False
    then have "card (insert (getPort6 (fst k)) ?P) = Suc (card ?P)" by simp
    moreover from this have "pool ?s \<noteq> []"
      using snoc.prems IH unfolding ins by auto
    ultimately show ?thesis
      unfolding ins find' pool' using IH known False by auto
  qed
qed

section \<open>Properties of the tables\<close>

text \<open>The state \<open>init\<close> leaves for the tables: one address in the pool, nothing mapped.\<close>

definition sm_ready :: "(nat \<Rightarrow> timeval) \<Rightarrow> ipv6addr \<Rightarrow> ipv4addr \<Rightarrow> state_manager" where
  "sm_ready c p ip = addIPv4Pool ip (setIPv6Prefix p (sm_start c))"

lemma sm_ready_fields [simp]:
  "map64 (sm_ready c p ip) = []" "map46 (sm_ready c p ip) = []" "flows (sm_ready c p ip) = []"
  "map44 (sm_ready c p ip) = []" "prefix6 (sm_ready c p ip) = p"
  "analysisMode (sm_ready c p ip) = False" "extra (sm_ready c p ip) = EXTRA_NONE"
  "map_pool (sm_ready c p ip) = [(getInt ip, True)]"
  by (simp_all add: sm_ready_def addIPv4Pool_def setIPv6Prefix_def sm_start_def)

lemma pool_sm_ready: "pool (sm_ready c p ip) = pool_ports ip 32000"
  by (simp add: sm_ready_def pool_addIPv4Pool, simp add: setIPv6Prefix_def sm_start_def)

lemma table_inv_ready: "table_inv (sm_ready c p ip)"
  unfolding sm_ready_def by (rule table_inv_start)

lemma pool_ready_Cons:
  "pool (sm_ready c p ip) = IP4Port ip (htons 32000) # pool_ports ip 32001"
  using pool_ports_Cons [of 32000 ip] by (simp add: pool_sm_ready)

text \<open>The first mapping of a fresh translator, for the witnesses.\<close>

lemma first_mapping:
  "fst (doMapping L a srv (sm_ready c p ip)) = Some 0"
  "flow_at (snd (doMapping L a srv (sm_ready c p ip))) 0 =
     Flow_new64 L a (IP4Port ip (htons 32000)) srv (getServerAddr4 srv)"
  "prefix6 (snd (doMapping L a srv (sm_ready c p ip))) = p"
  by (simp_all add: doMapping_def pool_ready_Cons Let_def flow_at_def)

text \<open>
   \<open>addIPv4Pool\<close> appends exactly the pairs of the address with the ports \<open>MIN_PORT\<close> to
  \<open>MAX_PORT\<close>, in order, each once, in network byte order, and makes the address one of the pool's.
\<close>

theorem addIPv4Pool_pool:
  "\<exists>added. pool (addIPv4Pool ip s) = pool s @ added \<and> distinct added \<and> length added = 28001 \<and>
     (\<forall>e. e \<in> set added \<longleftrightarrow> getIP4 e = ip \<and> MIN_PORT \<le> ntohs (getPort4 e) \<and> ntohs (getPort4 e) \<le> MAX_PORT) \<and>
     fst (isAddrInRange4 ip (addIPv4Pool ip s))"
proof (intro exI conjI)
  show "pool (addIPv4Pool ip s) = pool s @ pool_ports ip 32000" by (rule pool_addIPv4Pool)
  show "distinct (pool_ports ip 32000)" by (rule distinct_pool_ports)
  show "length (pool_ports ip 32000) = 28001" by (simp add: length_pool_ports)
  show "\<forall>e. e \<in> set (pool_ports ip 32000) \<longleftrightarrow>
      getIP4 e = ip \<and> MIN_PORT \<le> ntohs (getPort4 e) \<and> ntohs (getPort4 e) \<le> MAX_PORT"
    by (simp add: set_pool_ports MIN_PORT_def MAX_PORT_def word_le_nat_alt)
  show "fst (isAddrInRange4 ip (addIPv4Pool ip s))"
    by (simp add: isAddrInRange4_def split_beta lin.index_value, simp add: addIPv4Pool_def lin.find_put_same)
qed

text \<open>
   In every state the tables reach from a fresh pool, whatever clients ask for, the pool holds no
  pair twice and none that a flow uses, both tables lead to the same flows under those flows' own
  endpoints, and no two flows share an external pair.
\<close>

theorem table_inv_reachable: "table_inv (alloc_all (map_client L) ks (sm_ready c p ip))"
  by (rule nt.all_inv) (rule table_inv_ready)

text \<open>
   The reply route of a mapping: once \<open>doMapping\<close> has given a flow, a packet from the flow's
  server to the flow's external pair finds that flow, however many mappings are made in between, and
  the flow's endpoints have not changed.
\<close>

theorem reply_route_persists:
  assumes "table_inv s" and "doMapping L a srv s = (Some fid, s')"
  shows "getMapping4 (ip4p (flow_at s' fid)) (ip4srv (flow_at s' fid)) (alloc_all (map_client L) ks s') = Some fid \<and>
    flow_at (alloc_all (map_client L) ks s') fid = flow_at s' fid"
proof
  have "map_client L (a, srv) s = (Some fid, s')"
    using assms(2) by (simp add: map_client_def)
  from nt.route_persists [OF assms(1) this]
  show "getMapping4 (ip4p (flow_at s' fid)) (ip4srv (flow_at s' fid)) (alloc_all (map_client L) ks s') = Some fid"
    by (simp add: ext_key_def)
  show "flow_at (alloc_all (map_client L) ks s') fid = flow_at s' fid"
    using flow_at_all_keeps doMapping_bound(1) [OF assms] table_inv_doMapping [OF assms(1), of L a srv] assms(2)
    by simp
qed

text \<open>A concrete translator for the witnesses: 2003::/96 and the pool address 10.20.30.40.\<close>

definition demo_libc :: libc where
  "demo_libc =
     \<lparr>inet_pton6 = (\<lambda>s. if s = ''::'' then Some (In6Addr 0 0 0 0)
                      else if s = ''2003::2'' then Some (In6Addr 0x320 0 0 0x2000000) else None),
      inet_pton4 = (\<lambda>s. if s = ''10.20.30.40'' then Some 0x281E140A else None),
      inet_ntop6 = (\<lambda>_. ''::''), inet_ntop4 = (\<lambda>_. ''10.20.30.40''),
      unset6 = In6Addr 0 0 0 0, unset4 = 0, unset16 = 0\<rparr>"

definition demo_prefix :: ipv6addr where
  "demo_prefix = IPv6Addr (In6Addr 0x320 0 0 0)"

definition demo_server :: ipv6addr where
  "demo_server = IPv6Addr (In6Addr 0x320 0 0 0x0200000A)"

definition demo_ready :: state_manager where
  "demo_ready = sm_ready (\<lambda>_. (0, 0)) demo_prefix (IPv4Addr 0x281E140A)"

definition demo_client :: "u32 \<Rightarrow> u16 \<Rightarrow> ip6port" where
  "demo_client host port = IP6Port (IPv6Addr (In6Addr 0x0120 0 0 host)) port"

lemma demo_first:
  "doMapping demo_libc (demo_client h q) demo_server demo_ready =
     (Some 0, snd (doMapping demo_libc (demo_client h q) demo_server demo_ready))"
  by (simp add: demo_ready_def prod_eq_iff first_mapping)

lemma demo_inv: "table_inv demo_ready"
  by (simp add: demo_ready_def table_inv_ready)

theorem reply_route_persists_witness:
  "\<exists>s'. doMapping demo_libc (demo_client 1 80) demo_server demo_ready = (Some 0, s') \<and>
     getMapping4 (ip4p (flow_at s' 0)) (ip4srv (flow_at s' 0))
       (alloc_all (map_client demo_libc) [(demo_client 2 81, demo_server)] s') = Some 0"
  using reply_route_persists [OF demo_inv demo_first, of 1 80 "[(demo_client 2 81, demo_server)]"]
    demo_first by blast

text \<open>
   Two clients' mappings get the same external pair exactly when the clients' source ports are
  equal: pairs are never shared between source ports, and the addresses of client and server play
  no part (\<open>operator<\<close> of \<open>IPv6Addr\<close> compares an address with itself).
\<close>

theorem external_pair_iff_port:
  assumes "table_inv s" and "doMapping L a srv s = (Some f, s1)"
    and "doMapping L b srv' (alloc_all (map_client L) ks s1) = (Some g, s2)"
  shows "ip4p (flow_at s2 f) = ip4p (flow_at s2 g) \<longleftrightarrow> getPort6 a = getPort6 b"
proof -
  let ?s = "alloc_all (map_client L) ks s1"
  have inv1: "table_inv s1" using table_inv_doMapping [OF assms(1), of L a srv] assms(2) by simp
  then have inv: "table_inv ?s" by (rule nt.all_inv)
  have s2: "s2 = snd (doMapping L b srv' ?s)" by (simp add: assms(3))
  have f1: "flow_bound ?s f" "flow_at ?s f = flow_at s1 f"
    using flow_at_all_keeps [OF inv1 doMapping_bound(1) [OF assms(1,2)]] by auto
  have inv2: "table_inv s2" unfolding s2 by (rule table_inv_doMapping) (rule inv)
  have f2: "flow_bound s2 f" and f2_eq: "flow_at s2 f = flow_at s1 f"
    unfolding s2 using doMapping_keeps [OF inv f1(1)] f1(2) by simp_all
  have g2: "flow_bound s2 g" "getPort6 (ip6p (flow_at s2 g)) = getPort6 b"
    using doMapping_bound [OF inv assms(3)] by simp_all
  have pf: "getPort6 (ip6p (flow_at s2 f)) = getPort6 a"
    using doMapping_bound(2) [OF assms(1,2)] f2_eq by simp
  show ?thesis
  proof
    assume "ip4p (flow_at s2 f) = ip4p (flow_at s2 g)"
    then have "f = g" by (rule table_inv_inj [OF inv2 f2 g2(1)])
    with pf g2(2) show "getPort6 a = getPort6 b" by simp
  next
    assume "getPort6 a = getPort6 b"
    with pf g2(2) have "map_find k64_lt (map64 s2) (ip6p (flow_at s2 f), ip6srv (flow_at s2 f)) =
        map_find k64_lt (map64 s2) (ip6p (flow_at s2 g), ip6srv (flow_at s2 g))"
      by (intro find64_port) simp
    with f2 g2(1) show "ip4p (flow_at s2 f) = ip4p (flow_at s2 g)"
      by (simp add: flow_bound_def Let_def)
  qed
qed

lemma demo_second:
  assumes "doMapping demo_libc (demo_client 1 80) demo_server demo_ready = (Some 0, s1)"
  shows "doMapping demo_libc (demo_client 2 81) demo_server (alloc_all (map_client demo_libc) [] s1) =
    (Some 1, snd (doMapping demo_libc (demo_client 2 81) demo_server s1))"
proof -
  have "s1 = snd (doMapping demo_libc (demo_client 1 80) demo_server demo_ready)"
    by (simp add: assms)
  then show ?thesis
    by (simp add: doMapping_def demo_ready_def pool_ready_Cons Let_def demo_client_def
        pool_ports_Cons [of 32001])
qed

theorem external_pair_iff_port_witness:
  "\<exists>s1 s2. doMapping demo_libc (demo_client 1 80) demo_server demo_ready = (Some 0, s1) \<and>
     doMapping demo_libc (demo_client 2 81) demo_server s1 = (Some 1, s2) \<and>
     ip4p (flow_at s2 0) \<noteq> ip4p (flow_at s2 1)"
  using external_pair_iff_port [OF demo_inv demo_first demo_second, OF demo_first]
    demo_first [of 1 80] demo_second [OF demo_first] by (fastforce simp: demo_client_def)

text \<open>
  C19: A second client that uses the source port of a mapped one is given the first client's flow,
  and with it the first client's address: replies meant for the second go to the first.
\<close>

theorem same_port_takes_over_flow:
  assumes "doMapping L (IP6Port a port) srv s = (Some f, s')"
    and "table_inv s" and "map_find k64_lt (map64 s) (IP6Port a port, srv) = None"
  shows "doMapping L (IP6Port b port) srv' s' = (Some f, s') \<and> ip6p (flow_at s' f) = IP6Port a port"
proof -
  have "map_find k64_lt (map64 s') (IP6Port b port, srv') = map_find k64_lt (map64 s') (IP6Port a port, srv)"
    by (rule find64_port) simp
  also have "\<dots> = Some f" by (rule doMapping_bound(3) [OF assms(2,1)])
  finally have "doMapping L (IP6Port b port) srv' s' = (Some f, s')"
    by (simp add: doMapping_def)
  moreover have "ip6p (flow_at s' f) = IP6Port a port"
    by (cases rule: doMapping_cases [of s "IP6Port a port" srv L])
      (use assms in \<open>auto simp: flow_at_def\<close>)
  ultimately show ?thesis by simp
qed

theorem same_port_takes_over_flow_witness:
  "\<exists>s'. doMapping demo_libc (demo_client 1 80) demo_server demo_ready = (Some 0, s') \<and>
     doMapping demo_libc (demo_client 2 80) demo_server s' = (Some 0, s') \<and>
     ip6p (flow_at s' 0) = demo_client 1 80"
proof -
  have "map_find k64_lt (map64 demo_ready) (demo_client 1 80, demo_server) = None"
    by (simp add: demo_ready_def)
  from same_port_takes_over_flow [OF demo_first [unfolded demo_client_def] demo_inv this [unfolded demo_client_def]]
  show ?thesis using demo_first [of 1 80] unfolding demo_client_def by blast
qed

text \<open>
  C18: \<open>doMapping\<close> implements the allocator: the external pair it answers and the bindings and pool it
  leaves are those of \<open>spec_alloc\<close> on the client's source port.
\<close>

theorem doMapping_refines_spec_alloc:
  assumes "table_inv s"
  shows "(map_option (\<lambda>fid. ip4p (flow_at (snd (doMapping L a srv s)) fid)) (fst (doMapping L a srv s)),
          abs_alloc (snd (doMapping L a srv s))) = spec_alloc (getPort6 a) (abs_alloc s)"
proof (cases rule: doMapping_cases [of s a srv L])
  case (known fid)
  then show ?thesis
    by (simp add: spec_alloc_def abs_alloc_def find_any_key [of _ a srv])
next
  case (full)
  then show ?thesis
    by (simp add: spec_alloc_def abs_alloc_def find_any_key [of _ a srv])
next
  case (fresh e rest)
  let ?s' = "snd (doMapping L a srv s)"
  have new: "flow_at ?s' (length (flows s)) = Flow_new64 L a e srv (getServerAddr4 srv)"
    using fresh(3) by (simp add: flow_at_def)
  have old: "flow_at ?s' fid = flow_at s fid" if "map_find k64_lt (map64 s) k = Some fid" for k fid
    by (rule doMapping_keeps(2) [OF assms table_inv64(1) [OF assms that]])
  have "map_find k64_lt (map64 ?s') (any_key q) =
      (if q = getPort6 a then Some (length (flows s)) else map_find k64_lt (map64 s) (any_key q))" for q
    using fresh(3) by (auto simp: table_find any_key_def)
  moreover have "flow_at ?s' fid = flow_at s fid"
    if "map_find k64_lt (map64 s) (any_key q) = Some fid" for q fid
    using that by (rule old)
  ultimately have "fst (abs_alloc ?s') = (fst (abs_alloc s))(getPort6 a \<mapsto> e)"
    using new by (auto simp: abs_alloc_def fun_eq_iff split: option.split intro!: map_option_cong)
  moreover have "pool ?s' = rest" "fst (doMapping L a srv s) = Some (length (flows s))"
    using fresh(3) by simp_all
  ultimately show ?thesis
    using fresh(1,2) new by (simp add: spec_alloc_def abs_alloc_def find_any_key [of _ a srv])
qed

theorem doMapping_refines_spec_alloc_witness:
  "(map_option (\<lambda>fid. ip4p (flow_at (snd (doMapping demo_libc (demo_client 1 80) demo_server demo_ready)) fid))
      (fst (doMapping demo_libc (demo_client 1 80) demo_server demo_ready)),
    abs_alloc (snd (doMapping demo_libc (demo_client 1 80) demo_server demo_ready))) =
   spec_alloc (getPort6 (demo_client 1 80)) (abs_alloc demo_ready)"
  by (rule doMapping_refines_spec_alloc) (rule demo_inv)

text \<open>
  C20: The pool is used up by source ports, not by clients: from a fresh pool of 28001 pairs, after
  any mappings from at most that many distinct source ports, a mapping is refused exactly when all
  28001 are taken and the port is a new one.
\<close>

theorem doMapping_refused_iff:
  assumes "card (getPort6 ` fst ` set ks) \<le> 28001"
  shows "fst (doMapping L a srv (alloc_all (map_client L) ks (sm_ready c p ip))) = None \<longleftrightarrow>
     card (getPort6 ` fst ` set ks) = 28001 \<and> getPort6 a \<notin> getPort6 ` fst ` set ks"
proof -
  let ?s = "alloc_all (map_client L) ks (sm_ready c p ip)"
  have len: "length (pool (sm_ready c p ip)) = 28001"
    by (simp add: pool_sm_ready length_pool_ports)
  have acc: "length (pool ?s) = 28001 - card (getPort6 ` fst ` set ks)"
    "map_find k64_lt (map64 ?s) (a, srv) \<noteq> None \<longleftrightarrow> getPort6 a \<in> getPort6 ` fst ` set ks"
    using pool_alloc_all [of "sm_ready c p ip" ks L] assms unfolding len by (auto simp del: not_None_eq)
  have "fst (doMapping L a srv ?s) = None \<longleftrightarrow> map_find k64_lt (map64 ?s) (a, srv) = None \<and> pool ?s = []"
    by (cases rule: doMapping_cases [of ?s a srv L]) auto
  with acc assms show ?thesis
    by (metis diff_is_0_eq' le_antisym length_0_conv order_refl zero_less_diff not_le)
qed

theorem doMapping_refused_iff_witness:
  "fst (doMapping demo_libc (demo_client 2 81) demo_server
     (alloc_all (map_client demo_libc) [(demo_client 1 80, demo_server)] demo_ready)) \<noteq> None"
  using doMapping_refused_iff [of "[(demo_client 1 80, demo_server)]" demo_libc "demo_client 2 81" demo_server]
  by (simp add: demo_ready_def)

text \<open>
   The translation of server addresses: embedding an IPv4 address in the prefix and extracting it
  again is the identity, and an IPv6 address is in range exactly when extracting and embedding gives
  it back.
\<close>

theorem server_addr_roundtrip:
  "getServerAddr4 (getServerAddr6 v s) = v \<and>
   (isAddrInRange6 a s \<longleftrightarrow> getServerAddr6 (getServerAddr4 a) s = a)"
  by (cases v; cases a; cases "getIn6Addr a")
    (auto simp: getServerAddr4_def getServerAddr6_def isAddrInRange6_def Let_def)

lemma doMapping44_cases:
  obtains (fwd) fid where "map_find k44_lt (map44 s) (x, y) = Some fid" "doMapping44 L x y s = (Some fid, s)"
  | (bwd) fid where "map_find k44_lt (map44 s) (x, y) = None" "map_find k44_lt (map44 s) (y, x) = Some fid"
      "doMapping44 L x y s = (Some fid, s)"
  | (new44) key where "map_find k44_lt (map44 s) (x, y) = None" "map_find k44_lt (map44 s) (y, x) = None"
      "key = (x, y) \<or> key = (y, x)"
      "doMapping44 L x y s = (Some (length (flows s)),
         s\<lparr>flow_cnt := flow_cnt s + 1, flows := flows s @ [Flow_new44 L (fst key) (snd key)],
           map44 := map_put k44_lt key (length (flows s)) (map44 s)\<rparr>)"
proof (cases "map_find k44_lt (map44 s) (x, y)")
  case (Some fid)
  then show ?thesis by (intro fwd) (auto simp: doMapping44_def Let_def)
next
  case None
  note n1 = this
  show ?thesis
  proof (cases "map_find k44_lt (map44 s) (y, x)")
    case (Some fid)
    then show ?thesis using n1 by (intro bwd) (auto simp: doMapping44_def Let_def)
  next
    case None
    let ?key = "if ntohs (getPort4 y) = 80 \<and> ntohs (getPort4 x) \<noteq> 80 then (y, x) else (x, y)"
    show ?thesis
      by (rule new44 [of ?key]) (use n1 None in \<open>simp_all add: doMapping44_def Let_def\<close>)
  qed
qed

text \<open>At most one direction of a connection is a key of the table.\<close>

definition one_direction :: "state_manager \<Rightarrow> bool" where
  "one_direction s \<longleftrightarrow>
     (\<forall>x y. x \<noteq> y \<longrightarrow> map_find k44_lt (map44 s) (x, y) = None \<or> map_find k44_lt (map44 s) (y, x) = None)"

lemma one_directionD:
  "one_direction s \<Longrightarrow> x \<noteq> y \<Longrightarrow>
   map_find k44_lt (map44 s) (x, y) = None \<or> map_find k44_lt (map44 s) (y, x) = None"
  by (simp add: one_direction_def)

lemma doMapping44_known:
  "one_direction s \<Longrightarrow>
   map_find k44_lt (map44 s) (x, y) = Some fid \<or> map_find k44_lt (map44 s) (y, x) = Some fid \<Longrightarrow>
   doMapping44 L x y s = (Some fid, s) \<and> doMapping44 L y x s = (Some fid, s)"
proof -
  assume "one_direction s"
  note one = one_directionD [OF this, of x y]
  assume "map_find k44_lt (map44 s) (x, y) = Some fid \<or> map_find k44_lt (map44 s) (y, x) = Some fid"
  then show ?thesis
  proof
    assume f: "map_find k44_lt (map44 s) (x, y) = Some fid"
    show ?thesis
      by (cases "x = y") (use f one in \<open>simp_all add: doMapping44_def Let_def\<close>)
  next
    assume f: "map_find k44_lt (map44 s) (y, x) = Some fid"
    show ?thesis
      by (cases "x = y") (use f one in \<open>simp_all add: doMapping44_def Let_def\<close>)
  qed
qed

text \<open>
   In analysis mode the two directions of a connection share one flow: once either direction has
  been looked up, both find that flow and change nothing more, the table still holds one direction
  of each connection, and the flow counter went up by one exactly when the connection was new.
\<close>

theorem doMapping44_symmetric:
  assumes "one_direction s" and "doMapping44 L x y s = (r, s1)"
  shows "r \<noteq> None \<and> doMapping44 L x y s1 = (r, s1) \<and> doMapping44 L y x s1 = (r, s1) \<and>
    one_direction s1 \<and>
    flow_cnt s1 = flow_cnt s +
      (if map_find k44_lt (map44 s) (x, y) = None \<and> map_find k44_lt (map44 s) (y, x) = None then 1 else 0)"
proof (cases rule: doMapping44_cases [of s x y L])
  case (fwd fid)
  then show ?thesis using doMapping44_known [OF assms(1), of x y fid L] assms by simp
next
  case (bwd fid)
  then show ?thesis using doMapping44_known [OF assms(1), of x y fid L] assms by simp
next
  case (new44 key)
  have r: "r = Some (length (flows s))" and cnt: "flow_cnt s1 = flow_cnt s + 1"
    and find: "map_find k44_lt (map44 s1) k =
      (if key = k then Some (length (flows s)) else map_find k44_lt (map44 s) k)" for k
    using new44(4) assms(2) by (auto simp: table_find)
  have one: "one_direction s1"
    unfolding one_direction_def
  proof (intro allI impI)
    fix p q :: ip4port
    assume "p \<noteq> q"
    with one_directionD [OF assms(1) this] new44(1-3)
    show "map_find k44_lt (map44 s1) (p, q) = None \<or> map_find k44_lt (map44 s1) (q, p) = None"
      by (auto simp: find)
  qed
  have "map_find k44_lt (map44 s1) (x, y) = r \<or> map_find k44_lt (map44 s1) (y, x) = r"
    using new44(3) by (auto simp: find r)
  with doMapping44_known [OF one, of x y _ L] r one cnt new44(1,2) show ?thesis by simp
qed

theorem doMapping44_symmetric_witness:
  "\<exists>s1. doMapping44 demo_libc (IP4Port (IPv4Addr 1) 80) (IP4Port (IPv4Addr 2) 99) demo_ready = (Some 0, s1) \<and>
     doMapping44 demo_libc (IP4Port (IPv4Addr 2) 99) (IP4Port (IPv4Addr 1) 80) s1 = (Some 0, s1) \<and>
     flow_cnt s1 = flow_cnt demo_ready + 1"
proof -
  have one: "one_direction demo_ready" by (simp add: one_direction_def demo_ready_def)
  have "doMapping44 demo_libc (IP4Port (IPv4Addr 1) 80) (IP4Port (IPv4Addr 2) 99) demo_ready =
      (Some 0, snd (doMapping44 demo_libc (IP4Port (IPv4Addr 1) 80) (IP4Port (IPv4Addr 2) 99) demo_ready))"
    by (simp add: doMapping44_def demo_ready_def Let_def)
  from doMapping44_symmetric [OF one this] this show ?thesis
    by (intro exI conjI) (auto simp: demo_ready_def)
qed

end
