(* ===== verification/Packet.thy ===== *)
theory Packet
  imports Tables
begin

text \<open>
  \<open>packet.h\<close> and \<open>packet.cc\<close>: a received packet with its input and output buffers, the header
  pointers into them, and the Internet checksums.  Headers are read and written at their byte
  offsets, as the structs of \<open>netinet/\<close> lay them out: IPv4 \<open>tot_len\<close> 2, \<open>ttl\<close> 8, \<open>protocol\<close> 9,
  \<open>check\<close> 10, \<open>saddr\<close> 12, \<open>daddr\<close> 16; IPv6 \<open>plen\<close> 4, \<open>nxt\<close> 6, \<open>hops\<close> 7, \<open>src\<close> 8, \<open>dst\<close> 24; TCP
  \<open>source\<close> 0, \<open>dest\<close> 2, \<open>seq\<close> 4, \<open>ack\<close> 8, \<open>off\<close> the high half of byte 12, \<open>check\<close> 16; UDP \<open>source\<close> 0,
  \<open>dest\<close> 2, \<open>len\<close> 4, \<open>check\<close> 6.  \<open>Packet::print\<close> (debugging output) is left out.
\<close>

section \<open>The packet\<close>

definition BUF_LEN :: int where "BUF_LEN = 65536"

definition ETHERTYPE_IP :: u16 where "ETHERTYPE_IP = 0x0800"
definition ETHERTYPE_IPV6 :: u16 where "ETHERTYPE_IPV6 = 0x86DD"
definition IPPROTO_TCP :: u8 where "IPPROTO_TCP = 6"
definition IPPROTO_UDP :: u8 where "IPPROTO_UDP = 17"

text \<open>
  A pointer to an IP header: unset, or an offset into the input or the output buffer.  The transport
  pointers are null (\<^const>\<open>None\<close>) or an offset, into \<open>obuf\<close> for \<open>tcp_hdr\<close> and \<open>udp_hdr\<close>, into
  \<open>ibuf\<close> for the \<open>old\<close> ones.
\<close>

datatype ptr = Unset | InI nat | InO nat

record packet =
  hw_protocol :: u16
  pkt_id :: u32
  ibuf :: mem
  ibuf_len :: int
  obuf :: mem
  port_t :: u32
  obuf_len :: int
  transport_len :: int
  ip_len :: int
  ipVersionBefore :: int
  ip_hdr :: ptr
  ip6_hdr :: ptr
  tcp_hdr :: "nat option"
  tcp_old :: "nat option"
  udp_hdr :: "nat option"
  udp_old :: "nat option"
  nxt_seq :: u32
  cur_seq :: u32

text \<open>The constructor; \<open>raw\<close> is what the memory held before.\<close>

definition new_packet :: "packet \<Rightarrow> packet" where
  "new_packet raw =
     raw\<lparr>tcp_hdr := None, udp_hdr := None, ip_hdr := Unset, ip6_hdr := Unset, tcp_old := None,
         udp_old := None\<rparr>"

definition setIbuf :: "mem \<Rightarrow> int \<Rightarrow> packet \<Rightarrow> packet option" where
  "setIbuf buf len p =
     (if 0 \<le> len \<and> len \<le> BUF_LEN
      then Some (p\<lparr>ibuf := memcpy (ibuf p) 0 buf 0 (nat len), ibuf_len := len\<rparr>) else None)"

text \<open>Loads through an IP header pointer.\<close>

definition load_ptr :: "packet \<Rightarrow> ptr \<Rightarrow> (mem \<times> nat) option" where
  "load_ptr p q = (case q of Unset \<Rightarrow> None | InI b \<Rightarrow> Some (ibuf p, b) | InO b \<Rightarrow> Some (obuf p, b))"

definition load8 :: "packet \<Rightarrow> ptr \<Rightarrow> nat \<Rightarrow> u8 option" where
  "load8 p q off = map_option (\<lambda>(m, b). m (b + off)) (load_ptr p q)"

definition load32 :: "packet \<Rightarrow> ptr \<Rightarrow> nat \<Rightarrow> u32 option" where
  "load32 p q off = map_option (\<lambda>(m, b). rd32 m (b + off)) (load_ptr p q)"

definition rd_in6 :: "mem \<Rightarrow> nat \<Rightarrow> in6_addr" where
  "rd_in6 m i = In6Addr (rd32 m i) (rd32 m (i + 4)) (rd32 m (i + 8)) (rd32 m (i + 12))"

definition wr_in6 :: "nat \<Rightarrow> in6_addr \<Rightarrow> mem \<Rightarrow> mem" where
  "wr_in6 i a m =
     wr32 (i + 12) (s6_addr32_3 a) (wr32 (i + 8) (s6_addr32_2 a)
       (wr32 (i + 4) (s6_addr32_1 a) (wr32 i (s6_addr32_0 a) m)))"

definition load_in6 :: "packet \<Rightarrow> ptr \<Rightarrow> nat \<Rightarrow> in6_addr option" where
  "load_in6 p q off = map_option (\<lambda>(m, b). rd_in6 m (b + off)) (load_ptr p q)"

lemma load_simps [simp]:
  "load8 p (InI b) off = Some (ibuf p (b + off))" "load8 p (InO b) off = Some (obuf p (b + off))"
  "load32 p (InI b) off = Some (rd32 (ibuf p) (b + off))"
  "load32 p (InO b) off = Some (rd32 (obuf p) (b + off))"
  "load_in6 p (InI b) off = Some (rd_in6 (ibuf p) (b + off))"
  "load_in6 p (InO b) off = Some (rd_in6 (obuf p) (b + off))"
  "load8 p Unset off = None" "load32 p Unset off = None" "load_in6 p Unset off = None"
  by (simp_all add: load8_def load32_def load_in6_def load_ptr_def)

lemma rd_in6_wr_in6 [buf_simps]: "rd_in6 (wr_in6 i a m) i = a"
  by (cases a) (simp add: rd_in6_def wr_in6_def buf_simps)

lemma wr_in6_byte_other [buf_simps]: "j < i \<or> i + 15 < j \<Longrightarrow> wr_in6 i a m j = m j"
  by (auto simp: wr_in6_def buf_simps)

lemma rd32_wr_in6_other [buf_simps]: "j + 3 < i \<or> i + 15 < j \<Longrightarrow> rd32 (wr_in6 i a m) j = rd32 m j"
  by (auto simp: wr_in6_def buf_simps)

lemma rd16_wr_in6_other [buf_simps]: "j + 1 < i \<or> i + 15 < j \<Longrightarrow> rd16 (wr_in6 i a m) j = rd16 m j"
  by (auto simp: wr_in6_def buf_simps)

section \<open>Accessors\<close>

definition isTCP :: "packet \<Rightarrow> bool" where "isTCP p \<longleftrightarrow> tcp_hdr p \<noteq> None"

definition isUDP :: "packet \<Rightarrow> bool" where "isUDP p \<longleftrightarrow> udp_hdr p \<noteq> None"

definition getTransportHeaderLen :: "packet \<Rightarrow> int" where
  "getTransportHeaderLen p =
     (case tcp_hdr p of
        Some t \<Rightarrow> uint (drop_bit 4 (obuf p (t + 12))) * 4
      | None \<Rightarrow> (case udp_hdr p of Some u \<Rightarrow> 8 | None \<Rightarrow> 0))"

definition getIPVersion :: "packet \<Rightarrow> int" where
  "getIPVersion p = (if ipVersionBefore p = 4 then 6 else 4)"

definition getDEST :: "packet \<Rightarrow> DEST" where
  "getDEST p = (if ipVersionBefore p = 4 then CLIENT else SERVER)"

definition getDest4 :: "packet \<Rightarrow> ipv4addr option" where
  "getDest4 p = map_option IPv4Addr (load32 p (ip_hdr p) 16)"

definition getDest6 :: "packet \<Rightarrow> ipv6addr option" where
  "getDest6 p = map_option IPv6Addr (load_in6 p (ip6_hdr p) 24)"

definition getSourcePort :: "packet \<Rightarrow> u16" where
  "getSourcePort p =
     (case tcp_hdr p of Some t \<Rightarrow> rd16 (obuf p) t
      | None \<Rightarrow> (case udp_hdr p of Some u \<Rightarrow> rd16 (obuf p) u | None \<Rightarrow> 0))"

definition getDestPort :: "packet \<Rightarrow> u16" where
  "getDestPort p =
     (case tcp_hdr p of Some t \<Rightarrow> rd16 (obuf p) (t + 2)
      | None \<Rightarrow> (case udp_hdr p of Some u \<Rightarrow> rd16 (obuf p) (u + 2) | None \<Rightarrow> 0))"

definition getFlow :: "libc \<Rightarrow> packet \<Rightarrow> state_manager \<Rightarrow> (FlowPtr \<times> state_manager) option" where
  "getFlow L p s =
     (if isTCP p \<or> isUDP p
      then if ipVersionBefore p = 6
           then do {
             src \<leftarrow> load_in6 p (ip6_hdr p) 8;
             dst \<leftarrow> load_in6 p (ip6_hdr p) 24;
             Some (getMapping6 (IP6Port (IPv6Addr src) (getSourcePort p)) (IPv6Addr dst) s, s) }
           else do {
             daddr \<leftarrow> load32 p (ip_hdr p) 16;
             saddr \<leftarrow> load32 p (ip_hdr p) 12;
             Some (if analysisMode s
                   then doMapping44 L (IP4Port (IPv4Addr daddr) (getDestPort p))
                          (IP4Port (IPv4Addr saddr) (getSourcePort p)) s
                   else (getMapping4 (IP4Port (IPv4Addr daddr) (getDestPort p)) (IPv4Addr saddr) s, s)) }
      else Some (None, s))"

section \<open>Unpacking\<close>

definition handleTransportLayer :: "nat \<Rightarrow> nat \<Rightarrow> u8 \<Rightarrow> packet \<Rightarrow> packet" where
  "handleTransportLayer offset offset_old protocol' p =
     (let p1 = p\<lparr>transport_len := obuf_len p - int offset\<rparr> in
      if protocol' = IPPROTO_TCP then
        (let p2 = p1\<lparr>tcp_hdr := Some offset, tcp_old := Some offset_old,
                     cur_seq := ntohl (rd32 (obuf p1) (offset + 4))\<rparr>
         in p2\<lparr>nxt_seq := cur_seq p2 + of_int (transport_len p2) - of_int (getTransportHeaderLen p2),
               port_t := ucast (ntohs (rd16 (obuf p2) offset)) + ucast (ntohs (rd16 (obuf p2) (offset + 2)))\<rparr>)
      else if protocol' = IPPROTO_UDP then
        p1\<lparr>udp_hdr := Some offset, udp_old := Some offset_old,
           port_t := ucast (ntohs (rd16 (obuf p1) offset)) + ucast (ntohs (rd16 (obuf p1) (offset + 2)))\<rparr>
      else p1)"

text \<open>
  The copy of everything after the IP header; \<open>memcpy\<close> is undefined for a packet shorter than the
  header (the length turns into a huge unsigned number) and when it does not fit the output buffer.
\<close>

definition copy_transport :: "nat \<Rightarrow> packet \<Rightarrow> packet option" where
  "copy_transport ip_len_old p =
     (let n = ibuf_len p - int ip_len_old in
      if 0 \<le> n \<and> ibuf_len p \<le> BUF_LEN \<and> ip_len p + n \<le> BUF_LEN
      then Some (p\<lparr>obuf := memcpy (obuf p) (nat (ip_len p)) (ibuf p) ip_len_old (nat n),
                   obuf_len := ibuf_len p - int ip_len_old + ip_len p\<rparr>)
      else None)"

definition unpack :: "packet \<Rightarrow> packet option" where
  "unpack p =
     (if hw_protocol p = ETHERTYPE_IPV6 then
        (let p1 = p\<lparr>ipVersionBefore := 6, ip6_hdr := InI 0, ip_len := 20, ip_hdr := InO 0\<rparr>;
             protocol' = ibuf p1 6
         in map_option (handleTransportLayer 20 40 protocol') (copy_transport 40 p1))
      else if hw_protocol p = ETHERTYPE_IP then
        (let p1 = p\<lparr>ipVersionBefore := 4, ip_hdr := InI 0, ip_len := 40, ip6_hdr := InO 0\<rparr>;
             protocol' = ibuf p1 9
         in map_option (handleTransportLayer 40 20 protocol') (copy_transport 20 p1))
      else Some p)"

definition setTransportLen :: "int \<Rightarrow> packet \<Rightarrow> packet" where
  "setTransportLen len p =
     (let p1 = p\<lparr>transport_len := len, obuf_len := ip_len p + len\<rparr> in
      case udp_hdr p1 of
        Some u \<Rightarrow> p1\<lparr>obuf := wr16 (u + 4) (ntohs (of_int len)) (obuf p1)\<rparr>
      | None \<Rightarrow> p1)"

section \<open>Checksums\<close>

text \<open>The summing loop, with the early fold when the sum reaches bit 31.\<close>

definition csum_step :: "u32 \<Rightarrow> u16 \<Rightarrow> u32" where
  "csum_step acc w =
     (let s = acc + ucast w in
      if s AND 0x80000000 \<noteq> 0 then (s AND 0xFFFF) + drop_bit 16 s else s)"

fun csum_loop :: "mem \<Rightarrow> nat \<Rightarrow> nat \<Rightarrow> u32 \<Rightarrow> u32" where
  "csum_loop m i len acc =
     (if 1 < len then csum_loop m (i + 2) (len - 2) (csum_step acc (rd16 m i))
      else if len = 1 then acc + ucast (m i)
      else acc)"

declare csum_loop.simps [simp del]

text \<open>The addresses of the pseudo-header, \<open>n\<close> 16-bit words of each.\<close>

primrec csum_addrs :: "nat \<Rightarrow> mem \<Rightarrow> nat \<Rightarrow> nat \<Rightarrow> u32 \<Rightarrow> u32" where
  "csum_addrs 0 m src dst acc = acc"
| "csum_addrs (Suc n) m src dst acc =
     csum_addrs n m (src + 2) (dst + 2) (acc + ucast (rd16 m src) + ucast (rd16 m dst))"

text \<open>Adding the carries until none is left.\<close>

function csum_fold :: "u32 \<Rightarrow> u32" where
  "csum_fold acc =
     (if drop_bit 16 acc \<noteq> 0 then csum_fold ((acc AND 0xFFFF) + drop_bit 16 acc) else acc)"
  by pat_completeness auto

lemma unat_low16: "unat ((s :: u32) AND 0xFFFF) = unat s mod 65536"
proof -
  have "s AND 0xFFFF = take_bit 16 s" by (simp add: take_bit_eq_mask mask_eq_exp_minus_1)
  also have "\<dots> = s mod 65536" by (simp add: take_bit_eq_mod)
  finally show ?thesis by (simp add: unat_mod)
qed

lemma unat_high16: "unat (drop_bit 16 (s :: u32)) = unat s div 65536"
  by (simp add: drop_bit_eq_div unat_div)

lemma unat_fold16: "unat ((s AND 0xFFFF) + drop_bit 16 s :: u32) = unat s mod 65536 + unat s div 65536"
proof -
  have "unat s < 4294967296" using unsigned_less [of s] by simp
  moreover have "unat s = 65536 * (unat s div 65536) + unat s mod 65536" by simp
  ultimately have "unat s mod 65536 + unat s div 65536 < 4294967296" by linarith
  then show ?thesis by (simp add: unat_word_ariths unat_low16 unat_high16)
qed

termination csum_fold
proof (relation "measure unat")
  fix acc :: u32
  assume "drop_bit 16 acc \<noteq> 0"
  then have "unat acc div 65536 \<noteq> 0"
    by (metis unat_high16 unsigned_0 unsigned_word_eqI)
  moreover have "unat acc = 65536 * (unat acc div 65536) + unat acc mod 65536" by simp
  ultimately have "unat acc mod 65536 + unat acc div 65536 < unat acc" by linarith
  then show "((acc AND 0xFFFF) + drop_bit 16 acc, acc) \<in> measure unat"
    by (simp add: unat_fold16)
qed simp

declare csum_fold.simps [simp del]

definition tcp_checksum :: "mem \<Rightarrow> nat \<Rightarrow> nat \<Rightarrow> mem \<Rightarrow> nat \<Rightarrow> nat \<Rightarrow> nat \<Rightarrow> u8 \<Rightarrow> u16" where
  "tcp_checksum m tcphead tcplen am saddr daddr addrlen protocol' =
     (let s1 = csum_loop m tcphead tcplen 0;
          s2 = csum_addrs (addrlen div 2) am saddr daddr s1;
          s3 = s2 + ucast (htons (ucast protocol'));
          s4 = s3 + ucast (htons (of_nat tcplen))
      in ucast (NOT (csum_fold s4)))"

definition ip_checksum :: "mem \<Rightarrow> nat \<Rightarrow> nat \<Rightarrow> u16" where
  "ip_checksum m iphead iplen = ucast (NOT (csum_fold (csum_loop m iphead iplen 0)))"

text \<open>
  \<open>updateChecksum\<close>: clears the transport checksum, then computes it over the transport bytes and a
  pseudo-header with the addresses of the output IP header; for an IPv4 output the header checksum
  is computed as well, over the header and everything after it.
\<close>

definition clear_checks :: "packet \<Rightarrow> packet" where
  "clear_checks p =
     (let p1 = (case tcp_hdr p of Some t \<Rightarrow> p\<lparr>obuf := wr16 (t + 16) 0 (obuf p)\<rparr> | None \<Rightarrow> p)
      in case udp_hdr p1 of Some u \<Rightarrow> p1\<lparr>obuf := wr16 (u + 6) 0 (obuf p1)\<rparr> | None \<Rightarrow> p1)"

definition transport_check ::
    "ptr \<Rightarrow> nat \<Rightarrow> nat \<Rightarrow> nat \<Rightarrow> u8 \<Rightarrow> nat \<Rightarrow> nat option \<Rightarrow> packet \<Rightarrow> packet option" where
  "transport_check hdr saddr daddr addrlen protocol' check th p =
     (case th of
        None \<Rightarrow> Some p
      | Some t \<Rightarrow>
          if transport_len p < 0 then None
          else do {
            (am, b) \<leftarrow> load_ptr p hdr;
            Some (p\<lparr>obuf := wr16 (t + check)
                    (tcp_checksum (obuf p) t (nat (transport_len p)) am (b + saddr) (b + daddr) addrlen protocol')
                    (obuf p)\<rparr>) })"

definition ip_check :: "packet \<Rightarrow> packet option" where
  "ip_check p =
     (if transport_len p + 20 < 0 then None
      else case ip_hdr p of
        Unset \<Rightarrow> None
      | InI b \<Rightarrow> Some (p\<lparr>ibuf := wr16 (b + 10) (ip_checksum (ibuf p) b (nat (transport_len p + 20))) (ibuf p)\<rparr>)
      | InO b \<Rightarrow> Some (p\<lparr>obuf := wr16 (b + 10) (ip_checksum (obuf p) b (nat (transport_len p + 20))) (obuf p)\<rparr>))"

definition updateChecksum :: "packet \<Rightarrow> packet option" where
  "updateChecksum p =
     (let p0 = clear_checks p in
      if ipVersionBefore p0 = 6 then do {
        p1 \<leftarrow> transport_check (ip_hdr p0) 12 16 4 IPPROTO_TCP 16 (tcp_hdr p0) p0;
        p2 \<leftarrow> transport_check (ip_hdr p1) 12 16 4 IPPROTO_UDP 6 (udp_hdr p1) p1;
        ip_check p2 }
      else do {
        p1 \<leftarrow> transport_check (ip6_hdr p0) 8 24 16 IPPROTO_TCP 16 (tcp_hdr p0) p0;
        transport_check (ip6_hdr p1) 8 24 16 IPPROTO_UDP 6 (udp_hdr p1) p1 })"

end
