(* ===== verification/Checksum_Props.thy ===== *)
theory Checksum_Props
  imports Packet
begin

text \<open>
  The checksum routines compute the Internet checksum: the one's complement of the one's complement
  sum.  The specification is a sum of natural numbers reduced to 1..65535 (0 only for an all-zero
  input); the loop's early fold on bit 31 and the final folds keep it, and no 32-bit addition
  overflows.
\<close>

section \<open>One's complement sums\<close>

definition oc_norm :: "nat \<Rightarrow> nat" where
  "oc_norm n = (if n = 0 then 0 else (n - 1) mod 65535 + 1)"

fun words_sum :: "mem \<Rightarrow> nat \<Rightarrow> nat \<Rightarrow> nat" where
  "words_sum m i len =
     (if 1 < len then unat (rd16 m i) + words_sum m (i + 2) (len - 2)
      else if len = 1 then unat (m i) else 0)"

declare words_sum.simps [simp del]

definition addrs_sum :: "mem \<Rightarrow> nat \<Rightarrow> nat \<Rightarrow> nat \<Rightarrow> nat" where
  "addrs_sum m src dst addrlen = words_sum m src addrlen + words_sum m dst addrlen"

text \<open>The pseudo-header and the bytes it covers.\<close>

definition pseudo_sum :: "mem \<Rightarrow> nat \<Rightarrow> nat \<Rightarrow> nat \<Rightarrow> u8 \<Rightarrow> nat \<Rightarrow> nat" where
  "pseudo_sum am saddr daddr addrlen protocol' tcplen =
     addrs_sum am saddr daddr addrlen + unat (htons (ucast protocol')) + unat (htons (of_nat tcplen))"

lemma oc_norm_0 [simp]: "oc_norm 0 = 0"
  by (simp add: oc_norm_def)

lemma oc_norm_le: "oc_norm n \<le> 65535"
proof -
  have "(n - 1) mod 65535 < 65535" by (rule mod_less_divisor) simp
  moreover have "oc_norm n = (if n = 0 then 0 else (n - 1) mod 65535 + 1)" by (rule oc_norm_def)
  ultimately show ?thesis by (auto simp only: split: if_splits)
qed

lemma oc_norm_eq_0 [simp]: "oc_norm n = 0 \<longleftrightarrow> n = 0"
  by (simp add: oc_norm_def)

lemma oc_norm_small: "n \<le> 65535 \<Longrightarrow> oc_norm n = n"
  by (auto simp: oc_norm_def)

lemma oc_norm_cong:
  assumes m: "a mod 65535 = b mod 65535" and z: "a = 0 \<longleftrightarrow> b = 0"
  shows "oc_norm a = oc_norm b"
proof (cases a)
  case 0
  with z show ?thesis by simp
next
  case (Suc a')
  with z obtain b' where b: "b = Suc b'" by (cases b) auto
  have "(a + 65534) mod 65535 = (b + 65534) mod 65535"
    by (rule mod_add_cong) (simp_all add: m)
  then have "(a' + 65535) mod 65535 = (b' + 65535) mod 65535"
    using Suc b by simp
  then have "a' mod 65535 = b' mod 65535" by (simp only: mod_add_self2)
  with Suc b show ?thesis by (simp add: oc_norm_def)
qed

lemma oc_norm_mod: "oc_norm n mod 65535 = n mod 65535"
proof (cases n)
  case (Suc k)
  then show ?thesis by (simp add: oc_norm_def mod_Suc_eq)
qed simp

lemma oc_norm_add: "oc_norm (oc_norm a + b) = oc_norm (a + b)"
  by (rule oc_norm_cong) (auto simp: oc_norm_mod intro: mod_add_cong)

lemma oc_norm_fold: "oc_norm (n mod 65536 + n div 65536) = oc_norm n"
proof (rule oc_norm_cong)
  have "n = (n mod 65536 + n div 65536) + 65535 * (n div 65536)" by simp
  then show "(n mod 65536 + n div 65536) mod 65535 = n mod 65535"
    by (metis mod_mult_self2)
  show "n mod 65536 + n div 65536 = 0 \<longleftrightarrow> n = 0"
    by (metis add_eq_0_iff_both_eq_0 div_0 mod_0 mult_div_mod_eq mult_zero_right)
qed

section \<open>The loops\<close>

lemma unat_u16_less: "unat (w :: u16) < 65536"
  using unsigned_less [of w] by simp

lemma unat_ucast16: "unat (ucast (w :: u16) :: u32) = unat w"
  using unat_u16_less [of w] by (simp add: unsigned_ucast_eq take_bit_nat_eq_self)

text \<open>An accumulator that has not reached bit 31 takes a 16-bit word without overflow.\<close>

lemma unat_add16:
  assumes "unat (a :: u32) < 4294901760"
  shows "unat (a + ucast (w :: u16)) = unat a + unat w"
  using assms unat_u16_less [of w] by (simp add: unat_word_ariths unat_ucast16)

lemma bit31_clear: "(s :: u32) AND 0x80000000 = 0 \<longleftrightarrow> unat s < 2147483648"
proof -
  have "s AND 0x80000000 = 0 \<longleftrightarrow> \<not> bit s 31"
    using and_exp_eq_0_iff_not_bit [of s 31] by simp
  also have "\<dots> \<longleftrightarrow> \<not> bit (unat s) 31"
    by (simp add: bit_unsigned_iff)
  also have "\<dots> \<longleftrightarrow> even (unat s div 2147483648)"
    by (simp only: bit_iff_odd) simp
  also have "\<dots> \<longleftrightarrow> unat s < 2147483648"
  proof
    assume e: "even (unat s div 2147483648)"
    have "unat s < 2147483648 * 2" using unsigned_less [of s] by simp
    then have "unat s div 2147483648 < 2" by (simp add: div_less_iff_less_mult)
    moreover have "even q \<Longrightarrow> q < 2 \<Longrightarrow> q = 0" for q :: nat by presburger
    ultimately have "unat s div 2147483648 = 0" using e by blast
    then show "unat s < 2147483648" by (simp add: div_eq_0_iff)
  qed simp
  finally show ?thesis .
qed

lemma csum_step_bound: "unat (csum_step acc w) < 2147483648"
proof (cases "(acc + ucast w) AND 0x80000000 = 0")
  case True
  then show ?thesis by (simp add: csum_step_def Let_def bit31_clear)
next
  case False
  have "unat (acc + ucast w) < 4294967296" using unsigned_less [of "acc + ucast w"] by simp
  then have "unat (acc + ucast w) div 65536 < 65536" by (simp add: div_less_iff_less_mult)
  moreover have "unat (acc + ucast w) mod 65536 < 65536" by simp
  ultimately show ?thesis using False by (simp add: csum_step_def Let_def unat_fold16)
qed

lemma csum_step_norm:
  assumes "unat acc < 2147483648"
  shows "oc_norm (unat (csum_step acc w) + n) = oc_norm (unat acc + unat w + n)"
proof -
  have sum: "unat (acc + ucast w) = unat acc + unat w" by (rule unat_add16) (use assms in simp)
  show ?thesis
    by (simp add: csum_step_def Let_def unat_fold16 sum)
      (metis oc_norm_add oc_norm_fold)
qed

lemma csum_loop_norm:
  assumes "unat acc < 2147483648"
  shows "oc_norm (unat (csum_loop m i len acc) + n) = oc_norm (unat acc + words_sum m i len + n) \<and>
    unat (csum_loop m i len acc) < 2147549184"
  using assms
proof (induction m i len acc rule: csum_loop.induct)
  case (1 m i len acc)
  show ?case
  proof (cases "1 < len")
    case True
    have "oc_norm (unat (csum_loop m i len acc) + n) =
        oc_norm (unat (csum_step acc (rd16 m i)) + (words_sum m (i + 2) (len - 2) + n))"
      using "1.IH" [OF True csum_step_bound] True
      by (subst csum_loop.simps) (simp add: ac_simps)
    also have "\<dots> = oc_norm (unat acc + words_sum m i len + n)"
      using True csum_step_norm [OF "1.prems", of "rd16 m i" "words_sum m (i + 2) (len - 2) + n"]
      by (subst (2) words_sum.simps) (simp add: ac_simps)
    finally show ?thesis
      using "1.IH" [OF True csum_step_bound] True by (subst (2) csum_loop.simps) simp
  next
    case False
    have b: "unat (m i) < 256" using unsigned_less [of "m i"] by simp
    then have u: "unat (ucast (m i) :: u32) = unat (m i)"
      by (simp add: unsigned_ucast_eq take_bit_nat_eq_self)
    have "unat (acc + ucast (m i)) = unat acc + unat (m i)"
      using "1.prems" b by (simp add: unat_word_ariths u)
    then show ?thesis
      using False "1.prems" b by (simp add: csum_loop.simps [of m i len] words_sum.simps [of m i len])
  qed
qed

lemma words_sum_unfold:
  "words_sum m i len =
     (if 1 < len then unat (rd16 m i) + words_sum m (i + 2) (len - 2)
      else if len = 1 then unat (m i) else 0)"
  by (rule words_sum.simps)

lemma words_sum_SucSuc: "words_sum m i (Suc (Suc n)) = unat (rd16 m i) + words_sum m (i + 2) n"
  by (simp add: words_sum.simps [of m i "Suc (Suc n)"])

lemma words_sum_0 [simp]: "words_sum m i 0 = 0"
  by (simp add: words_sum.simps)

text \<open>The pseudo-header's addresses are at most eight words each, so they do not overflow either.\<close>

lemma csum_addrs_sum:
  "unat acc + n * 131070 < 4294901760 \<Longrightarrow>
   unat (csum_addrs n m src dst acc) = unat acc + addrs_sum m src dst (2 * n) \<and>
   unat (csum_addrs n m src dst acc) \<le> unat acc + n * 131070"
proof (induction n arbitrary: src dst acc)
  case 0
  show ?case by (simp add: addrs_sum_def)
next
  case (Suc n)
  let ?a = "acc + ucast (rd16 m src) + ucast (rd16 m dst)"
  have w: "unat (rd16 m src) < 65536" "unat (rd16 m dst) < 65536" by (rule unat_u16_less)+
  have "unat (acc + ucast (rd16 m src)) = unat acc + unat (rd16 m src)"
    by (rule unat_add16) (use Suc.prems in simp)
  then have a: "unat ?a = unat acc + unat (rd16 m src) + unat (rd16 m dst)"
    using Suc.prems w by (subst unat_add16) simp_all
  have "unat ?a + n * 131070 < 4294901760" using a w Suc.prems by simp
  from Suc.IH [OF this, of "src + 2" "dst + 2"] a w show ?case
    by (simp add: addrs_sum_def words_sum_SucSuc)
qed

lemma csum_fold_norm: "unat (csum_fold s) = oc_norm (unat s)"
proof (induction s rule: csum_fold.induct)
  case (1 s)
  show ?case
  proof (cases "drop_bit 16 s = 0")
    case True
    then have "unat s div 65536 = 0" by (metis unat_high16 unsigned_0)
    then have "unat s \<le> 65535" by (simp add: div_eq_0_iff)
    with True show ?thesis by (subst csum_fold.simps) (simp add: oc_norm_small)
  next
    case False
    with "1.IH" show ?thesis
      by (subst csum_fold.simps) (simp add: unat_fold16 oc_norm_fold)
  qed
qed

lemma unat_not_low: "unat (s :: u32) \<le> 65535 \<Longrightarrow> unat (ucast (NOT s) :: u16) = 65535 - unat s"
proof -
  assume b: "unat s \<le> 65535"
  have "ucast (NOT s) = NOT (ucast s :: u16)"
    by (rule bit_word_eqI) (auto simp: bit_simps)
  moreover have "unat (ucast s :: u16) = unat s"
    using b by (simp add: unsigned_ucast_eq take_bit_nat_eq_self)
  moreover have "unat (NOT w) = 65535 - unat w" for w :: u16
  proof -
    have "NOT w = - 1 - w" by (simp add: not_eq_complement)
    moreover have "unat (- 1 - w) = unat (- 1 :: u16) - unat w" by (rule unat_sub) simp
    moreover have "unat (- 1 :: u16) = 65535"
      by (simp add: unsigned_minus_1_eq_mask mask_eq_exp_minus_1)
    ultimately show ?thesis by simp
  qed
  ultimately show ?thesis by simp
qed

section \<open>The checksums\<close>

lemma tcp_checksum_value:
  assumes "even addrlen" and "addrlen \<le> 16"
  shows "unat (tcp_checksum m h len am sa da addrlen pr) =
    65535 - oc_norm (words_sum m h len + pseudo_sum am sa da addrlen pr len)"
proof -
  let ?n = "addrlen div 2"
  define s1 where "s1 = csum_loop m h len 0"
  define s2 where "s2 = csum_addrs ?n am sa da s1"
  define s3 where "s3 = s2 + ucast (htons (ucast pr))"
  define s4 where "s4 = s3 + ucast (htons (of_nat len))"
  define q where "q = pseudo_sum am sa da addrlen pr len"
  have n: "?n \<le> 8" "2 * ?n = addrlen" using assms by simp_all
  have loop: "oc_norm (unat s1 + k) = oc_norm (words_sum m h len + k)" "unat s1 < 2147549184" for k
    using csum_loop_norm [of 0 m h len k] by (simp_all add: s1_def)
  then have "unat s1 + ?n * 131070 < 4294901760" using n(1) by simp
  from csum_addrs_sum [OF this, of am sa da] n
  have s2: "unat s2 = unat s1 + addrs_sum am sa da addrlen" "unat s2 < 2148597760"
    using loop(2) by (simp_all add: s2_def)
  have s3: "unat s3 = unat s2 + unat (htons (ucast pr))"
    unfolding s3_def by (rule unat_add16) (use s2(2) in simp)
  then have "unat s3 < 2148663296" using s2(2) unat_u16_less [of "htons (ucast pr)"] by simp
  then have "unat s4 = unat s3 + unat (htons (of_nat len))"
    unfolding s4_def by (intro unat_add16) simp
  then have "unat s4 = unat s1 + q"
    using s2(1) s3 by (simp add: q_def pseudo_sum_def)
  then have fold: "unat (csum_fold s4) = oc_norm (words_sum m h len + q)"
    by (simp add: csum_fold_norm loop(1))
  then have "unat (csum_fold s4) \<le> 65535" by (simp only: oc_norm_le)
  from unat_not_low [OF this] fold show ?thesis
    by (simp add: tcp_checksum_def Let_def s1_def s2_def s3_def s4_def q_def)
qed

lemma ip_checksum_value: "unat (ip_checksum m h len) = 65535 - oc_norm (words_sum m h len)"
proof -
  have fold: "unat (csum_fold (csum_loop m h len 0)) = oc_norm (words_sum m h len)"
    using csum_loop_norm [of 0 m h len 0] by (simp add: csum_fold_norm)
  then have "unat (csum_fold (csum_loop m h len 0)) \<le> 65535" by (simp only: oc_norm_le)
  from unat_not_low [OF this] fold show ?thesis by (simp add: ip_checksum_def)
qed

lemma words_sum_cong:
  "(\<And>j. i \<le> j \<Longrightarrow> j < i + len \<Longrightarrow> m j = m' j) \<Longrightarrow> words_sum m i len = words_sum m' i len"
proof (induction m i len rule: words_sum.induct)
  case (1 m i len)
  show ?case
  proof (cases "1 < len")
    case True
    have "words_sum m (i + 2) (len - 2) = words_sum m' (i + 2) (len - 2)"
      by (rule "1.IH" [OF True]) (use "1.prems" True in auto)
    moreover have "rd16 m i = rd16 m' i"
      using "1.prems" [of i] "1.prems" [of "i + 1"] True by (simp add: rd16_def)
    ultimately show ?thesis
      using True by (simp add: words_sum_unfold [of m i len] words_sum_unfold [of m' i len])
  next
    case False
    then show ?thesis
      using "1.prems" [of i] by (simp add: words_sum_unfold [of m i len] words_sum_unfold [of m' i len])
  qed
qed

text \<open>Storing a 16-bit field at an even offset changes the sum by that field.\<close>

lemma words_sum_wr16:
  "2 * k + 1 < len \<Longrightarrow>
   words_sum (wr16 (i + 2 * k) w m) i len + unat (rd16 m (i + 2 * k)) = words_sum m i len + unat w"
proof (induction k arbitrary: i len)
  case 0
  have "words_sum (wr16 i w m) (i + 2) (len - 2) = words_sum m (i + 2) (len - 2)"
    by (rule words_sum_cong) (simp add: buf_simps)
  with 0 show ?case
    by (simp add: words_sum_unfold [of _ i len] buf_simps)
next
  case (Suc k)
  have "rd16 (wr16 (i + 2 * Suc k) w m) i = rd16 m i" by (rule rd16_wr16_other) simp
  with Suc.IH [of "len - 2" "i + 2"] Suc.prems show ?case
    by (simp add: words_sum_unfold [of _ i len])
qed

text \<open>What a receiver checks: the one's complement sum over everything is all ones.\<close>

definition transport_valid :: "mem \<Rightarrow> nat \<Rightarrow> nat \<Rightarrow> mem \<Rightarrow> nat \<Rightarrow> nat \<Rightarrow> nat \<Rightarrow> u8 \<Rightarrow> bool" where
  "transport_valid m t len am sa da addrlen pr \<longleftrightarrow>
     oc_norm (words_sum m t len + pseudo_sum am sa da addrlen pr len) = 65535"

lemma oc_norm_complement:
  assumes "c = 65535 - oc_norm n"
  shows "oc_norm (n + c) = 65535"
proof -
  have "oc_norm (n + c) = oc_norm (oc_norm n + c)" by (simp add: oc_norm_add)
  also have "oc_norm n + c = 65535" using oc_norm_le [of n] assms by simp
  finally show ?thesis by (simp add: oc_norm_def)
qed

lemma stored_checksum_valid:
  assumes "2 * k + 1 < len" and "rd16 m (t + 2 * k) = 0" and "even addrlen" and "addrlen \<le> 16"
    and "pseudo_sum am' sa da addrlen pr len = pseudo_sum am sa da addrlen pr len"
  shows "transport_valid (wr16 (t + 2 * k) (tcp_checksum m t len am sa da addrlen pr) m) t len
    am' sa da addrlen pr"
proof -
  let ?c = "tcp_checksum m t len am sa da addrlen pr"
  have "words_sum (wr16 (t + 2 * k) ?c m) t len = words_sum m t len + unat ?c"
    using words_sum_wr16 [OF assms(1), of t ?c m] assms(2) by simp
  then show ?thesis
    using oc_norm_complement [OF tcp_checksum_value [OF assms(3,4), of m t len am sa da pr]]
    by (simp add: transport_valid_def assms(5) ac_simps)
qed

end
