(* ===== verification/Packet_Props.thy ===== *)
theory Packet_Props
  imports Checksum_Props
begin

text \<open>
  Unpacking lays a packet out for its translation, and \<open>updateChecksum\<close> leaves a transport checksum that makes the
  sum over segment and pseudo-header come out right.
\<close>

section \<open>Unpacked packets\<close>

text \<open>A packet on its way to IPv4 (received as IPv6), and one on its way to IPv6.\<close>

definition out4 :: "packet \<Rightarrow> bool" where
  "out4 p \<longleftrightarrow>
     ipVersionBefore p = 6 \<and> ip6_hdr p = InI 0 \<and> ip_hdr p = InO 0 \<and> ip_len p = 20 \<and>
     (tcp_hdr p, udp_hdr p) \<in> {(None, None), (Some 20, None), (None, Some 20)} \<and>
     0 \<le> transport_len p \<and> obuf_len p = 20 + transport_len p"

definition out6 :: "packet \<Rightarrow> bool" where
  "out6 p \<longleftrightarrow>
     ipVersionBefore p = 4 \<and> ip_hdr p = InI 0 \<and> ip6_hdr p = InO 0 \<and> ip_len p = 40 \<and>
     (tcp_hdr p, udp_hdr p) \<in> {(None, None), (Some 40, None), (None, Some 40)} \<and>
     0 \<le> transport_len p \<and> obuf_len p = 40 + transport_len p"

lemma handleTransportLayer_fields [simp]:
  "ibuf (handleTransportLayer o1 o2 pr p) = ibuf p" "obuf (handleTransportLayer o1 o2 pr p) = obuf p"
  "ibuf_len (handleTransportLayer o1 o2 pr p) = ibuf_len p"
  "hw_protocol (handleTransportLayer o1 o2 pr p) = hw_protocol p"
  "ipVersionBefore (handleTransportLayer o1 o2 pr p) = ipVersionBefore p"
  "ip_hdr (handleTransportLayer o1 o2 pr p) = ip_hdr p"
  "ip6_hdr (handleTransportLayer o1 o2 pr p) = ip6_hdr p"
  "ip_len (handleTransportLayer o1 o2 pr p) = ip_len p"
  "obuf_len (handleTransportLayer o1 o2 pr p) = obuf_len p"
  "transport_len (handleTransportLayer o1 o2 pr p) = obuf_len p - int o1"
  "tcp_hdr (handleTransportLayer o1 o2 pr p) = (if pr = IPPROTO_TCP then Some o1 else tcp_hdr p)"
  "udp_hdr (handleTransportLayer o1 o2 pr p) = (if pr = IPPROTO_UDP then Some o1 else udp_hdr p)"
  by (auto simp: handleTransportLayer_def Let_def IPPROTO_TCP_def IPPROTO_UDP_def)

text \<open>What a packet fresh from its constructor becomes.\<close>

lemma unpack6:
  assumes "hw_protocol p = ETHERTYPE_IPV6" and "tcp_hdr p = None" and "udp_hdr p = None"
    and "40 \<le> ibuf_len p" and "ibuf_len p \<le> 65536"
  obtains p' where "unpack p = Some p'" "out4 p'" "ibuf p' = ibuf p"
    "hw_protocol p' = hw_protocol p" "transport_len p' = ibuf_len p - 40"
    "obuf p' = memcpy (obuf p) 20 (ibuf p) 40 (nat (ibuf_len p - 40))"
    "isTCP p' \<longleftrightarrow> ibuf p 6 = IPPROTO_TCP" "isUDP p' \<longleftrightarrow> ibuf p 6 = IPPROTO_UDP"
proof -
  have "\<exists>p'. unpack p = Some p' \<and> out4 p' \<and> ibuf p' = ibuf p \<and> hw_protocol p' = hw_protocol p \<and>
      transport_len p' = ibuf_len p - 40 \<and>
      obuf p' = memcpy (obuf p) 20 (ibuf p) 40 (nat (ibuf_len p - 40)) \<and>
      (isTCP p' \<longleftrightarrow> ibuf p 6 = IPPROTO_TCP) \<and> (isUDP p' \<longleftrightarrow> ibuf p 6 = IPPROTO_UDP)"
    using assms
    by (auto simp: unpack_def copy_transport_def Let_def BUF_LEN_def out4_def isTCP_def isUDP_def
        IPPROTO_TCP_def IPPROTO_UDP_def)
  with that show ?thesis by blast
qed

lemma unpack4:
  assumes "hw_protocol p = ETHERTYPE_IP" and "tcp_hdr p = None" and "udp_hdr p = None"
    and "20 \<le> ibuf_len p" and "ibuf_len p \<le> 65516"
  obtains p' where "unpack p = Some p'" "out6 p'" "ibuf p' = ibuf p"
    "hw_protocol p' = hw_protocol p" "transport_len p' = ibuf_len p - 20"
    "obuf p' = memcpy (obuf p) 40 (ibuf p) 20 (nat (ibuf_len p - 20))"
    "isTCP p' \<longleftrightarrow> ibuf p 9 = IPPROTO_TCP" "isUDP p' \<longleftrightarrow> ibuf p 9 = IPPROTO_UDP"
proof -
  have "\<exists>p'. unpack p = Some p' \<and> out6 p' \<and> ibuf p' = ibuf p \<and> hw_protocol p' = hw_protocol p \<and>
      transport_len p' = ibuf_len p - 20 \<and>
      obuf p' = memcpy (obuf p) 40 (ibuf p) 20 (nat (ibuf_len p - 20)) \<and>
      (isTCP p' \<longleftrightarrow> ibuf p 9 = IPPROTO_TCP) \<and> (isUDP p' \<longleftrightarrow> ibuf p 9 = IPPROTO_UDP)"
    using assms
    by (auto simp: unpack_def copy_transport_def Let_def BUF_LEN_def out6_def isTCP_def isUDP_def
        IPPROTO_TCP_def IPPROTO_UDP_def ETHERTYPE_IP_def ETHERTYPE_IPV6_def)
  with that show ?thesis by blast
qed

section \<open>Checksums of a translated packet\<close>

lemma pseudo_sum_cong:
  "(\<And>j. sa \<le> j \<Longrightarrow> j < sa + al \<Longrightarrow> m j = m' j) \<Longrightarrow> (\<And>j. da \<le> j \<Longrightarrow> j < da + al \<Longrightarrow> m j = m' j) \<Longrightarrow>
   pseudo_sum m sa da al pr len = pseudo_sum m' sa da al pr len"
  unfolding pseudo_sum_def addrs_sum_def
  using words_sum_cong [of sa al m m'] words_sum_cong [of da al m m'] by simp

lemma pseudo_sum_wr16:
  "i + 1 < sa \<and> i + 1 < da \<or> sa + al \<le> i \<and> da + al \<le> i \<Longrightarrow>
   pseudo_sum (wr16 i w m) sa da al pr len = pseudo_sum m sa da al pr len"
  by (rule pseudo_sum_cong) (auto simp: wr16_def)

lemma words_sum_wr16_before: "i + 1 < t \<Longrightarrow> words_sum (wr16 i w m) t len = words_sum m t len"
  by (rule words_sum_cong) (auto simp: wr16_def)

lemma transport_valid_wr16_before:
  "i + 1 < t \<Longrightarrow> i + 1 < sa \<Longrightarrow> i + 1 < da \<Longrightarrow>
   transport_valid (wr16 i w m) t len (wr16 i w m) sa da al pr = transport_valid m t len m sa da al pr"
  by (simp add: transport_valid_def words_sum_wr16_before pseudo_sum_wr16)

text \<open>The memory after the checksum has been stored, with the addresses before the segment.\<close>

lemma stored_check_valid:
  assumes "2 * k + 1 < len" and "even al" and "al \<le> 16" and "sa + al \<le> t" and "da + al \<le> t"
    and "m = wr16 (t + 2 * k) 0 m0"
  shows "transport_valid (wr16 (t + 2 * k) (tcp_checksum m t len m sa da al pr) m) t len
    (wr16 (t + 2 * k) (tcp_checksum m t len m sa da al pr) m) sa da al pr"
  by (rule stored_checksum_valid [OF assms(1) _ assms(2,3)])
    (use assms in \<open>simp_all add: buf_simps pseudo_sum_wr16\<close>)

text \<open>The protocol of a packet and where its checksum ends.\<close>

definition transport_proto :: "packet \<Rightarrow> u8" where
  "transport_proto p = (if isTCP p then IPPROTO_TCP else IPPROTO_UDP)"

definition check_end :: "packet \<Rightarrow> int" where
  "check_end p = (if isTCP p then 18 else 8)"

definition check_at :: "packet \<Rightarrow> nat" where
  "check_at p = nat (ip_len p) + (if isTCP p then 16 else 6)"

lemma wr16_wr16_same [buf_simps]: "wr16 i a (wr16 i b m) = wr16 i a m"
  by (simp add: wr16_def fun_upd_twist)

text \<open>
  The packet \<open>updateChecksum\<close> makes: the two checksum fields are the only bytes it changes, and the
  transport checksum makes a receiver's sum come out right.  \<open>check_sum6\<close> is the sum over the IPv6 pseudo-header and the
  segment without its checksum.
\<close>

definition check_sum6 :: "packet \<Rightarrow> mem \<Rightarrow> nat" where
  "check_sum6 p m = words_sum (wr16 (check_at p) 0 m) 40 (nat (transport_len p)) +
     pseudo_sum m 8 24 16 (transport_proto p) (nat (transport_len p))"

lemma stored_check_sum6:
  assumes "44 \<le> check_at p" and "m = wr16 (check_at p) 0 m0"
    and "c = tcp_checksum m 40 (nat (transport_len p)) m 8 24 16 (transport_proto p)"
  shows "unat c = 65535 - oc_norm (check_sum6 p (wr16 (check_at p) c m))"
  unfolding assms(3) check_sum6_def
  by (subst tcp_checksum_value) (use assms(1,2) in \<open>simp_all add: wr16_wr16_same pseudo_sum_wr16\<close>)

lemma updateChecksum4:
  assumes "out4 p" and "isTCP p \<or> isUDP p" and "check_end p \<le> transport_len p"
  obtains h c where
    "updateChecksum p = Some (p\<lparr>obuf := wr16 10 h (wr16 (check_at p) c (obuf p))\<rparr>)"
    "transport_valid (wr16 10 h (wr16 (check_at p) c (obuf p))) 20 (nat (transport_len p))
       (wr16 10 h (wr16 (check_at p) c (obuf p))) 12 16 4 (transport_proto p)"
proof (cases "isTCP p")
  case True
  let ?m = "wr16 36 0 (obuf p)" and ?n = "nat (transport_len p)"
  let ?c = "tcp_checksum ?m 20 ?n ?m 12 16 4 IPPROTO_TCP"
  have "17 < ?n" using assms(3) True by (simp add: check_end_def)
  then have "transport_valid (wr16 36 ?c ?m) 20 ?n (wr16 36 ?c ?m) 12 16 4 IPPROTO_TCP"
    using stored_check_valid [of 8 ?n 4 12 20 16 ?m "obuf p" IPPROTO_TCP] by simp
  then show ?thesis
    using that [of "ip_checksum (wr16 36 ?c (obuf p)) 0 (nat (transport_len p + 20))" ?c] True assms(1)
    by (auto simp: updateChecksum_def clear_checks_def transport_check_def ip_check_def Let_def out4_def
        isTCP_def load_ptr_def transport_valid_wr16_before transport_proto_def check_at_def wr16_wr16_same)
next
  case False
  let ?m = "wr16 26 0 (obuf p)" and ?n = "nat (transport_len p)"
  let ?c = "tcp_checksum ?m 20 ?n ?m 12 16 4 IPPROTO_UDP"
  have "7 < ?n" using assms(3) False by (simp add: check_end_def)
  then have "transport_valid (wr16 26 ?c ?m) 20 ?n (wr16 26 ?c ?m) 12 16 4 IPPROTO_UDP"
    using stored_check_valid [of 3 ?n 4 12 20 16 ?m "obuf p" IPPROTO_UDP] by simp
  then show ?thesis
    using that [of "ip_checksum (wr16 26 ?c (obuf p)) 0 (nat (transport_len p + 20))" ?c] False assms(1,2)
    by (auto simp: updateChecksum_def clear_checks_def transport_check_def ip_check_def Let_def out4_def
        isTCP_def isUDP_def load_ptr_def transport_valid_wr16_before transport_proto_def check_at_def
        wr16_wr16_same)
qed

lemma updateChecksum6:
  assumes "out6 p" and "isTCP p \<or> isUDP p" and "check_end p \<le> transport_len p"
  obtains c where
    "updateChecksum p = Some (p\<lparr>obuf := wr16 (check_at p) c (obuf p)\<rparr>)"
    "transport_valid (wr16 (check_at p) c (obuf p)) 40 (nat (transport_len p))
       (wr16 (check_at p) c (obuf p)) 8 24 16 (transport_proto p)"
    "unat c = 65535 - oc_norm (check_sum6 p (wr16 (check_at p) c (obuf p)))"
proof (cases "isTCP p")
  case True
  let ?m = "wr16 56 0 (obuf p)" and ?n = "nat (transport_len p)"
  let ?c = "tcp_checksum ?m 40 ?n ?m 8 24 16 IPPROTO_TCP"
  have "17 < ?n" using assms(3) True by (simp add: check_end_def)
  then have "transport_valid (wr16 56 ?c ?m) 40 ?n (wr16 56 ?c ?m) 8 24 16 IPPROTO_TCP"
    using stored_check_valid [of 8 ?n 16 8 40 24 ?m "obuf p" IPPROTO_TCP] by simp
  moreover have p: "check_at p = 56" "transport_proto p = IPPROTO_TCP"
    using True assms(1) by (simp_all add: check_at_def transport_proto_def out6_def)
  moreover have "unat ?c = 65535 - oc_norm (check_sum6 p (wr16 56 ?c ?m))"
    using stored_check_sum6 [of p ?m "obuf p" ?c] by (simp add: p)
  ultimately show ?thesis using that [of ?c] True assms(1)
    by (auto simp: updateChecksum_def clear_checks_def transport_check_def Let_def out6_def
        isTCP_def load_ptr_def wr16_wr16_same)
next
  case False
  let ?m = "wr16 46 0 (obuf p)" and ?n = "nat (transport_len p)"
  let ?c = "tcp_checksum ?m 40 ?n ?m 8 24 16 IPPROTO_UDP"
  have "7 < ?n" using assms(3) False by (simp add: check_end_def)
  then have "transport_valid (wr16 46 ?c ?m) 40 ?n (wr16 46 ?c ?m) 8 24 16 IPPROTO_UDP"
    using stored_check_valid [of 3 ?n 16 8 40 24 ?m "obuf p" IPPROTO_UDP] by simp
  moreover have p: "check_at p = 46" "transport_proto p = IPPROTO_UDP"
    using False assms(1) by (simp_all add: check_at_def transport_proto_def out6_def)
  moreover have "unat ?c = 65535 - oc_norm (check_sum6 p (wr16 46 ?c ?m))"
    using stored_check_sum6 [of p ?m "obuf p" ?c] by (simp add: p)
  ultimately show ?thesis using that [of ?c] False assms(1,2)
    by (auto simp: updateChecksum_def clear_checks_def transport_check_def Let_def out6_def
        isTCP_def isUDP_def load_ptr_def wr16_wr16_same)
qed

text \<open>
  C13: \<open>updateChecksum\<close>, in both directions: for every unpacked TCP or UDP segment long enough to hold
  its checksum field, the checksum it stores makes the receiver's check over segment and pseudo-header
  of the outgoing IP version succeed, and it changes no byte but those of the checksum fields.
\<close>

theorem updateChecksum_valid:
  assumes "out4 p \<or> out6 p" and "isTCP p \<or> isUDP p" and "check_end p \<le> transport_len p"
  shows "\<exists>m. updateChecksum p = Some (p\<lparr>obuf := m\<rparr>) \<and>
    (if out4 p then transport_valid m 20 (nat (transport_len p)) m 12 16 4 (transport_proto p)
     else transport_valid m 40 (nat (transport_len p)) m 8 24 16 (transport_proto p)) \<and>
    {j. m j \<noteq> obuf p j} \<subseteq> {check_at p, check_at p + 1} \<union> (if out4 p then {10, 11} else {})"
proof (cases "out4 p")
  case True
  from updateChecksum4 [OF True assms(2,3)] obtain h c where
    *: "updateChecksum p = Some (p\<lparr>obuf := wr16 10 h (wr16 (check_at p) c (obuf p))\<rparr>)"
    "transport_valid (wr16 10 h (wr16 (check_at p) c (obuf p))) 20 (nat (transport_len p))
       (wr16 10 h (wr16 (check_at p) c (obuf p))) 12 16 4 (transport_proto p)" .
  show ?thesis
    by (rule exI [of _ "wr16 10 h (wr16 (check_at p) c (obuf p))"])
      (use * True in \<open>auto simp: wr16_def\<close>)
next
  case False
  with assms(1) have "out6 p" by simp
  from updateChecksum6 [OF this assms(2,3)] obtain c where
    *: "updateChecksum p = Some (p\<lparr>obuf := wr16 (check_at p) c (obuf p)\<rparr>)"
    "transport_valid (wr16 (check_at p) c (obuf p)) 40 (nat (transport_len p))
       (wr16 (check_at p) c (obuf p)) 8 24 16 (transport_proto p)" .
  show ?thesis
    by (rule exI [of _ "wr16 (check_at p) c (obuf p)"]) (use * False in \<open>auto simp: wr16_def\<close>)
qed

text \<open>
  An empty UDP datagram from port 53 to port 53: from 2001::1 to 2003::10.0.0.2 over IPv6, and the
  answer from 10.0.0.2 to 10.20.30.40, port 32000, over IPv4.
\<close>

definition udp6_bytes :: "u8 list" where
  "udp6_bytes =
     [0x60, 0, 0, 0, 0, 8, 17, 64,
      0x20, 1, 0, 0, 0, 0, 0, 0, 0, 0, 0, 0, 0, 0, 0, 1,
      0x20, 3, 0, 0, 0, 0, 0, 0, 0, 0, 0, 0, 10, 0, 0, 2,
      0, 53, 0, 53, 0, 8, 0, 0]"

definition udp4_bytes :: "u8 list" where
  "udp4_bytes =
     [0x45, 0, 0, 28, 0, 0, 0, 0, 64, 17, 0, 0, 10, 0, 0, 2, 10, 20, 30, 40,
      0, 53, 0x7D, 0, 0, 8, 0, 0]"

definition received :: "u16 \<Rightarrow> u8 list \<Rightarrow> packet" where
  "received hw bs =
     \<lparr>hw_protocol = hw, pkt_id = 0, ibuf = (\<lambda>i. if i < length bs then bs ! i else 0),
      ibuf_len = int (length bs), obuf = (\<lambda>_. 0), port_t = 0, obuf_len = 0, transport_len = 0,
      ip_len = 0, ipVersionBefore = 0, ip_hdr = Unset, ip6_hdr = Unset, tcp_hdr = None, tcp_old = None,
      udp_hdr = None, udp_old = None, nxt_seq = 0, cur_seq = 0\<rparr>"

lemma received_fields [simp]:
  "hw_protocol (received hw bs) = hw" "ibuf_len (received hw bs) = int (length bs)"
  "tcp_hdr (received hw bs) = None" "udp_hdr (received hw bs) = None"
  "ibuf (received hw bs) i = (if i < length bs then bs ! i else 0)"
  by (simp_all add: received_def)

lemma length_udp_bytes [simp]: "length udp6_bytes = 48" "length udp4_bytes = 28"
  by (simp_all add: udp6_bytes_def udp4_bytes_def)

definition demo_out4 :: packet where
  "demo_out4 = the (unpack (received ETHERTYPE_IPV6 udp6_bytes))"

definition demo_out6 :: packet where
  "demo_out6 = the (unpack (received ETHERTYPE_IP udp4_bytes))"

lemma demo_out4_props:
  "out4 demo_out4" "isUDP demo_out4" "hw_protocol demo_out4 = ETHERTYPE_IPV6"
  "transport_len demo_out4 = 8" "ibuf demo_out4 = ibuf (received ETHERTYPE_IPV6 udp6_bytes)"
  "check_end demo_out4 = 8"
proof -
  from unpack6 [of "received ETHERTYPE_IPV6 udp6_bytes"] obtain p' where
    *: "unpack (received ETHERTYPE_IPV6 udp6_bytes) = Some p'" "out4 p'"
    "ibuf p' = ibuf (received ETHERTYPE_IPV6 udp6_bytes)"
    "hw_protocol p' = hw_protocol (received ETHERTYPE_IPV6 udp6_bytes)"
    "transport_len p' = ibuf_len (received ETHERTYPE_IPV6 udp6_bytes) - 40"
    "isTCP p' \<longleftrightarrow> ibuf (received ETHERTYPE_IPV6 udp6_bytes) 6 = IPPROTO_TCP"
    "isUDP p' \<longleftrightarrow> ibuf (received ETHERTYPE_IPV6 udp6_bytes) 6 = IPPROTO_UDP"
    by (auto simp: ETHERTYPE_IPV6_def)
  have "udp6_bytes ! 6 = IPPROTO_UDP" by (simp add: udp6_bytes_def IPPROTO_UDP_def)
  with * show "out4 demo_out4" "isUDP demo_out4" "hw_protocol demo_out4 = ETHERTYPE_IPV6"
    "transport_len demo_out4 = 8" "ibuf demo_out4 = ibuf (received ETHERTYPE_IPV6 udp6_bytes)"
    "check_end demo_out4 = 8"
    by (simp_all add: demo_out4_def check_end_def IPPROTO_TCP_def IPPROTO_UDP_def)
qed

lemma demo_out6_props:
  "out6 demo_out6" "isUDP demo_out6" "hw_protocol demo_out6 = ETHERTYPE_IP"
  "transport_len demo_out6 = 8" "ibuf demo_out6 = ibuf (received ETHERTYPE_IP udp4_bytes)"
  "obuf demo_out6 = memcpy (\<lambda>_. 0) 40 (ibuf (received ETHERTYPE_IP udp4_bytes)) 20 8"
  "check_end demo_out6 = 8"
proof -
  from unpack4 [of "received ETHERTYPE_IP udp4_bytes"] obtain p' where
    *: "unpack (received ETHERTYPE_IP udp4_bytes) = Some p'" "out6 p'"
    "ibuf p' = ibuf (received ETHERTYPE_IP udp4_bytes)"
    "hw_protocol p' = hw_protocol (received ETHERTYPE_IP udp4_bytes)"
    "transport_len p' = ibuf_len (received ETHERTYPE_IP udp4_bytes) - 20"
    "obuf p' = memcpy (obuf (received ETHERTYPE_IP udp4_bytes)) 40
       (ibuf (received ETHERTYPE_IP udp4_bytes)) 20 (nat (ibuf_len (received ETHERTYPE_IP udp4_bytes) - 20))"
    "isTCP p' \<longleftrightarrow> ibuf (received ETHERTYPE_IP udp4_bytes) 9 = IPPROTO_TCP"
    "isUDP p' \<longleftrightarrow> ibuf (received ETHERTYPE_IP udp4_bytes) 9 = IPPROTO_UDP"
    by (auto simp: ETHERTYPE_IP_def)
  have "udp4_bytes ! 9 = IPPROTO_UDP" by (simp add: udp4_bytes_def IPPROTO_UDP_def)
  with * show "out6 demo_out6" "isUDP demo_out6" "hw_protocol demo_out6 = ETHERTYPE_IP"
    "transport_len demo_out6 = 8" "ibuf demo_out6 = ibuf (received ETHERTYPE_IP udp4_bytes)"
    "obuf demo_out6 = memcpy (\<lambda>_. 0) 40 (ibuf (received ETHERTYPE_IP udp4_bytes)) 20 8"
    "check_end demo_out6 = 8"
    by (simp_all add: demo_out6_def check_end_def IPPROTO_TCP_def IPPROTO_UDP_def received_def)
qed

theorem updateChecksum_valid_witness:
  "(out4 demo_out4 \<or> out6 demo_out4) \<and> (isTCP demo_out4 \<or> isUDP demo_out4) \<and>
   check_end demo_out4 \<le> transport_len demo_out4 \<and>
   (\<exists>m. updateChecksum demo_out4 = Some (demo_out4\<lparr>obuf := m\<rparr>) \<and>
      transport_valid m 20 (nat (transport_len demo_out4)) m 12 16 4 (transport_proto demo_out4))"
proof -
  note d = demo_out4_props
  have "\<exists>m. updateChecksum demo_out4 = Some (demo_out4\<lparr>obuf := m\<rparr>) \<and>
      (if out4 demo_out4 then transport_valid m 20 (nat (transport_len demo_out4)) m 12 16 4 (transport_proto demo_out4)
       else transport_valid m 40 (nat (transport_len demo_out4)) m 8 24 16 (transport_proto demo_out4)) \<and>
      {j. m j \<noteq> obuf demo_out4 j} \<subseteq> {check_at demo_out4, check_at demo_out4 + 1} \<union>
        (if out4 demo_out4 then {10, 11} else {})"
    by (rule updateChecksum_valid) (use d in auto)
  with d show ?thesis by auto
qed

end
