(* ===== verification/Nat64.thy ===== *)
theory Nat64
  imports Packet_Props
begin

text \<open>
  \<open>nat.h\<close>, \<open>nat.cc\<close> and \<open>socket.cc\<close>: the translator.  A \<open>NAT\<close> object belongs to one thread; the
  global \<open>sm\<close>, the raw sockets and the static counters of \<open>translate\<close> are the world it acts on.  The
  application-level part \<open>doApp\<close>, whose call is commented out in \<open>translate\<close>, is in \<open>App_Layer\<close>.
\<close>

section \<open>Sockets\<close>

text \<open>What was handed to \<open>sendto\<close>, and where it was to go.\<close>

datatype datagram = Sent4 (sent_bytes: "u8 list") ipv4addr | Sent6 (sent_bytes: "u8 list") ipv6addr

record nat_stats =
  st_total :: int
  st_app :: int
  st_n64 :: int
  st_parse :: int
  st_mo :: int
  st_be :: int

record world =
  w_sm :: state_manager
  wire :: "datagram list"
  stats :: nat_stats

text \<open>\<open>sendto\<close> is the system call's result; a short or failed send makes \<open>send\<close> answer -1.\<close>

definition send4 :: "(datagram \<Rightarrow> int) \<Rightarrow> mem \<Rightarrow> int \<Rightarrow> ipv4addr \<Rightarrow> world \<Rightarrow> int \<times> world" where
  "send4 sendto buf len daddr w =
     (let d = Sent4 (bytes_at buf 0 (nat len)) daddr
      in (if sendto d \<noteq> len then -1 else 0, w\<lparr>wire := wire w @ [d]\<rparr>))"

text \<open>The flag \<open>keep\<close> of the IPv6 socket has no effect: the code it would guard is switched off.\<close>

definition send6 :: "(datagram \<Rightarrow> int) \<Rightarrow> mem \<Rightarrow> int \<Rightarrow> ipv6addr \<Rightarrow> bool \<Rightarrow> world \<Rightarrow> int \<times> world" where
  "send6 sendto buf len daddr keep w =
     (let d = Sent6 (bytes_at buf 0 (nat len)) daddr
      in (if sendto d \<noteq> len then -1 else 0, w\<lparr>wire := wire w @ [d]\<rparr>))"

section \<open>Building headers\<close>

definition make_ip4pkt :: "u16 \<Rightarrow> ipv4addr \<Rightarrow> ipv4addr \<Rightarrow> u8 \<Rightarrow> mem \<Rightarrow> mem" where
  "make_ip4pkt payload_len ip4saddr ip4daddr protocol' header =
     (let m0 = memset header 0 0 20;
          m1 = m0(0 := 0x45, 1 := 0);
          m2 = wr16 2 (ntohs payload_len) m1;
          m3 = wr16 6 0 (wr16 4 0 m2);
          m4 = m3(8 := 64, 9 := protocol');
          m5 = wr16 10 0 m4
      in wr32 12 (getInt ip4saddr) (wr32 16 (getInt ip4daddr) m5))"

definition make_ip6pkt :: "u16 \<Rightarrow> ipv6addr \<Rightarrow> ipv6addr \<Rightarrow> u8 \<Rightarrow> mem \<Rightarrow> mem" where
  "make_ip6pkt payload_len ip6saddr ip6daddr protocol' header =
     (let m0 = memset header 0 0 20;
          m1 = wr32 0 0x60 m0;
          m2 = wr16 4 (ntohs payload_len) m1;
          m3 = m2(7 := 64, 6 := protocol')
      in wr_in6 24 (getIn6Addr ip6daddr) (wr_in6 8 (getIn6Addr ip6saddr) m3))"

section \<open>The NAT object\<close>

record nat_obj =
  nat_tid :: int
  nat_ip4p :: ip4port
  nat_ip6p :: ip6port
  exttcpflow :: FlowPtr
  modified :: bool

text \<open>
  \<open>begin\<close> finds the flow.  Out of pool pairs, \<open>doMapping\<close> answers a null pointer, which the code
  dereferences.
\<close>

definition nat_begin :: "libc \<Rightarrow> packet \<Rightarrow> nat_obj \<Rightarrow> state_manager \<Rightarrow> (int \<times> nat_obj \<times> state_manager) option" where
  "nat_begin L p n s =
     (if getIPVersion p = 4
      then do {
        src \<leftarrow> load_in6 p (ip6_hdr p) 8;
        dst \<leftarrow> load_in6 p (ip6_hdr p) 24;
        let (fp, s1) = doMapping L (IP6Port (IPv6Addr src) (getSourcePort p)) (IPv6Addr dst) s;
        fid \<leftarrow> fp;
        let s2 = (if tid (flow_at s1 fid) < 0 then upd_flow fid (\<lambda>f. f\<lparr>tid := nat_tid n\<rparr>) s1 else s1);
        Some (0, n\<lparr>nat_ip4p := ip4p (flow_at s2 fid)\<rparr>, setCurIPv6SrvAddr (IPv6Addr dst) s2) }
      else do {
        daddr \<leftarrow> load32 p (ip_hdr p) 16;
        saddr \<leftarrow> load32 p (ip_hdr p) 12;
        (case getMapping4 (IP4Port (IPv4Addr daddr) (getDestPort p)) (IPv4Addr saddr) s of
           None \<Rightarrow> Some (1, n, s)
         | Some fid \<Rightarrow> Some (0, n\<lparr>nat_ip6p := ip6p (flow_at s fid)\<rparr>, s)) })"

definition set_port :: "nat \<Rightarrow> u16 \<Rightarrow> packet \<Rightarrow> packet" where
  "set_port off port p =
     (let p1 = (case tcp_hdr p of Some t \<Rightarrow> p\<lparr>obuf := wr16 (t + off) port (obuf p)\<rparr> | None \<Rightarrow> p)
      in case udp_hdr p1 of Some u \<Rightarrow> p1\<lparr>obuf := wr16 (u + off) port (obuf p1)\<rparr> | None \<Rightarrow> p1)"

definition doSPort :: "nat_obj \<Rightarrow> packet \<Rightarrow> packet" where
  "doSPort n p = (if getIPVersion p = 4 then set_port 0 (getPort4 (nat_ip4p n)) p else p)"

definition doDPort :: "nat_obj \<Rightarrow> packet \<Rightarrow> packet" where
  "doDPort n p = (if getIPVersion p = 6 then set_port 2 (getPort6 (nat_ip6p n)) p else p)"

definition doIP :: "nat_obj \<Rightarrow> state_manager \<Rightarrow> packet \<Rightarrow> packet option" where
  "doIP n s p =
     (if getIPVersion p = 4
      then do {
        dst \<leftarrow> load_in6 p (ip6_hdr p) 24;
        nxt \<leftarrow> load8 p (ip6_hdr p) 6;
        Some (p\<lparr>obuf := make_ip4pkt (of_int (transport_len p)) (getIP4 (nat_ip4p n))
                           (getServerAddr4 (IPv6Addr dst)) nxt (obuf p)\<rparr>) }
      else do {
        saddr \<leftarrow> load32 p (ip_hdr p) 12;
        pr \<leftarrow> load8 p (ip_hdr p) 9;
        Some (p\<lparr>obuf := make_ip6pkt (of_int (transport_len p)) (getServerAddr6 (IPv4Addr saddr) s)
                           (getIP6 (nat_ip6p n)) pr (obuf p)\<rparr>) })"

definition nat_finish :: "packet \<Rightarrow> packet option" where
  "nat_finish p = updateChecksum p"

text \<open>\<open>doExtraTCP\<close>: turns the packet just sent into one that carries what did not fit it.\<close>

definition doExtraTCP :: "packet \<Rightarrow> nat_obj \<Rightarrow> state_manager \<Rightarrow> (bool \<times> packet \<times> state_manager) option" where
  "doExtraTCP p n s =
     (let dest = getDEST p; len = transport_len p; hl = getTransportHeaderLen p in
      case exttcpflow n of
        None \<Rightarrow> Some (False, p, s)
      | Some fid \<Rightarrow>
          (case tcp_hdr p of
             None \<Rightarrow> Some (False, p, s)
           | Some t \<Rightarrow>
               if len \<le> hl \<or> ignored (flow_at s fid) then Some (False, p, s)
               else
                 (let tr = trail (flow_at s fid) dest; newlen = length tr; at = t + nat hl in
                  if 0 < newlen
                  then if BUF_LEN < int (at + newlen) then None
                       else let p1 = p\<lparr>obuf := memcpy (obuf p) at (\<lambda>i. byte_of (tr ! i)) 0 newlen\<rparr>;
                                p2 = setTransportLen (int newlen + hl) p1;
                                p3 = p2\<lparr>obuf := wr32 (t + 4)
                                        (ntohl (ntohl (rd32 (obuf p2) (t + 4)) + of_int len - of_int hl)) (obuf p2)\<rparr>;
                                s1 = upd_flow fid (addOffset dest (int newlen)) s;
                                s2 = upd_flow fid (\<lambda>f. f\<lparr>trail := (trail f)(dest := [])\<rparr>) s1
                            in Some (True, p3, s2)
                  else Some (False, p, s))))"

section \<open>translate\<close>

text \<open>The range check; an IPv4 address that was never seen gets a table entry.\<close>

definition dest_in_range :: "packet \<Rightarrow> state_manager \<Rightarrow> (bool \<times> state_manager) option" where
  "dest_in_range p s =
     (if analysisMode s then Some (True, s)
      else if hw_protocol p = ETHERTYPE_IPV6
      then do { d \<leftarrow> getDest6 p; Some (isAddrInRange6 d s, s) }
      else do { d \<leftarrow> getDest4 p; Some (isAddrInRange4 d s) })"

definition nat_rewrite :: "nat_obj \<Rightarrow> state_manager \<Rightarrow> packet \<Rightarrow> packet option" where
  "nat_rewrite n s p = do { p1 \<leftarrow> doIP n s (doDPort n (doSPort n p)); nat_finish p1 }"

definition nat_send :: "(datagram \<Rightarrow> int) \<Rightarrow> packet \<Rightarrow> nat_obj \<Rightarrow> world \<Rightarrow> (packet \<times> world) option" where
  "nat_send sendto p n w =
     (if hw_protocol p = ETHERTYPE_IPV6
      then do { d \<leftarrow> getDest4 p; Some (p, snd (send4 sendto (obuf p) (obuf_len p) d w)) }
      else
        (let keep = (modified n \<or> transport_len p - getTransportHeaderLen p = 0) in
         if extra (w_sm w) = EXTRA_TCP
         then
           (let buf = obuf p; len = obuf_len p in
            if len < 0 \<or> 65535 < len then None
            else do {
              (more, p1, s1) \<leftarrow> doExtraTCP p n (w_sm w);
              let w1 = w\<lparr>w_sm := s1\<rparr>;
              w2 \<leftarrow> (if more
                     then do { d \<leftarrow> getDest6 p1; Some (snd (send6 sendto (obuf p1) (obuf_len p1) d True w1)) }
                     else Some w1);
              d \<leftarrow> getDest6 p1;
              Some (p1, snd (send6 sendto buf len d keep w2)) })
         else do { d \<leftarrow> getDest6 p; Some (p, snd (send6 sendto (obuf p) (obuf_len p) d keep w)) }))"

text \<open>The static counters: reading \<open>sm.time[label]\<close> inserts a label that is missing.\<close>

definition add_time :: "string \<Rightarrow> state_manager \<Rightarrow> int \<times> state_manager" where
  "add_time label s = (let (v, m) = map_index (<) 0 label (sm_time s) in (v, s\<lparr>sm_time := m\<rparr>))"

definition nat_account :: "world \<Rightarrow> world" where
  "nat_account w =
     (let (t, s1) = add_time ''total'' (w_sm w);
          (a, s2) = add_time ''app'' s1;
          (n, s3) = add_time ''nat64'' s2;
          (q, s4) = add_time ''parse'' s3;
          s5 = s4\<lparr>sm_time := map_put (<) ''parse'' 0 (sm_time s4)\<rparr>;
          (m, s6) = add_time ''mo'' s5;
          (b, s7) = add_time ''begin'' s6;
          st = stats w
      in w\<lparr>w_sm := s7,
           stats := \<lparr>st_total = st_total st + t, st_app = st_app st + a, st_n64 = st_n64 st + n,
                     st_parse = st_parse st + q, st_mo = st_mo st + m, st_be = st_be st + b\<rparr>\<rparr>)"

definition translate ::
    "libc \<Rightarrow> (datagram \<Rightarrow> int) \<Rightarrow> packet \<Rightarrow> nat_obj \<Rightarrow> world \<Rightarrow> (int \<times> packet \<times> nat_obj \<times> world) option" where
  "translate L sendto p n w = do {
     let s1 = count1 ''begin'' (count1 ''total'' (w_sm w));
     (inrange, s2) \<leftarrow> dest_in_range p s1;
     if \<not> inrange then Some (0, p, n, w\<lparr>w_sm := s2\<rparr>)
     else if \<not> isTCP p \<and> \<not> isUDP p then Some (0, p, n, w\<lparr>w_sm := s2\<rparr>)
     else do {
       (r, n1, s3) \<leftarrow> (if analysisMode s2 then Some (0, n, s2) else nat_begin L p n s2);
       if r \<noteq> 0 then Some (0, p, n1, w\<lparr>w_sm := s3\<rparr>)
       else do {
         let n2 = n1\<lparr>modified := False\<rparr>;
         let s4 = snd (count2 ''app'' (count1 ''app'' (snd (count2 ''begin'' s3))));
         if analysisMode s4 then Some (1, p, n2, w\<lparr>w_sm := s4\<rparr>)
         else do {
           let s5 = count1 ''nat64'' s4;
           p1 \<leftarrow> nat_rewrite n2 s5 p;
           let s6 = snd (count2 ''total'' (snd (count2 ''nat64'' s5)));
           (p2, w1) \<leftarrow> nat_send sendto p1 n2 (w\<lparr>w_sm := s6\<rparr>);
           Some (1, p2, n2, nat_account w1) } } } }"

end
