(* ===== verification/Nat64_Rewrite.thy ===== *)
theory Nat64_Rewrite
  imports Nat64
begin

text \<open>
  The packet rewriting of \<open>nat.cc\<close> (\<open>doSPort\<close>, \<open>doDPort\<close>, \<open>doIP\<close>, \<open>finish\<close>) as a specification of the
  outgoing bytes, for both directions: which fields of the new IP header hold what, which port is
  replaced, that every other byte of the segment but its checksum is the received one, and that the
  checksum is right.
\<close>

section \<open>The endpoints a packet names\<close>

definition client_of :: "packet \<Rightarrow> ip6port" where
  "client_of p = IP6Port (IPv6Addr (rd_in6 (ibuf p) 8)) (getSourcePort p)"

definition server_of :: "packet \<Rightarrow> ipv6addr" where
  "server_of p = IPv6Addr (rd_in6 (ibuf p) 24)"

definition ext_of :: "packet \<Rightarrow> ip4port" where
  "ext_of p = IP4Port (IPv4Addr (rd32 (ibuf p) 16)) (getDestPort p)"

definition server4_of :: "packet \<Rightarrow> ipv4addr" where
  "server4_of p = IPv4Addr (rd32 (ibuf p) 12)"

section \<open>Outgoing packets\<close>

text \<open>
  The IPv4 packet \<open>m\<close> made of \<open>p\<close>, sent as \<open>e\<close> to \<open>srv\<close>.  The length field holds the transport length
  alone; Linux fills in the total length of a packet sent through a raw socket.
\<close>

definition translated4 :: "packet \<Rightarrow> ip4port \<Rightarrow> ipv4addr \<Rightarrow> mem \<Rightarrow> bool" where
  "translated4 p e srv m \<longleftrightarrow>
     m 0 = 0x45 \<and> m 8 = 64 \<and> m 9 = ibuf p 6 \<and> rd16 m 2 = htons (of_int (transport_len p)) \<and>
     rd32 m 12 = getInt (getIP4 e) \<and> rd32 m 16 = getInt srv \<and> rd16 m 20 = getPort4 e \<and>
     (\<forall>j \<in> {22..<20 + nat (transport_len p)} - {check_at p, check_at p + 1}. m j = obuf p j) \<and>
     transport_valid m 20 (nat (transport_len p)) m 12 16 4 (transport_proto p)"

definition translated6 :: "packet \<Rightarrow> ip6port \<Rightarrow> ipv6addr \<Rightarrow> mem \<Rightarrow> bool" where
  "translated6 p c srv m \<longleftrightarrow>
     rd32 m 0 = 0x60 \<and> m 7 = 64 \<and> m 6 = ibuf p 9 \<and> rd16 m 4 = htons (of_int (transport_len p)) \<and>
     rd_in6 m 8 = getIn6Addr srv \<and> rd_in6 m 24 = getIn6Addr (getIP6 c) \<and> rd16 m 42 = getPort6 c \<and>
     (\<forall>j \<in> {40, 41} \<union> {44..<40 + nat (transport_len p)} - {check_at p, check_at p + 1}. m j = obuf p j) \<and>
     transport_valid m 40 (nat (transport_len p)) m 8 24 16 (transport_proto p) \<and>
     unat (rd16 m (check_at p)) = 65535 - oc_norm (check_sum6 p m)"

text \<open>
  A receiver of IPv6 checks the sum and refuses a UDP datagram whose checksum field is 0, which over IPv4 would say
  that there is none.
\<close>

definition accepted6 :: "packet \<Rightarrow> mem \<Rightarrow> bool" where
  "accepted6 p m \<longleftrightarrow>
     transport_valid m 40 (nat (transport_len p)) m 8 24 16 (transport_proto p) \<and>
     (isUDP p \<longrightarrow> rd16 m (check_at p) \<noteq> 0)"

lemma oc_norm_ones: "oc_norm n = 65535 \<longleftrightarrow> 0 < n \<and> n mod 65535 = 0"
proof (cases n)
  case (Suc k)
  have "k mod 65535 + 1 = 65535 \<longleftrightarrow> Suc k mod 65535 = 0" by (simp add: mod_Suc)
  then show ?thesis using Suc by (simp add: oc_norm_def)
qed simp

lemma check_sum6_pos: "0 < check_sum6 p m"
proof -
  have "htons (ucast (transport_proto p)) \<noteq> (0 :: u16)"
    by (simp add: transport_proto_def IPPROTO_TCP_def IPPROTO_UDP_def ntohs_def)
  then have "0 < unat (htons (ucast (transport_proto p)) :: u16)" by (simp add: unat_gt_0)
  then show ?thesis by (simp add: check_sum6_def pseudo_sum_def)
qed

lemma translated6_field: "translated6 p c srv m \<Longrightarrow> rd16 m (check_at p) = 0 \<longleftrightarrow> check_sum6 p m mod 65535 = 0"
  using check_sum6_pos [of p m] oc_norm_le [of "check_sum6 p m"] oc_norm_ones [of "check_sum6 p m"]
    unat_eq_0 [of "rd16 m (check_at p)"]
  by (auto simp: translated6_def)

lemma translated6_accepted:
  "translated6 p c srv m \<Longrightarrow> accepted6 p m \<longleftrightarrow> \<not> isUDP p \<or> check_sum6 p m mod 65535 \<noteq> 0"
  using translated6_field [of p c srv m] by (auto simp: accepted6_def translated6_def)

lemma rd16_upd_other [buf_simps]: "i \<noteq> j \<Longrightarrow> i \<noteq> Suc j \<Longrightarrow> rd16 (m(i := b)) j = rd16 m j"
  by (simp add: rd16_def)

lemma wr16_byte_ne [buf_simps]: "j \<noteq> i \<Longrightarrow> j \<noteq> Suc i \<Longrightarrow> wr16 i w m j = m j"
  by (simp add: wr16_def)

lemma rd32_upd_other [buf_simps]: "i < j \<or> j + 3 < i \<Longrightarrow> rd32 (m(i := b)) j = rd32 m j"
  by (auto simp: rd32_def rd16_def)

lemma rd_in6_wr_in6_other [buf_simps]: "j + 15 < i \<or> i + 15 < j \<Longrightarrow> rd_in6 (wr_in6 i a m) j = rd_in6 m j"
  by (auto simp: rd_in6_def buf_simps)

lemma rd_in6_wr16_other [buf_simps]: "j + 15 < i \<or> i + 1 < j \<Longrightarrow> rd_in6 (wr16 i w m) j = rd_in6 m j"
  by (auto simp: rd_in6_def buf_simps)

lemma make_ip4pkt_out [buf_simps]: "20 \<le> j \<Longrightarrow> make_ip4pkt len sa da pr m j = m j"
  by (simp add: make_ip4pkt_def Let_def buf_simps)

lemma rd16_make_ip4pkt_out [buf_simps]: "20 \<le> j \<Longrightarrow> rd16 (make_ip4pkt len sa da pr m) j = rd16 m j"
  by (simp add: rd16_def make_ip4pkt_out)

lemma make_ip4pkt_simps [buf_simps]:
  "make_ip4pkt len sa da pr m 0 = 0x45" "make_ip4pkt len sa da pr m 8 = 64"
  "make_ip4pkt len sa da pr m 9 = pr" "rd16 (make_ip4pkt len sa da pr m) 2 = htons len"
  "rd32 (make_ip4pkt len sa da pr m) 12 = getInt sa" "rd32 (make_ip4pkt len sa da pr m) 16 = getInt da"
  by (simp_all add: make_ip4pkt_def Let_def buf_simps)

lemma make_ip6pkt_out [buf_simps]: "40 \<le> j \<Longrightarrow> make_ip6pkt len sa da pr m j = m j"
  by (simp add: make_ip6pkt_def Let_def buf_simps)

lemma rd16_make_ip6pkt_out [buf_simps]: "40 \<le> j \<Longrightarrow> rd16 (make_ip6pkt len sa da pr m) j = rd16 m j"
  by (simp add: rd16_def make_ip6pkt_out)

lemma make_ip6pkt_simps [buf_simps]:
  "make_ip6pkt len sa da pr m 7 = 64" "make_ip6pkt len sa da pr m 6 = pr"
  "rd16 (make_ip6pkt len sa da pr m) 4 = htons len"
  "rd_in6 (make_ip6pkt len sa da pr m) 8 = getIn6Addr sa"
  "rd_in6 (make_ip6pkt len sa da pr m) 24 = getIn6Addr da"
  by (simp_all add: make_ip6pkt_def Let_def buf_simps)

lemma make_ip6pkt_flow [buf_simps]: "rd32 (make_ip6pkt len sa da pr m) 0 = 0x60"
  by (simp add: make_ip6pkt_def Let_def buf_simps)

section \<open>Rewriting\<close>

lemma translated4_make:
  assumes h: "20 \<le> k" "k = check_at p" "20 + 2 \<le> k"
    and m: "m = wr16 10 h (wr16 k c (make_ip4pkt (of_int (transport_len p)) (getIP4 e) srv (ibuf p 6)
                 (wr16 20 (getPort4 e) (obuf p))))"
    and v: "transport_valid m 20 (nat (transport_len p)) m 12 16 4 (transport_proto p)"
  shows "translated4 p e srv m"
  using assms by (auto simp: translated4_def buf_simps)

lemma out4_upd [simp]: "out4 (p\<lparr>obuf := m\<rparr>) = out4 p"
  and out6_upd [simp]: "out6 (p\<lparr>obuf := m\<rparr>) = out6 p"
  and isTCP_upd [simp]: "isTCP (p\<lparr>obuf := m\<rparr>) = isTCP p"
  and isUDP_upd [simp]: "isUDP (p\<lparr>obuf := m\<rparr>) = isUDP p"
  and check_end_upd [simp]: "check_end (p\<lparr>obuf := m\<rparr>) = check_end p"
  and check_at_upd [simp]: "check_at (p\<lparr>obuf := m\<rparr>) = check_at p"
  and transport_proto_upd [simp]: "transport_proto (p\<lparr>obuf := m\<rparr>) = transport_proto p"
  by (simp_all add: out4_def out6_def isTCP_def isUDP_def check_end_def check_at_def transport_proto_def)

lemma check_sum6_upd: "check_sum6 (p\<lparr>obuf := m0\<rparr>) m = check_sum6 p m"
  by (simp add: check_sum6_def)

lemma set_port_out4:
  "out4 p \<Longrightarrow> isTCP p \<or> isUDP p \<Longrightarrow> set_port off w p = p\<lparr>obuf := wr16 (20 + off) w (obuf p)\<rparr>"
  by (auto simp: set_port_def out4_def isTCP_def isUDP_def)

lemma set_port_out6:
  "out6 p \<Longrightarrow> isTCP p \<or> isUDP p \<Longrightarrow> set_port off w p = p\<lparr>obuf := wr16 (40 + off) w (obuf p)\<rparr>"
  by (auto simp: set_port_def out6_def isTCP_def isUDP_def)

lemma out4_fields:
  "out4 p \<Longrightarrow> getIPVersion p = 4 \<and> ip6_hdr p = InI 0 \<and> ip_hdr p = InO 0 \<and> ip_len p = 20 \<and>
     0 \<le> transport_len p \<and> obuf_len p = 20 + transport_len p"
  by (simp add: out4_def getIPVersion_def)

lemma out6_fields:
  "out6 p \<Longrightarrow> getIPVersion p = 6 \<and> ip6_hdr p = InO 0 \<and> ip_hdr p = InI 0 \<and> ip_len p = 40 \<and>
     0 \<le> transport_len p \<and> obuf_len p = 40 + transport_len p"
  by (simp add: out6_def getIPVersion_def)

lemma getIPVersion_upd [simp]: "getIPVersion (p\<lparr>obuf := m\<rparr>) = getIPVersion p"
  by (simp add: getIPVersion_def)

lemma nat_rewrite4:
  assumes o: "out4 p" and t: "isTCP p \<or> isUDP p" and c: "check_end p \<le> transport_len p"
  obtains m where "nat_rewrite n s p = Some (p\<lparr>obuf := m\<rparr>)"
    "translated4 p (nat_ip4p n) (getServerAddr4 (server_of p)) m"
proof -
  let ?e = "nat_ip4p n" and ?srv = "getServerAddr4 (server_of p)"
  define m0 where "m0 = make_ip4pkt (of_int (transport_len p)) (getIP4 ?e) ?srv (ibuf p 6)
                 (wr16 20 (getPort4 ?e) (obuf p))"
  note f = out4_fields [OF o]
  have "doIP n s (doDPort n (doSPort n p)) = Some (p\<lparr>obuf := m0\<rparr>)"
    using f set_port_out4 [OF o t, of 0]
    by (simp add: doIP_def doDPort_def doSPort_def m0_def server_of_def)
  moreover obtain h k where "updateChecksum (p\<lparr>obuf := m0\<rparr>) =
      Some (p\<lparr>obuf := wr16 10 h (wr16 (check_at p) k m0)\<rparr>)"
    "transport_valid (wr16 10 h (wr16 (check_at p) k m0)) 20 (nat (transport_len p))
       (wr16 10 h (wr16 (check_at p) k m0)) 12 16 4 (transport_proto p)"
    using updateChecksum4 [of "p\<lparr>obuf := m0\<rparr>"] assms by auto
  moreover have "22 \<le> check_at p" using f by (simp add: check_at_def)
  ultimately show ?thesis
    using that translated4_make [of "check_at p" p _ h k ?e ?srv]
    by (simp add: nat_rewrite_def nat_finish_def m0_def)
qed

lemma translated6_make:
  assumes h: "k = check_at p" "44 \<le> k"
    and m: "m = wr16 k c (make_ip6pkt (of_int (transport_len p)) srv (getIP6 a) (ibuf p 9)
                 (wr16 42 (getPort6 a) (obuf p)))"
    and v: "transport_valid m 40 (nat (transport_len p)) m 8 24 16 (transport_proto p)"
      "unat c = 65535 - oc_norm (check_sum6 p m)"
  shows "translated6 p a srv m"
  using assms by (auto simp: translated6_def buf_simps)

lemma nat_rewrite6:
  assumes o: "out6 p" and t: "isTCP p \<or> isUDP p" and c: "check_end p \<le> transport_len p"
  obtains m where "nat_rewrite n s p = Some (p\<lparr>obuf := m\<rparr>)"
    "translated6 p (nat_ip6p n) (getServerAddr6 (server4_of p) s) m"
proof -
  let ?e = "nat_ip6p n" and ?srv = "getServerAddr6 (server4_of p) s"
  define m0 where "m0 = make_ip6pkt (of_int (transport_len p)) ?srv (getIP6 ?e) (ibuf p 9)
                 (wr16 42 (getPort6 ?e) (obuf p))"
  note f = out6_fields [OF o]
  have "doIP n s (doDPort n (doSPort n p)) = Some (p\<lparr>obuf := m0\<rparr>)"
    using f set_port_out6 [OF o t, of 2]
    by (simp add: doIP_def doDPort_def doSPort_def m0_def server4_of_def)
  moreover obtain k where "updateChecksum (p\<lparr>obuf := m0\<rparr>) =
      Some (p\<lparr>obuf := wr16 (check_at p) k m0\<rparr>)"
    "transport_valid (wr16 (check_at p) k m0) 40 (nat (transport_len p))
       (wr16 (check_at p) k m0) 8 24 16 (transport_proto p)"
    "unat k = 65535 - oc_norm (check_sum6 p (wr16 (check_at p) k m0))"
    using updateChecksum6 [of "p\<lparr>obuf := m0\<rparr>"] assms by (auto simp: check_sum6_upd)
  moreover have "44 \<le> check_at p" using f by (simp add: check_at_def)
  ultimately show ?thesis
    using that translated6_make [of "check_at p" p _ k ?srv ?e]
    by (simp add: nat_rewrite_def nat_finish_def m0_def)
qed

end
