(* ===== verification/Nat64_Props.thy ===== *)
theory Nat64_Props
  imports Nat64_Rewrite
begin

text \<open>
  What \<open>translate\<close> does: the packets it sends in each direction, the route of a reply, the packets it
  leaves alone, and that the tables keep their invariant.
\<close>

section \<open>States with the same tables\<close>

text \<open>
  Profiling and the thread affinity of a flow do not matter to a translation: two states have the same
  tables when they agree on everything else.
\<close>

definition endpoints :: "state_manager \<Rightarrow> (ip6port \<times> ipv6addr \<times> ip4port \<times> ipv4addr) list" where
  "endpoints s = map (\<lambda>f. (ip6p f, ip6srv f, ip4p f, ip4srv f)) (flows s)"

definition same_tables :: "state_manager \<Rightarrow> state_manager \<Rightarrow> bool" where
  "same_tables s s' \<longleftrightarrow>
     map64 s = map64 s' \<and> map46 s = map46 s' \<and> map44 s = map44 s' \<and> pool s = pool s' \<and>
     prefix6 s = prefix6 s' \<and> analysisMode s = analysisMode s' \<and> extra s = extra s' \<and>
     map_find (<) (map_pool s) = map_find (<) (map_pool s') \<and> endpoints s = endpoints s'"

lemma same_tables_refl [simp]: "same_tables s s"
  by (simp add: same_tables_def)

lemma same_tables_sym: "same_tables s s' \<Longrightarrow> same_tables s' s"
  by (simp add: same_tables_def)

lemma same_tables_trans: "same_tables s s' \<Longrightarrow> same_tables s' s'' \<Longrightarrow> same_tables s s''"
  by (simp add: same_tables_def)

lemma same_tables_length: "same_tables s s' \<Longrightarrow> length (flows s) = length (flows s')"
proof -
  assume "same_tables s s'"
  then have "length (endpoints s) = length (endpoints s')" by (simp add: same_tables_def)
  then show ?thesis by (simp add: endpoints_def)
qed

lemma same_tables_flow:
  assumes "same_tables s s'" and "i < length (flows s)"
  shows "ip6p (flow_at s i) = ip6p (flow_at s' i) \<and> ip6srv (flow_at s i) = ip6srv (flow_at s' i) \<and>
    ip4p (flow_at s i) = ip4p (flow_at s' i) \<and> ip4srv (flow_at s i) = ip4srv (flow_at s' i)"
proof -
  have "endpoints s ! i = endpoints s' ! i" using assms(1) by (simp add: same_tables_def)
  with assms(2) same_tables_length [OF assms(1)] show ?thesis
    by (simp add: endpoints_def flow_at_def)
qed

lemma same_tables_bound: "same_tables s s' \<Longrightarrow> flow_bound s i \<longleftrightarrow> flow_bound s' i"
  using same_tables_flow [of s s' i] same_tables_length [of s s']
  by (auto simp: flow_bound_def Let_def same_tables_def)

lemma table_inv_same_imp:
  assumes "same_tables s s'" and inv: "table_inv s"
  shows "table_inv s'"
proof -
  have eq: "map64 s' = map64 s" "map46 s' = map46 s" "pool s' = pool s"
    using assms(1) by (simp_all add: same_tables_def)
  have b: "flow_bound s i \<Longrightarrow> flow_bound s' i \<and> ip6p (flow_at s' i) = ip6p (flow_at s i) \<and>
      ip4p (flow_at s' i) = ip4p (flow_at s i) \<and> ip4srv (flow_at s' i) = ip4srv (flow_at s i)" for i
    using same_tables_bound [OF assms(1), of i] same_tables_flow [OF assms(1), of i]
    by (simp add: flow_bound_def)
  show ?thesis
    unfolding table_inv_def eq
  proof (intro conjI allI impI)
    show "distinct (pool s)" using inv by (rule table_inv_pool)
    fix k fid
    assume "map_find k64_lt (map64 s) k = Some fid"
    note table_inv64 [OF inv this]
    with b show "flow_bound s' fid" "getPort6 (ip6p (flow_at s' fid)) = getPort6 (fst k)" by simp_all
  next
    fix k fid
    assume "map_find k46_lt (map46 s) k = Some fid"
    note table_inv46 [OF inv this]
    with b show "flow_bound s' fid" "k = (ip4p (flow_at s' fid), ip4srv (flow_at s' fid))" by simp_all
  next
    fix k k' :: "ip4port \<times> ipv4addr" and fid fid'
    assume "map_find k46_lt (map46 s) k = Some fid" "map_find k46_lt (map46 s) k' = Some fid'"
      "fst k = fst k'"
    with inv show "fid = fid'" unfolding table_inv_def by blast
  qed
qed

lemma table_inv_same: "same_tables s s' \<Longrightarrow> table_inv s \<longleftrightarrow> table_inv s'"
  using table_inv_same_imp same_tables_sym by blast

lemma doMapping_same:
  assumes "same_tables s s'"
  shows "fst (doMapping L a srv s) = fst (doMapping L a srv s')"
    and "same_tables (snd (doMapping L a srv s)) (snd (doMapping L a srv s'))"
  using assms same_tables_length [OF assms]
  by (auto simp: doMapping_def Let_def same_tables_def endpoints_def split: option.splits list.splits)

lemma getMapping4_same: "same_tables s s' \<Longrightarrow> getMapping4 a v s = getMapping4 a v s'"
  by (simp add: getMapping4_def same_tables_def)

text \<open>The operations that keep the tables.\<close>

lemma same_tables_count [simp]:
  "same_tables (count1 l s) s" "same_tables (snd (count2 l s)) s"
  by (simp_all add: count1_def count2_def gettimeofday_def split_beta Let_def same_tables_def endpoints_def)

lemma same_tables_add_time [simp]: "same_tables (snd (add_time l s)) s"
  by (simp add: add_time_def split_beta Let_def same_tables_def endpoints_def)

lemma same_tables_sm_time [simp]: "same_tables (s\<lparr>sm_time := t\<rparr>) s"
  by (simp add: same_tables_def endpoints_def)

lemma same_tables_tid [simp]: "same_tables (upd_flow i (\<lambda>f. f\<lparr>tid := t\<rparr>) s) s"
proof (cases "i < length (flows s)")
  case True
  then have "endpoints (upd_flow i (\<lambda>f. f\<lparr>tid := t\<rparr>) s) = endpoints s"
    by (simp add: endpoints_def upd_flow_def map_update list_update_same_conv)
  then show ?thesis by (simp add: same_tables_def upd_flow_def)
next
  case False
  then show ?thesis
    by (simp add: upd_flow_def same_tables_def endpoints_def list_update_beyond)
qed

lemma same_tables_curr [simp]: "same_tables (setCurIPv6SrvAddr a s) s"
  by (simp add: setCurIPv6SrvAddr_def same_tables_def endpoints_def)

lemma same_tables_account [simp]: "same_tables (w_sm (nat_account w)) (w_sm w)"
  unfolding nat_account_def split_beta Let_def
  by (simp, intro same_tables_trans [OF same_tables_add_time] same_tables_trans [OF same_tables_sm_time]
      same_tables_refl)

lemma wire_account [simp]: "wire (nat_account w) = wire w"
  by (simp add: nat_account_def split_beta Let_def)

lemma isAddrInRange4_same:
  "same_tables (snd (isAddrInRange4 d s)) s \<or> \<not> fst (isAddrInRange4 d s)"
  by (auto simp: isAddrInRange4_def split_beta map_index_def same_tables_def endpoints_def split: option.splits)

section \<open>Packets to IPv4\<close>

text \<open>The flow \<open>begin\<close> finds or makes, and the state it leaves.\<close>

lemma nat_begin4:
  assumes o: "out4 p" and m: "doMapping L (client_of p) (server_of p) s = (Some fid, s1)"
  obtains s3 where "nat_begin L p n s = Some (0, n\<lparr>nat_ip4p := ip4p (flow_at s1 fid)\<rparr>, s3)"
    "same_tables s3 s1"
proof -
  note f = out4_fields [OF o]
  define s2 where "s2 = (if tid (flow_at s1 fid) < 0 then upd_flow fid (\<lambda>f. f\<lparr>tid := nat_tid n\<rparr>) s1 else s1)"
  have "ip4p (flow_at s2 fid) = ip4p (flow_at s1 fid)"
    by (simp add: s2_def upd_flow_def flow_at_def nth_list_update)
      (cases "fid < length (flows s1)"; simp add: list_update_beyond)
  then have "nat_begin L p n s =
      Some (0, n\<lparr>nat_ip4p := ip4p (flow_at s1 fid)\<rparr>, setCurIPv6SrvAddr (server_of p) s2)"
    using f m by (simp add: nat_begin_def client_of_def server_of_def s2_def Let_def)
  moreover have "same_tables (setCurIPv6SrvAddr (server_of p) s2) s1"
    by (rule same_tables_trans [OF same_tables_curr]) (simp add: s2_def)
  ultimately show ?thesis by (rule that)
qed

lemma same_tables_mode: "same_tables s s' \<Longrightarrow> analysisMode s = analysisMode s'"
  by (simp add: same_tables_def)

lemma same_tables_prefix: "same_tables s s' \<Longrightarrow> isAddrInRange6 d s = isAddrInRange6 d s'"
  by (simp add: same_tables_def isAddrInRange6_def)

lemma doMapping_mode [simp]:
  "analysisMode (snd (doMapping L a srv s)) = analysisMode s"
  "extra (snd (doMapping L a srv s)) = extra s"
  "prefix6 (snd (doMapping L a srv s)) = prefix6 s"
  "map_pool (snd (doMapping L a srv s)) = map_pool s"
  by (cases rule: doMapping_cases [of s a srv L]; simp)+

lemmas same_counts = same_tables_trans [OF same_tables_count(1)] same_tables_trans [OF same_tables_count(2)]

lemma translate4_core:
  assumes o: "out4 p" and hw: "hw_protocol p = ETHERTYPE_IPV6"
    and t: "isTCP p \<or> isUDP p" and c: "check_end p \<le> transport_len p"
    and live: "\<not> analysisMode (w_sm w)" and inr: "isAddrInRange6 (server_of p) (w_sm w)"
    and inv: "table_inv (w_sm w)"
    and m: "doMapping L (client_of p) (server_of p) (w_sm w) = (Some fid, s1)"
  obtains q n' w' where
    "translate L sendto p n w = Some (1, q, n', w')"
    "wire w' = wire w @ [Sent4 (bytes_at (obuf q) 0 (20 + nat (transport_len p))) (getServerAddr4 (server_of p))]"
    "translated4 p (ip4p (flow_at s1 fid)) (getServerAddr4 (server_of p)) (obuf q)"
    "same_tables (w_sm w') s1" "exttcpflow n' = exttcpflow n"
proof -
  note f = out4_fields [OF o]
  let ?s0 = "count1 ''begin'' (count1 ''total'' (w_sm w))"
  have same0: "same_tables ?s0 (w_sm w)"
    by (intro same_counts) simp
  obtain s1' where m': "doMapping L (client_of p) (server_of p) ?s0 = (Some fid, s1')"
    and same1: "same_tables s1' s1"
    using doMapping_same [OF same0, of L "client_of p" "server_of p"] m
    by (cases "doMapping L (client_of p) (server_of p) ?s0") simp
  have "flow_bound s1 fid" using doMapping_bound(1) [OF inv m] .
  then have "flow_bound s1' fid" using same_tables_bound [OF same1] by simp
  then have ext: "ip4p (flow_at s1' fid) = ip4p (flow_at s1 fid)"
    using same_tables_flow [OF same1] by (simp add: flow_bound_def)
  from nat_begin4 [OF o m', of n] obtain s3 where
    b: "nat_begin L p n ?s0 = Some (0, n\<lparr>nat_ip4p := ip4p (flow_at s1 fid)\<rparr>, s3)"
    and same3: "same_tables s3 s1'" unfolding ext .
  define n2 where "n2 = n\<lparr>nat_ip4p := ip4p (flow_at s1 fid), modified := False\<rparr>"
  define s4 where "s4 = snd (count2 ''app'' (count1 ''app'' (snd (count2 ''begin'' s3))))"
  have same4: "same_tables s4 s1"
    unfolding s4_def by (intro same_counts same_tables_trans [OF same3 same1])
  have live4: "\<not> analysisMode s4" "\<not> analysisMode ?s0"
    using live same_tables_mode [OF same4] same_tables_mode [OF same0] doMapping_mode(1) [of L "client_of p" "server_of p" "w_sm w"] m
    by simp_all
  define s5 where "s5 = count1 ''nat64'' s4"
  from nat_rewrite4 [OF o t c, of n2 s5] obtain mm where
    r: "nat_rewrite n2 s5 p = Some (p\<lparr>obuf := mm\<rparr>)"
    and tr: "translated4 p (ip4p (flow_at s1 fid)) (getServerAddr4 (server_of p)) mm"
    by (auto simp: n2_def)
  define s6 where "s6 = snd (count2 ''total'' (snd (count2 ''nat64'' s5)))"
  have same6: "same_tables s6 s1"
    unfolding s6_def s5_def by (intro same_counts same4)
  let ?d = "Sent4 (bytes_at mm 0 (20 + nat (transport_len p))) (getServerAddr4 (server_of p))"
  have "rd32 mm 16 = getInt (getServerAddr4 (server_of p))" using tr by (simp add: translated4_def)
  moreover have "nat (20 + transport_len p) = 20 + nat (transport_len p)" using f by (simp add: nat_add_distrib)
  ultimately have send: "nat_send sendto (p\<lparr>obuf := mm\<rparr>) n2 (w\<lparr>w_sm := s6\<rparr>) =
      Some (p\<lparr>obuf := mm\<rparr>, w\<lparr>w_sm := s6, wire := wire w @ [?d]\<rparr>)"
    using f hw by (simp add: nat_send_def getDest4_def send4_def Let_def getServerAddr4_def)
  have range: "dest_in_range p ?s0 = Some (True, ?s0)"
    using live4 hw f inr same_tables_prefix [OF same0]
    by (simp add: dest_in_range_def getDest6_def server_of_def)
  let ?w = "nat_account (w\<lparr>w_sm := s6, wire := wire w @ [?d]\<rparr>)"
  have "translate L sendto p n w = Some (1, p\<lparr>obuf := mm\<rparr>, n2, ?w)"
    using t live4 unfolding translate_def Let_def range
    by (simp add: b n2_def [symmetric] s4_def [symmetric] s5_def [symmetric] s6_def [symmetric] r send)
  then show ?thesis
    by (rule that) (use tr same_tables_trans [OF same_tables_account] same6 in \<open>simp_all add: n2_def\<close>)
qed

section \<open>Packets to IPv6\<close>

lemma nat_begin6:
  "out6 p \<Longrightarrow> nat_begin L p n s =
     Some (case getMapping4 (ext_of p) (server4_of p) s of
             None \<Rightarrow> (1, n, s) | Some fid \<Rightarrow> (0, n\<lparr>nat_ip6p := ip6p (flow_at s fid)\<rparr>, s))"
  using out6_fields [of p]
  by (simp add: nat_begin_def ext_of_def server4_of_def split: option.splits)

text \<open>An IPv4 packet is in range when its destination is one of the pool's addresses.\<close>

definition pool_addr :: "ipv4addr \<Rightarrow> state_manager \<Rightarrow> bool" where
  "pool_addr a s \<longleftrightarrow> map_find (<) (map_pool s) (getInt a) = Some True"

lemma isAddrInRange4_iff: "fst (isAddrInRange4 d s) \<longleftrightarrow> pool_addr d s"
  by (auto simp: isAddrInRange4_def pool_addr_def map_index_def split: option.splits)

lemma pool_addr_same: "same_tables s s' \<Longrightarrow> pool_addr d s = pool_addr d s'"
  by (simp add: pool_addr_def same_tables_def)

lemma dest_in_range6:
  assumes "out6 p" and "hw_protocol p = ETHERTYPE_IP" and "\<not> analysisMode s"
  shows "dest_in_range p s = Some (isAddrInRange4 (getIP4 (ext_of p)) s)"
  using assms out6_fields [of p]
  by (simp add: dest_in_range_def getDest4_def ext_of_def ETHERTYPE_IP_def ETHERTYPE_IPV6_def)

lemma nat_send6:
  assumes o: "out6 p" and hw: "hw_protocol p = ETHERTYPE_IP" and e: "exttcpflow n = None"
    and len: "obuf_len p \<le> 65535"
  obtains w' where "nat_send sendto p n w = Some (p, w')"
    "wire w' = wire w @ [Sent6 (bytes_at (obuf p) 0 (40 + nat (transport_len p))) (IPv6Addr (rd_in6 (obuf p) 24))]"
    "w_sm w' = w_sm w"
proof -
  note f = out6_fields [OF o]
  have "nat (obuf_len p) = 40 + nat (transport_len p)" using f by (simp add: nat_add_distrib)
  then have "\<exists>w'. nat_send sendto p n w = Some (p, w') \<and>
      wire w' = wire w @ [Sent6 (bytes_at (obuf p) 0 (40 + nat (transport_len p))) (IPv6Addr (rd_in6 (obuf p) 24))] \<and>
      w_sm w' = w_sm w"
    using f hw e len
    by (simp add: nat_send_def Let_def send6_def getDest6_def doExtraTCP_def ETHERTYPE_IP_def ETHERTYPE_IPV6_def)
  with that show ?thesis by blast
qed

lemma translate6_core:
  assumes o: "out6 p" and hw: "hw_protocol p = ETHERTYPE_IP"
    and t: "isTCP p \<or> isUDP p" and c: "check_end p \<le> transport_len p" and len: "obuf_len p \<le> 65535"
    and live: "\<not> analysisMode (w_sm w)" and inr: "pool_addr (getIP4 (ext_of p)) (w_sm w)"
    and inv: "table_inv (w_sm w)" and e: "exttcpflow n = None"
    and m: "getMapping4 (ext_of p) (server4_of p) (w_sm w) = Some fid"
  obtains q n' w' where
    "translate L sendto p n w = Some (1, q, n', w')"
    "wire w' = wire w @ [Sent6 (bytes_at (obuf q) 0 (40 + nat (transport_len p)))
       (getIP6 (ip6p (flow_at (w_sm w) fid)))]"
    "translated6 p (ip6p (flow_at (w_sm w) fid)) (getServerAddr6 (server4_of p) (w_sm w)) (obuf q)"
    "same_tables (w_sm w') (w_sm w)" "exttcpflow n' = None"
proof -
  note f = out6_fields [OF o]
  let ?s0 = "count1 ''begin'' (count1 ''total'' (w_sm w))"
  have same0: "same_tables ?s0 (w_sm w)" by (intro same_counts) simp
  define s2 where "s2 = snd (isAddrInRange4 (getIP4 (ext_of p)) ?s0)"
  have r: "fst (isAddrInRange4 (getIP4 (ext_of p)) ?s0)"
    using inr by (simp add: isAddrInRange4_iff pool_addr_same [OF same0])
  have live0: "\<not> analysisMode ?s0" using live same_tables_mode [OF same0] by simp
  have range: "dest_in_range p ?s0 = Some (True, s2)"
    using r by (simp add: dest_in_range6 [OF o hw live0] s2_def prod_eq_iff)
  have same2: "same_tables s2 (w_sm w)"
    using isAddrInRange4_same [of "getIP4 (ext_of p)" ?s0] r same0 same_tables_trans
    unfolding s2_def by blast
  have "fid < length (flows (w_sm w))"
    using table_inv46(1) [OF inv] m by (simp add: getMapping4_def flow_bound_def)
  then have cl: "ip6p (flow_at s2 fid) = ip6p (flow_at (w_sm w) fid)"
    using same_tables_flow [OF same2] same_tables_length [OF same2] by simp
  define n2 where "n2 = n\<lparr>nat_ip6p := ip6p (flow_at (w_sm w) fid), modified := False\<rparr>"
  have b: "nat_begin L p n s2 = Some (0, n\<lparr>nat_ip6p := ip6p (flow_at (w_sm w) fid)\<rparr>, s2)"
    using m by (simp add: nat_begin6 [OF o] getMapping4_same [OF same2] cl)
  define s4 where "s4 = snd (count2 ''app'' (count1 ''app'' (snd (count2 ''begin'' s2))))"
  define s5 where "s5 = count1 ''nat64'' s4"
  define s6 where "s6 = snd (count2 ''total'' (snd (count2 ''nat64'' s5)))"
  have same4: "same_tables s4 (w_sm w)" unfolding s4_def by (intro same_counts same2)
  have same5: "same_tables s5 (w_sm w)" unfolding s5_def by (intro same_counts same4)
  have same6: "same_tables s6 (w_sm w)" unfolding s6_def by (intro same_counts same5)
  have live4: "\<not> analysisMode s4" "\<not> analysisMode s2"
    using live same_tables_mode [OF same4] same_tables_mode [OF same2] by simp_all
  have srv: "getServerAddr6 a s5 = getServerAddr6 a (w_sm w)" for a
    using same5 by (simp add: getServerAddr6_def same_tables_def)
  from nat_rewrite6 [OF o t c, of n2 s5] obtain mm where
    rw: "nat_rewrite n2 s5 p = Some (p\<lparr>obuf := mm\<rparr>)"
    and tr: "translated6 p (ip6p (flow_at (w_sm w) fid)) (getServerAddr6 (server4_of p) (w_sm w)) mm"
    by (auto simp: n2_def srv)
  let ?p = "p\<lparr>obuf := mm\<rparr>"
  have addr: "IPv6Addr (rd_in6 (obuf ?p) 24) = getIP6 (ip6p (flow_at (w_sm w) fid))"
    using tr by (simp add: translated6_def)
  from nat_send6 [of ?p n2 sendto "w\<lparr>w_sm := s6\<rparr>"] o hw e len obtain w1 where
    send: "nat_send sendto ?p n2 (w\<lparr>w_sm := s6\<rparr>) = Some (?p, w1)"
    "wire w1 = wire w @ [Sent6 (bytes_at mm 0 (40 + nat (transport_len p))) (IPv6Addr (rd_in6 (obuf ?p) 24))]"
    "w_sm w1 = s6"
    by (auto simp: n2_def)
  have "translate L sendto p n w = Some (1, ?p, n2, nat_account w1)"
    using t live4 unfolding translate_def Let_def range
    by (simp add: b n2_def [symmetric] s4_def [symmetric] s5_def [symmetric] s6_def [symmetric] rw send)
  then show ?thesis
    by (rule that) (use tr send addr e same_tables_trans [OF same_tables_account] same6 in \<open>simp_all add: n2_def\<close>)
qed

section \<open>What every step keeps\<close>

text \<open>
  From \<open>s\<close> to \<open>s'\<close> the tables only grow: bound flows stay bound with their endpoints, and the
  configuration is the same.
\<close>

definition extends :: "state_manager \<Rightarrow> state_manager \<Rightarrow> bool" where
  "extends s s' \<longleftrightarrow>
     table_inv s' \<and> prefix6 s = prefix6 s' \<and> analysisMode s = analysisMode s' \<and>
     (\<forall>d. pool_addr d s = pool_addr d s') \<and>
     (\<forall>fid. flow_bound s fid \<longrightarrow> flow_bound s' fid \<and>
        ip6p (flow_at s' fid) = ip6p (flow_at s fid) \<and> ip6srv (flow_at s' fid) = ip6srv (flow_at s fid) \<and>
        ip4p (flow_at s' fid) = ip4p (flow_at s fid) \<and> ip4srv (flow_at s' fid) = ip4srv (flow_at s fid))"

lemma extends_inv: "extends s s' \<Longrightarrow> table_inv s'"
  by (simp add: extends_def)

lemma extends_trans: "extends s s' \<Longrightarrow> extends s' s'' \<Longrightarrow> extends s s''"
  unfolding extends_def by (metis (no_types, lifting))

lemma extends_same:
  assumes inv: "table_inv s" and same: "same_tables s' s"
  shows "extends s s'"
  using table_inv_same [OF same] inv pool_addr_same [OF same] same_tables_bound [OF same]
    same_tables_flow [OF same] same
  unfolding extends_def same_tables_def flow_bound_def by (metis (no_types, lifting))

lemma extends_refl: "table_inv s \<Longrightarrow> extends s s"
  by (simp add: extends_same)

lemma extends_doMapping:
  assumes "table_inv s" shows "extends s (snd (doMapping L a srv s))"
  using table_inv_doMapping [OF assms] doMapping_keeps [OF assms]
  by (simp add: extends_def pool_addr_def)

lemma table_inv_map_pool: "table_inv (s\<lparr>map_pool := m\<rparr>) = table_inv s"
  by (simp add: table_inv_def flow_bound_def flow_at_def)

lemma extends_isAddrInRange4:
  "table_inv s \<Longrightarrow> extends s (snd (isAddrInRange4 d s))"
  by (auto simp: extends_def isAddrInRange4_def map_index_def pool_addr_def table_inv_map_pool
      lin.find_put flow_bound_def flow_at_def split: option.splits)

lemma same_tables_upd:
  assumes "\<And>f. (ip6p (g f), ip6srv (g f), ip4p (g f), ip4srv (g f)) = (ip6p f, ip6srv f, ip4p f, ip4srv f)"
  shows "same_tables (upd_flow i g s) s"
proof (cases "i < length (flows s)")
  case True
  then have "endpoints (upd_flow i g s) = endpoints s"
    using assms by (simp add: endpoints_def upd_flow_def map_update list_update_same_conv)
  then show ?thesis by (simp add: same_tables_def upd_flow_def)
next
  case False
  then show ?thesis by (simp add: upd_flow_def same_tables_def endpoints_def list_update_beyond)
qed

lemma extends_nat_begin:
  assumes "nat_begin L p n s = Some (r, n', s')" and inv: "table_inv s"
  shows "extends s s'"
proof -
  have 6: "extends s (setCurIPv6SrvAddr v s2)"
    if "s2 = (if b then upd_flow i (\<lambda>f. f\<lparr>tid := t\<rparr>) s1 else s1)" "s1 = snd (doMapping L a srv s)"
    for a srv s1 s2 i t v b
  proof (rule extends_trans [OF extends_doMapping [OF inv, of L a srv]])
    show "extends (snd (doMapping L a srv s)) (setCurIPv6SrvAddr v s2)"
      by (rule extends_same [OF table_inv_doMapping [OF inv]])
        (use that in \<open>auto intro: same_tables_trans [OF same_tables_curr]\<close>)
  qed
  show ?thesis
    using assms(1) extends_refl [OF inv]
    by (auto simp: nat_begin_def bind_eq_Some_conv Let_def split_beta split: if_splits option.splits
        intro: 6 [OF _ refl])
qed

lemma extends_doExtraTCP:
  assumes "doExtraTCP p n s = Some (b, q, s')" and inv: "table_inv s"
  shows "extends s s'"
proof -
  have *: "same_tables (upd_flow i (\<lambda>f. f\<lparr>trail := h f\<rparr>) (upd_flow i (addOffset d k) s)) s" for i h d k
    by (rule same_tables_trans; rule same_tables_upd) (simp_all add: addOffset_def split: DEST.splits)
  have "same_tables s' s"
    using assms(1) *
    by (auto simp: doExtraTCP_def Let_def split: option.splits if_splits)
  with inv show ?thesis by (rule extends_same)
qed

text \<open>The two ways \<open>translate\<close> can go after the range check, with the state the profiling calls leave.\<close>

definition after_begin :: "state_manager \<Rightarrow> state_manager" where
  "after_begin s = snd (count2 ''app'' (count1 ''app'' (snd (count2 ''begin'' s))))"

definition after_nat64 :: "state_manager \<Rightarrow> state_manager" where
  "after_nat64 s = snd (count2 ''total'' (snd (count2 ''nat64'' (count1 ''nat64'' s))))"

lemma translate_cases:
  assumes tr: "translate L sendto p n w = Some (r, q, n', w')"
  obtains
    (out) b s2 where "dest_in_range p (count1 ''begin'' (count1 ''total'' (w_sm w))) = Some (b, s2)"
      and "\<not> b \<or> \<not> isTCP p \<and> \<not> isUDP p" and "r = 0" and "q = p" and "n' = n" and "w' = w\<lparr>w_sm := s2\<rparr>"
  | (begun) s2 k n1 s3 where "dest_in_range p (count1 ''begin'' (count1 ''total'' (w_sm w))) = Some (True, s2)"
      and "(if analysisMode s2 then Some (0, n, s2) else nat_begin L p n s2) = Some (k, n1, s3)"
      and "(if k \<noteq> 0 then Some (0, p, n1, w\<lparr>w_sm := s3\<rparr>)
        else if analysisMode (after_begin s3) then Some (1, p, n1\<lparr>modified := False\<rparr>, w\<lparr>w_sm := after_begin s3\<rparr>)
        else do { p1 \<leftarrow> nat_rewrite (n1\<lparr>modified := False\<rparr>) (count1 ''nat64'' (after_begin s3)) p;
                  (p2, w1) \<leftarrow> nat_send sendto p1 (n1\<lparr>modified := False\<rparr>)
                    (w\<lparr>w_sm := after_nat64 (after_begin s3)\<rparr>);
                  Some (1, p2, n1\<lparr>modified := False\<rparr>, nat_account w1) }) = Some (r, q, n', w')"
proof -
  obtain b s2 where d: "dest_in_range p (count1 ''begin'' (count1 ''total'' (w_sm w))) = Some (b, s2)"
    using tr by (auto simp: translate_def bind_eq_Some_conv)
  show ?thesis
  proof (cases "b \<and> (isTCP p \<or> isUDP p)")
    case False
    with tr d show ?thesis by (intro out [of b s2]) (cases b; auto simp: translate_def Let_def)+
  next
    case go: True
    define st where "st = (if analysisMode s2 then Some (0, n, s2) else nat_begin L p n s2)"
    obtain k n1 s3 where st: "st = Some (k, n1, s3)"
      using tr go by (cases st) (auto simp: translate_def d st_def)
    show ?thesis
    proof (rule begun)
      show "dest_in_range p (count1 ''begin'' (count1 ''total'' (w_sm w))) = Some (True, s2)"
        using d go by simp
      show "(if analysisMode s2 then Some (0, n, s2) else nat_begin L p n s2) = Some (k, n1, s3)"
        using st by (simp add: st_def)
    next
      show "(if k \<noteq> 0 then Some (0, p, n1, w\<lparr>w_sm := s3\<rparr>)
        else if analysisMode (after_begin s3) then Some (1, p, n1\<lparr>modified := False\<rparr>, w\<lparr>w_sm := after_begin s3\<rparr>)
        else do { p1 \<leftarrow> nat_rewrite (n1\<lparr>modified := False\<rparr>) (count1 ''nat64'' (after_begin s3)) p;
                  (p2, w1) \<leftarrow> nat_send sendto p1 (n1\<lparr>modified := False\<rparr>)
                    (w\<lparr>w_sm := after_nat64 (after_begin s3)\<rparr>);
                  Some (1, p2, n1\<lparr>modified := False\<rparr>, nat_account w1) }) = Some (r, q, n', w')"
        using tr go st unfolding translate_def Let_def d
        by (auto simp: st_def after_begin_def [symmetric] after_nat64_def [symmetric] split: if_splits)
    qed
  qed
qed

text \<open>
  The contract of a relation between states that every part of \<open>translate\<close> respects: then \<open>translate\<close>
  as a whole does.
\<close>

locale translation_relation =
  fixes R :: "state_manager \<Rightarrow> state_manager \<Rightarrow> bool" and L :: libc and n :: nat_obj
  assumes R_refl: "R s s"
    and R_trans: "R s s' \<Longrightarrow> R s' s'' \<Longrightarrow> R s s''"
    and R_count1: "R s (count1 l s)"
    and R_count2: "R s (snd (count2 l s))"
    and R_time: "R s (s\<lparr>sm_time := t\<rparr>)"
    and R_range: "R s (snd (isAddrInRange4 d s))"
    and R_begin: "nat_begin L p n s = Some (r, n', s') \<Longrightarrow> R s s'"
    and R_extra: "doExtraTCP p m s = Some (b, q, s') \<Longrightarrow> R s s'"
begin

lemma R_account: "R (w_sm w) (w_sm (nat_account w))"
proof -
  have t: "R s (snd (add_time l s))" for s l
    by (simp add: add_time_def split_beta Let_def R_time)
  have t2: "R s s' \<Longrightarrow> R s (snd (add_time l s'))" for s s' l
    using R_trans t by blast
  have t3: "R s s' \<Longrightarrow> R s (s'\<lparr>sm_time := x\<rparr>)" for s s' x
    using R_trans R_time by blast
  show ?thesis
    unfolding nat_account_def split_beta Let_def by (simp, intro t2 t3 R_refl)
qed

lemma R_dest: "dest_in_range p s = Some (b, s') \<Longrightarrow> R s s'"
  using R_refl [of s] R_range [of s]
  by (auto simp: dest_in_range_def bind_eq_Some_conv split: if_splits) (metis snd_conv)+

lemma R_send: "nat_send sendto p m w = Some (q, w') \<Longrightarrow> R (w_sm w) (w_sm w')"
  using R_refl [of "w_sm w"] R_extra [of p m "w_sm w"]
  by (fastforce simp: nat_send_def send4_def send6_def Let_def bind_eq_Some_conv split: if_splits)

lemma translate_R:
  assumes tr: "translate L sendto p n w = Some (r, q, n', w')"
  shows "R (w_sm w) (w_sm w')"
  using tr
proof (cases rule: translate_cases)
  case (out b s2)
  have "R (w_sm w) s2" using R_dest [OF out(1)] R_trans R_count1 by blast
  with out show ?thesis by simp
next
  case (begun s2 k n1 s3)
  have "R (w_sm w) s2" using R_dest [OF begun(1)] R_trans R_count1 by blast
  moreover have "R s2 s3"
    using begun(2) R_refl [of s2] R_begin [of p s2] by (auto split: if_splits)
  ultimately have e3: "R (w_sm w) s3" by (rule R_trans)
  have e4: "R (w_sm w) (after_begin s3)"
    unfolding after_begin_def using e3 R_trans R_count1 R_count2 by blast
  have e6: "R (w_sm w) (after_nat64 (after_begin s3))"
    unfolding after_nat64_def using e4 R_trans R_count1 R_count2 by blast
  show ?thesis
  proof (cases "k \<noteq> 0 \<or> analysisMode (after_begin s3)")
    case True
    with begun(3) e3 e4 show ?thesis by (auto split: if_splits)
  next
    case False
    with begun(3) obtain p1 p2 w1 where
      send: "nat_send sendto p1 (n1\<lparr>modified := False\<rparr>) (w\<lparr>w_sm := after_nat64 (after_begin s3)\<rparr>) = Some (p2, w1)"
      and w': "w' = nat_account w1"
      by (auto simp: bind_eq_Some_conv)
    have "R (after_nat64 (after_begin s3)) (w_sm w1)" using R_send [OF send] by simp
    from R_trans [OF R_trans [OF e6 this] R_account] show ?thesis by (simp add: w')
  qed
qed

end

interpretation grow: translation_relation "\<lambda>s s'. table_inv s \<longrightarrow> extends s s'" L n
proof unfold_locales
  fix s s' s'' l t d p n r n' m b q
  show "table_inv s \<longrightarrow> extends s s" by (simp add: extends_refl)
  show "table_inv s \<longrightarrow> extends s s' \<Longrightarrow> table_inv s' \<longrightarrow> extends s' s'' \<Longrightarrow> table_inv s \<longrightarrow> extends s s''"
    using extends_trans extends_inv by blast
  show "table_inv s \<longrightarrow> extends s (count1 l s)" "table_inv s \<longrightarrow> extends s (snd (count2 l s))"
    "table_inv s \<longrightarrow> extends s (s\<lparr>sm_time := t\<rparr>)"
    by (simp_all add: extends_same)
  show "table_inv s \<longrightarrow> extends s (snd (isAddrInRange4 d s))" using extends_isAddrInRange4 by blast
  show "nat_begin L p n s = Some (r, n', s') \<Longrightarrow> table_inv s \<longrightarrow> extends s s'"
    using extends_nat_begin by blast
  show "doExtraTCP p m s = Some (b, q, s') \<Longrightarrow> table_inv s \<longrightarrow> extends s s'"
    using extends_doExtraTCP by blast
qed

lemma translate_extends:
  "translate L sendto p n w = Some (r, q, n', w') \<Longrightarrow> table_inv (w_sm w) \<Longrightarrow> extends (w_sm w) (w_sm w')"
  using grow.translate_R by blast

end
