(* ===== verification/Translation.thy ===== *)
theory Translation
  imports Nat64_Props
begin

text \<open>
  The end-to-end properties of \<open>NAT::translate\<close>: what it sends in each direction, the route of a
  reply across any number of other translations, what it ignores, when it is undefined, and that the
  tables keep their invariant through every run.
\<close>

section \<open>Runs\<close>

text \<open>
  One step translates one packet, with any \<open>NAT\<close> object (any thread); a run is any sequence of
  steps.
\<close>

inductive nat_step :: "libc \<Rightarrow> (datagram \<Rightarrow> int) \<Rightarrow> world \<Rightarrow> world \<Rightarrow> bool" for L sendto where
  step: "translate L sendto p n w = Some (r, q, n', w') \<Longrightarrow> nat_step L sendto w w'"

inductive_cases nat_stepE: "nat_step L sendto w w'"

inductive nat_run :: "libc \<Rightarrow> (datagram \<Rightarrow> int) \<Rightarrow> world \<Rightarrow> world \<Rightarrow> bool" for L sendto where
  start: "nat_run L sendto w w"
| more: "nat_run L sendto w w' \<Longrightarrow> nat_step L sendto w' w'' \<Longrightarrow> nat_run L sendto w w''"

lemma nat_run_extends:
  assumes "nat_run L sendto w w'" and "table_inv (w_sm w)"
  shows "extends (w_sm w) (w_sm w')"
  using assms
proof induction
  case (start w)
  then show ?case by (rule extends_refl)
next
  case (more w w' w'')
  then have e: "extends (w_sm w) (w_sm w')" by simp
  from more.hyps(2) have "extends (w_sm w') (w_sm w'')"
    by (rule nat_stepE) (rule translate_extends [OF _ extends_inv [OF e]])
  with e show ?case by (rule extends_trans)
qed

section \<open>Packets that are translated\<close>

text \<open>A packet from a client that the translator handles, and one from a server.\<close>

definition to_server :: "packet \<Rightarrow> state_manager \<Rightarrow> bool" where
  "to_server p s \<longleftrightarrow>
     out4 p \<and> hw_protocol p = ETHERTYPE_IPV6 \<and> (isTCP p \<or> isUDP p) \<and> check_end p \<le> transport_len p \<and>
     \<not> analysisMode s \<and> isAddrInRange6 (server_of p) s"

definition to_client :: "packet \<Rightarrow> state_manager \<Rightarrow> bool" where
  "to_client p s \<longleftrightarrow>
     out6 p \<and> hw_protocol p = ETHERTYPE_IP \<and> (isTCP p \<or> isUDP p) \<and> check_end p \<le> transport_len p \<and>
     obuf_len p \<le> 65535 \<and> \<not> analysisMode s \<and> pool_addr (getIP4 (ext_of p)) s"

text \<open>
  C5: A packet from a client: \<open>translate\<close> sends exactly one IPv4 packet, to the address in the last 32
  bits of the IPv6 destination, from the external pair of the client's flow, with the segment
  unchanged but for its source port and a checksum that the receiver accepts.
\<close>

theorem translate_to_ipv4:
  assumes "to_server p (w_sm w)" and "table_inv (w_sm w)"
    and "doMapping L (client_of p) (server_of p) (w_sm w) = (Some fid, s1)"
  shows "\<exists>q n' w'. translate L sendto p n w = Some (1, q, n', w') \<and>
    wire w' = wire w @ [Sent4 (bytes_at (obuf q) 0 (20 + nat (transport_len p))) (getServerAddr4 (server_of p))] \<and>
    translated4 p (ip4p (flow_at s1 fid)) (getServerAddr4 (server_of p)) (obuf q) \<and>
    same_tables (w_sm w') s1"
  using assms(1) unfolding to_server_def
  by (elim conjE) (rule translate4_core [where sendto = sendto and n = n, OF _ _ _ _ _ _ assms(2,3)]; blast)

text \<open>The concrete translator with a client's packet.\<close>

definition demo_world :: world where
  "demo_world = \<lparr>w_sm = demo_ready, wire = [],
     stats = \<lparr>st_total = 0, st_app = 0, st_n64 = 0, st_parse = 0, st_mo = 0, st_be = 0\<rparr>\<rparr>"

definition demo_nat :: nat_obj where
  "demo_nat = \<lparr>nat_tid = 0, nat_ip4p = IP4Port_default, nat_ip6p = IP6Port_default demo_libc,
     exttcpflow = None, modified = False\<rparr>"

definition demo_sendto :: "datagram \<Rightarrow> int" where
  "demo_sendto d = int (length (case d of Sent4 bs _ \<Rightarrow> bs | Sent6 bs _ \<Rightarrow> bs))"

lemma demo_world_fields [simp]: "w_sm demo_world = demo_ready" "wire demo_world = []"
  by (simp_all add: demo_world_def)

lemma demo_server_of: "server_of demo_out4 = demo_server"
  by (simp add: server_of_def demo_out4_props demo_server_def rd_in6_def rd32_def rd16_def)
    (simp add: udp6_bytes_def)

lemma demo_to_server: "to_server demo_out4 demo_ready"
  by (simp add: to_server_def demo_out4_props demo_server_of)
    (simp add: demo_ready_def isAddrInRange6_def demo_server_def demo_prefix_def)

lemma demo_mapping:
  "doMapping demo_libc a v demo_ready = (Some 0, snd (doMapping demo_libc a v demo_ready))"
  by (simp add: demo_ready_def prod_eq_iff first_mapping)

lemma demo_flow:
  "flow_at (snd (doMapping demo_libc a v demo_ready)) 0 =
     Flow_new64 demo_libc a (IP4Port (IPv4Addr 0x281E140A) (htons 32000)) v (getServerAddr4 v)"
  by (simp add: demo_ready_def first_mapping)

theorem translate_to_ipv4_witness:
  "\<exists>q n' w'. translate demo_libc demo_sendto demo_out4 demo_nat demo_world = Some (1, q, n', w') \<and>
     wire w' = [Sent4 (bytes_at (obuf q) 0 28) (IPv4Addr 0x0200000A)] \<and>
     translated4 demo_out4 (IP4Port (IPv4Addr 0x281E140A) (htons 32000)) (IPv4Addr 0x0200000A) (obuf q)"
proof -
  have srv: "getServerAddr4 (server_of demo_out4) = IPv4Addr 0x0200000A"
    by (simp add: demo_server_of demo_server_def getServerAddr4_def)
  show ?thesis
    using translate_to_ipv4 [of demo_out4 demo_world demo_libc 0 _ demo_sendto demo_nat,
        OF _ _ demo_mapping [folded demo_world_fields(1)]] demo_to_server demo_inv
    by (simp add: demo_flow srv demo_out4_props) blast
qed

lemma translate_answer:
  assumes "to_client p (w_sm w)" and "table_inv (w_sm w)" and "exttcpflow n = None"
    and "getMapping4 (ext_of p) (server4_of p) (w_sm w) = Some fid"
  shows "\<exists>q n' w'. translate L sendto p n w = Some (1, q, n', w') \<and>
    wire w' = wire w @ [Sent6 (bytes_at (obuf q) 0 (40 + nat (transport_len p)))
      (getIP6 (ip6p (flow_at (w_sm w) fid)))] \<and>
    translated6 p (ip6p (flow_at (w_sm w) fid)) (getServerAddr6 (server4_of p) (w_sm w)) (obuf q) \<and>
    same_tables (w_sm w') (w_sm w)"
  using assms(1) unfolding to_client_def
  by (elim conjE)
    (rule translate6_core [where sendto = sendto and n = n and L = L, OF _ _ _ _ _ _ _ assms(2,3,4)]; blast)

lemma out6_one_protocol: "out6 p \<Longrightarrow> \<not> (isTCP p \<and> isUDP p)"
  by (auto simp: out6_def isTCP_def isUDP_def)

text \<open>
  C6: A packet from a server to a known external pair: \<open>translate\<close> sends exactly one IPv6 packet, to the
  flow's client, from the prefix followed by the server's address, with the segment unchanged but for
  its destination port and its checksum, which makes the sum over segment and pseudo-header come out right.  The
  receiver accepts it always for TCP, and for UDP unless the sum over the rest is a multiple of 65535: then the code stores
  a checksum of 0, where it should store 65535, and IPv6 refuses such a datagram.
\<close>

theorem translate_to_ipv6:
  assumes "to_client p (w_sm w)" and "table_inv (w_sm w)" and "exttcpflow n = None"
    and "getMapping4 (ext_of p) (server4_of p) (w_sm w) = Some fid"
  shows "\<exists>q n' w'. translate L sendto p n w = Some (1, q, n', w') \<and>
    wire w' = wire w @ [Sent6 (bytes_at (obuf q) 0 (40 + nat (transport_len p)))
      (getIP6 (ip6p (flow_at (w_sm w) fid)))] \<and>
    translated6 p (ip6p (flow_at (w_sm w) fid)) (getServerAddr6 (server4_of p) (w_sm w)) (obuf q) \<and>
    (accepted6 p (obuf q) \<longleftrightarrow> isTCP p \<or> check_sum6 p (obuf q) mod 65535 \<noteq> 0) \<and>
    same_tables (w_sm w') (w_sm w)"
proof -
  obtain q n' w' where q: "translate L sendto p n w = Some (1, q, n', w')"
    "wire w' = wire w @ [Sent6 (bytes_at (obuf q) 0 (40 + nat (transport_len p)))
      (getIP6 (ip6p (flow_at (w_sm w) fid)))]"
    "translated6 p (ip6p (flow_at (w_sm w) fid)) (getServerAddr6 (server4_of p) (w_sm w)) (obuf q)"
    "same_tables (w_sm w') (w_sm w)"
    using translate_answer [OF assms, of L sendto] by blast
  have "isUDP p \<longleftrightarrow> \<not> isTCP p"
    using assms(1) out6_one_protocol [of p] by (auto simp: to_client_def)
  with translated6_accepted [OF q(3)] q show ?thesis by blast
qed

section \<open>The way back\<close>

lemma server_addr_back: "isAddrInRange6 d s \<Longrightarrow> getServerAddr6 (getServerAddr4 d) s = d"
  by (cases d; cases "getIn6Addr d")
    (auto simp: isAddrInRange6_def getServerAddr6_def getServerAddr4_def Let_def)

lemma fresh_flow:
  assumes "map_find k64_lt (map64 s) (a, srv) = None" and "pool s \<noteq> []"
  obtains fid s1 where "doMapping L a srv s = (Some fid, s1)"
    "ip6p (flow_at s1 fid) = a" "ip6srv (flow_at s1 fid) = srv" "ip4p (flow_at s1 fid) = hd (pool s)"
    "ip4srv (flow_at s1 fid) = getServerAddr4 srv"
  by (cases rule: doMapping_cases [of s a srv L]) (use assms that in \<open>auto simp: flow_at_def\<close>)

lemma extends_flow:
  assumes "extends s s'" and "flow_bound s fid"
  shows "getMapping4 (ip4p (flow_at s fid)) (ip4srv (flow_at s fid)) s' = Some fid"
    and "ip6p (flow_at s' fid) = ip6p (flow_at s fid)"
  using assms by (auto simp: extends_def getMapping4_def flow_bound_def Let_def)

lemma extends_config:
  "extends s s' \<Longrightarrow> isAddrInRange6 d s' = isAddrInRange6 d s" "extends s s' \<Longrightarrow> pool_addr e s' = pool_addr e s"
  by (simp_all add: extends_def isAddrInRange6_def)

text \<open>An answer to the external pair of a bound flow, once the tables have only been extended.\<close>

lemma answer_reaches_flow:
  assumes "extends s1 (w_sm w2)" and "flow_bound s1 fid" and "to_client a (w_sm w2)" and "exttcpflow m = None"
    and "ext_of a = ip4p (flow_at s1 fid)" and "server4_of a = getServerAddr4 (ip6srv (flow_at s1 fid))"
    and "isAddrInRange6 (ip6srv (flow_at s1 fid)) s1"
  shows "\<exists>q' m' w3. translate L sendto a m w2 = Some (1, q', m', w3) \<and>
    wire w3 = wire w2 @ [Sent6 (bytes_at (obuf q') 0 (40 + nat (transport_len a))) (getIP6 (ip6p (flow_at s1 fid)))] \<and>
    translated6 a (ip6p (flow_at s1 fid)) (ip6srv (flow_at s1 fid)) (obuf q')"
proof -
  have srv: "server4_of a = ip4srv (flow_at s1 fid)"
    using assms(2,6) by (simp add: flow_bound_def Let_def)
  note route = extends_flow [OF assms(1,2)]
  have in6: "isAddrInRange6 (ip6srv (flow_at s1 fid)) (w_sm w2)"
    using assms(7) by (simp add: extends_config(1) [OF assms(1)])
  obtain q' m' w3 where
    "translate L sendto a m w2 = Some (1, q', m', w3)"
    "wire w3 = wire w2 @ [Sent6 (bytes_at (obuf q') 0 (40 + nat (transport_len a)))
       (getIP6 (ip6p (flow_at (w_sm w2) fid)))]"
    "translated6 a (ip6p (flow_at (w_sm w2) fid)) (getServerAddr6 (server4_of a) (w_sm w2)) (obuf q')"
    using assms(3) unfolding to_client_def
    by (elim conjE)
      (rule translate6_core [where sendto = sendto and n = m and L = L and w = w2,
         OF _ _ _ _ _ _ _ extends_inv [OF assms(1)] assms(4), of a fid]; use route assms(5) srv in \<open>auto\<close>)
  then show ?thesis
    by (simp add: route(2) assms(6) server_addr_back [OF in6])
qed

text \<open>
  C1: The round trip: after a new client's packet has been translated and any sequence of further
  packets, from anyone, by any thread, an answer sent to the source address and port of the translated
  packet from its destination is delivered, as one IPv6 packet, to that client and its port, and
  comes from the address the client sent to.
\<close>

theorem reply_reaches_client:
  assumes "to_server p (w_sm w)" and "table_inv (w_sm w)"
    and "map_find k64_lt (map64 (w_sm w)) (client_of p, server_of p) = None" and "pool (w_sm w) \<noteq> []"
    and "translate L sendto p n w = Some (r, q, n', w1)" and "nat_run L sendto w1 w2"
    and "to_client a (w_sm w2)" and "exttcpflow m = None"
    and "ext_of a = IP4Port (IPv4Addr (rd32 (obuf q) 12)) (rd16 (obuf q) 20)"
    and "server4_of a = IPv4Addr (rd32 (obuf q) 16)"
  shows "\<exists>q' m' w3. translate L sendto a m w2 = Some (1, q', m', w3) \<and>
    wire w3 = wire w2 @ [Sent6 (bytes_at (obuf q') 0 (40 + nat (transport_len a))) (getIP6 (client_of p))] \<and>
    translated6 a (client_of p) (server_of p) (obuf q')"
proof -
  obtain fid s1 where m: "doMapping L (client_of p) (server_of p) (w_sm w) = (Some fid, s1)"
    and f: "ip6p (flow_at s1 fid) = client_of p" "ip6srv (flow_at s1 fid) = server_of p"
    by (rule fresh_flow [OF assms(3,4)]) blast
  obtain n1 where tr: "translated4 p (ip4p (flow_at s1 fid)) (getServerAddr4 (server_of p)) (obuf q)"
    and same: "same_tables (w_sm w1) s1"
    using assms(1,5) unfolding to_server_def
    by (elim conjE) (rule translate4_core [where sendto = sendto and n = n, OF _ _ _ _ _ _ assms(2) m]; auto)
  have e1: "extends s1 (w_sm w1)"
    using table_inv_doMapping [OF assms(2), of L] m same by (metis extends_same snd_conv)
  have e2: "extends s1 (w_sm w2)"
    by (rule extends_trans [OF e1]) (rule nat_run_extends [OF assms(6) extends_inv [OF e1]])
  have ext: "ext_of a = ip4p (flow_at s1 fid)" "server4_of a = getServerAddr4 (ip6srv (flow_at s1 fid))"
    using tr f assms(9,10) by (simp_all add: translated4_def)
  have "isAddrInRange6 (ip6srv (flow_at s1 fid)) s1"
    using assms(1) m doMapping_mode(3) [of L "client_of p" "server_of p" "w_sm w"]
    by (simp add: f to_server_def isAddrInRange6_def)
  from answer_reaches_flow [OF e2 doMapping_bound(1) [OF assms(2) m] assms(7,8) ext this] show ?thesis
    unfolding f by blast
qed

text \<open>The demonstration: the client's packet, then the server's answer.\<close>

lemma demo_ext_of: "ext_of demo_out6 = IP4Port (IPv4Addr 0x281E140A) (htons 32000)"
proof -
  have "tcp_hdr demo_out6 = None" "udp_hdr demo_out6 = Some 40"
    using demo_out6_props(1,2) by (auto simp: out6_def isUDP_def)
  then have "getDestPort demo_out6 = 0x7D"
    by (simp add: getDestPort_def rd16_def demo_out6_props memcpy_def) (simp add: udp4_bytes_def)
  moreover have "rd32 (ibuf demo_out6) 16 = 0x281E140A"
    by (simp add: demo_out6_props rd32_def rd16_def) (simp add: udp4_bytes_def)
  moreover have "htons 32000 = 0x7D" by (simp add: ntohs_def)
  ultimately show ?thesis by (simp add: ext_of_def)
qed

lemma demo_server4_of: "server4_of demo_out6 = IPv4Addr 0x0200000A"
  by (simp add: server4_of_def demo_out6_props rd32_def rd16_def) (simp add: udp4_bytes_def)

lemma demo_to_client:
  assumes "extends demo_ready s"
  shows "to_client demo_out6 s"
proof -
  have "pool_addr (getIP4 (ext_of demo_out6)) demo_ready"
    by (simp add: demo_ext_of demo_ready_def pool_addr_def)
  moreover have "\<not> analysisMode s" using assms by (simp add: extends_def demo_ready_def)
  ultimately show ?thesis
    using out6_fields [OF demo_out6_props(1)]
    by (simp add: to_client_def demo_out6_props extends_config [OF assms])
qed

abbreviation demo_mapped :: state_manager where
  "demo_mapped \<equiv> snd (doMapping demo_libc (client_of demo_out4) (server_of demo_out4) demo_ready)"

lemma demo_run:
  obtains q n' w1 where
    "translate demo_libc demo_sendto demo_out4 demo_nat demo_world = Some (1, q, n', w1)"
    "translated4 demo_out4 (IP4Port (IPv4Addr 0x281E140A) (htons 32000)) (IPv4Addr 0x0200000A) (obuf q)"
    "same_tables (w_sm w1) demo_mapped"
proof -
  have m: "doMapping demo_libc (client_of demo_out4) (server_of demo_out4) (w_sm demo_world) =
      (Some 0, demo_mapped)"
    unfolding demo_world_fields by (rule demo_mapping)
  obtain q n' w1 where
    t: "translate demo_libc demo_sendto demo_out4 demo_nat demo_world = Some (1, q, n', w1)"
    "translated4 demo_out4 (ip4p (flow_at demo_mapped 0)) (getServerAddr4 (server_of demo_out4)) (obuf q)"
    "same_tables (w_sm w1) demo_mapped"
    by (rule translate4_core [where sendto = demo_sendto and n = demo_nat and w = demo_world, OF _ _ _ _ _ _ _ m])
      (use demo_to_server demo_inv in \<open>auto simp: to_server_def\<close>)
  have e: "ip4p (flow_at demo_mapped 0) = IP4Port (IPv4Addr 0x281E140A) (htons 32000)"
    "getServerAddr4 (server_of demo_out4) = IPv4Addr 0x0200000A"
    by (simp add: demo_flow) (simp add: demo_server_of demo_server_def getServerAddr4_def)
  from that t show ?thesis unfolding e .
qed

lemma demo_translated:
  obtains q n' w1 where
    "translate demo_libc demo_sendto demo_out4 demo_nat demo_world = Some (1, q, n', w1)"
    "ext_of demo_out6 = IP4Port (IPv4Addr (rd32 (obuf q) 12)) (rd16 (obuf q) 20)"
    "server4_of demo_out6 = IPv4Addr (rd32 (obuf q) 16)"
    "extends demo_ready (w_sm w1)"
proof -
  obtain q n' w1 where
    t: "translate demo_libc demo_sendto demo_out4 demo_nat demo_world = Some (1, q, n', w1)"
    "translated4 demo_out4 (IP4Port (IPv4Addr 0x281E140A) (htons 32000)) (IPv4Addr 0x0200000A) (obuf q)"
    by (rule demo_run)
  show ?thesis
    by (rule that [OF t(1)])
      (use t translate_extends [OF t(1)] demo_inv in
        \<open>simp_all add: demo_ext_of demo_server4_of translated4_def\<close>)
qed

theorem reply_reaches_client_witness:
  "\<exists>q n' w1 q' m' w3.
     translate demo_libc demo_sendto demo_out4 demo_nat demo_world = Some (1, q, n', w1) \<and>
     translate demo_libc demo_sendto demo_out6 demo_nat w1 = Some (1, q', m', w3) \<and>
     wire w3 = wire w1 @ [Sent6 (bytes_at (obuf q') 0 48) (getIP6 (client_of demo_out4))] \<and>
     translated6 demo_out6 (client_of demo_out4) demo_server (obuf q')"
proof -
  obtain q n' w1 where t: "translate demo_libc demo_sendto demo_out4 demo_nat demo_world = Some (1, q, n', w1)"
    "ext_of demo_out6 = IP4Port (IPv4Addr (rd32 (obuf q) 12)) (rd16 (obuf q) 20)"
    "server4_of demo_out6 = IPv4Addr (rd32 (obuf q) 16)" "extends demo_ready (w_sm w1)"
    by (rule demo_translated)
  have e: "exttcpflow demo_nat = None" by (simp add: demo_nat_def)
  have new: "map_find k64_lt (map64 demo_ready) (client_of demo_out4, server_of demo_out4) = None"
    "pool demo_ready \<noteq> []"
    by (simp_all add: demo_ready_def pool_ready_Cons)
  obtain q' m' w3 where "translate demo_libc demo_sendto demo_out6 demo_nat w1 = Some (1, q', m', w3)"
    "wire w3 = wire w1 @ [Sent6 (bytes_at (obuf q') 0 (40 + nat (transport_len demo_out6))) (getIP6 (client_of demo_out4))]"
    "translated6 demo_out6 (client_of demo_out4) (server_of demo_out4) (obuf q')"
    using reply_reaches_client [OF _ _ _ _ t(1) nat_run.start demo_to_client [OF t(4)] e t(2,3)]
      demo_to_server demo_inv new unfolding demo_world_fields by blast
  with t(1) show ?thesis
    by (intro exI conjI) (assumption | simp add: demo_out6_props demo_server_of)+
qed

text \<open>The answer alone, for the other direction.\<close>

theorem translate_to_ipv6_witness:
  "\<exists>q n' w1 fid q' m' w3.
     translate demo_libc demo_sendto demo_out4 demo_nat demo_world = Some (1, q, n', w1) \<and>
     translate demo_libc demo_sendto demo_out6 demo_nat w1 = Some (1, q', m', w3) \<and>
     translated6 demo_out6 (ip6p (flow_at (w_sm w1) fid)) (getServerAddr6 (IPv4Addr 0x0200000A) (w_sm w1)) (obuf q') \<and>
     (accepted6 demo_out6 (obuf q') \<longleftrightarrow> isTCP demo_out6 \<or> check_sum6 demo_out6 (obuf q') mod 65535 \<noteq> 0)"
proof -
  obtain q n' w1 where
    t: "translate demo_libc demo_sendto demo_out4 demo_nat demo_world = Some (1, q, n', w1)"
    and same: "same_tables (w_sm w1) demo_mapped"
    by (rule demo_run)
  have e: "extends demo_ready (w_sm w1)" using translate_extends [OF t] demo_inv by simp
  have m: "flow_bound demo_mapped 0"
    by (rule doMapping_bound(1) [OF demo_inv demo_mapping])
  have "getMapping4 (ip4p (flow_at demo_mapped 0)) (ip4srv (flow_at demo_mapped 0)) (w_sm w1) = Some 0"
    by (rule extends_flow(1) [OF extends_same [OF table_inv_doMapping [OF demo_inv] same] m])
  then have "getMapping4 (ext_of demo_out6) (server4_of demo_out6) (w_sm w1) = Some 0"
    by (simp add: demo_flow demo_ext_of demo_server4_of demo_server_of)
      (simp add: demo_server_def getServerAddr4_def)
  moreover have "exttcpflow demo_nat = None" by (simp add: demo_nat_def)
  ultimately show ?thesis
    using translate_to_ipv6 [OF demo_to_client [OF e] extends_inv [OF e], of demo_nat 0 demo_libc demo_sendto] t
    unfolding demo_server4_of by blast
qed

section \<open>Packets that are not translated\<close>

text \<open>The destination check of either direction.\<close>

definition deliverable :: "packet \<Rightarrow> state_manager \<Rightarrow> bool" where
  "deliverable p s \<longleftrightarrow>
     (if out4 p then isAddrInRange6 (server_of p) s
      else pool_addr (getIP4 (ext_of p)) s \<and> getMapping4 (ext_of p) (server4_of p) s \<noteq> None)"

lemma translate_ignored:
  assumes "out4 p \<and> hw_protocol p = ETHERTYPE_IPV6 \<or> out6 p \<and> hw_protocol p = ETHERTYPE_IP"
    and "\<not> analysisMode (w_sm w)" and "table_inv (w_sm w)"
    and "\<not> (isTCP p \<or> isUDP p) \<or> \<not> deliverable p (w_sm w)"
  shows "\<exists>w'. translate L sendto p n w = Some (0, p, n, w') \<and> wire w' = wire w \<and>
    extends (w_sm w) (w_sm w')"
proof -
  let ?s1 = "count1 ''begin'' (count1 ''total'' (w_sm w))"
  have same: "same_tables ?s1 (w_sm w)" by (intro same_counts) simp
  have live: "\<not> analysisMode ?s1" using assms(2) same_tables_mode [OF same] by simp
  have "\<exists>w'. translate L sendto p n w = Some (0, p, n, w') \<and> wire w' = wire w"
  proof (cases "out4 p \<and> hw_protocol p = ETHERTYPE_IPV6")
    case True
    then have "dest_in_range p ?s1 = Some (isAddrInRange6 (server_of p) (w_sm w), ?s1)"
      using live out4_fields [of p] same_tables_prefix [OF same]
      by (simp add: dest_in_range_def getDest6_def server_of_def)
    then show ?thesis
      using True assms(4) by (auto simp: translate_def deliverable_def Let_def)
  next
    case False
    with assms(1) have o: "out6 p" "hw_protocol p = ETHERTYPE_IP" by auto
    then have o4: "\<not> out4 p" by (simp add: out4_def out6_def)
    define r where "r = isAddrInRange4 (getIP4 (ext_of p)) ?s1"
    have d: "dest_in_range p ?s1 = Some r" unfolding r_def by (rule dest_in_range6 [OF o live])
    have fst: "fst r = pool_addr (getIP4 (ext_of p)) (w_sm w)"
      by (simp add: r_def isAddrInRange4_iff pool_addr_same [OF same])
    have snd: "same_tables (snd r) (w_sm w)" if "fst r"
      using isAddrInRange4_same [of "getIP4 (ext_of p)" ?s1] that same same_tables_trans
      unfolding r_def by blast
    show ?thesis
      using assms(4) o4 fst snd assms(2) nat_begin6 [OF o(1), of L n "snd r"]
        getMapping4_same [of "snd r" "w_sm w" "ext_of p" "server4_of p"] same_tables_mode [of "snd r" "w_sm w"]
      by (cases r) (auto simp: translate_def d deliverable_def Let_def)
  qed
  then obtain w' where "translate L sendto p n w = Some (0, p, n, w')" "wire w' = wire w" by blast
  with translate_extends [OF _ assms(3)] show ?thesis by blast
qed

text \<open>
  C14: What \<open>translate\<close> leaves alone: a packet that is neither TCP nor UDP, whose destination is not in
  the translator's prefix or pool, or that comes from a server for a pair no flow has.  It answers 0,
  sends nothing and keeps every binding.
\<close>

theorem translate_ignores:
  assumes "out4 p \<and> hw_protocol p = ETHERTYPE_IPV6 \<or> out6 p \<and> hw_protocol p = ETHERTYPE_IP"
    and "\<not> analysisMode (w_sm w)" and "table_inv (w_sm w)"
    and "\<not> (isTCP p \<or> isUDP p) \<or> \<not> deliverable p (w_sm w)"
  shows "\<exists>w'. translate L sendto p n w = Some (0, p, n, w') \<and> wire w' = wire w \<and>
    extends (w_sm w) (w_sm w')"
  using assms by (rule translate_ignored)

theorem translate_ignores_witness:
  "\<exists>w'. translate demo_libc demo_sendto demo_out6 demo_nat demo_world = Some (0, demo_out6, demo_nat, w') \<and>
     wire w' = []"
proof -
  have "\<not> out4 demo_out6" using demo_out6_props(1) by (simp add: out4_def out6_def)
  then have "\<not> deliverable demo_out6 demo_ready"
    by (simp add: deliverable_def getMapping4_def) (simp add: demo_ready_def)
  moreover have "\<not> analysisMode demo_ready" by (simp add: demo_ready_def)
  ultimately show ?thesis
    using translate_ignores [of demo_out6 demo_world demo_libc demo_sendto demo_nat] demo_out6_props(1,3) demo_inv
    by auto
qed

section \<open>Where translate is undefined\<close>

text \<open>
  C17: For a client's packet, \<open>translate\<close> is undefined exactly when the client's source port has no flow
  and the pool is empty: \<open>begin\<close> then dereferences the null pointer \<open>doMapping\<close> returned.  In every
  other case it sends.
\<close>

theorem translate_undefined_iff:
  assumes "to_server p (w_sm w)" and "table_inv (w_sm w)"
  shows "translate L sendto p n w = None \<longleftrightarrow>
    map_find k64_lt (map64 (w_sm w)) (client_of p, server_of p) = None \<and> pool (w_sm w) = []"
proof (cases "fst (doMapping L (client_of p) (server_of p) (w_sm w))")
  case (Some fid)
  then have m: "doMapping L (client_of p) (server_of p) (w_sm w) =
      (Some fid, snd (doMapping L (client_of p) (server_of p) (w_sm w)))"
    by (simp add: prod_eq_iff)
  have "translate L sendto p n w \<noteq> None"
    using assms(1) unfolding to_server_def
    by (elim conjE)
      (rule translate4_core [where sendto = sendto and n = n, OF _ _ _ _ _ _ assms(2) m]; blast?; simp)
  moreover have "\<not> (map_find k64_lt (map64 (w_sm w)) (client_of p, server_of p) = None \<and> pool (w_sm w) = [])"
    using Some by (cases rule: doMapping_cases [of "w_sm w" "client_of p" "server_of p" L]) auto
  ultimately show ?thesis by blast
next
  case None
  let ?s1 = "count1 ''begin'' (count1 ''total'' (w_sm w))"
  have same: "same_tables ?s1 (w_sm w)" by (intro same_counts) simp
  have p: "out4 p" "hw_protocol p = ETHERTYPE_IPV6" "isTCP p \<or> isUDP p" "\<not> analysisMode (w_sm w)"
    "isAddrInRange6 (server_of p) (w_sm w)"
    using assms(1) by (auto simp: to_server_def)
  have d: "dest_in_range p ?s1 = Some (True, ?s1)"
    using p out4_fields [of p] same_tables_prefix [OF same] same_tables_mode [OF same]
    by (simp add: dest_in_range_def getDest6_def server_of_def)
  have "fst (doMapping L (client_of p) (server_of p) ?s1) = None"
    using doMapping_same(1) [OF same] None by simp
  then have "nat_begin L p n ?s1 = None"
    using out4_fields [OF p(1)]
    by (simp add: nat_begin_def client_of_def server_of_def split_beta)
  then have "translate L sendto p n w = None"
    using p same_tables_mode [OF same] by (auto simp: translate_def d Let_def)
  moreover have "map_find k64_lt (map64 (w_sm w)) (client_of p, server_of p) = None \<and> pool (w_sm w) = []"
    using None by (cases rule: doMapping_cases [of "w_sm w" "client_of p" "server_of p" L]) auto
  ultimately show ?thesis by blast
qed

text \<open>A translator whose pool is used up.\<close>

definition demo_empty :: world where
  "demo_empty = demo_world\<lparr>w_sm := demo_ready\<lparr>pool := []\<rparr>\<rparr>"

theorem translate_undefined_iff_witness:
  "translate demo_libc demo_sendto demo_out4 demo_nat demo_empty = None"
proof -
  have "to_server demo_out4 (w_sm demo_empty)"
    using demo_to_server by (simp add: demo_empty_def to_server_def isAddrInRange6_def)
  moreover have "map64 (w_sm demo_empty) = []" "map46 (w_sm demo_empty) = []" "pool (w_sm demo_empty) = []"
    by (simp_all add: demo_empty_def demo_ready_def)
  moreover from this have "table_inv (w_sm demo_empty)" by (intro table_inv_empty) simp_all
  ultimately show ?thesis
    using translate_undefined_iff [of demo_out4 demo_empty demo_libc demo_sendto demo_nat] by simp
qed

section \<open>The tables through a run\<close>

text \<open>
   Whatever packets are translated, by whatever threads, from any state with the table invariant:
  the invariant holds, and every bound flow keeps its endpoints and is found from both sides.
\<close>

theorem run_keeps_bindings:
  assumes "nat_run L sendto w w'" and "table_inv (w_sm w)" and "flow_bound (w_sm w) fid"
  shows "table_inv (w_sm w') \<and>
    ip6p (flow_at (w_sm w') fid) = ip6p (flow_at (w_sm w) fid) \<and>
    ip4p (flow_at (w_sm w') fid) = ip4p (flow_at (w_sm w) fid) \<and>
    getMapping6 (ip6p (flow_at (w_sm w) fid)) (ip6srv (flow_at (w_sm w) fid)) (w_sm w') = Some fid \<and>
    getMapping4 (ip4p (flow_at (w_sm w) fid)) (ip4srv (flow_at (w_sm w) fid)) (w_sm w') = Some fid"
  using nat_run_extends [OF assms(1,2)] assms(3)
  by (auto simp: extends_def flow_bound_def Let_def getMapping6_def getMapping4_def)

theorem run_keeps_bindings_witness:
  "\<exists>q n' w1. translate demo_libc demo_sendto demo_out4 demo_nat demo_world = Some (1, q, n', w1) \<and>
     nat_run demo_libc demo_sendto demo_world w1 \<and> flow_bound demo_mapped 0 \<and>
     getMapping4 (IP4Port (IPv4Addr 0x281E140A) (htons 32000)) (IPv4Addr 0x0200000A) demo_mapped = Some 0"
proof -
  obtain q n' w1 where
    t: "translate demo_libc demo_sendto demo_out4 demo_nat demo_world = Some (1, q, n', w1)"
    by (rule demo_run)
  have r: "nat_run demo_libc demo_sendto demo_world w1"
    by (rule nat_run.more [OF nat_run.start nat_step.step [OF t]])
  have m: "flow_bound demo_mapped 0"
    by (rule doMapping_bound(1) [OF demo_inv demo_mapping])
  define v where "v = demo_world\<lparr>w_sm := demo_mapped\<rparr>"
  have "getMapping4 (ip4p (flow_at demo_mapped 0)) (ip4srv (flow_at demo_mapped 0)) demo_mapped = Some 0"
    using run_keeps_bindings [OF nat_run.start, of v 0] m table_inv_doMapping [OF demo_inv]
    by (simp add: v_def)
  with t r m show ?thesis
    by (simp add: demo_flow demo_server_of) (simp add: demo_server_def getServerAddr4_def)
qed

end
