(* ===== verification/Modify.thy ===== *)
theory Modify
  imports Packet_Props "HOL-Library.Multiset"
begin

text \<open>
  \<open>Flow::modify\<close> and \<open>Flow::shift\<close> of \<open>flow.cc\<close>: rewriting the payload of a packet by a parser's edits.
  The byte loop is the code's, position by position; the properties compare it with the reference
  \<open>splice\<close>, which replaces the edited ranges.
\<close>

section \<open>Edits, sorted\<close>

text \<open>
  \<open>std::sort\<close> promises an ordered rearrangement and nothing about edits with equal start positions, so
  it is a parameter with that contract.
\<close>

definition std_sort :: "(operation list \<Rightarrow> operation list) \<Rightarrow> bool" where
  "std_sort srt \<longleftrightarrow> (\<forall>os. mset (srt os) = mset os \<and> sorted (map start_pos (srt os)))"

lemma std_sort_sort_key: "std_sort (sort_key start_pos)"
  by (simp add: std_sort_def)

text \<open>
  \<open>ops[cnt]\<close>: once every edit has been applied, \<open>cnt\<close> is the size of the vector and the loop reads
  past its end; \<open>junk\<close> is what the memory there looks like as edits.
\<close>

definition ops_at :: "(nat \<Rightarrow> operation) \<Rightarrow> operation list \<Rightarrow> nat \<Rightarrow> operation" where
  "ops_at junk os i = (if i < length os then os ! i else junk (i - length os))"

section \<open>The byte loop\<close>

type_synonym edit_state = "int \<times> nat \<times> bool"

text \<open>The position \<open>ps\<close> reaches the next edit: an empty replacement jumps over its range.\<close>

definition edit_enter :: "int \<Rightarrow> (nat \<Rightarrow> operation) \<Rightarrow> edit_state \<Rightarrow> edit_state" where
  "edit_enter offset at st =
     (let (ps, cnt, inside) = st in
      if \<not> inside \<and> ps = start_pos (at cnt) - offset
      then if newdata (at cnt) = [] then (end_pos (at cnt) - offset, cnt + 1, inside)
           else (0, cnt, True)
      else st)"

text \<open>One byte of output: from the edit's new text, or from the source.\<close>

definition edit_byte ::
    "int \<Rightarrow> (nat \<Rightarrow> operation) \<Rightarrow> (int \<Rightarrow> u8 option) \<Rightarrow> edit_state \<Rightarrow> (u8 \<times> edit_state) option" where
  "edit_byte offset at s st =
     (let (ps, cnt, inside) = edit_enter offset at st in
      if inside
      then Some (byte_of (newdata (at cnt) ! nat ps),
                 if ps + 1 = int (length (newdata (at cnt)))
                 then (end_pos (at cnt) - offset, cnt + 1, False) else (ps + 1, cnt, True))
      else do { b \<leftarrow> s ps; Some (b, (ps + 1, cnt, False)) })"

text \<open>\<open>n\<close> more bytes, the next at index \<open>pd\<close> of the output buffer, which ends at \<open>BUF_LEN\<close>.\<close>

primrec edit_loop ::
    "nat \<Rightarrow> int \<Rightarrow> (nat \<Rightarrow> operation) \<Rightarrow> (int \<Rightarrow> u8 option) \<Rightarrow> nat \<Rightarrow> edit_state \<Rightarrow> mem \<Rightarrow> mem option" where
  "edit_loop 0 offset at s pd st d = Some d"
| "edit_loop (Suc n) offset at s pd st d = do {
     (b, st') \<leftarrow> edit_byte offset at s st;
     if BUF_LEN \<le> int pd then None
     else edit_loop n offset at s (pd + 1) st' (d(pd := b)) }"

section \<open>modify\<close>

text \<open>The adjustment of the parser's limit by the edits before it; the limit moves while it is compared.\<close>

primrec adjust_maxPos :: "operation list \<Rightarrow> int \<Rightarrow> int \<Rightarrow> int \<times> int" where
  "adjust_maxPos [] m pm = (m, pm)"
| "adjust_maxPos (o' # os) m pm =
     (if end_pos o' \<le> pm then adjust_maxPos os (m + op_delta o') (pm + op_delta o')
      else adjust_maxPos os m pm)"

definition ibuf_at :: "packet \<Rightarrow> nat \<Rightarrow> int \<Rightarrow> u8 option" where
  "ibuf_at p s i = (if 0 \<le> int s + i \<and> int s + i < BUF_LEN then Some (ibuf p (nat (int s + i))) else None)"

definition string_at :: "mem \<Rightarrow> nat \<Rightarrow> nat \<Rightarrow> string" where
  "string_at m i n = map char_of_byte (bytes_at m i n)"

text \<open>
  What exceeds the parser's content length goes through its virtual \<open>getContentLengthExceed\<close>, the
  parameter \<open>gcle\<close> by protocol name.
\<close>

definition exceed_tail :: "(string \<Rightarrow> string) \<Rightarrow> nat \<Rightarrow> int \<Rightarrow> int \<Rightarrow> mem \<Rightarrow> (int \<times> mem) option" where
  "exceed_tail gcle d maxPos' len m =
     (if 0 < maxPos' \<and> maxPos' \<le> len then
        (let old = string_at m (d + nat maxPos') (nat (len - maxPos')); new = gcle old in
         if new \<noteq> old then
           if BUF_LEN < int d + maxPos' + int (length new) then None
           else Some (len - int (length old) + int (length new),
                      memcpy m (d + nat maxPos') (\<lambda>i. byte_of (new ! i)) 0 (length new))
         else Some (len, m))
      else Some (len, m))"

text \<open>The text that no longer fits the segment is kept for a later one.\<close>

definition keep_trail :: "EXTRAType \<Rightarrow> packet \<Rightarrow> nat \<Rightarrow> int \<Rightarrow> int \<Rightarrow> mem \<Rightarrow> flow \<Rightarrow> int \<times> flow" where
  "keep_trail extra' p d len len_old m f =
     (if isTCP p \<and> len_old < len \<and> 1400 < len_old
      then let t = string_at m (d + nat len_old) (nat (len - len_old)) in
           (len_old,
            if extra' = EXTRA_SHIFT
            then f\<lparr>trail_shift := map_put (<) (nxt_seq p) t (trail_shift f)\<rparr>
            else f\<lparr>trail := (trail f)(getDEST p := t)\<rparr>)
      else (len, f))"

text \<open>Where the transport header starts in the output and in the input buffer.\<close>

definition seg_ptrs :: "packet \<Rightarrow> (nat \<times> nat) option" where
  "seg_ptrs p =
     (case (tcp_hdr p, tcp_old p) of
        (Some t, Some t') \<Rightarrow> Some (t, t')
      | _ \<Rightarrow> (case (udp_hdr p, udp_old p) of (Some u, Some u') \<Rightarrow> Some (u, u') | _ \<Rightarrow> None))"

definition modify ::
    "(operation list \<Rightarrow> operation list) \<Rightarrow> (nat \<Rightarrow> operation) \<Rightarrow> (string \<Rightarrow> string \<Rightarrow> string) \<Rightarrow> EXTRAType \<Rightarrow>
     packet \<Rightarrow> operation list \<Rightarrow> parser \<Rightarrow> flow \<Rightarrow> (int \<times> packet \<times> parser \<times> flow) option" where
  "modify srt junk gcle extra' p os0 ps f =
     (if os0 = [] then Some (0, p, ps, f)
      else
        (let os = srt os0; hl = getTransportHeaderLen p; len_old = transport_len p - hl in
         case seg_ptrs p of
           None \<Rightarrow> Some (0, p, ps, f)
         | Some (h, h') \<Rightarrow>
             (let d = h + nat hl;
                  (offset, f1) = getPktOffset (isTCP p) (getDEST p) (ntohl (rd32 (obuf p) (h + 4))) f;
                  len = fold (\<lambda>o' l. l + op_delta o') os len_old
              in do {
                m1 \<leftarrow> edit_loop (nat len) offset (ops_at junk os) (ibuf_at p (h' + nat hl)) d (0, 0, False) (obuf p);
                let (mp, pm) = (if 0 < maxPos ps then adjust_maxPos os (maxPos ps) (maxPos ps)
                                else (maxPos ps, maxPos ps));
                let ps1 = ps\<lparr>maxPos := pm\<rparr>;
                let mp' = (if 0 < maxPos ps then mp + maxLen ps else mp) - offset;
                (len1, m2) \<leftarrow> exceed_tail (gcle (p_protocol ps)) d mp' len m1;
                let (len2, f2) = keep_trail extra' p d len1 len_old m2 f1;
                Some (len2 - len_old, setTransportLen (len2 + hl) (p\<lparr>obuf := m2\<rparr>), ps1, f2) })))"

section \<open>shift\<close>

text \<open>The copy loop of \<open>shift\<close> runs from the end down to \<open>slen\<close>.\<close>

primrec shift_loop :: "nat \<Rightarrow> nat \<Rightarrow> nat \<Rightarrow> mem \<Rightarrow> mem" where
  "shift_loop 0 d slen m = m"
| "shift_loop (Suc n) d slen m = shift_loop n d slen (m(d + slen + n := m (d + n)))"

text \<open>Reading \<open>trail_shift[seq]\<close> inserts an empty entry for an unknown sequence number.\<close>

definition shift :: "EXTRAType \<Rightarrow> packet \<Rightarrow> nat \<Rightarrow> nat \<Rightarrow> flow \<Rightarrow> (mem \<times> flow) option" where
  "shift extra' p d len f =
     (if extra' = EXTRA_SHIFT then
        (let (t, ts) = map_index (<) [] (cur_seq p) (trail_shift f);
             slen = length t; f1 = f\<lparr>trail_shift := ts\<rparr>
         in if 0 < slen then
              if d + len < slen \<or> BUF_LEN < int (d + max len slen) then None
              else
                (let newt = string_at (obuf p) (d + len - slen) slen;
                     m1 = shift_loop (len - slen) d slen (obuf p)
                 in Some (memcpy m1 d (\<lambda>i. byte_of (t ! i)) 0 slen,
                          f1\<lparr>trail_shift := map_put (<) (nxt_seq p) newt ts\<rparr>))
            else Some (obuf p, f1))
      else Some (obuf p, f))"

end
