(* ===== verification/Modify_Props.thy ===== *)
theory Modify_Props
  imports Modify
begin

text \<open>
  \<open>Flow::modify\<close> against its reference: for edits that do not overlap, the bytes it writes are the
  payload with every edited range replaced.
\<close>

section \<open>The reference\<close>

text \<open>Replacing ranges, from position \<open>pos\<close> of the payload on; positions are relative to \<open>offset\<close>.\<close>

fun splice :: "int \<Rightarrow> int \<Rightarrow> operation list \<Rightarrow> u8 list \<Rightarrow> u8 list" where
  "splice offset pos [] xs = drop (nat pos) xs"
| "splice offset pos (o' # os) xs =
     take (nat (start_pos o' - offset - pos)) (drop (nat pos) xs) @ map byte_of (newdata o') @
     splice offset (end_pos o' - offset) os xs"

text \<open>
  Edits in order, within a payload of \<open>n\<close> bytes, without overlap, and with a byte between a deletion
  and the edit that follows it (the loop does not look for an edit right after a deletion).
\<close>

fun edits_ok :: "int \<Rightarrow> int \<Rightarrow> operation list \<Rightarrow> int \<Rightarrow> bool" where
  "edits_ok offset pos [] n \<longleftrightarrow> 0 \<le> pos \<and> pos \<le> n"
| "edits_ok offset pos (o' # os) n \<longleftrightarrow>
     0 \<le> pos \<and> pos \<le> start_pos o' - offset \<and> start_pos o' \<le> end_pos o' \<and> end_pos o' - offset \<le> n \<and>
     (newdata o' = [] \<and> os \<noteq> [] \<longrightarrow> end_pos o' < start_pos (hd os)) \<and>
     edits_ok offset (end_pos o' - offset) os n"

text \<open>Where the last edit ends.\<close>

fun last_end :: "int \<Rightarrow> int \<Rightarrow> operation list \<Rightarrow> int" where
  "last_end offset pos [] = pos"
| "last_end offset pos (o' # os) = last_end offset (end_pos o' - offset) os"

lemma edits_ok_pos: "edits_ok offset pos os n \<Longrightarrow> 0 \<le> pos \<and> pos \<le> n"
  by (cases os) auto

lemma length_splice:
  "edits_ok offset pos os (int (length xs)) \<Longrightarrow>
   int (length (splice offset pos os xs)) = int (length xs) - pos + sum_list (map op_delta os)"
proof (induction os arbitrary: pos)
  case Nil
  then show ?case by auto
next
  case (Cons o' os)
  have "int (length (take (nat (start_pos o' - offset - pos)) (drop (nat pos) xs))) = start_pos o' - offset - pos"
    using Cons.prems by auto
  with Cons show ?case by (simp add: op_delta_def)
qed

section \<open>The loop\<close>

text \<open>Writing a list of bytes.\<close>

primrec put :: "nat \<Rightarrow> u8 list \<Rightarrow> mem \<Rightarrow> mem" where
  "put i [] m = m"
| "put i (b # bs) m = put (i + 1) bs (m(i := b))"

lemma put_append: "put i (xs @ ys) m = put (i + length xs) ys (put i xs m)"
  by (induction xs arbitrary: i m) simp_all

lemma put_before: "j < i \<Longrightarrow> put i xs m j = m j"
  by (induction xs arbitrary: i m) simp_all

lemma put_in: "k < length xs \<Longrightarrow> put i xs m (i + k) = xs ! k"
proof (induction xs arbitrary: i m k)
  case (Cons b xs)
  then show ?case
    using Cons.IH [of "k - 1" "i + 1" "m(i := b)"] by (cases k) (simp_all add: put_before fun_upd_def)
qed simp

lemma bytes_at_put: "bytes_at (put i xs m) i (length xs) = xs"
  by (rule nth_equalityI) (simp_all add: put_in)

text \<open>The source of the loop: the payload.\<close>

definition reads :: "(int \<Rightarrow> u8 option) \<Rightarrow> u8 list \<Rightarrow> bool" where
  "reads s xs \<longleftrightarrow> (\<forall>i<length xs. s (int i) = Some (xs ! i))"

text \<open>Copying up to the next edit.\<close>

lemma loop_copy:
  assumes "reads s xs" and "ps + k \<le> length xs"
    and "\<And>i. i < k \<Longrightarrow> start_pos (at cnt) - offset \<noteq> int ps + int i" and "pd + k + n \<le> 65536"
  shows "edit_loop (k + n) offset at s pd (int ps, cnt, False) d =
    edit_loop n offset at s (pd + k) (int ps + int k, cnt, False) (put pd (take k (drop ps xs)) d)"
  using assms(2-)
proof (induction k arbitrary: ps pd d)
  case (Suc k)
  have "ps < length xs" using Suc.prems by simp
  then have "s (int ps) = Some (xs ! ps)" using assms(1) by (simp add: reads_def)
  moreover have "start_pos (at cnt) - offset \<noteq> int ps" using Suc.prems(2) [of 0] by simp
  ultimately have byte: "edit_byte offset at s (int ps, cnt, False) = Some (xs ! ps, (int (ps + 1), cnt, False))"
    by (simp add: edit_byte_def edit_enter_def)
  have IH: "edit_loop (k + n) offset at s (pd + 1) (int (ps + 1), cnt, False) d' =
      edit_loop n offset at s (pd + 1 + k) (int (ps + 1) + int k, cnt, False)
        (put (pd + 1) (take k (drop (ps + 1) xs)) d')" for d'
    by (rule Suc.IH) (use Suc.prems(1,3) Suc.prems(2) [of "Suc _"] in \<open>auto simp: algebra_simps\<close>)
  have "take (Suc k) (drop ps xs) = xs ! ps # take k (drop (ps + 1) xs)"
    using \<open>ps < length xs\<close> by (simp add: Cons_nth_drop_Suc [symmetric])
  moreover have "\<not> BUF_LEN \<le> int pd" using Suc.prems(3) by (simp add: BUF_LEN_def)
  moreover have "int (ps + 1) + int k = int ps + int (Suc k)" "pd + 1 + k = pd + Suc k" by simp_all
  ultimately show ?case
    using byte IH by (simp add: algebra_simps fun_upd_def)
qed simp

text \<open>The new text of an edit.\<close>

lemma loop_text:
  assumes "j + k = length (newdata (at cnt))" and "0 < k" and "pd + k + n \<le> 65536"
  shows "edit_loop (k + n) offset at s pd (int j, cnt, True) d =
    edit_loop n offset at s (pd + k) (end_pos (at cnt) - offset, cnt + 1, False)
      (put pd (map byte_of (drop j (newdata (at cnt)))) d)"
  using assms
proof (induction k arbitrary: j pd d)
  case (Suc k)
  let ?nd = "newdata (at cnt)"
  have j: "j < length ?nd" using Suc.prems by simp
  then have d1: "drop j ?nd = ?nd ! j # drop (j + 1) ?nd"
    by (simp add: Cons_nth_drop_Suc)
  have b: "\<not> BUF_LEN \<le> int pd" using Suc.prems(3) by (simp add: BUF_LEN_def)
  show ?case
  proof (cases "k = 0")
    case True
    with Suc.prems have "int j + 1 = int (length ?nd)" "drop (j + 1) ?nd = []" by simp_all
    with True b d1 show ?thesis by (simp add: edit_byte_def edit_enter_def fun_upd_def)
  next
    case False
    with Suc.prems have "int j + 1 \<noteq> int (length ?nd)" by simp
    moreover have "int j + 1 = int (j + 1)" by simp
    ultimately show ?thesis
      using b d1 Suc.IH [of "j + 1" "pd + 1" "d(pd := byte_of (?nd ! j))"] Suc.prems False
      by (simp add: edit_byte_def edit_enter_def fun_upd_def add.commute)
  qed
qed simp

text \<open>Reaching an edit.\<close>

lemma loop_enter:
  assumes "start_pos (at cnt) - offset = ps" and "newdata (at cnt) \<noteq> []"
  shows "edit_loop (Suc n) offset at s pd (ps, cnt, False) d = edit_loop (Suc n) offset at s pd (0, cnt, True) d"
  using assms by (simp add: edit_byte_def edit_enter_def)

lemma loop_delete:
  assumes "start_pos (at cnt) - offset = ps" and "newdata (at cnt) = []"
    and "start_pos (at (cnt + 1)) \<noteq> end_pos (at cnt)"
  shows "edit_loop n offset at s pd (ps, cnt, False) d =
    edit_loop n offset at s pd (end_pos (at cnt) - offset, cnt + 1, False) d"
  using assms by (cases n) (simp_all add: edit_byte_def edit_enter_def)

lemma loop_splice:
  assumes src: "reads s xs" and "edits_ok offset pos os (int (length xs))"
    and "\<And>i. i < length os \<Longrightarrow> at (cnt + i) = os ! i"
    and "start_pos (at (cnt + length os)) - offset < last_end offset pos os \<or>
      int (length xs) \<le> start_pos (at (cnt + length os)) - offset"
    and "pd + length (splice offset pos os xs) \<le> 65536"
  shows "edit_loop (length (splice offset pos os xs)) offset at s pd (pos, cnt, False) d =
    Some (put pd (splice offset pos os xs) d)"
  using assms(2-)
proof (induction os arbitrary: pos cnt pd d)
  case Nil
  obtain q where q: "pos = int q" using Nil.prems(1) nonneg_int_cases [of pos] by auto
  with Nil.prems have "q \<le> length xs" by simp
  with Nil.prems(3,4) q show ?case
    using loop_copy [OF src, of q "length xs - q" at cnt offset pd 0 d] by auto
next
  case (Cons o' os)
  let ?e = "end_pos o' - offset"
  have at: "at cnt = o'" using Cons.prems(2) [of 0] by simp
  obtain q where q: "pos = int q" using Cons.prems(1) nonneg_int_cases [of pos] by auto
  obtain r where r: "start_pos o' - offset = int r" "q \<le> r" "r \<le> length xs"
    using Cons.prems(1) q nonneg_int_cases [of "start_pos o' - offset"] by auto
  define rest where "rest = splice offset ?e os xs"
  let ?pre = "take (r - q) (drop q xs)" and ?nd = "newdata o'"
  have sp: "splice offset pos (o' # os) xs = ?pre @ map byte_of ?nd @ rest"
    using q r by (simp add: rest_def nat_diff_distrib)
  have lp: "length ?pre = r - q" using r by simp
  have room: "pd + (r - q) + (length ?nd + length rest) \<le> 65536"
    using Cons.prems(4) lp unfolding sp length_append length_map by linarith
  have IH: "edit_loop (length rest) offset at s pd' (?e, cnt + 1, False) d' = Some (put pd' rest d')"
    if "pd' + length rest \<le> 65536" for pd' d'
    unfolding rest_def
    by (rule Cons.IH) (use Cons.prems that Cons.prems(2) [of "Suc _"] in \<open>auto simp: rest_def\<close>)
  have "edit_loop (length (splice offset pos (o' # os) xs)) offset at s pd (pos, cnt, False) d =
      edit_loop (length ?nd + length rest) offset at s (pd + (r - q)) (int r, cnt, False) (put pd ?pre d)"
    using loop_copy [OF src, of q "r - q" at cnt offset pd "length ?nd + length rest" d] r room q at lp
    unfolding sp by (simp add: add.assoc)
  also have "\<dots> = Some (put (pd + (r - q)) (map byte_of ?nd @ rest) (put pd ?pre d))"
  proof (cases "?nd = []")
    case True
    have nxt: "start_pos (at (cnt + 1)) \<noteq> end_pos o' \<or> rest = []"
    proof (cases os)
      case Nil
      then have "rest = drop (nat ?e) xs" by (simp add: rest_def)
      with Nil Cons.prems(1,3) show ?thesis by auto
    next
      case (Cons o2 os')
      with Cons.prems(1) True Cons.prems(2) [of 1] show ?thesis by auto
    qed
    show ?thesis
    proof (cases "rest = []")
      case False
      with nxt True r at room show ?thesis
        using loop_delete [of at cnt offset "int r" "length rest" s "pd + (r - q)" "put pd ?pre d"]
          IH [of "pd + (r - q)"] by simp
    qed (use True in simp)
  next
    case False
    then obtain k where k: "length ?nd = Suc k" by (cases ?nd) auto
    have "edit_loop (length ?nd + length rest) offset at s (pd + (r - q)) (int r, cnt, False) (put pd ?pre d) =
        edit_loop (length ?nd + length rest) offset at s (pd + (r - q)) (0, cnt, True) (put pd ?pre d)"
      unfolding k add_Suc by (rule loop_enter) (use at r False in simp_all)
    also have "\<dots> = edit_loop (length rest) offset at s (pd + (r - q) + length ?nd) (?e, cnt + 1, False)
        (put (pd + (r - q)) (map byte_of ?nd) (put pd ?pre d))"
      using loop_text [of 0 "length ?nd" at cnt "pd + (r - q)" "length rest" offset s "put pd ?pre d"] room False at
      by (simp add: add.assoc)
    also have "\<dots> = Some (put (pd + (r - q) + length ?nd) rest (put (pd + (r - q)) (map byte_of ?nd) (put pd ?pre d)))"
      by (rule IH) (use room in simp)
    finally show ?thesis by (simp add: put_append)
  qed
  also have "\<dots> = Some (put pd (splice offset pos (o' # os) xs) d)"
    unfolding sp put_append lp by (rule refl)
  finally show ?case .
qed

section \<open>modify\<close>

lemma fold_op_delta: "fold (\<lambda>o' l. l + op_delta o') os n = n + sum_list (map op_delta os)"
  by (induction os arbitrary: n) simp_all

lemma sum_op_delta_sort:
  assumes "std_sort srt"
  shows "sum_list (map op_delta (srt os)) = sum_list (map op_delta os)"
proof -
  have "mset (map op_delta (srt os)) = mset (map op_delta os)"
    using assms by (simp add: std_sort_def)
  then show ?thesis by (metis sum_mset_sum_list)
qed

text \<open>A strictly ascending arrangement is the only one.\<close>

lemma std_sort_unique:
  assumes "std_sort srt" and "mset ys = mset os" and "sorted_wrt (<) (map start_pos ys)"
  shows "srt os = ys"
proof -
  have m: "mset (srt os) = mset ys" "sorted (map start_pos (srt os))"
    using assms(1,2) by (simp_all add: std_sort_def)
  have "sort (map start_pos ys) = map start_pos (srt os)"
    by (rule properties_for_sort) (use m in simp_all)
  then have "map start_pos (srt os) = map start_pos ys"
    using assms(3) by (simp add: strict_sorted_iff sorted_sort_id)
  moreover have "set (srt os) = set ys" using m(1) by (metis set_mset_mset)
  moreover have "inj_on start_pos (set ys)"
    using assms(3) by (simp add: strict_sorted_iff distinct_map)
  ultimately show ?thesis by (intro map_inj_on [of start_pos]) simp_all
qed

text \<open>A packet with one transport header, whose payload the input buffer holds.\<close>

definition has_payload :: "packet \<Rightarrow> nat \<Rightarrow> nat \<Rightarrow> bool" where
  "has_payload p h h' \<longleftrightarrow>
     seg_ptrs p = Some (h, h') \<and> isTCP p \<noteq> isUDP p \<and>
     getTransportHeaderLen p \<le> transport_len p \<and> int h' + transport_len p \<le> 65536"

definition payload :: "packet \<Rightarrow> nat \<Rightarrow> u8 list" where
  "payload p h' = bytes_at (ibuf p) (h' + nat (getTransportHeaderLen p)) (nat (transport_len p - getTransportHeaderLen p))"

lemma header_len_nonneg: "0 \<le> getTransportHeaderLen p"
  by (simp add: getTransportHeaderLen_def split: option.splits)

lemma reads_payload:
  assumes "has_payload p h h'"
  shows "reads (ibuf_at p (h' + nat (getTransportHeaderLen p))) (payload p h')"
  using assms header_len_nonneg [of p]
  by (auto simp: reads_def ibuf_at_def payload_def has_payload_def BUF_LEN_def nat_add_distrib)

lemma length_payload:
  "has_payload p h h' \<Longrightarrow> int (length (payload p h')) = transport_len p - getTransportHeaderLen p"
  by (simp add: payload_def has_payload_def)

text \<open>Storing the UDP length does not touch the payload.\<close>

lemma bytes_at_setTransportLen:
  assumes "has_payload p h h'"
  shows "bytes_at (obuf (setTransportLen l (p\<lparr>obuf := m\<rparr>))) (h + nat (getTransportHeaderLen p)) n =
    bytes_at m (h + nat (getTransportHeaderLen p)) n"
proof (cases "udp_hdr p")
  case (Some u)
  with assms have "tcp_hdr p = None" by (auto simp: has_payload_def isTCP_def isUDP_def)
  with Some assms have "u = h" "getTransportHeaderLen p = 8"
    by (auto simp: has_payload_def seg_ptrs_def getTransportHeaderLen_def split: option.splits)
  with Some show ?thesis
    by (intro bytes_at_cong) (simp add: setTransportLen_def Let_def buf_simps)
qed (simp add: setTransportLen_def Let_def)

lemma setTransportLen_fields [simp]:
  "transport_len (setTransportLen l p) = l" "obuf_len (setTransportLen l p) = ip_len p + l"
  by (simp_all add: setTransportLen_def Let_def split: option.splits)

text \<open>
  What \<open>modify\<close> writes when the memory behind the vector holds the edits \<open>ex\<close>, which keep the length: it applies them
  like its own.
\<close>

lemma modify_memory:
  assumes "std_sort srt" and "has_payload p h h'" and "os \<noteq> []" and "maxPos ps \<le> 0"
    and "getPktOffset (isTCP p) (getDEST p) (ntohl (rd32 (obuf p) (h + 4))) f = (offset, f1)"
    and "maxPos ps \<le> offset"
    and "\<And>i. i < length ex \<Longrightarrow> junk i = ex ! i" and "sum_list (map op_delta ex) = 0"
    and "edits_ok offset 0 (srt os @ ex) (int (length (payload p h')))"
    and "start_pos (junk (length ex)) - offset < last_end offset 0 (srt os @ ex) \<or>
      int (length (payload p h')) \<le> start_pos (junk (length ex)) - offset"
    and "out = splice offset 0 (srt os @ ex) (payload p h')"
    and "h + nat (getTransportHeaderLen p) + length out \<le> 65536"
    and "d = h + nat (getTransportHeaderLen p)"
    and "r = keep_trail extra' p d (int (length out)) (int (length (payload p h'))) (put d out (obuf p)) f1"
  shows "modify srt junk gcle extra' p os ps f =
      Some (fst r - int (length (payload p h')),
        setTransportLen (fst r + getTransportHeaderLen p) (p\<lparr>obuf := put d out (obuf p)\<rparr>), ps, snd r)"
    and "int (length out) = int (length (payload p h')) + sum_list (map op_delta os)"
proof -
  let ?hl = "getTransportHeaderLen p" and ?xs = "payload p h'"
  note xl = length_payload [OF assms(2)]
  show outlen: "int (length out) = int (length ?xs) + sum_list (map op_delta os)"
    using length_splice [OF assms(9)] by (simp add: assms(8,11) sum_op_delta_sort [OF assms(1)])
  have at: "ops_at junk (srt os) (0 + i) = (srt os @ ex) ! i" if "i < length (srt os @ ex)" for i
    using that assms(7) by (simp add: ops_at_def nth_append)
  have loop: "edit_loop (length out) offset (ops_at junk (srt os)) (ibuf_at p (h' + nat ?hl)) d (0, 0, False)
      (obuf p) = Some (put d out (obuf p))"
    unfolding assms(11)
    by (rule loop_splice [OF reads_payload [OF assms(2)] assms(9) at])
      (use assms(10,11,12,13) in \<open>simp_all add: ops_at_def\<close>)
  have len: "fold (\<lambda>o' l. l + op_delta o') (srt os) (transport_len p - ?hl) = int (length out)"
    using outlen xl by (simp add: fold_op_delta sum_op_delta_sort [OF assms(1)])
  show "modify srt junk gcle extra' p os ps f =
      Some (fst r - int (length ?xs),
        setTransportLen (fst r + ?hl) (p\<lparr>obuf := put d out (obuf p)\<rparr>), ps, snd r)"
    using assms(2-6) loop len xl
    by (simp add: modify_def has_payload_def exceed_tail_def Let_def assms(13,14) split_beta)
qed

lemma modify_put:
  assumes "std_sort srt" and "has_payload p h h'" and "os \<noteq> []" and "maxPos ps \<le> 0"
    and "getPktOffset (isTCP p) (getDEST p) (ntohl (rd32 (obuf p) (h + 4))) f = (offset, f1)"
    and "maxPos ps \<le> offset"
    and "edits_ok offset 0 (srt os) (int (length (payload p h')))"
    and "start_pos (junk 0) - offset < last_end offset 0 (srt os) \<or>
      int (length (payload p h')) \<le> start_pos (junk 0) - offset"
    and "out = splice offset 0 (srt os) (payload p h')"
    and "h + nat (getTransportHeaderLen p) + length out \<le> 65536"
    and "d = h + nat (getTransportHeaderLen p)"
    and "r = keep_trail extra' p d (int (length out)) (int (length (payload p h'))) (put d out (obuf p)) f1"
  shows "modify srt junk gcle extra' p os ps f =
      Some (fst r - int (length (payload p h')),
        setTransportLen (fst r + getTransportHeaderLen p) (p\<lparr>obuf := put d out (obuf p)\<rparr>), ps, snd r)"
    and "int (length out) = int (length (payload p h')) + sum_list (map op_delta os)"
  using modify_memory [where ex = "[]" and junk = junk and srt = srt and os = os, OF assms(1-6)] assms(7-) by simp_all

text \<open>
  C12: \<open>modify\<close> with edits that do not overlap, for a parser without a content limit: the payload it
  writes is the received one with every edited range replaced, the transport length and the result
  are the new length and its difference from the old one; a TCP segment of more than 1400 bytes is
  not lengthened, what does not fit goes to the flow's trail.  This needs that the memory after the
  vector of edits does not look like an edit of the remaining payload (see \<open>modify_applies_memory\<close>).
\<close>

theorem modify_splices:
  assumes "std_sort srt" and "has_payload p h h'" and "os \<noteq> []" and "maxPos ps \<le> 0"
    and "getPktOffset (isTCP p) (getDEST p) (ntohl (rd32 (obuf p) (h + 4))) f = (offset, f1)"
    and "maxPos ps \<le> offset"
    and "edits_ok offset 0 (srt os) (int (length (payload p h')))"
    and "start_pos (junk 0) - offset < last_end offset 0 (srt os) \<or>
      int (length (payload p h')) \<le> start_pos (junk 0) - offset"
    and "out = splice offset 0 (srt os) (payload p h')"
    and "h + nat (getTransportHeaderLen p) + length out \<le> 65536"
    and "sent = (if isTCP p \<and> length (payload p h') < length out \<and> 1400 < length (payload p h')
           then take (length (payload p h')) out else out)"
  shows "\<exists>p' f'. modify srt junk gcle extra' p os ps f =
      Some (int (length sent) - int (length (payload p h')), p', ps, f') \<and>
    int (length out) = int (length (payload p h')) + sum_list (map op_delta os) \<and>
    bytes_at (obuf p') (h + nat (getTransportHeaderLen p)) (length sent) = sent \<and>
    transport_len p' = getTransportHeaderLen p + int (length sent) \<and>
    (if sent = out then f' = f1
     else if extra' = EXTRA_SHIFT
     then map_find (<) (trail_shift f') (nxt_seq p) = Some (map char_of_byte (drop (length sent) out))
     else trail f' (getDEST p) = map char_of_byte (drop (length sent) out))"
proof -
  let ?hl = "getTransportHeaderLen p" and ?xs = "payload p h'" and ?d = "h + nat (getTransportHeaderLen p)"
  define r where "r = keep_trail extra' p ?d (int (length out)) (int (length ?xs)) (put ?d out (obuf p)) f1"
  note m = modify_put [where junk = junk and srt = srt and os = os, OF assms(1-10) refl r_def]
  have cat: "string_at (put ?d out (obuf p)) (?d + length ?xs) (length out - length ?xs) =
      map char_of_byte (drop (length ?xs) out)"
  proof -
    have *: "put ?d out (obuf p) (?d + (length ?xs + i)) = out ! (length ?xs + i)"
      if "i < length out - length ?xs" for i
      by (rule put_in) (use that in simp)
    have "bytes_at (put ?d out (obuf p)) (?d + length ?xs) (length out - length ?xs) = drop (length ?xs) out"
      using * by (intro nth_equalityI) (simp_all add: add.assoc)
    then show ?thesis by (simp add: string_at_def)
  qed
  have r1: "fst r = int (length sent)"
    using assms(11) by (auto simp: r_def keep_trail_def Let_def)
  have r2: "if sent = out then snd r = f1
     else if extra' = EXTRA_SHIFT
     then map_find (<) (trail_shift (snd r)) (nxt_seq p) = Some (map char_of_byte (drop (length sent) out))
     else trail (snd r) (getDEST p) = map char_of_byte (drop (length sent) out)"
    using assms(11) cat by (auto simp: r_def keep_trail_def Let_def lin.find_put_same nat_diff_distrib)
  have "bytes_at (put ?d out (obuf p)) ?d (length sent) = sent"
    using assms(11) by (intro nth_equalityI) (auto simp: put_in)
  then show ?thesis
    using m r1 r2 bytes_at_setTransportLen [OF assms(2)] by simp
qed

text \<open>A UDP packet with the payload \<open>abc\<close>, and one edit.\<close>

definition demo_abc :: packet where
  "demo_abc = (received ETHERTYPE_IPV6 (udp6_bytes @ [97, 98, 99]))
     \<lparr>udp_hdr := Some 20, udp_old := Some 40, ipVersionBefore := 6, ip_len := 20, ip_hdr := InO 0,
      ip6_hdr := InI 0, transport_len := 11, obuf_len := 31\<rparr>"

definition edit :: "int \<Rightarrow> int \<Rightarrow> string \<Rightarrow> operation" where
  "edit a b t = \<lparr>start_pos = a, end_pos = b, op = REPLACE, newdata = t, op_cnt = False\<rparr>"

lemma edit_fields [simp]: "start_pos (edit a b t) = a" "end_pos (edit a b t) = b" "newdata (edit a b t) = t"
  by (simp_all add: edit_def)

lemma op_delta_edit [simp]: "op_delta (edit a b t) = int (length t) - (b - a)"
  by (simp add: op_delta_def)

definition demo_parser :: parser where
  "demo_parser = new_parser 0 ''http'' StatelessCommunicator"

lemma demo_abc_fields [simp]:
  "tcp_hdr demo_abc = None" "udp_hdr demo_abc = Some 20" "udp_old demo_abc = Some 40"
  "transport_len demo_abc = 11" "getTransportHeaderLen demo_abc = 8" "isTCP demo_abc = False"
  "isUDP demo_abc = True" "seg_ptrs demo_abc = Some (20, 40)"
  "maxPos demo_parser = -1"
  by (simp_all add: demo_abc_def getTransportHeaderLen_def isTCP_def isUDP_def seg_ptrs_def demo_parser_def
      new_parser_def received_def)

lemma demo_abc_payload:
  "has_payload demo_abc 20 40" "payload demo_abc 40 = [97, 98, 99]"
proof -
  show "has_payload demo_abc 20 40" by (simp add: has_payload_def)
  have "ibuf demo_abc = (\<lambda>i. if i < 51 then (udp6_bytes @ [97, 98, 99]) ! i else 0)"
    by (simp add: demo_abc_def received_def)
  then show "payload demo_abc 40 = [97, 98, 99]"
    by (simp add: payload_def bytes_at_def upt_rec nth_append)
qed

theorem modify_splices_witness:
  "\<exists>p' f'. modify (sort_key start_pos) (\<lambda>_. edit (-1) (-1) '''') (\<lambda>_ t. t) EXTRA_NONE demo_abc
      [edit 1 2 ''xyz''] demo_parser (Flow_default demo_libc) = Some (2, p', demo_parser, f') \<and>
    bytes_at (obuf p') 28 5 = map byte_of ''axyzc''"
proof -
  have out: "splice 0 0 (sort_key start_pos [edit 1 2 ''xyz'']) (payload demo_abc 40) = map byte_of ''axyzc''"
    by (simp add: demo_abc_payload byte_of_def)
  have n5: "(5 :: nat) = Suc (Suc (Suc (Suc (Suc 0))))" by simp
  show ?thesis
    unfolding n5 using modify_splices [OF std_sort_sort_key demo_abc_payload(1), of "[edit 1 2 ''xyz'']" demo_parser
        "Flow_default demo_libc" 0 "Flow_default demo_libc" "\<lambda>_. edit (-1) (-1) ''''"
        "map byte_of ''axyzc''" "map byte_of ''axyzc''" "\<lambda>_ t. t" EXTRA_NONE, unfolded out]
    by (simp add: demo_abc_payload(2) getPktOffset_def) blast
qed

text \<open>
  C21: \<open>modify\<close> reads past the vector of edits: after the last edit its loop goes on comparing positions with
  \<open>ops[ops.size()]\<close>.  Whenever the memory there looks like an edit of a later part of the payload that keeps its
  length, \<open>modify\<close> carries it out: with the result and the length of the edits asked for, it sends the payload
  with the text from that memory in place of what was received.
\<close>

theorem modify_applies_memory:
  assumes "std_sort srt" and "has_payload p h h'" and "os \<noteq> []" and "maxPos ps \<le> 0"
    and "getPktOffset (isTCP p) (getDEST p) (ntohl (rd32 (obuf p) (h + 4))) f = (offset, f1)"
    and "maxPos ps \<le> offset"
    and "op_delta (junk 0) = 0" and "edits_ok offset 0 (srt os @ [junk 0]) (int (length (payload p h')))"
    and "start_pos (junk 1) < end_pos (junk 0)"
    and "out = splice offset 0 (srt os @ [junk 0]) (payload p h')"
    and "h + nat (getTransportHeaderLen p) + length out \<le> 65536" and "length (payload p h') \<le> 1400"
  shows "\<exists>p'. modify srt junk gcle extra' p os ps f = Some (sum_list (map op_delta os), p', ps, f1) \<and>
    transport_len p' = transport_len p + sum_list (map op_delta os) \<and>
    bytes_at (obuf p') (h + nat (getTransportHeaderLen p)) (length out) = out"
proof -
  have last: "last_end offset pos (ys @ [o']) = end_pos o' - offset" for ys o' and pos :: int
    by (induction ys arbitrary: pos) simp_all
  define r where "r = keep_trail extra' p (h + nat (getTransportHeaderLen p)) (int (length out))
    (int (length (payload p h'))) (put (h + nat (getTransportHeaderLen p)) out (obuf p)) f1"
  have "modify srt junk gcle extra' p os ps f = Some (fst r - int (length (payload p h')),
        setTransportLen (fst r + getTransportHeaderLen p)
          (p\<lparr>obuf := put (h + nat (getTransportHeaderLen p)) out (obuf p)\<rparr>), ps, snd r)"
    and out: "int (length out) = int (length (payload p h')) + sum_list (map op_delta os)"
    by (rule modify_memory [where ex = "[junk 0]" and junk = junk and srt = srt and os = os,
          OF assms(1-6) _ _ assms(8) _ assms(10,11) refl r_def]; use assms(7,9) in \<open>simp add: last\<close>)+
  moreover have "r = (int (length out), f1)" using assms(12) by (simp add: r_def keep_trail_def)
  ultimately show ?thesis
    using length_payload [OF assms(2)] bytes_at_setTransportLen [OF assms(2)] by (simp add: bytes_at_put)
qed

text \<open>The edit of the first of three bytes, and a \<open>J\<close> in the memory that nobody asked for.\<close>

theorem modify_applies_memory_witness:
  "\<exists>p'. modify (sort_key start_pos) (\<lambda>i. if i = 0 then edit 2 3 ''J'' else edit 0 0 []) (\<lambda>_ t. t) EXTRA_NONE demo_abc
        [edit 0 1 ''x''] demo_parser (Flow_default demo_libc) = Some (0, p', demo_parser, Flow_default demo_libc) \<and>
     bytes_at (obuf p') 28 3 = map byte_of ''xbJ''"
proof -
  let ?junk = "\<lambda>i :: nat. if i = 0 then edit 2 3 ''J'' else edit 0 0 []"
  have "splice 0 0 (sort_key start_pos [edit 0 1 ''x''] @ [?junk 0]) (payload demo_abc 40) = map byte_of ''xbJ''"
    unfolding demo_abc_payload by (simp add: byte_of_def numeral_eq_Suc)
  from modify_applies_memory [where junk = ?junk and os = "[edit 0 1 ''x'']" and ps = demo_parser and offset = 0
        and f = "Flow_default demo_libc" and gcle = "\<lambda>_ t. t" and extra' = EXTRA_NONE,
      OF std_sort_sort_key demo_abc_payload(1) _ _ _ _ _ _ _ this [symmetric]]
  have "\<exists>p'. modify (sort_key start_pos) ?junk (\<lambda>_ t. t) EXTRA_NONE demo_abc
        [edit 0 1 ''x''] demo_parser (Flow_default demo_libc) = Some (0, p', demo_parser, Flow_default demo_libc) \<and>
      bytes_at (obuf p') 28 (length (map byte_of ''xbJ'')) = map byte_of ''xbJ''"
    by (simp add: demo_abc_payload(2) getPktOffset_def) blast
  moreover have "length (map byte_of ''xbJ'') = 3" by simp
  ultimately show ?thesis by (simp only:)
qed

text \<open>
   An edit right after a deletion is lost: the loop jumps over the deleted range and copies the next
  byte without looking whether another edit starts there.
\<close>

theorem modify_skips_edit_after_deletion:
  "map_option (\<lambda>(r, p', ps, f). bytes_at (obuf p') 28 2)
     (modify (sort_key start_pos) (\<lambda>_. edit (-1) (-1) '''') (\<lambda>_ t. t) EXTRA_NONE demo_abc
        [edit 0 1 '''', edit 1 2 ''x''] demo_parser (Flow_default demo_libc)) = Some (map byte_of ''bc'') \<and>
   splice 0 0 [edit 0 1 '''', edit 1 2 ''x''] (payload demo_abc 40) = map byte_of ''xc''"
proof
  have src: "ibuf_at demo_abc 48 1 = Some 98" "ibuf_at demo_abc 48 2 = Some 99"
    using reads_payload [OF demo_abc_payload(1)] demo_abc_payload(2)
    by (auto simp: reads_def eval_nat_numeral dest: spec [of _ "1 :: nat"] spec [of _ "2 :: nat"])
  have upd: "obuf (setTransportLen n (demo_abc\<lparr>obuf := m\<rparr>)) = wr16 24 (ntohs (of_int n)) m" for n m
    by (simp add: setTransportLen_def Let_def)
  have b2: "bytes_at m 28 2 = [m 28, m 29]" for m
    by (simp add: bytes_at_def upt_rec)
  have n2: "edit_loop 2 = edit_loop (Suc (Suc 0))" by (simp add: numeral_2_eq_2)
  show "map_option (\<lambda>(r, p', ps, f). bytes_at (obuf p') 28 2)
     (modify (sort_key start_pos) (\<lambda>_. edit (-1) (-1) '''') (\<lambda>_ t. t) EXTRA_NONE demo_abc
        [edit 0 1 '''', edit 1 2 ''x''] demo_parser (Flow_default demo_libc)) = Some (map byte_of ''bc'')"
    by (simp add: modify_def getPktOffset_def n2 edit_byte_def edit_enter_def ops_at_def src BUF_LEN_def
        exceed_tail_def keep_trail_def b2 upd wr16_byte_other Let_def byte_of_def)
  show "splice 0 0 [edit 0 1 '''', edit 1 2 ''x''] (payload demo_abc 40) = map byte_of ''xc''"
    by (simp add: demo_abc_payload byte_of_def)
qed

section \<open>Packets after the first\<close>

text \<open>
  C22: From the second edited packet of a direction on, the edits of a parser whose positions count from the
  start of the packet (a stateless one) are lost: once \<open>init_seq\<close> is set and the packet lies further on in
  the stream than the edits in the packet, \<open>modify\<close> sends the received bytes without any edit, in the
  length the edited payload would have, so that text is cut off or what lies behind the packet is sent.
\<close>

theorem modify_loses_later_edits:
  assumes "std_sort srt" and "has_payload p h h'" and "isTCP p" and "os \<noteq> []" and "maxPos ps \<le> 0"
    and "init_seq_set f (getDEST p)"
    and "D = sint (ntohl (rd32 (obuf p) (h + 4)) - init_seq f (getDEST p))" and "0 \<le> D"
    and "\<And>o'. o' \<in> set os \<Longrightarrow> start_pos o' < D"
    and "int n = transport_len p - getTransportHeaderLen p + sum_list (map op_delta os)"
    and "h + nat (getTransportHeaderLen p) + n \<le> 65536" and "h' + nat (getTransportHeaderLen p) + n \<le> 65536"
    and "transport_len p - getTransportHeaderLen p \<le> 1400"
  shows "\<exists>p'. modify srt junk gcle extra' p os ps f = Some (sum_list (map op_delta os), p', ps, f) \<and>
    transport_len p' = getTransportHeaderLen p + int n \<and>
    bytes_at (obuf p') (h + nat (getTransportHeaderLen p)) n =
      bytes_at (ibuf p) (h' + nat (getTransportHeaderLen p)) n"
proof -
  let ?hl = "getTransportHeaderLen p" and ?d = "h + nat (getTransportHeaderLen p)"
  let ?s = "h' + nat (getTransportHeaderLen p)"
  let ?xs = "bytes_at (ibuf p) ?s n"
  have src: "reads (ibuf_at p ?s) ?xs"
    using assms(12) by (auto simp: reads_def ibuf_at_def BUF_LEN_def nat_add_distrib)
  have set: "set (srt os) = set os"
    using assms(1) by (metis std_sort_def set_mset_mset)
  then have ne: "srt os \<noteq> []" using assms(4) by auto
  then have "ops_at junk (srt os) 0 \<in> set os" by (simp add: ops_at_def flip: set)
  then have first: "start_pos (ops_at junk (srt os) 0) - D < 0" using assms(9) by fastforce
  have loop: "edit_loop n D (ops_at junk (srt os)) (ibuf_at p ?s) ?d (0, 0, False) (obuf p) =
      Some (put ?d ?xs (obuf p))"
    using loop_copy [OF src, of 0 n "ops_at junk (srt os)" 0 D ?d 0 "obuf p"] first assms(11) by simp
  have len: "fold (\<lambda>o' l. l + op_delta o') (srt os) (transport_len p - ?hl) = int n"
    using assms(10) by (simp add: fold_op_delta sum_op_delta_sort [OF assms(1)])
  have off: "getPktOffset (isTCP p) (getDEST p) (ntohl (rd32 (obuf p) (h + 4))) f = (D, f)"
    using assms(3,6,7) by (simp add: getPktOffset_def)
  have m: "modify srt junk gcle extra' p os ps f =
      Some (int n - (transport_len p - ?hl), setTransportLen (int n + ?hl) (p\<lparr>obuf := put ?d ?xs (obuf p)\<rparr>), ps, f)"
    using assms(2,4,5,8,13) loop len off
    by (simp add: modify_def has_payload_def exceed_tail_def keep_trail_def Let_def)
  moreover have "int n - (transport_len p - ?hl) = sum_list (map op_delta os)"
    using assms(10) by simp
  moreover have "bytes_at (put ?d ?xs (obuf p)) ?d n = ?xs"
    using bytes_at_put [of ?d ?xs "obuf p"] by simp
  ultimately show ?thesis
    using bytes_at_setTransportLen [OF assms(2)] by simp
qed

text \<open>A TCP packet with the payload \<open>abcd\<close>, 4 bytes on in a stream whose first bytes were edited.\<close>

definition demo_later :: packet where
  "demo_later = (received ETHERTYPE_IPV6 (replicate 60 0 @ [97, 98, 99, 100]))
     \<lparr>tcp_hdr := Some 20, tcp_old := Some 40, ipVersionBefore := 6, transport_len := 24,
      obuf := wr32 24 (ntohl 1004) ((\<lambda>_. 0)(32 := 80))\<rparr>"

definition demo_stream :: flow where
  "demo_stream = (Flow_default demo_libc)
     \<lparr>init_seq_set := (\<lambda>d. d = SERVER), init_seq := (\<lambda>_. 1000)\<rparr>"

lemma demo_later_fields:
  "tcp_hdr demo_later = Some 20" "udp_hdr demo_later = None" "tcp_old demo_later = Some 40"
  "isTCP demo_later = True" "isUDP demo_later = False" "getDEST demo_later = SERVER" "transport_len demo_later = 24"
  "getTransportHeaderLen demo_later = 20" "ntohl (rd32 (obuf demo_later) 24) = 1004"
  "init_seq_set demo_stream SERVER" "init_seq demo_stream SERVER = 1000"
  by (simp_all add: demo_later_def demo_stream_def isTCP_def isUDP_def getDEST_def getTransportHeaderLen_def
      received_def buf_simps)

lemma demo_later_payload: "has_payload demo_later 20 40"
  "bytes_at (ibuf demo_later) 60 3 = [97, 98, 99]"
proof -
  show "has_payload demo_later 20 40"
    by (simp add: has_payload_def demo_later_fields seg_ptrs_def)
  have "ibuf demo_later = (\<lambda>i. if i < 64 then (replicate 60 0 @ [97, 98, 99, 100]) ! i else 0)"
    by (simp add: demo_later_def received_def)
  then show "bytes_at (ibuf demo_later) 60 3 = [97, 98, 99]"
    by (simp add: bytes_at_def upt_rec nth_append)
qed

theorem modify_loses_later_edits_witness:
  "\<exists>p'. modify (sort_key start_pos) (\<lambda>_. edit 0 0 ''J'') (\<lambda>_ t. t) EXTRA_NONE demo_later [edit 1 3 ''x'']
      demo_parser demo_stream = Some (-1, p', demo_parser, demo_stream) \<and>
    transport_len p' = 23 \<and> bytes_at (obuf p') 40 3 = map byte_of ''abc''"
  using modify_loses_later_edits [OF std_sort_sort_key demo_later_payload(1), of "[edit 1 3 ''x'']" demo_parser
      demo_stream 4 3 "\<lambda>_. edit 0 0 ''J''" "\<lambda>_ t. t" EXTRA_NONE]
  by (simp add: demo_later_fields demo_later_payload byte_of_def)

end
