(* ===== verification/App_Layer.thy ===== *)
theory App_Layer
  imports Nat64_Props Modify
begin

text \<open>
  \<open>NAT::doApp\<close> of \<open>nat.cc\<close>: the application-level part of the gateway.  It corrects TCP sequence and
  acknowledgement numbers, guesses the flow's protocol by running the configured parsers, and applies
  the edits a parser returns.  (The call in \<open>translate\<close> is commented out in this revision.)

  What the build generates is in \<open>app_env\<close>: \<open>env_feed\<close> is \<open>Communicator::addData\<close> on a parser object, it
  runs the generated parser, whose actions change the state.  An exception (a content range that ends
  before it begins) is \<^const>\<open>None\<close>, like undefined behaviour.
\<close>

record app_env =
  env_L :: libc
  env_unset :: int
  env_sort :: "operation list \<Rightarrow> operation list"
  env_junk :: "nat \<Rightarrow> operation"
  env_gcle :: "string \<Rightarrow> string \<Rightarrow> string"
  env_feed :: "nat \<Rightarrow> string \<Rightarrow> state_manager \<Rightarrow> int \<times> state_manager"

section \<open>Steps of doApp\<close>

text \<open>The direction, which in analysis mode depends on the pair the flow was created with.\<close>

definition app_dest :: "packet \<Rightarrow> nat \<Rightarrow> state_manager \<Rightarrow> DEST option" where
  "app_dest p fid s =
     (if analysisMode s
      then do {
        daddr \<leftarrow> load32 p (ip_hdr p) 16;
        Some (if ip4port_eq (ip4p (flow_at s fid)) (IP4Port (IPv4Addr daddr) (getDestPort p))
              then SERVER else CLIENT) }
      else Some (getDEST p))"

definition add_word :: "nat \<Rightarrow> int \<Rightarrow> mem \<Rightarrow> mem" where
  "add_word i d m = wr32 i (ntohl (ntohl (rd32 m i) + of_int d)) m"

definition adjust_seq :: "DEST \<Rightarrow> flow \<Rightarrow> packet \<Rightarrow> packet" where
  "adjust_seq dest f p =
     (case tcp_hdr p of
        None \<Rightarrow> p
      | Some t \<Rightarrow>
          (let offsetc2s = getOffset SERVER f; offsets2c = getOffset CLIENT f in
           if dest = SERVER
           then p\<lparr>obuf := add_word (t + 8) (- offsets2c) (add_word (t + 4) offsetc2s (obuf p))\<rparr>
           else p\<lparr>obuf := add_word (t + 4) offsets2c (add_word (t + 8) (- offsetc2s) (obuf p))\<rparr>))"

definition app_shift :: "packet \<Rightarrow> int \<Rightarrow> nat \<Rightarrow> state_manager \<Rightarrow> (packet \<times> state_manager) option" where
  "app_shift p len fid s =
     (case tcp_hdr p of
        Some t \<Rightarrow>
          if extra s = EXTRA_SHIFT
          then do {
            (m, f) \<leftarrow> shift (extra s) p (t + nat (getTransportHeaderLen p)) (nat len) (flow_at s fid);
            Some (p\<lparr>obuf := m\<rparr>, upd_flow fid (\<lambda>_. f) s) }
          else Some (p, s)
      | None \<Rightarrow> Some (p, s))"

definition app_content :: "packet \<Rightarrow> int \<Rightarrow> int \<Rightarrow> string option" where
  "app_content p hl len =
     (case (case tcp_hdr p of Some t \<Rightarrow> Some t | None \<Rightarrow> udp_hdr p) of
        None \<Rightarrow> Some []
      | Some h \<Rightarrow> if len < hl then None else Some (string_at (obuf p) (h + nat hl) (nat (len - hl))))"

definition app_count :: "packet \<Rightarrow> DEST \<Rightarrow> nat \<Rightarrow> state_manager \<Rightarrow> state_manager" where
  "app_count p dest fid s =
     (case tcp_old p of
        Some t \<Rightarrow> upd_flow fid (flow_count (isTCP p) (ntohl (rd32 (ibuf p) (t + 4)))
                    (transport_len p - getTransportHeaderLen p) dest) s
      | None \<Rightarrow> s)"

definition process_at :: "app_env \<Rightarrow> nat \<Rightarrow> string \<Rightarrow> state_manager \<Rightarrow> operation list \<times> state_manager" where
  "process_at e pid content s =
     (let (r, s1) = env_feed e pid content s;
          (os, ps) = process (\<lambda>_ q. (r, q)) content (parser_heap s1 ! pid)
      in (os, s1\<lparr>parser_heap := (parser_heap s1)[pid := ps]\<rparr>))"

section \<open>Guessing the protocol\<close>

record guess =
  g_ops :: "operation list"
  g_parser :: "nat option"
  g_protocol :: string
  g_guess :: string
  g_count :: nat

definition no_guess :: guess where
  "no_guess = \<lparr>g_ops = [], g_parser = None, g_protocol = [], g_guess = [], g_count = 0\<rparr>"

text \<open>The loop over the configured protocols, in the map's order, which stops at the first edits.\<close>

primrec guess_loop ::
    "app_env \<Rightarrow> packet \<Rightarrow> string \<Rightarrow> DEST \<Rightarrow> nat \<Rightarrow> (string \<times> protocol_conf) list \<Rightarrow> guess \<Rightarrow> state_manager \<Rightarrow>
     guess \<times> state_manager" where
  "guess_loop e p content dest fid [] g s = (g, s)"
| "guess_loop e p content dest fid (it # its) g s =
     (if conf_protocol (snd it) = ''tcp'' \<and> \<not> isTCP p \<or> conf_protocol (snd it) = ''udp'' \<and> \<not> isUDP p
      then guess_loop e p content dest fid its g s
      else
        (let (q, s1) = getParser (env_unset e) (fst it) dest fid s in
         case q of
           None \<Rightarrow> guess_loop e p content dest fid its (g\<lparr>g_parser := None\<rparr>) s1
         | Some pid \<Rightarrow>
             (let (os, s2) = process_at e pid content s1 in
              if os \<noteq> []
              then (g\<lparr>g_ops := os, g_parser := Some pid, g_protocol := fst it\<rparr>,
                    upd_flow fid (setProtocol (fst it)) s2)
              else guess_loop e p content dest fid its
                     (if isCorrectProtocol (parser_heap s2 ! pid)
                      then g\<lparr>g_ops := [], g_parser := Some pid, g_guess := fst it, g_count := g_count g + 1\<rparr>
                      else g\<lparr>g_ops := [], g_parser := Some pid\<rparr>) s2)))"

definition parse_known ::
    "app_env \<Rightarrow> string \<Rightarrow> string \<Rightarrow> DEST \<Rightarrow> nat \<Rightarrow> state_manager \<Rightarrow> guess \<times> state_manager" where
  "parse_known e proto content dest fid s =
     (let (q, s1) = getParser (env_unset e) proto dest fid s; g = no_guess\<lparr>g_protocol := proto\<rparr> in
      case q of
        None \<Rightarrow> (g, s1)
      | Some pid \<Rightarrow>
          (let (os, s2) = process_at e pid content s1 in (g\<lparr>g_ops := os, g_parser := Some pid\<rparr>, s2)))"

definition app_parse ::
    "app_env \<Rightarrow> packet \<Rightarrow> string \<Rightarrow> DEST \<Rightarrow> nat \<Rightarrow> state_manager \<Rightarrow> guess \<times> state_manager" where
  "app_parse e p content dest fid s =
     (let proto = getProtocol (flow_at s fid); s0 = count1 ''parse'' s;
          (g, s1) = (if proto = [] then guess_loop e p content dest fid (protocols s0) no_guess s0
                     else parse_known e proto content dest fid s0);
          s2 = snd (count2 ''parse'' s1)
      in (g, if g_protocol g = [] \<and> g_count g = 1 then upd_flow fid (setProtocol (g_guess g)) s2 else s2))"

section \<open>doApp\<close>

definition app_modify ::
    "app_env \<Rightarrow> packet \<Rightarrow> DEST \<Rightarrow> nat \<Rightarrow> guess \<Rightarrow> nat_obj \<Rightarrow> state_manager \<Rightarrow> (packet \<times> nat_obj \<times> state_manager) option" where
  "app_modify e p dest fid g n s0 =
     (let s = count1 ''mo'' s0 in
      if g_ops g = [] then Some (p, n, snd (count2 ''mo'' s))
      else do {
        pid \<leftarrow> g_parser g;
        (delta, p1, ps, f) \<leftarrow> modify (env_sort e) (env_junk e) (env_gcle e) (extra s) p (g_ops g)
                                (parser_heap s ! pid) (flow_at s fid);
        let s1 = upd_flow fid (\<lambda>_. addOffset dest delta f) (s\<lparr>parser_heap := (parser_heap s)[pid := ps]\<rparr>);
        Some (p1, n\<lparr>modified := True\<rparr>, snd (count2 ''mo'' s1)) })"

definition doApp ::
    "app_env \<Rightarrow> packet \<Rightarrow> nat_obj \<Rightarrow> state_manager \<Rightarrow> (packet \<times> nat_obj \<times> state_manager) option" where
  "doApp e p n s = do {
     let len = transport_len p;
     let hl = getTransportHeaderLen p;
     (fo, s1) \<leftarrow> getFlow (env_L e) p s;
     let n1 = n\<lparr>exttcpflow := fo\<rparr>;
     case fo of
       None \<Rightarrow> Some (p, n1, s1)
     | Some fid \<Rightarrow> do {
         dest \<leftarrow> app_dest p fid s1;
         let p1 = (if analysisMode s1 then p else adjust_seq dest (flow_at s1 fid) p);
         if \<not> analysisMode s1 \<and> (len \<le> hl \<or> ignored (flow_at s1 fid)) then Some (p1, n1, s1)
         else do {
           (p2, s2) \<leftarrow> app_shift p1 (len - hl) fid s1;
           content \<leftarrow> app_content p2 hl len;
           if content = [] then Some (p2, n1, s2)
           else do {
             let s3 = (if isTCP p2 then app_count p2 dest fid s2 else s2);
             let (g, s4) = app_parse e p2 content dest fid s3;
             app_modify e p2 dest fid g n1 s4 } } } }"

end
