(* ===== verification/App_Props.thy ===== *)
theory App_Props
  imports App_Layer Modify_Props Translation
begin

text \<open>
  \<open>doApp\<close>: what it does to sequence and acknowledgement numbers, and a flow's offset is exactly what its packets
  were lengthened by.
\<close>

section \<open>Sequence numbers\<close>

definition seq_of :: "packet \<Rightarrow> u32" where
  "seq_of p = (case tcp_hdr p of Some t \<Rightarrow> ntohl (rd32 (obuf p) (t + 4)) | None \<Rightarrow> 0)"

definition ack_of :: "packet \<Rightarrow> u32" where
  "ack_of p = (case tcp_hdr p of Some t \<Rightarrow> ntohl (rd32 (obuf p) (t + 8)) | None \<Rightarrow> 0)"

lemma rd32_add_word:
  "rd32 (add_word i d m) i = ntohl (ntohl (rd32 m i) + of_int d)"
  "j + 3 < i \<or> i + 3 < j \<Longrightarrow> rd32 (add_word i d m) j = rd32 m j"
  by (simp_all add: add_word_def buf_simps)

lemma adjust_seq_numbers:
  assumes "isTCP p"
  shows "seq_of (adjust_seq SERVER f p) = seq_of p + of_int (getOffset SERVER f)"
    and "ack_of (adjust_seq SERVER f p) = ack_of p - of_int (getOffset CLIENT f)"
    and "seq_of (adjust_seq CLIENT f p) = seq_of p + of_int (getOffset CLIENT f)"
    and "ack_of (adjust_seq CLIENT f p) = ack_of p - of_int (getOffset SERVER f)"
  using assms by (auto simp: isTCP_def seq_of_def ack_of_def adjust_seq_def Let_def rd32_add_word)

lemma adjust_seq_fields [simp]:
  "transport_len (adjust_seq d f p) = transport_len p" "getDEST (adjust_seq d f p) = getDEST p"
  "tcp_hdr (adjust_seq d f p) = tcp_hdr p" "udp_hdr (adjust_seq d f p) = udp_hdr p"
  by (auto simp: adjust_seq_def Let_def getDEST_def split: option.splits)

text \<open>A TCP segment without data.\<close>

definition demo_tcp :: "u32 \<Rightarrow> u32 \<Rightarrow> packet" where
  "demo_tcp sq ak = (received ETHERTYPE_IPV6 [])
     \<lparr>tcp_hdr := Some 20, tcp_old := Some 40, ipVersionBefore := 6, transport_len := 20,
      obuf := wr32 24 (ntohl sq) (wr32 28 (ntohl ak) (\<lambda>_. 0))\<rparr>"

section \<open>Relations that parsing respects\<close>

text \<open>
  A relation between states that every single operation of the parsing part of \<open>doApp\<close> respects, provided the
  generated parsers do (\<open>ok\<close>): then the whole part respects it.
\<close>

locale app_relation =
  fixes R :: "state_manager \<Rightarrow> state_manager \<Rightarrow> bool" and ok :: "app_env \<Rightarrow> bool"
  assumes R_trans: "R s s' \<Longrightarrow> R s' s'' \<Longrightarrow> R s s''"
    and R_refl: "R s s"
    and R_feed: "ok e \<Longrightarrow> R s (snd (env_feed e pid c s))"
    and R_processed: "R s (s\<lparr>parser_heap := (parser_heap s)[pid := snd (process (\<lambda>_ q. (r, q)) c (parser_heap s ! pid))]\<rparr>)"
    and R_getParser: "R s (snd (getParser u proto d fid s))"
    and R_setProtocol: "R s (upd_flow fid (setProtocol proto) s)"
    and R_count1: "R s (count1 l s)"
    and R_count2: "R s (snd (count2 l s))"
begin

lemma R_process: "ok e \<Longrightarrow> R s (snd (process_at e pid c s))"
  unfolding process_at_def Let_def split_beta using R_trans [OF R_feed R_processed] by simp

lemma R_guess: "ok e \<Longrightarrow> R s (snd (guess_loop e p c d fid its g s))"
proof (induction its arbitrary: g s)
  case Nil
  show ?case by (simp add: R_refl)
next
  case (Cons it its)
  obtain q s1 where q: "getParser (env_unset e) (fst it) d fid s = (q, s1)" by fastforce
  have s1: "R s s1" using R_getParser [of s "env_unset e" "fst it" d fid] q by simp
  show ?case
  proof (cases q)
    case None
    with Cons q R_trans [OF s1] show ?thesis by simp
  next
    case (Some pid)
    obtain os s2 where os: "process_at e pid c s1 = (os, s2)" by fastforce
    have s2: "R s s2"
      using R_trans [OF s1 R_process [OF Cons.prems]] os by (metis snd_conv)
    with Some q os Cons R_trans [OF s1] R_trans [OF s2] R_setProtocol show ?thesis by simp
  qed
qed

lemma R_known: "ok e \<Longrightarrow> R s (snd (parse_known e proto c d fid s))"
  using R_getParser [of s "env_unset e" proto d fid] R_trans [OF R_getParser R_process]
  by (simp add: parse_known_def split_beta Let_def split: option.splits)

lemma R_parse:
  assumes "ok e" shows "R s (snd (app_parse e p c d fid s))"
proof -
  let ?s0 = "count1 ''parse'' s" and ?proto = "getProtocol (flow_at s fid)"
  define r where "r = (if ?proto = [] then guess_loop e p c d fid (protocols ?s0) no_guess ?s0
                       else parse_known e ?proto c d fid ?s0)"
  have "R ?s0 (snd r)"
    using R_known [OF assms] R_guess [OF assms] by (simp add: r_def)
  then have r: "R s (snd (count2 ''parse'' (snd r)))"
    using R_trans R_count1 R_count2 by blast
  with R_trans [OF r R_setProtocol] show ?thesis
    by (simp add: app_parse_def Let_def split_beta r_def [symmetric])
qed

end

text \<open>The other steps of \<open>doApp\<close>: when they respect the relation too, \<open>doApp\<close> as a whole does.\<close>

locale doApp_relation = app_relation R ok
  for R :: "state_manager \<Rightarrow> state_manager \<Rightarrow> bool" and ok :: "app_env \<Rightarrow> bool" +
  assumes R_getFlow: "getFlow L p s = Some (fo, s') \<Longrightarrow> R s s'"
    and R_shift: "app_shift p len fid s = Some (q, s') \<Longrightarrow> R s s'"
    and R_app_count: "R s (app_count p dest fid s)"
    and R_modify: "app_modify e p dest fid g n s = Some (p', n', s') \<Longrightarrow> R s s'"
begin

lemma R_data:
  assumes "do {
      (p2, s2) \<leftarrow> app_shift p1 l fid s1;
      content \<leftarrow> app_content p2 hl len;
      if content = [] then Some (p2, n1, s2)
      else do {
        let s3 = (if isTCP p2 then app_count p2 dest fid s2 else s2);
        let (g, s4) = app_parse e p2 content dest fid s3;
        app_modify e p2 dest fid g n1 s4 } } = Some (p', n', s')"
    and "ok e"
  shows "R s1 s'"
proof -
  obtain p2 s2 content where sh: "app_shift p1 l fid s1 = Some (p2, s2)" and
    r: "(if content = [] then Some (p2, n1, s2)
      else do {
        let s3 = (if isTCP p2 then app_count p2 dest fid s2 else s2);
        let (g, s4) = app_parse e p2 content dest fid s3;
        app_modify e p2 dest fid g n1 s4 }) = Some (p', n', s')"
    using assms(1) by (auto simp only: bind_eq_Some_conv split_beta fst_conv snd_conv)
  define s3 where "s3 = (if isTCP p2 then app_count p2 dest fid s2 else s2)"
  obtain g s4 where g: "app_parse e p2 content dest fid s3 = (g, s4)" by fastforce
  note s2 = R_shift [OF sh]
  have "R s1 s3" using s2 R_trans [OF s2 R_app_count] by (simp add: s3_def)
  then have s4: "R s1 s4" using R_trans R_parse [OF assms(2)] g by (metis snd_conv)
  show ?thesis
  proof (cases "content = []")
    case True
    with r s2 show ?thesis by simp
  next
    case False
    with r g have "app_modify e p2 dest fid g n1 s4 = Some (p', n', s')" by (simp add: s3_def)
    from R_trans [OF s4 R_modify [OF this]] show ?thesis .
  qed
qed

lemma R_doApp:
  assumes "doApp e p n s = Some (p', n', s')" and "ok e" shows "R s s'"
proof -
  obtain fo s1 where gf: "getFlow (env_L e) p s = Some (fo, s1)"
    using assms(1) by (auto simp: doApp_def Let_def bind_eq_Some_conv)
  have "R s1 s'"
  proof (cases fo)
    case None
    with assms(1) gf show ?thesis by (simp add: doApp_def Let_def R_refl)
  next
    case (Some fid)
    with assms(1) gf obtain dest where dest: "app_dest p fid s1 = Some dest"
      by (auto simp: doApp_def Let_def bind_eq_Some_conv)
    show ?thesis
    proof (cases "\<not> analysisMode s1 \<and> (transport_len p \<le> getTransportHeaderLen p \<or> ignored (flow_at s1 fid))")
      case True
      with assms(1) gf Some dest show ?thesis by (auto simp: doApp_def Let_def R_refl)
    next
      case False
      with assms(1) gf Some dest show ?thesis by (intro R_data [OF _ assms(2)]) (simp add: doApp_def Let_def)
    qed
  qed
  with R_getFlow [OF gf] show ?thesis by (rule R_trans)
qed

end

section \<open>Offsets\<close>

lemma getPktOffset_offset [simp]: "getOffset d (snd (getPktOffset b e q f)) = getOffset d f"
  by (simp add: getPktOffset_def getOffset_def)

lemma keep_trail_offset [simp]: "getOffset d (snd (keep_trail x p i l lo m f)) = getOffset d f"
  by (simp add: keep_trail_def getOffset_def Let_def)

lemma modify_delta:
  assumes "modify srt junk gcle x p os ps f = Some (delta, p', ps', f')"
  shows "transport_len p' = transport_len p + delta" and "getOffset d f' = getOffset d f"
  using assms getPktOffset_offset [of d "isTCP p" "getDEST p" _ f]
  by (auto simp: modify_def split_beta Let_def bind_eq_Some_conv split: if_splits option.splits)

text \<open>Two states in which the flows have the same offsets (and none is gone).\<close>

definition same_offsets :: "state_manager \<Rightarrow> state_manager \<Rightarrow> bool" where
  "same_offsets s s' \<longleftrightarrow>
     length (flows s) \<le> length (flows s') \<and>
     (\<forall>i<length (flows s). \<forall>d. getOffset d (flow_at s' i) = getOffset d (flow_at s i))"

lemma same_offsets_refl [simp]: "same_offsets s s"
  by (simp add: same_offsets_def)

lemma same_offsets_trans: "same_offsets s s' \<Longrightarrow> same_offsets s' s'' \<Longrightarrow> same_offsets s s''"
  by (auto simp: same_offsets_def)

lemma same_offsets_upd:
  "(\<And>f d. getOffset d (g f) = getOffset d f) \<Longrightarrow> same_offsets s (upd_flow i g s)"
  by (auto simp: same_offsets_def upd_flow_def flow_at_def) (metis nth_list_update_eq nth_list_update_neq)

lemma same_offsets_flows: "flows s' = flows s \<Longrightarrow> same_offsets s s'"
  by (simp add: same_offsets_def flow_at_def)

text \<open>
  What \<open>doApp\<close> relies on of the generated parsers: their actions make mappings and ignore flows, they do
  not touch the offsets of a flow.
\<close>

definition env_ok :: "app_env \<Rightarrow> bool" where
  "env_ok e \<longleftrightarrow> (\<forall>pid c s. same_offsets s (snd (env_feed e pid c s)))"

lemma same_offsets_getParser: "same_offsets s (snd (getParser u proto d fid s))"
proof -
  have "same_offsets s (upd_flow fid (\<lambda>f. f\<lparr>parsers_s2c := m\<rparr>) (s\<lparr>protocols := ps, parser_heap := h\<rparr>))"
    "same_offsets s (upd_flow fid (\<lambda>f. f\<lparr>parsers_c2s := m\<rparr>) (s\<lparr>protocols := ps, parser_heap := h\<rparr>))" for m ps h
    by (rule same_offsets_trans [of _ "s\<lparr>protocols := ps, parser_heap := h\<rparr>"];
        (rule same_offsets_flows same_offsets_upd; simp add: getOffset_def))+
  then show ?thesis
    unfolding getParser_def Let_def split_beta
    by (auto intro: same_offsets_flows split: PROCESS_TYPE.splits)
qed

interpretation offsets: app_relation same_offsets env_ok
proof unfold_locales
  fix s s' s'' e pid c r u proto d fid l
  show "same_offsets s s' \<Longrightarrow> same_offsets s' s'' \<Longrightarrow> same_offsets s s''" by (rule same_offsets_trans)
  show "env_ok e \<Longrightarrow> same_offsets s (snd (env_feed e pid c s))" by (simp add: env_ok_def)
  show "same_offsets s (snd (getParser u proto d fid s))" by (rule same_offsets_getParser)
  show "same_offsets s (upd_flow fid (setProtocol proto) s)"
    by (rule same_offsets_upd) (simp add: getOffset_def setProtocol_def)
qed (simp_all add: same_offsets_flows count1_def count2_def gettimeofday_def split_beta Let_def)

text \<open>From \<open>s\<close> to \<open>s'\<close> only the offset of flow \<open>fid\<close> in direction \<open>dest\<close> moves, by \<open>k\<close>.\<close>

definition moves_offset :: "state_manager \<Rightarrow> nat \<Rightarrow> DEST \<Rightarrow> int \<Rightarrow> state_manager \<Rightarrow> bool" where
  "moves_offset s fid dest k s' \<longleftrightarrow>
     (\<forall>i<length (flows s). \<forall>d. getOffset d (flow_at s' i) =
        getOffset d (flow_at s i) + (if i = fid \<and> d = dest then k else 0))"

lemma moves_offset_same: "same_offsets s s' \<Longrightarrow> moves_offset s' fid dest k s'' \<Longrightarrow> moves_offset s fid dest k s''"
  by (auto simp: moves_offset_def same_offsets_def)

lemma moves_offset_0: "same_offsets s s' \<Longrightarrow> moves_offset s fid dest 0 s'"
  by (simp add: moves_offset_def same_offsets_def)

lemma moves_offset_refl [simp]: "moves_offset s fid dest 0 s"
  by (simp add: moves_offset_def)

lemma moves_offset_upd:
  assumes "\<And>d. getOffset d f = getOffset d (flow_at s fid)"
  shows "moves_offset s fid dest k (upd_flow fid (\<lambda>_. addOffset dest k f) s)"
  unfolding moves_offset_def
proof (intro allI impI)
  fix i d assume "i < length (flows s)"
  then show "getOffset d (flow_at (upd_flow fid (\<lambda>_. addOffset dest k f) s) i) =
      getOffset d (flow_at s i) + (if i = fid \<and> d = dest then k else 0)"
    using assms by (cases "i = fid") (auto simp: upd_flow_def flow_at_def getOffset_addOffset)
qed

lemma moves_offset_flows: "moves_offset s fid dest k s' \<Longrightarrow> flows s = flows r \<Longrightarrow> flows s' = flows r' \<Longrightarrow>
   moves_offset r fid dest k r'"
  by (simp add: moves_offset_def flow_at_def)

lemma flows_count [simp]: "flows (count1 l s) = flows s" "flows (snd (count2 l s)) = flows s"
  by (simp_all add: count1_def count2_def gettimeofday_def split_beta Let_def)

lemma parser_heap_count [simp]: "parser_heap (count1 l s) = parser_heap s"
  by (simp add: count1_def gettimeofday_def)

lemma app_modify_offset:
  assumes "app_modify e p dest fid g n s = Some (p', n', s')"
  shows "moves_offset s fid dest (transport_len p' - transport_len p) s'"
proof (cases "g_ops g = []")
  case True
  with assms show ?thesis
    by (auto simp: app_modify_def Let_def intro!: moves_offset_0 same_offsets_flows)
next
  case False
  with assms obtain pid delta ps f where
    m: "modify (env_sort e) (env_junk e) (env_gcle e) (extra (count1 ''mo'' s)) p (g_ops g)
          (parser_heap s ! pid) (flow_at (count1 ''mo'' s) fid) = Some (delta, p', ps, f)"
    and s': "flows s' = flows (upd_flow fid (\<lambda>_. addOffset dest delta f) (count1 ''mo'' s))"
    by (auto simp: app_modify_def Let_def bind_eq_Some_conv upd_flow_def)
  have "moves_offset (count1 ''mo'' s) fid dest delta
      (upd_flow fid (\<lambda>_. addOffset dest delta f) (count1 ''mo'' s))"
    by (rule moves_offset_upd) (rule modify_delta(2) [OF m])
  then have "moves_offset s fid dest delta s'"
    by (rule moves_offset_flows) (simp_all add: s')
  with modify_delta(1) [OF m] show ?thesis by simp
qed

lemma shift_offset: "shift x p d l f = Some (m, f') \<Longrightarrow> getOffset c f' = getOffset c f"
  by (auto simp: shift_def split_beta Let_def getOffset_def split: if_splits)

lemma same_offsets_const: "(\<And>d. getOffset d f = getOffset d (flow_at s i)) \<Longrightarrow> same_offsets s (upd_flow i (\<lambda>_. f) s)"
  by (auto simp: same_offsets_def upd_flow_def flow_at_def) (metis nth_list_update_eq nth_list_update_neq)

lemma app_shift_same:
  assumes "app_shift p len fid s = Some (q, s')"
  shows "same_offsets s s' \<and> transport_len q = transport_len p"
proof -
  have "same_offsets s (upd_flow fid (\<lambda>_. f) s)"
    if "shift (extra s) p d l (flow_at s fid) = Some (m, f)" for d l m f
    by (rule same_offsets_const) (rule shift_offset [OF that])
  with assms show ?thesis
    by (auto simp: app_shift_def bind_eq_Some_conv split: option.splits if_splits)
qed

lemma app_count_same: "same_offsets s (app_count p dest fid s)"
  by (auto simp: app_count_def flow_count_def Let_def getOffset_def split: option.splits intro!: same_offsets_upd)

lemma doApp_moves_offset:
  assumes "doApp e p n s = Some (p', n', s')" and "env_ok e" and "\<not> analysisMode s"
    and "getFlow (env_L e) p s = Some (Some fid, s)"
  shows "moves_offset s fid (getDEST p) (transport_len p' - transport_len p) s'"
proof -
  let ?f = "flow_at s fid" and ?hl = "getTransportHeaderLen p" and ?len = "transport_len p"
  let ?p1 = "adjust_seq (getDEST p) ?f p"
  have d: "doApp e p n s =
    (let n1 = n\<lparr>exttcpflow := Some fid\<rparr> in
     if ?len \<le> ?hl \<or> ignored ?f then Some (?p1, n1, s)
     else do {
       (p2, s2) \<leftarrow> app_shift ?p1 (?len - ?hl) fid s;
       content \<leftarrow> app_content p2 ?hl ?len;
       if content = [] then Some (p2, n1, s2)
       else do {
         let s3 = (if isTCP p2 then app_count p2 (getDEST p) fid s2 else s2);
         let (g, s4) = app_parse e p2 content (getDEST p) fid s3;
         app_modify e p2 (getDEST p) fid g n1 s4 } })"
    using assms(3,4) by (simp add: doApp_def app_dest_def Let_def)
  show ?thesis
  proof (cases "?len \<le> ?hl \<or> ignored ?f")
    case True
    with assms(1) d show ?thesis by (auto intro: moves_offset_0)
  next
    case False
    with assms(1) d obtain p2 s2 content where
      sh: "app_shift ?p1 (?len - ?hl) fid s = Some (p2, s2)" and c: "app_content p2 ?hl ?len = Some content"
      and r: "(if content = [] then Some (p2, n\<lparr>exttcpflow := Some fid\<rparr>, s2)
       else do {
         let s3 = (if isTCP p2 then app_count p2 (getDEST p) fid s2 else s2);
         let (g, s4) = app_parse e p2 content (getDEST p) fid s3;
         app_modify e p2 (getDEST p) fid g (n\<lparr>exttcpflow := Some fid\<rparr>) s4 }) = Some (p', n', s')"
      by (auto simp: bind_eq_Some_conv Let_def)
    note s2 = app_shift_same [OF sh]
    show ?thesis
    proof (cases "content = []")
      case True
      with r s2 show ?thesis by (auto intro: moves_offset_0)
    next
      case False
      define s3 where "s3 = (if isTCP p2 then app_count p2 (getDEST p) fid s2 else s2)"
      obtain g s4 where g: "app_parse e p2 content (getDEST p) fid s3 = (g, s4)" by fastforce
      have "same_offsets s s3"
        using s2 same_offsets_trans [OF _ app_count_same] by (simp add: s3_def)
      then have s4: "same_offsets s s4"
        using same_offsets_trans offsets.R_parse [OF assms(2)] g by (metis snd_conv)
      have "app_modify e p2 (getDEST p) fid g (n\<lparr>exttcpflow := Some fid\<rparr>) s4 = Some (p', n', s')"
        using r False g by (simp add: s3_def)
      from moves_offset_same [OF s4 app_modify_offset [OF this]] s2 show ?thesis by simp
    qed
  qed
qed

text \<open>
  C23: The books balance: outside analysis mode, \<open>doApp\<close> moves the offset of the packet's flow, in the
  packet's direction, by exactly the number of bytes by which it lengthened the packet, and no other
  offset.
\<close>

theorem doApp_balances_offset:
  assumes "doApp e p n s = Some (p', n', s')" and "env_ok e" and "\<not> analysisMode s"
    and "getFlow (env_L e) p s = Some (Some fid, s)"
  shows "moves_offset s fid (getDEST p) (transport_len p' - transport_len p) s'"
  by (rule doApp_moves_offset [OF assms])

text \<open>A translator configured for SIP, a mapped flow, and a parser that finds one edit.\<close>

definition demo_env :: app_env where
  "demo_env =
     \<lparr>env_L = demo_libc, env_unset = 0, env_sort = sort_key start_pos, env_junk = (\<lambda>_. edit (-1) (-1) ''''),
      env_gcle = (\<lambda>_ t. t),
      env_feed = (\<lambda>pid c s. (0, s\<lparr>parser_heap :=
        (parser_heap s)[pid := addOperation (edit 1 2 ''xyz'') (parser_heap s ! pid)]\<rparr>))\<rparr>"

definition demo_sip :: state_manager where
  "demo_sip = (snd (doMapping demo_libc (demo_client 1 0) demo_server demo_ready))
     \<lparr>protocols := [(''sip'', \<lparr>conf_protocol = ''udp'', ptype_c2s = STATELESS, ptype_s2c = STATELESS\<rparr>)]\<rparr>"

lemma demo_env_ok: "env_ok demo_env"
  by (auto simp: env_ok_def demo_env_def intro: same_offsets_flows)

lemma demo_sip_fields:
  "map_find k64_lt (map64 demo_sip) (IP6Port a 0, v) = Some 0" "analysisMode demo_sip = False"
  "flow_at demo_sip 0 = Flow_new64 demo_libc (demo_client 1 0) (IP4Port (IPv4Addr 0x281E140A) (htons 32000))
     demo_server (getServerAddr4 demo_server)"
  "extra demo_sip = EXTRA_NONE" "parser_heap demo_sip = []"
proof -
  have "map_find k64_lt (map64 demo_sip) (IP6Port a 0, v) = map_find k64_lt (map64 demo_sip) (demo_client 1 0, demo_server)"
    by (rule find64_port) (simp add: demo_client_def)
  also have "\<dots> = Some 0"
    using doMapping_bound(3) [OF demo_inv demo_mapping] by (simp add: demo_sip_def)
  finally show "map_find k64_lt (map64 demo_sip) (IP6Port a 0, v) = Some 0" .
  show "analysisMode demo_sip = False" "extra demo_sip = EXTRA_NONE"
    by (simp_all add: demo_sip_def, simp_all add: demo_ready_def)
  show "flow_at demo_sip 0 = Flow_new64 demo_libc (demo_client 1 0) (IP4Port (IPv4Addr 0x281E140A) (htons 32000))
     demo_server (getServerAddr4 demo_server)"
    using demo_flow [of "demo_client 1 0" demo_server] by (simp add: demo_sip_def flow_at_def)
  show "parser_heap demo_sip = []"
    by (cases rule: doMapping_cases [of demo_ready "demo_client 1 0" demo_server demo_libc])
      (simp_all add: demo_sip_def demo_ready_def sm_ready_def addIPv4Pool_def setIPv6Prefix_def sm_start_def)
qed

lemma demo_getFlow: "getFlow demo_libc demo_abc demo_sip = Some (Some 0, demo_sip)"
proof -
  have "getSourcePort demo_abc = 0" "ip6_hdr demo_abc = InI 0" "ipVersionBefore demo_abc = 6"
    by (simp_all add: getSourcePort_def rd16_def, simp_all add: demo_abc_def received_def)
  then show ?thesis by (simp add: getFlow_def getMapping6_def demo_sip_fields)
qed

lemma demo_parse:
  obtains s4 ps where
    "app_parse demo_env demo_abc c SERVER 0 demo_sip = (no_guess\<lparr>g_ops := [edit 1 2 ''xyz''], g_parser := Some 0, g_protocol := ''sip''\<rparr>, s4)"
    "parser_heap s4 = [ps]" "maxPos ps = -1" "extra s4 = EXTRA_NONE"
proof -
  note c = count1_def count2_def gettimeofday_def
  have "protocols demo_sip = [(''sip'', \<lparr>conf_protocol = ''udp'', ptype_c2s = STATELESS, ptype_s2c = STATELESS\<rparr>)]"
    by (simp add: demo_sip_def)
  moreover have "getProtocol (flow_at demo_sip 0) = []"
    by (simp add: demo_sip_fields getProtocol_def Flow_new64_def Flow_default_def)
  ultimately show ?thesis
    by (intro that [of "snd (app_parse demo_env demo_abc c SERVER 0 demo_sip)"
          "(new_parser 0 ''sip'' StatelessCommunicator)"])
      (simp_all add: app_parse_def c split_beta Let_def getParser_def map_index_def stateless_parser_def
        make_parser_def built_protocols_def process_at_def demo_env_def process_def new_parser_def
        demo_sip_fields addOperation_def edit_def upd_flow_def no_guess_def)
qed

lemma demo_doApp_run:
  "getDEST demo_abc = SERVER" "env_L demo_env = demo_libc" "env_sort demo_env = sort_key start_pos"
  "env_junk demo_env = (\<lambda>_. edit (-1) (-1) [])" "\<not> ignored (flow_at demo_sip 0)"
  "string_at (obuf demo_abc) 28 3 \<noteq> []" "extra (count1 l s) = extra s"
proof -
  show "getDEST demo_abc = SERVER" by (simp add: getDEST_def) (simp add: demo_abc_def)
  show "\<not> ignored (flow_at demo_sip 0)"
    by (simp add: demo_sip_fields ignored_def Flow_new64_def Flow_default_def)
qed (simp_all add: demo_env_def string_at_def bytes_at_def upt_rec count1_def gettimeofday_def)

lemma demo_abc_loop:
  "edit_loop 5 0 (ops_at (\<lambda>_. edit (-1) (-1) []) [edit 1 2 ''xyz'']) (ibuf_at demo_abc 48) 28
     (0, 0, False) (obuf demo_abc) = Some (put 28 (map byte_of ''axyzc'') (obuf demo_abc))"
proof -
  have out: "splice 0 0 [edit 1 2 ''xyz''] (payload demo_abc 40) = map byte_of ''axyzc''"
    by (simp add: demo_abc_payload byte_of_def)
  have n5: "length (map byte_of ''axyzc'') = 5" by simp
  show ?thesis
    using loop_splice [OF reads_payload [OF demo_abc_payload(1)], of 0 0 "[edit 1 2 ''xyz'']"
        "ops_at (\<lambda>_. edit (-1) (-1) []) [edit 1 2 ''xyz'']" 0 28 "obuf demo_abc", unfolded out n5]
    by (simp add: demo_abc_payload(2) ops_at_def)
qed

lemmas demo_doApp_steps = doApp_def app_dest_def app_shift_def app_content_def app_modify_def no_guess_def
  modify_def getPktOffset_def exceed_tail_def keep_trail_def adjust_seq_def demo_doApp_run demo_abc_loop

theorem doApp_balances_offset_witness:
  "\<exists>p' n' s'. doApp demo_env demo_abc demo_nat demo_sip = Some (p', n', s') \<and>
     transport_len p' = 13 \<and> moves_offset demo_sip 0 SERVER 2 s'"
proof -
  obtain s4 ps where s4: "app_parse demo_env demo_abc (string_at (obuf demo_abc) 28 3) SERVER 0 demo_sip =
      (no_guess\<lparr>g_ops := [edit 1 2 ''xyz''], g_parser := Some 0, g_protocol := ''sip''\<rparr>, s4)"
    "parser_heap s4 = [ps]" "maxPos ps = -1" "extra s4 = EXTRA_NONE" by (rule demo_parse)
  have "\<exists>p' n' s'. doApp demo_env demo_abc demo_nat demo_sip = Some (p', n', s') \<and> transport_len p' = 13"
    by (simp add: demo_doApp_steps demo_getFlow demo_sip_fields(2,4,5) s4 Let_def)
  then obtain p' n' s' where r: "doApp demo_env demo_abc demo_nat demo_sip = Some (p', n', s')" "transport_len p' = 13"
    by blast
  have "moves_offset demo_sip 0 SERVER 2 s'"
    using doApp_balances_offset [OF r(1) demo_env_ok, of 0] demo_sip_fields(2) demo_getFlow r(2)
    by (simp add: demo_doApp_run)
  with r show ?thesis by blast
qed

section \<open>The base of the edits\<close>

lemma sint_of_int_small: "- (2 ^ 31) \<le> k \<Longrightarrow> k < 2 ^ 31 \<Longrightarrow> sint (of_int k :: u32) = k"
  by (simp add: sint_sbintrunc' signed_take_bit_int_eq_self)

text \<open>
   The stream position \<open>modify\<close> computes for a packet that \<open>doApp\<close> has corrected is too large by what
  the flow's earlier edits added, because the header it reads already holds the corrected number while a
  parser counts the received bytes: after edits that changed the length, later edits land that far from
  their place.
\<close>

theorem edit_base_drifts:
  assumes "isTCP p" and "init_seq_set f d" and "seq_of p = init_seq f d + of_int pos"
    and "- (2 ^ 31) \<le> pos + getOffset d f" and "pos + getOffset d f < 2 ^ 31"
  shows "getPktOffset (isTCP p) d (seq_of (adjust_seq d f p)) f = (pos + getOffset d f, f)"
proof -
  have "seq_of (adjust_seq d f p) - init_seq f d = of_int (pos + getOffset d f)"
    using adjust_seq_numbers [OF assms(1), of f] assms(3) by (cases d) simp_all
  moreover have "sint (of_int (pos + getOffset d f) :: u32) = pos + getOffset d f"
    by (rule sint_of_int_small) (rule assms(4,5))+
  ultimately show ?thesis
    using assms(1,2) by (simp add: getPktOffset_def)
qed

text \<open>The flow's first packet was lengthened by 3 bytes; a packet 100 bytes on.\<close>

theorem edit_base_drifts_witness:
  "fst (getPktOffset True SERVER (seq_of (adjust_seq SERVER (demo_stream\<lparr>offset_c2s := 3\<rparr>) (demo_tcp 1100 0)))
     (demo_stream\<lparr>offset_c2s := 3\<rparr>)) = 103"
proof -
  have "isTCP (demo_tcp 1100 0)" "seq_of (demo_tcp 1100 0) = 1100"
    by (simp_all add: demo_tcp_def isTCP_def seq_of_def buf_simps)
  with edit_base_drifts [of "demo_tcp 1100 0" "demo_stream\<lparr>offset_c2s := 3\<rparr>" SERVER 100] show ?thesis
    by (simp add: getOffset_def demo_stream_def)
qed

end
