(* ===== verification/Protocol_Actions.thy ===== *)
theory Protocol_Actions
  imports Modify_Props
begin

text \<open>
  The protocol parsers: the scanners' token positions (\<open>postCode\<close> of \<open>FTPScanner.h\<close>, \<open>SIPScanner.h\<close>,
  \<open>HTTPScanner.h\<close>), the helpers of \<open>HTTPParser.h\<close> and the semantic actions of \<open>ftp/grammar\<close>,
  \<open>sip/grammar\<close> and \<open>http/grammar\<close>.  The parsing itself is generated by flexc++ and bisonc++ at build
  time; an action is a function of the tokens its rule gives it.

  An action of parser object \<open>pid\<close> works on the global state, where the parser's edits are kept; a null
  flow (no free pair) is dereferenced, which is \<^const>\<open>None\<close>.
\<close>

section \<open>Scanners\<close>

record scanner =
  d_val :: tokentype
  sc_cnt :: int

definition new_scanner :: scanner where
  "new_scanner = \<lparr>d_val = TokenType [] 0 0, sc_cnt = 0\<rparr>"

definition postCode :: "string \<Rightarrow> scanner \<Rightarrow> scanner" where
  "postCode matched sc =
     \<lparr>d_val = TokenType matched (sc_cnt sc) (sc_cnt sc + int (length matched)),
      sc_cnt = sc_cnt sc + int (length matched)\<rparr>"

text \<open>The tokens of a sequence of matches.\<close>

primrec scan_all :: "string list \<Rightarrow> scanner \<Rightarrow> tokentype list" where
  "scan_all [] sc = []"
| "scan_all (m # ms) sc = (let sc' = postCode m sc in d_val sc' # scan_all ms sc')"

section \<open>FTP\<close>

definition upd_parser :: "nat \<Rightarrow> (parser \<Rightarrow> parser) \<Rightarrow> state_manager \<Rightarrow> state_manager" where
  "upd_parser pid g s = s\<lparr>parser_heap := (parser_heap s)[pid := g (parser_heap s ! pid)]\<rparr>"

text \<open>\<open>CMD REQUEST_TEXT\<close>: the command \<open>USER\<close> is what tells FTP.\<close>

definition ftp_request :: "nat \<Rightarrow> tokentype \<Rightarrow> state_manager \<Rightarrow> state_manager" where
  "ftp_request pid t1 s = (if tok_s t1 = ''USER'' then upd_parser pid setCorrectProtocol s else s)"

text \<open>\<open>CMD_EPRT INT ip INT\<close>.\<close>

definition ftp_eprt ::
    "libc \<Rightarrow> nat \<Rightarrow> tokentype \<Rightarrow> tokentype \<Rightarrow> tokentype \<Rightarrow> state_manager \<Rightarrow> state_manager option" where
  "ftp_eprt L pid t2 t3 t4 s =
     (let (fp, s1) = doMapping_cur L (IP6Port_of_string L (IPv6Addr_of_string L (tok_s t3)) (tok_s t4)) s in
      do {
        fid \<leftarrow> fp;
        let s2 = upd_parser pid (addOperation_range (tok_pos t2) (tok_pos_end t2) REPLACE ''1'' False) s1;
        let s3 = upd_parser pid (addOperation_range (tok_pos t3) (tok_pos_end t3) REPLACE
                   (getString4 L (getIP4 (ip4p (flow_at s2 fid)))) False) s2;
        let s4 = upd_parser pid (addOperation_range (tok_pos t4) (tok_pos_end t4) REPLACE
                   (getPortString (ip4p (flow_at s3 fid))) False) s3;
        Some (upd_flow fid setIgnore s4) })"

text \<open>The rules for an IPv6 address put its text together from the tokens.\<close>

definition ftp_ip_double :: "tokentype \<Rightarrow> tokentype \<Rightarrow> tokentype" where
  "ftp_ip_double t1 t4 = tok_concat (tok_append t1 ''::'') t4"

definition ftp_ipp_colon :: "tokentype \<Rightarrow> tokentype \<Rightarrow> tokentype" where
  "ftp_ipp_colon t1 t3 = tok_concat (tok_append t1 '':'') t3"

section \<open>SIP\<close>

record sip_vars =
  c_ip :: tokentype
  content_len :: tokentype

definition new_sip :: sip_vars where
  "new_sip = \<lparr>c_ip = TokenType [] 0 0, content_len = TokenType [] 0 0\<rparr>"

definition sip_header :: "tokentype \<Rightarrow> tokentype \<Rightarrow> sip_vars \<Rightarrow> sip_vars" where
  "sip_header t1 t3 v = (if tok_s t1 = ''Content-Length'' then v\<lparr>content_len := t3\<rparr> else v)"

text \<open>An address and a port get a mapping, and edits to its external pair: Via, Contact and media lines.\<close>

definition sip_map ::
    "libc \<Rightarrow> nat \<Rightarrow> bool \<Rightarrow> tokentype \<Rightarrow> tokentype \<Rightarrow> state_manager \<Rightarrow> state_manager option" where
  "sip_map L pid counted ta tp s =
     (let (fp, s1) = doMapping_cur L (IP6Port_of_string L (IPv6Addr_of_string L (tok_s ta)) (tok_s tp)) s in
      do {
        fid \<leftarrow> fp;
        let s2 = upd_parser pid (addOperation_token ta REPLACE
                   (getString4 L (getIP4 (ip4p (flow_at s1 fid)))) counted) s1;
        Some (upd_parser pid (addOperation_token tp REPLACE
                   (getPortString (ip4p (flow_at s2 fid))) counted) s2) })"

definition sip_via :: "libc \<Rightarrow> nat \<Rightarrow> tokentype \<Rightarrow> tokentype \<Rightarrow> state_manager \<Rightarrow> state_manager option" where
  "sip_via L pid t4 t5 s = sip_map L pid False t4 t5 s"

definition sip_contact :: "libc \<Rightarrow> nat \<Rightarrow> tokentype \<Rightarrow> tokentype \<Rightarrow> state_manager \<Rightarrow> state_manager option" where
  "sip_contact L pid t7 t9 s = sip_map L pid False t7 t9 s"

definition sip_c_line ::
    "nat \<Rightarrow> tokentype \<Rightarrow> tokentype \<Rightarrow> sip_vars \<Rightarrow> state_manager \<Rightarrow> sip_vars \<times> state_manager" where
  "sip_c_line pid t4 t5 v s = (v\<lparr>c_ip := t5\<rparr>, upd_parser pid (addOperation_token t4 REPLACE ''IP4'' True) s)"

definition sip_m_line ::
    "libc \<Rightarrow> nat \<Rightarrow> tokentype \<Rightarrow> sip_vars \<Rightarrow> state_manager \<Rightarrow> state_manager option" where
  "sip_m_line L pid t4 v s =
     (if 0 < length (tok_s (c_ip v)) then sip_map L pid True (c_ip v) t4 s else Some s)"

text \<open>The end of the message: the length field is changed by what the counted edits add.\<close>

definition sip_message :: "int \<Rightarrow> nat \<Rightarrow> sip_vars \<Rightarrow> state_manager \<Rightarrow> state_manager" where
  "sip_message unset pid v s =
     (if 0 < length (tok_s (content_len v))
      then upd_parser pid (\<lambda>p. addOperation_token (content_len v) REPLACE
             (tok_s (tok_add_int unset (content_len v) (totalDelta p))) False p) s
      else s)"

section \<open>HTTP\<close>

record http_vars =
  curTag :: string
  http_ignore :: int
  chunked :: bool
  http_len :: int

definition http_statusline :: "http_vars \<Rightarrow> http_vars" where
  "http_statusline h = h\<lparr>chunked := False, http_len := 0\<rparr>"

text \<open>
  \<open>$3.s.find(chunked)\<close> looks for the character whose code is the flag \<open>chunked\<close>, 0 or 1.
\<close>

definition http_header :: "tokentype \<Rightarrow> tokentype \<Rightarrow> http_vars \<Rightarrow> http_vars" where
  "http_header t1 t3 h =
     (if tok_s t1 = ''Transfer-Encoding'' \<and> char_of (if chunked h then 1 else 0 :: nat) \<in> set (tok_s t3)
      then h\<lparr>chunked := True\<rparr> else h)"

definition http_emptyline :: "tokentype \<Rightarrow> http_vars \<Rightarrow> parser \<Rightarrow> http_vars \<times> parser" where
  "http_emptyline t1 h p =
     (let h1 = h\<lparr>http_ignore := 0\<rparr>; pe = tok_pos_end t1; len = http_len h in
      if chunked h then (h1, p)
      else if 0 < len
      then (h1, setLengthMax pe len (setLengthEnd pe len
                  (addOperation_range pe pe REPLACE (hexadecimal (nat len) @ [CHR 0x0D, CHR 0x0A]) False p)))
      else (h1, p))"

definition beginTag :: "tokentype \<Rightarrow> http_vars \<Rightarrow> http_vars" where
  "beginTag tag h =
     (if http_ignore h \<noteq> 0 then h
      else let h1 = h\<lparr>curTag := tok_s tag\<rparr> in
        if tok_s tag = ''textarea'' \<or> tok_s tag = ''script''
        then h1\<lparr>http_ignore := http_ignore h1 + 1\<rparr> else h1)"

definition endTag :: "tokentype \<Rightarrow> http_vars \<Rightarrow> http_vars" where
  "endTag tag h =
     (if tok_s tag = ''textarea'' \<or> tok_s tag = ''script''
      then h\<lparr>http_ignore := http_ignore h - 1\<rparr> else h)"

definition reportIP :: "string \<Rightarrow> int \<Rightarrow> int \<Rightarrow> http_vars \<Rightarrow> parser \<Rightarrow> parser" where
  "reportIP ip pos pos_end h p =
     (if curTag h = ''a''
      then addOperation \<lparr>start_pos = pos, end_pos = pos_end, op = REPLACE,
             newdata = map (\<lambda>c. if c \<noteq> CHR ''.'' then c else CHR ''|'') ip, op_cnt = False\<rparr> p
      else p)"

definition http_url :: "tokentype \<Rightarrow> tokentype \<Rightarrow> tokentype \<Rightarrow> tokentype \<Rightarrow> http_vars \<Rightarrow> parser \<Rightarrow> parser" where
  "http_url t5 t7 t9 t11 h p =
     reportIP
       (tok_s (tok_concat (tok_append (tok_concat (tok_append (tok_concat (tok_append t5 ''.'') t7) ''.'') t9) ''.'') t11))
       (tok_pos t5) (tok_pos_end t11) h p"

definition crlf :: string where
  "crlf = [CHR 0x0D, CHR 0x0A]"

text \<open>\<open>HTTPParser::getContentLengthExceed\<close>; the other parsers return the text as it is.\<close>

definition getContentLengthExceed :: "string \<Rightarrow> string" where
  "getContentLengthExceed content =
     (if 0 < length content
      then crlf @ hexadecimal (length content) @ crlf @ content @ crlf @ ''0'' @ crlf @ crlf
      else crlf @ ''0'' @ crlf @ crlf)"

definition gcle_of :: "string \<Rightarrow> string \<Rightarrow> string" where
  "gcle_of proto = (if proto = ''http'' then getContentLengthExceed else (\<lambda>c. c))"

end
