(* ===== verification/Protocol_Props.thy ===== *)
theory Protocol_Props
  imports Protocol_Actions
begin

text \<open>
  The protocol parsers' part of a rewrite: token positions are positions in the stream, the edits of
  an FTP \<open>EPRT\<close> command turn the line into one for the mapped IPv4 pair, a SIP message's length
  field follows its body, an exceeding HTTP text becomes a chunk that decodes to it; and where the HTTP
  actions do not do what they are for.
\<close>

section \<open>Positions\<close>

lemma scan_all_nth:
  "k < length ms \<Longrightarrow> scan_all ms sc ! k =
     TokenType (ms ! k) (sc_cnt sc + int (length (concat (take k ms))))
       (sc_cnt sc + int (length (concat (take (Suc k) ms))))"
proof (induction ms arbitrary: sc k)
  case (Cons m ms)
  then show ?case
    by (cases k) (auto simp: postCode_def Let_def add.assoc)
qed simp

lemma take_drop_concat:
  "k < length ms \<Longrightarrow> take (length (ms ! k)) (drop (length (concat (take k ms))) (concat ms)) = ms ! k"
proof -
  assume k: "k < length ms"
  then have "concat ms = concat (take k ms) @ ms ! k @ concat (drop (Suc k) ms)"
    by (metis concat_append concat.simps(2) id_take_nth_drop)
  then show ?thesis by simp
qed

text \<open>
   The positions a scanner gives its tokens are positions in the stream it has read: the text
  between them is the token's text, and every token begins where the one before it ended.
\<close>

theorem scanner_positions:
  assumes "k < length ms" and "t = scan_all ms new_scanner ! k"
  shows "take (nat (tok_pos_end t - tok_pos t)) (drop (nat (tok_pos t)) (concat ms)) = tok_s t \<and>
    tok_s t = ms ! k \<and> tok_pos_end t = tok_pos t + int (length (tok_s t)) \<and>
    tok_pos t = (if k = 0 then 0 else tok_pos_end (scan_all ms new_scanner ! (k - 1)))"
  using assms take_drop_concat [OF assms(1)]
  by (cases k) (auto simp: scan_all_nth TokenType_def new_scanner_def take_Suc_conv_app_nth nat_int_add)

theorem scanner_positions_witness:
  "let t = scan_all [''EPRT'', '' |'', ''2'', ''|''] new_scanner ! 2 in
     tok_s t = ''2'' \<and> tok_pos t = 6 \<and> tok_pos_end t = 7"
  using scanner_positions [of 2 "[''EPRT'', '' |'', ''2'', ''|'']", OF _ refl]
  by (simp add: postCode_def TokenType_def new_scanner_def numeral_2_eq_2)

section \<open>FTP\<close>

text \<open>The text with the pieces an \<open>EPRT\<close> line has, and its tokens.\<close>

definition token_at :: "tokentype \<Rightarrow> string \<Rightarrow> nat \<Rightarrow> bool" where
  "token_at t s n \<longleftrightarrow> tok_s t = s \<and> tok_pos t = int n \<and> tok_pos_end t = int (n + length s)"

text \<open>Replacing three pieces of a text.\<close>

lemma splice_three:
  assumes "xs = a @ b @ c @ d @ e @ f @ g"
    and "start_pos o1 = int (length a)" "end_pos o1 = int (length a + length b)"
    and "start_pos o2 = int (length a + length b + length c)"
    and "end_pos o2 = int (length a + length b + length c + length d)"
    and "start_pos o3 = int (length a + length b + length c + length d + length e)"
    and "end_pos o3 = int (length a + length b + length c + length d + length e + length f)"
  shows "splice 0 0 [o1, o2, o3] xs = a @ map byte_of (newdata o1) @ c @ map byte_of (newdata o2) @ e @
      map byte_of (newdata o3) @ g"
    and "newdata o1 \<noteq> [] \<Longrightarrow> e \<noteq> [] \<Longrightarrow> edits_ok 0 0 [o1, o2, o3] (int (length xs))"
proof -
  have n: "nat (int x - int y) = x - y" for x y by simp
  show "splice 0 0 [o1, o2, o3] xs = a @ map byte_of (newdata o1) @ c @ map byte_of (newdata o2) @ e @
      map byte_of (newdata o3) @ g"
    unfolding assms(1) using assms(2-) by (simp add: n nat_add_distrib)
  show "newdata o1 \<noteq> [] \<Longrightarrow> e \<noteq> [] \<Longrightarrow> edits_ok 0 0 [o1, o2, o3] (int (length xs))"
    unfolding assms(1) using assms(2-) by (cases e) simp_all
qed

lemma range_operation:
  "addOperation_range a b r n c = addOperation \<lparr>start_pos = a, end_pos = b, op = r, newdata = n, op_cnt = c\<rparr>"
  by (rule ext) (simp add: addOperation_range_def)

lemma token_operation:
  "addOperation_token t r n c =
     addOperation \<lparr>start_pos = tok_pos t, end_pos = tok_pos_end t, op = r, newdata = n, op_cnt = c\<rparr>"
  by (rule ext) (simp add: addOperation_token_def range_operation)

lemma upd_parser_simps [simp]:
  "flows (upd_parser pid g s) = flows s" "flow_at (upd_parser pid g s) i = flow_at s i"
  "length (parser_heap (upd_parser pid g s)) = length (parser_heap s)"
  "pid < length (parser_heap s) \<Longrightarrow> parser_heap (upd_parser pid g s) ! pid = g (parser_heap s ! pid)"
  "map64 (upd_parser pid g s) = map64 s" "map46 (upd_parser pid g s) = map46 s" "pool (upd_parser pid g s) = pool s"
  by (simp_all add: upd_parser_def flow_at_def)

lemma parser_heap_doMapping [simp]: "parser_heap (snd (doMapping L a srv s)) = parser_heap s"
  by (cases rule: doMapping_cases [of s a srv L]) simp_all

lemma parser_heap_upd_flow [simp]: "parser_heap (upd_flow i g s) = parser_heap s"
  by (simp add: upd_flow_def)

text \<open>
   \<open>EPRT\<close>: for a command line whose tokens stand where the scanner puts them, the action leaves
  three edits that do not overlap, and applying them turns the line into the same line with the
  protocol number 1 and the address and port of the mapping made for the announced pair; the mapping's
  flow is left alone from then on.
\<close>

theorem eprt_rewrites_line:
  assumes "ftp_eprt L pid t2 t3 t4 s = Some s'" and "pid < length (parser_heap s)"
    and "ops (parser_heap s ! pid) = []" and "e \<noteq> []"
    and "token_at t2 b (length a)" and "token_at t3 d (length (a @ b @ c))"
    and "token_at t4 f (length (a @ b @ c @ d @ e))"
    and "xs = map byte_of (a @ b @ c @ d @ e @ f @ g)"
  shows "\<exists>fid. fst (doMapping_cur L (IP6Port_of_string L (IPv6Addr_of_string L d) f) s) = Some fid \<and>
    splice 0 0 (ops (parser_heap s' ! pid)) xs =
      map byte_of (a @ ''1'' @ c @ getString4 L (getIP4 (ip4p (flow_at s' fid))) @ e @
        getPortString (ip4p (flow_at s' fid)) @ g) \<and>
    edits_ok 0 0 (ops (parser_heap s' ! pid)) (int (length xs)) \<and>
    (fid < length (flows s') \<longrightarrow> ignored (flow_at s' fid))"
proof -
  let ?m = "doMapping_cur L (IP6Port_of_string L (IPv6Addr_of_string L d) f) s"
  have tok: "tok_s t3 = d" "tok_s t4 = f" using assms(6,7) by (simp_all add: token_at_def)
  from assms(1) obtain fid where fid: "fst ?m = Some fid"
    by (auto simp: ftp_eprt_def tok Let_def split_beta bind_eq_Some_conv)
  define s1 where "s1 = snd ?m"
  let ?ext = "ip4p (flow_at s1 fid)"
  define o1 where "o1 = \<lparr>start_pos = tok_pos t2, end_pos = tok_pos_end t2, op = REPLACE, newdata = ''1'', op_cnt = False\<rparr>"
  define o2 where "o2 = \<lparr>start_pos = tok_pos t3, end_pos = tok_pos_end t3, op = REPLACE,
    newdata = getString4 L (getIP4 ?ext), op_cnt = False\<rparr>"
  define o3 where "o3 = \<lparr>start_pos = tok_pos t4, end_pos = tok_pos_end t4, op = REPLACE,
    newdata = getPortString ?ext, op_cnt = False\<rparr>"
  have heap1: "parser_heap s1 = parser_heap s" by (simp add: s1_def doMapping_cur_def)
  define s4 where "s4 = upd_parser pid (addOperation o3) (upd_parser pid (addOperation o2) (upd_parser pid (addOperation o1) s1))"
  have s': "s' = upd_flow fid setIgnore s4"
    using assms(1) fid
    by (auto simp: ftp_eprt_def tok Let_def split_beta s1_def s4_def o1_def o2_def o3_def range_operation)
  have ops': "ops (parser_heap s' ! pid) = [o1, o2, o3]"
    using assms(2,3) heap1 by (simp add: s' s4_def)
  have fl: "flows s' = (flows s1)[fid := setIgnore (flow_at s1 fid)]"
    by (simp add: s' s4_def upd_flow_def flow_at_def)
  have ext: "ip4p (flow_at s' fid) = ?ext"
    using fl by (cases "fid < length (flows s1)") (simp_all add: flow_at_def setIgnore_def list_update_beyond)
  have ig: "fid < length (flows s') \<longrightarrow> ignored (flow_at s' fid)"
    using fl by (simp add: flow_at_def setIgnore_def ignored_def)
  have pos: "start_pos o1 = int (length (map byte_of a))" "end_pos o1 = int (length (map byte_of a) + length (map byte_of b))"
    "start_pos o2 = int (length (map byte_of a) + length (map byte_of b) + length (map byte_of c))"
    "end_pos o2 = int (length (map byte_of a) + length (map byte_of b) + length (map byte_of c) + length (map byte_of d))"
    "start_pos o3 = int (length (map byte_of a) + length (map byte_of b) + length (map byte_of c) + length (map byte_of d) +
      length (map byte_of e))"
    "end_pos o3 = int (length (map byte_of a) + length (map byte_of b) + length (map byte_of c) + length (map byte_of d) +
      length (map byte_of e) + length (map byte_of f))"
    using assms(5,6,7) by (simp_all add: token_at_def o1_def o2_def o3_def)
  have xs: "xs = map byte_of a @ map byte_of b @ map byte_of c @ map byte_of d @ map byte_of e @ map byte_of f @ map byte_of g"
    by (simp add: assms(8))
  have n: "newdata o1 = ''1''" "newdata o2 = getString4 L (getIP4 ?ext)" "newdata o3 = getPortString ?ext"
    by (simp_all add: o1_def o2_def o3_def)
  show ?thesis
    using fid splice_three(1) [OF xs pos] splice_three(2) [OF xs pos] assms(4) ig
    by (intro exI [of _ fid]) (simp add: ops' ext n)
qed

theorem eprt_rewrites_line_witness:
  "\<exists>s' fid. ftp_eprt demo_libc 0 \<lparr>tok_s = ''2'', tok_pos = 6, tok_pos_end = 7\<rparr>
       \<lparr>tok_s = ''::'', tok_pos = 8, tok_pos_end = 10\<rparr> \<lparr>tok_s = ''80'', tok_pos = 11, tok_pos_end = 13\<rparr>
       (demo_ready\<lparr>parser_heap := [demo_parser]\<rparr>) = Some s' \<and>
     splice 0 0 (ops (parser_heap s' ! 0)) (map byte_of ''EPRT |2|::|80|'') =
       map byte_of (''EPRT |1|10.20.30.40|'' @ getPortString (ip4p (flow_at s' fid)) @ ''|'')"
proof -
  let ?t2 = "\<lparr>tok_s = ''2'', tok_pos = 6, tok_pos_end = 7\<rparr> :: tokentype"
  let ?t3 = "\<lparr>tok_s = ''::'', tok_pos = 8, tok_pos_end = 10\<rparr> :: tokentype"
  let ?t4 = "\<lparr>tok_s = ''80'', tok_pos = 11, tok_pos_end = 13\<rparr> :: tokentype"
  let ?s = "demo_ready\<lparr>parser_heap := [demo_parser]\<rparr>"
  have "fst (doMapping_cur demo_libc (IP6Port_of_string demo_libc (IPv6Addr_of_string demo_libc ''::'') ''80'') ?s) = Some 0"
    by (simp add: doMapping_cur_def doMapping_def demo_ready_def pool_ready_Cons Let_def)
  then obtain s' where r: "ftp_eprt demo_libc 0 ?t2 ?t3 ?t4 ?s = Some s'"
    by (simp add: ftp_eprt_def Let_def split_beta)
  have t: "token_at ?t2 ''2'' (length ''EPRT |'')" "token_at ?t3 ''::'' (length (''EPRT |'' @ ''2'' @ ''|''))"
    "token_at ?t4 ''80'' (length (''EPRT |'' @ ''2'' @ ''|'' @ ''::'' @ ''|''))"
    by (simp_all add: token_at_def)
  have "\<And>a. getString4 demo_libc a = ''10.20.30.40''" by (simp add: getString4_def demo_libc_def)
  with eprt_rewrites_line [OF r _ _ _ t refl, of "''|''"] r show ?thesis
    by (auto simp: demo_parser_def new_parser_def)
qed

section \<open>SIP\<close>

text \<open>
   The length field of a rewritten SIP message: when it was the length of the body, the edit that
  \<open>sip_message\<close> adds writes the length of the body after the counted edits have been applied to it.
\<close>

theorem sip_length_follows_body:
  assumes "pid < length (parser_heap s)" and "tok_s (content_len v) \<noteq> []"
    and "scan_int (tok_s (content_len v)) = Some (int (length body))"
    and "std_sort srt"
    and "edits_ok off 0 (srt (filter op_cnt (ops (parser_heap s ! pid)))) (int (length body))"
  shows "\<exists>o'. ops (parser_heap (sip_message u pid v s) ! pid) = ops (parser_heap s ! pid) @ [o'] \<and>
    start_pos o' = tok_pos (content_len v) \<and> end_pos o' = tok_pos_end (content_len v) \<and>
    scan_int (newdata o') =
      Some (int (length (splice off 0 (srt (filter op_cnt (ops (parser_heap s ! pid)))) body)))"
proof -
  have "int (length (splice off 0 (srt (filter op_cnt (ops (parser_heap s ! pid)))) body)) =
      int (length body) + totalDelta (parser_heap s ! pid)"
    using length_splice [OF assms(5)] by (simp add: totalDelta_sum sum_op_delta_sort [OF assms(4)])
  moreover have "scan_int (tok_s (tok_add_int u (content_len v) k)) = Some (int (length body) + k)" for k
    by (simp add: tok_add_int_def TokenType_def assms(3))
  ultimately show ?thesis
    using assms(1,2) by (simp add: sip_message_def token_operation)
qed

theorem sip_length_follows_body_witness:
  "\<exists>o'. ops (parser_heap (sip_message 0 0 \<lparr>c_ip = TokenType [] 0 0, content_len = TokenType ''5'' 20 21\<rparr>
         (demo_ready\<lparr>parser_heap := [demo_parser\<lparr>ops := [(edit 31 33 ''xyz'')\<lparr>op_cnt := True\<rparr>]\<rparr>]\<rparr>)) ! 0) =
       [(edit 31 33 ''xyz'')\<lparr>op_cnt := True\<rparr>, o'] \<and> scan_int (newdata o') = Some 6"
proof -
  let ?e = "(edit 31 33 ''xyz'')\<lparr>op_cnt := True\<rparr>"
  let ?s = "demo_ready\<lparr>parser_heap := [demo_parser\<lparr>ops := [?e]\<rparr>]\<rparr>"
  let ?v = "\<lparr>c_ip = TokenType [] 0 0, content_len = TokenType ''5'' 20 21\<rparr>"
  have "scan_int (tok_s (content_len ?v)) = Some 5"
    by (simp add: TokenType_def scan_int_def is_space_def is_digit_def digits_val_def digit_val_def)
  then show ?thesis
    using sip_length_follows_body [of 0 ?s ?v "[1, 2, 3, 4, 5]" "sort_key start_pos" 30 0]
      std_sort_sort_key
    by (simp add: TokenType_def) blast
qed

lemma edits_ok_starts: "edits_ok off pos os n \<Longrightarrow> o' \<in> set os \<Longrightarrow> pos \<le> start_pos o' - off"
  by (induction os arbitrary: pos) fastforce+

text \<open>Edits that do not overlap replace a non-empty range at most once.\<close>

lemma edits_ok_once:
  assumes "edits_ok off pos os n" and "a < b"
  shows "length (filter (\<lambda>x. start_pos x = a \<and> end_pos x = b) os) \<le> 1"
  using assms(1)
proof (induction os arbitrary: pos)
  case (Cons x os)
  show ?case
  proof (cases "start_pos x = a \<and> end_pos x = b")
    case True
    with Cons.prems assms(2) edits_ok_starts [of off "end_pos x - off" os n]
    have "filter (\<lambda>x. start_pos x = a \<and> end_pos x = b) os = []"
      by (force simp: filter_empty_conv)
    then show ?thesis by simp
  next
    case False
    with Cons.IH [of "end_pos x - off"] Cons.prems show ?thesis by auto
  qed
qed simp

text \<open>A counted replacement of a token, and what \<open>sip_map\<close> adds.\<close>

definition counted_edit :: "tokentype \<Rightarrow> string \<Rightarrow> operation" where
  "counted_edit t new = \<lparr>start_pos = tok_pos t, end_pos = tok_pos_end t, op = REPLACE, newdata = new, op_cnt = True\<rparr>"

lemma sip_map_counted:
  assumes "sip_map L pid True ta tp s = Some s'" and "pid < length (parser_heap s)"
  shows "\<exists>e. ops (parser_heap s' ! pid) = ops (parser_heap s ! pid) @
      [counted_edit ta (getString4 L (getIP4 e)), counted_edit tp (getPortString e)] \<and>
    length (parser_heap s') = length (parser_heap s)"
proof -
  have h: "parser_heap (snd (doMapping_cur L a s)) = parser_heap s" for a
    by (simp add: doMapping_cur_def)
  show ?thesis
    using assms h
    by (auto simp: sip_map_def Let_def split_beta bind_eq_Some_conv token_operation counted_edit_def)
qed

lemma ip6srv_cur_doMapping [simp]: "ip6srv_cur (snd (doMapping L a v s)) = ip6srv_cur s"
  by (cases rule: doMapping_cases [of s a v L]) simp_all

lemma sip_map_tables:
  "sip_map L pid c ta tp s = Some s' \<Longrightarrow>
   map64 s' = map64 (snd (doMapping_cur L (IP6Port_of_string L (IPv6Addr_of_string L (tok_s ta)) (tok_s tp)) s)) \<and>
   ip6srv_cur s' = ip6srv_cur s"
  by (auto simp: sip_map_def Let_def split_beta bind_eq_Some_conv doMapping_cur_def)
    (auto simp: upd_parser_def)

text \<open>
  C34: A session with two media lines: each adds an edit of the one connection address.  So the edits overlap, and
  \<open>modify\<close> no longer replaces what it should; and the text written into the length field counts the change of the
  address's length twice, once for each line (\<open>e\<close> and \<open>e'\<close> are the external pairs in the edits of the two lines), although the
  body has the address only once.
\<close>

theorem sip_second_media_overlaps:
  assumes "pid < length (parser_heap s)" and "tok_s (c_ip v) \<noteq> []"
    and "sip_m_line L pid t v s = Some s1" and "sip_m_line L pid t' v s1 = Some s2"
    and "tok_pos (c_ip v) < tok_pos_end (c_ip v)" and "std_sort srt"
    and "tok_s (content_len v) \<noteq> []" and "scan_int (tok_s (content_len v)) = Some k"
    and "width = (\<lambda>t. tok_pos_end t - tok_pos t)"
  shows "\<not> edits_ok off 0 (srt (ops (parser_heap s2 ! pid))) n \<and>
    (\<exists>e e'. ops (parser_heap s2 ! pid) = ops (parser_heap s ! pid) @
        [counted_edit (c_ip v) (getString4 L (getIP4 e)), counted_edit t (getPortString e),
         counted_edit (c_ip v) (getString4 L (getIP4 e')), counted_edit t' (getPortString e')] \<and>
      newdata (last (ops (parser_heap (sip_message u pid v s2) ! pid))) =
      print_int (k + totalDelta (parser_heap s ! pid) +
        (int (length (getString4 L (getIP4 e))) - width (c_ip v)) + (int (length (getPortString e)) - width t) +
        (int (length (getString4 L (getIP4 e'))) - width (c_ip v)) + (int (length (getPortString e')) - width t')))"
proof
  let ?P = "\<lambda>x :: operation. start_pos x = tok_pos (c_ip v) \<and> end_pos x = tok_pos_end (c_ip v)"
  let ?os = "ops (parser_heap s2 ! pid)" and ?before = "ops (parser_heap s ! pid)"
  have m: "sip_map L pid True (c_ip v) t s = Some s1" "sip_map L pid True (c_ip v) t' s1 = Some s2"
    using assms(2-4) by (simp_all add: sip_m_line_def)
  obtain e where e: "ops (parser_heap s1 ! pid) = ?before @
      [counted_edit (c_ip v) (getString4 L (getIP4 e)), counted_edit t (getPortString e)]"
    and l1: "length (parser_heap s1) = length (parser_heap s)"
    using sip_map_counted [OF m(1) assms(1)] by blast
  obtain e' where e': "?os = ops (parser_heap s1 ! pid) @
      [counted_edit (c_ip v) (getString4 L (getIP4 e')), counted_edit t' (getPortString e')]"
    and l2: "length (parser_heap s2) = length (parser_heap s1)"
    using sip_map_counted [OF m(2)] assms(1) l1 by auto
  have os: "?os = ?before @ [counted_edit (c_ip v) (getString4 L (getIP4 e)), counted_edit t (getPortString e),
      counted_edit (c_ip v) (getString4 L (getIP4 e')), counted_edit t' (getPortString e')]"
    and len: "pid < length (parser_heap s2)"
    using e e' l1 l2 assms(1) by simp_all
  show "\<not> edits_ok off 0 (srt ?os) n"
  proof
    assume "edits_ok off 0 (srt ?os) n"
    then have le: "length (filter ?P (srt ?os)) \<le> 1" by (rule edits_ok_once) (rule assms(5))
    have "2 \<le> length (filter ?P ?os)" by (simp add: os counted_edit_def)
    moreover have "mset (filter ?P (srt ?os)) = mset (filter ?P ?os)"
      using assms(6) by (simp add: std_sort_def)
    then have "length (filter ?P (srt ?os)) = length (filter ?P ?os)"
      by (rule mset_eq_length)
    ultimately show False using le by simp
  qed
  have "totalDelta (parser_heap s2 ! pid) = totalDelta (parser_heap s ! pid) +
      (int (length (getString4 L (getIP4 e))) - width (c_ip v)) + (int (length (getPortString e)) - width t) +
      (int (length (getString4 L (getIP4 e'))) - width (c_ip v)) + (int (length (getPortString e')) - width t')"
    by (simp add: totalDelta_sum os counted_edit_def op_delta_def assms(9))
  then show "\<exists>e e'. ?os = ?before @
        [counted_edit (c_ip v) (getString4 L (getIP4 e)), counted_edit t (getPortString e),
         counted_edit (c_ip v) (getString4 L (getIP4 e')), counted_edit t' (getPortString e')] \<and>
      newdata (last (ops (parser_heap (sip_message u pid v s2) ! pid))) =
      print_int (k + totalDelta (parser_heap s ! pid) +
        (int (length (getString4 L (getIP4 e))) - width (c_ip v)) + (int (length (getPortString e)) - width t) +
        (int (length (getString4 L (getIP4 e'))) - width (c_ip v)) + (int (length (getPortString e')) - width t'))"
    using assms(7,8) len os
    by (intro exI [of _ e] exI [of _ e'])
      (simp add: sip_message_def upd_parser_def token_operation tok_add_int_def TokenType_def add.assoc)
qed

theorem sip_second_media_overlaps_witness:
  "\<exists>s1 s2. sip_m_line demo_libc 0 (TokenType ''4000'' 40 44) \<lparr>c_ip = TokenType ''::'' 20 22, content_len = TokenType ''100'' 4 7\<rparr>
       (demo_ready\<lparr>parser_heap := [demo_parser]\<rparr>) = Some s1 \<and>
     sip_m_line demo_libc 0 (TokenType ''4000'' 60 64) \<lparr>c_ip = TokenType ''::'' 20 22, content_len = TokenType ''100'' 4 7\<rparr> s1 = Some s2 \<and>
     \<not> edits_ok 0 0 (sort_key start_pos (ops (parser_heap s2 ! 0))) 100 \<and>
     (\<exists>e e'. newdata (last (ops (parser_heap (sip_message 0 0 \<lparr>c_ip = TokenType ''::'' 20 22,
         content_len = TokenType ''100'' 4 7\<rparr> s2) ! 0))) =
       print_int (100 + 2 * (11 - 2) + (int (length (getPortString e)) - 4) + (int (length (getPortString e')) - 4)))"
proof -
  let ?v = "\<lparr>c_ip = TokenType ''::'' 20 22, content_len = TokenType ''100'' 4 7\<rparr>"
  let ?s = "demo_ready\<lparr>parser_heap := [demo_parser]\<rparr>"
  let ?a = "IP6Port_of_string demo_libc (IPv6Addr_of_string demo_libc ''::'') ''4000''"
  have m1: "fst (doMapping_cur demo_libc ?a ?s) = Some 0"
    by (simp add: doMapping_cur_def doMapping_def demo_ready_def pool_ready_Cons Let_def)
  then obtain s1 where s1: "sip_m_line demo_libc 0 (TokenType ''4000'' 40 44) ?v ?s = Some s1"
    by (simp add: sip_m_line_def sip_map_def TokenType_def Let_def split_beta)
  then have t1: "map64 s1 = map64 (snd (doMapping_cur demo_libc ?a ?s))" "ip6srv_cur s1 = ip6srv_cur ?s"
    using sip_map_tables [of demo_libc 0 True "TokenType ''::'' 20 22" "TokenType ''4000'' 40 44" ?s s1]
    by (simp_all add: sip_m_line_def TokenType_def)
  have "map_find k64_lt (map64 s1) (?a, ip6srv_cur ?s) = Some 0"
    by (simp add: t1 doMapping_cur_def doMapping_def demo_ready_def pool_ready_Cons Let_def table_find)
  then obtain s2 where s2: "sip_m_line demo_libc 0 (TokenType ''4000'' 60 64) ?v s1 = Some s2"
    by (simp add: sip_m_line_def sip_map_def TokenType_def Let_def split_beta doMapping_cur_def doMapping_def t1(2))
  have n: "scan_int (tok_s (content_len ?v)) = Some 100"
    by (simp add: TokenType_def scan_int_def is_space_def is_digit_def digits_val_def digit_val_def)
  have p: "0 < length (parser_heap ?s)" "tok_s (c_ip ?v) \<noteq> []" "tok_pos (c_ip ?v) < tok_pos_end (c_ip ?v)"
    "tok_s (content_len ?v) \<noteq> []" "totalDelta (parser_heap ?s ! 0) = 0"
    by (simp_all add: TokenType_def totalDelta_def demo_parser_def new_parser_def)
  have a: "getString4 demo_libc b = ''10.20.30.40''" for b by (simp add: getString4_def demo_libc_def)
  note r = sip_second_media_overlaps [OF p(1,2) s1 s2 p(3) std_sort_sort_key p(4) n refl, of 0 100 0]
  obtain e e' where "newdata (last (ops (parser_heap (sip_message 0 0 ?v s2) ! 0))) =
      print_int (100 + 0 + (int (length ''10.20.30.40'') - (22 - 20)) + (int (length (getPortString e)) - (44 - 40)) +
        (int (length ''10.20.30.40'') - (22 - 20)) + (int (length (getPortString e')) - (64 - 60)))"
    using r unfolding a p(5) by (auto simp: TokenType_def)
  then have "newdata (last (ops (parser_heap (sip_message 0 0 ?v s2) ! 0))) =
      print_int (100 + 2 * (11 - 2) + (int (length (getPortString e)) - 4) + (int (length (getPortString e')) - 4))"
    by (simp add: algebra_simps)
  with r s1 s2 show ?thesis by blast
qed

section \<open>HTTP\<close>

text \<open>
  The reference decoder of a chunked body: a line break, the size in hexadecimal, that many characters,
  and the last chunk.
\<close>

definition chunk_decode :: "string \<Rightarrow> string option" where
  "chunk_decode t =
     (let body = drop 2 t; size = takeWhile (\<lambda>c. c \<noteq> CHR 0x0D) body; n = hex_val size;
          rest = drop (length size + 2) body
      in if take 2 t \<noteq> crlf then None
         else if n = 0 then (if rest = crlf then Some [] else None)
         else if drop n rest = crlf @ ''0'' @ crlf @ crlf then Some (take n rest) else None)"

lemma hexadecimal_no_cr: "c \<in> set (hexadecimal n) \<Longrightarrow> c \<noteq> CHR 0x0D"
proof (induction n rule: hexadecimal.induct)
  case (1 n)
  have h: "hex_digit k \<noteq> CHR 0x0D" if "k < 16" for k
  proof
    assume "hex_digit k = CHR 0x0D"
    then have "(of_char (hex_digit k) :: nat) = of_char (CHR 0x0D)" by simp
    with that show False by (simp add: hex_digit_def of_char_of split: if_splits)
  qed
  have "hex_digit (n mod 16) \<noteq> CHR 0x0D" by (rule h) simp
  with 1 h [of n] show ?case
    by (subst (asm) (2) hexadecimal.simps) (auto split: if_splits)
qed

lemma takeWhile_hex:
  "takeWhile (\<lambda>c. c \<noteq> CHR 0x0D) (hexadecimal n @ CHR 0x0D # xs) = hexadecimal n"
  using hexadecimal_no_cr [of _ n] by (subst takeWhile_append2) auto

text \<open>
   The text beyond a response's content length is sent as an HTTP chunk: the reference decoder
  gives it back, whatever it holds.
\<close>

theorem exceeding_text_decodes: "chunk_decode (getContentLengthExceed content) = Some content"
proof (cases "content = []")
  case True
  then show ?thesis
    by (simp add: getContentLengthExceed_def chunk_decode_def crlf_def hex_val_def hex_digit_val_def
        is_digit_def digit_val_def)
next
  case False
  have d: "drop (Suc (Suc (length (hexadecimal n)))) (hexadecimal n @ CHR 0x0D # CHR 0x0A # xs) = xs"
    "drop (Suc (Suc (k + length (hexadecimal n)))) (hexadecimal n @ CHR 0x0D # CHR 0x0A # xs) = drop k xs"
    for n k and xs :: string
    by simp_all
  from False show ?thesis
    by (simp add: getContentLengthExceed_def chunk_decode_def crlf_def takeWhile_hex Let_def)
qed

text \<open>The headers of a response, one after the other.\<close>

definition http_headers :: "(tokentype \<times> tokentype) list \<Rightarrow> http_vars \<Rightarrow> http_vars" where
  "http_headers hs h = fold (\<lambda>(t1, t3). http_header t1 t3) hs h"

lemma http_headers_flags:
  assumes "\<not> chunked h" and "http_len h = 0" and "list_all (\<lambda>(t1, t3). CHR 0x00 \<notin> set (tok_s t3)) hs"
  shows "\<not> chunked (http_headers hs h) \<and> http_len (http_headers hs h) = 0"
proof -
  have nul: "char_of (0 :: nat) = CHR 0x00" by (simp add: char_of_def)
  show ?thesis
    using assms
  proof (induction hs arbitrary: h)
    case (Cons x hs)
    obtain t1 t3 where x: "x = (t1, t3)" by fastforce
    have "http_header t1 t3 h = h" using Cons.prems x nul by (simp add: http_header_def)
    with Cons x show ?case by (simp add: http_headers_def)
  qed (simp add: http_headers_def)
qed

text \<open>
   A chunked response is never recognised: whatever headers follow the status line, as long as they
  hold no NUL character, \<open>chunked\<close> stays false, because the code searches the value for the character
  with the code of the flag; and as the length is never set, the empty line adds no edit and no limit.
\<close>

theorem http_never_chunked:
  assumes "list_all (\<lambda>(t1, t3). CHR 0x00 \<notin> set (tok_s t3)) hs"
  shows "\<not> chunked (http_headers hs (http_statusline h)) \<and>
    snd (http_emptyline t (http_headers hs (http_statusline h)) p) = p"
  using http_headers_flags [of "http_statusline h" hs] assms
  by (simp add: http_statusline_def http_emptyline_def Let_def)

theorem http_never_chunked_witness:
  "\<not> chunked (http_headers [(TokenType ''Transfer-Encoding'' 17 34, TokenType ''chunked'' 36 43)]
     (http_statusline \<lparr>curTag = [], http_ignore = 0, chunked = False, http_len = 0\<rparr>))"
proof -
  have "list_all (\<lambda>(t1, t3). CHR 0x00 \<notin> set (tok_s t3))
      [(TokenType ''Transfer-Encoding'' 17 34, TokenType ''chunked'' 36 43)]"
    by (simp add: TokenType_def)
  from http_never_chunked [OF this] show ?thesis by blast
qed

text \<open>Tags, as the parser reports them: \<open>True\<close> for an opening one.\<close>

definition http_tag :: "bool \<times> tokentype \<Rightarrow> http_vars \<Rightarrow> http_vars" where
  "http_tag bt h = (if fst bt then beginTag (snd bt) h else endTag (snd bt) h)"

definition http_tags :: "(bool \<times> tokentype) list \<Rightarrow> http_vars \<Rightarrow> http_vars" where
  "http_tags bts h = fold http_tag bts h"

lemma http_tags_negative:
  "http_ignore h < 0 \<Longrightarrow> http_ignore (http_tags bts h) < 0 \<and> curTag (http_tags bts h) = curTag h"
proof (induction bts arbitrary: h)
  case (Cons x bts)
  have "http_ignore (http_tag x h) < 0 \<and> curTag (http_tag x h) = curTag h"
    using Cons.prems by (auto simp: http_tag_def beginTag_def endTag_def)
  with Cons.IH [of "http_tag x h"] show ?case by (simp add: http_tags_def)
qed (simp add: http_tags_def)

text \<open>
   One closing \<open>script\<close> or \<open>textarea\<close> too many switches the rewriting of links off for the rest of
  the response: from then on no tag is the current one and \<open>reportIP\<close> adds no edit, unless an anchor was
  the current tag at that moment.  (Nested elements close more than they open, because an opening tag
  inside an ignored element is not counted.)
\<close>

theorem stray_close_tag_disables_links:
  assumes "http_ignore h = 0" and "tok_s t = ''script'' \<or> tok_s t = ''textarea''" and "curTag h \<noteq> ''a''"
  shows "reportIP ip pos pos_end (http_tags bts (endTag t h)) p = p"
proof -
  have "http_ignore (endTag t h) < 0" "curTag (endTag t h) = curTag h"
    using assms(1,2) by (auto simp: endTag_def)
  with http_tags_negative [of "endTag t h" bts] assms(3) show ?thesis
    by (simp add: reportIP_def)
qed

theorem stray_close_tag_disables_links_witness:
  "reportIP ''10.0.0.1'' 30 38
     (http_tags [(True, TokenType ''a'' 20 21)]
       (endTag (TokenType ''script'' 10 16) \<lparr>curTag = ''p'', http_ignore = 0, chunked = False, http_len = 0\<rparr>))
     demo_parser = demo_parser"
  by (rule stray_close_tag_disables_links) (simp_all add: TokenType_def)

end
