(* ===== verification/Http_Input.thy ===== *)
theory Http_Input
  imports Alg_Prelude
begin

text \<open>
  \<open>http/input.h\<close> and \<open>http/input.hpp\<close>: the input of the HTTP scanner, with characters pushed back in
  front and, at the end of a stream, the next one from the communicator.  \<open>later\<close> lists the streams
  \<open>getNewIstream\<close> will give; when it is used up it gives a null pointer.
\<close>

type_synonym u64 = "64 word"

record input =
  d_deque :: "u8 list"
  d_in :: "u8 list option"
  d_lineNr :: u64
  later :: "u8 list list"

definition AT_EOF :: u64 where
  "AT_EOF = -1"

definition new_input :: "u8 list \<Rightarrow> u8 list list \<Rightarrow> input" where
  "new_input stream rest = \<lparr>d_deque = [], d_in = Some stream, d_lineNr = 1, later = rest\<rparr>"

definition close_input :: "input \<Rightarrow> input" where
  "close_input i = i\<lparr>d_in := None\<rparr>"

text \<open>One character of a stream; a stream that fails stays at its end.\<close>

definition stream_get :: "u8 list \<Rightarrow> u64 \<times> u8 list" where
  "stream_get st = (case st of [] \<Rightarrow> (AT_EOF, []) | c # cs \<Rightarrow> (ucast c, cs))"

definition next_char :: "input \<Rightarrow> u64 \<times> input" where
  "next_char i =
     (case d_deque i of
        c # cs \<Rightarrow> (ucast c, i\<lparr>d_deque := cs\<rparr>)
      | [] \<Rightarrow>
          (case d_in i of
             None \<Rightarrow> (AT_EOF, i)
           | Some (c # cs) \<Rightarrow> (ucast c, i\<lparr>d_in := Some cs\<rparr>)
           | Some [] \<Rightarrow>
               (case later i of
                  [] \<Rightarrow> (AT_EOF, i)
                | st # sts \<Rightarrow>
                    (let (ch, st') = stream_get st in (ch, i\<lparr>d_in := Some st', later := sts\<rparr>)))))"

definition get_char :: "input \<Rightarrow> u64 \<times> input" where
  "get_char i =
     (let (ch, j) = next_char i in
      (ch, if ch = 10 then j\<lparr>d_lineNr := d_lineNr j + 1\<rparr> else j))"

definition reRead :: "u64 \<Rightarrow> input \<Rightarrow> input" where
  "reRead ch i =
     (if ch < 0x100
      then let j = (if ch = 10 then i\<lparr>d_lineNr := d_lineNr i - 1\<rparr> else i)
           in j\<lparr>d_deque := ucast ch # d_deque j\<rparr>
      else i)"

text \<open>
  The conversion of a \<open>char\<close> to \<open>size_t\<close>: \<open>char\<close> is signed on the platform, so it extends the sign.
\<close>

definition size_t_of_char :: "u8 \<Rightarrow> u64" where
  "size_t_of_char c = scast c"

primrec reRead_chars :: "u8 list \<Rightarrow> input \<Rightarrow> input" where
  "reRead_chars [] i = i"
| "reRead_chars (c # cs) i = reRead (size_t_of_char c) (reRead_chars cs i)"

definition reRead_string :: "u8 list \<Rightarrow> nat \<Rightarrow> input \<Rightarrow> input" where
  "reRead_string str fmIdx i = reRead_chars (drop fmIdx str) i"

primrec get_n :: "nat \<Rightarrow> input \<Rightarrow> u64 list \<times> input" where
  "get_n 0 i = ([], i)"
| "get_n (Suc n) i = (let (c, j) = get_char i; (cs, k) = get_n n j in (c # cs, k))"

section \<open>Pushing back\<close>

lemma unat_ucast64: "unat (ucast (c :: u8) :: u64) = unat c"
proof -
  have "unat c < 256" using unsigned_less [of c] by simp
  then show ?thesis by (simp add: unsigned_ucast_eq take_bit_nat_eq_self)
qed

lemma not_bit_small:
  assumes "unat (w :: 'a :: len word) < 2 ^ k" and "k \<le> n" shows "\<not> bit w n"
proof -
  have "unat w < 2 ^ n"
    using assms by (meson le_less_trans less_le_trans nat_le_linear one_le_numeral power_increasing not_less)
  then have "\<not> bit (unat w) n" by (simp add: bit_iff_odd)
  then show ?thesis by (auto simp: bit_unsigned_iff dest: bit_imp_le_length)
qed

lemma low_char:
  assumes "(c :: u8) < 128"
  shows "size_t_of_char c = ucast c" and "size_t_of_char c < 0x100"
proof -
  have lt: "unat c < 128" using assms by (simp add: word_less_nat_alt)
  then have "\<not> bit (unat c) 7" by (simp add: bit_iff_odd)
  then have "\<not> bit c 7" by (simp add: bit_unsigned_iff)
  show "size_t_of_char c = ucast c"
  proof (rule bit_word_eqI)
    fix n assume "n < LENGTH(64)"
    show "bit (size_t_of_char c) n = bit (ucast c :: u64) n"
      using \<open>\<not> bit c 7\<close> \<open>n < LENGTH(64)\<close>
      by (cases "n < 7"; cases "n = 7") (auto simp: size_t_of_char_def bit_simps dest: bit_imp_le_length)
  qed
  then show "size_t_of_char c < 0x100"
    using lt by (simp add: word_less_nat_alt unat_ucast64)
qed

lemma high_char:
  assumes "128 \<le> (c :: u8)"
  shows "\<not> size_t_of_char c < 0x100"
proof -
  have "unat c < 256" "128 \<le> unat c"
    using assms unsigned_less [of c] by (simp_all add: word_le_nat_alt)
  then have "unat c div 128 = 1" by linarith
  then have "bit (unat c) 7" by (simp add: bit_iff_odd)
  then have "bit c 7" by (simp add: bit_unsigned_iff)
  then have "bit (size_t_of_char c) 8" by (simp add: size_t_of_char_def bit_simps)
  then show ?thesis
    using not_bit_small [of "size_t_of_char c" 8 8] by (auto simp: word_less_nat_alt)
qed

lemma get_reRead:
  assumes "ch < 0x100" shows "get_char (reRead ch i) = (ch, i)"
proof -
  have "ucast (ucast ch :: u8) = ch"
  proof (rule bit_word_eqI)
    fix n assume "n < LENGTH(64)"
    have "\<not> bit ch n" if "8 \<le> n"
      by (rule not_bit_small [OF _ that]) (use assms in \<open>simp add: word_less_nat_alt\<close>)
    then show "bit (ucast (ucast ch :: u8) :: u64) n = bit ch n"
      using \<open>n < LENGTH(64)\<close> by (cases "n < 8") (auto simp: bit_simps)
  qed
  with assms show ?thesis
    by (simp add: get_char_def next_char_def reRead_def Let_def)
qed

lemma get_n_reRead_chars:
  "list_all (\<lambda>c. c < 128) cs \<Longrightarrow> get_n (length cs) (reRead_chars cs i) = (map ucast cs, i)"
proof (induction cs)
  case (Cons c cs)
  then show ?case
    using get_reRead [OF low_char(2) [of c]] low_char(1) [of c] by simp
qed simp

text \<open>
  C35: Pushing a string back and reading again gives the string and the same input, line number
  included, when all its characters are ASCII; characters from 128 on are dropped, because \<open>char\<close> is
  signed and the guard takes them for huge numbers.
\<close>

theorem reRead_roundtrip:
  assumes "list_all (\<lambda>c. c < 128) (drop k str)"
  shows "get_n (length str - k) (reRead_string str k i) = (map ucast (drop k str), i)"
  using get_n_reRead_chars [OF assms, of i] by (simp add: reRead_string_def)

theorem reRead_roundtrip_witness:
  "get_n 2 (reRead_string [65, 10, 66] 1 (new_input [] [])) = ([10, 66], new_input [] [])"
proof -
  have a: "list_all (\<lambda>c. c < 128) (drop 1 [65, 10, 66 :: u8])" by simp
  have n: "length [65, 10, 66 :: u8] - 1 = 2" by simp
  have m: "map ucast (drop 1 [65, 10, 66 :: u8]) = [10, 66 :: u64]" by simp
  from reRead_roundtrip [OF a, of "new_input [] []"] show ?thesis unfolding n m .
qed

text \<open> What is pushed back of a string are its ASCII characters, whatever else it holds.\<close>

theorem reRead_drops_high_bytes:
  "reRead_string str k i = reRead_chars (filter (\<lambda>c. c < 128) (drop k str)) i"
proof -
  have "reRead_chars cs i = reRead_chars (filter (\<lambda>c. c < 128) cs) i" for cs
  proof (induction cs)
    case (Cons c cs)
    have "reRead (size_t_of_char c) j = j" if "\<not> c < 128" for j
      using high_char [of c] that by (simp add: reRead_def not_less)
    with Cons show ?case by (cases "c < 128") simp_all
  qed simp
  then show ?thesis by (simp add: reRead_string_def)
qed

section \<open>Reading across streams\<close>

lemma get_n_stream:
  "get_n (length xs) \<lparr>d_deque = [], d_in = Some (xs @ ys), d_lineNr = l, later = sts\<rparr> =
     (map ucast xs, \<lparr>d_deque = [], d_in = Some ys,
        d_lineNr = l + of_nat (length (filter (\<lambda>c. ucast c = (10 :: u64)) xs)), later = sts\<rparr>)"
  by (induction xs arbitrary: l) (simp_all add: get_char_def next_char_def)

lemma get_n_add: "get_n (m + n) i = (let (a, j) = get_n m i; (b, k) = get_n n j in (a @ b, k))"
  by (induction m arbitrary: i) (simp_all add: split_beta Let_def)

lemma get_n_next:
  "st \<noteq> [] \<Longrightarrow> 0 < n \<Longrightarrow>
   get_n n \<lparr>d_deque = [], d_in = Some [], d_lineNr = l, later = st # sts\<rparr> =
   get_n n \<lparr>d_deque = [], d_in = Some st, d_lineNr = l, later = sts\<rparr>"
  by (cases n; cases st) (simp_all add: get_char_def next_char_def stream_get_def)

lemma get_n_streams:
  "list_all (\<lambda>st. st \<noteq> []) sts \<Longrightarrow>
   \<exists>l'. get_n (length (concat (xs # sts))) \<lparr>d_deque = [], d_in = Some xs, d_lineNr = l, later = sts\<rparr> =
     (map ucast (concat (xs # sts)), \<lparr>d_deque = [], d_in = Some [], d_lineNr = l', later = []\<rparr>)"
proof (induction sts arbitrary: xs l)
  case Nil
  show ?case using get_n_stream [of xs "[]" l "[]"] by simp
next
  case (Cons st sts)
  let ?l = "l + of_nat (length (filter (\<lambda>c. ucast c = (10 :: u64)) xs))"
  have first: "get_n (length xs) \<lparr>d_deque = [], d_in = Some xs, d_lineNr = l, later = st # sts\<rparr> =
      (map ucast xs, \<lparr>d_deque = [], d_in = Some [], d_lineNr = ?l, later = st # sts\<rparr>)"
    using get_n_stream [of xs "[]" l "st # sts"] by simp
  obtain l' where rest: "get_n (length (concat (st # sts))) \<lparr>d_deque = [], d_in = Some st, d_lineNr = ?l, later = sts\<rparr> =
      (map ucast (concat (st # sts)), \<lparr>d_deque = [], d_in = Some [], d_lineNr = l', later = []\<rparr>)"
    using Cons.IH [of st ?l] Cons.prems by auto
  have "get_n (length (concat (st # sts))) \<lparr>d_deque = [], d_in = Some [], d_lineNr = ?l, later = st # sts\<rparr> =
      (map ucast (concat (st # sts)), \<lparr>d_deque = [], d_in = Some [], d_lineNr = l', later = []\<rparr>)"
    using get_n_next [of st "length (concat (st # sts))" ?l sts] Cons.prems rest by simp
  with first get_n_add [of "length xs" "length (concat (st # sts))"] show ?case
    by (intro exI [of _ l']) simp
qed

text \<open>
   A message that comes in several packets is read as if it had come in one: reading as many
  characters as the streams hold together gives their concatenation, in order, provided no later one
  is empty.
\<close>

theorem reads_across_streams:
  assumes "list_all (\<lambda>st. st \<noteq> []) sts"
  shows "\<exists>j. get_n (length (concat (xs # sts))) (new_input xs sts) = (map ucast (concat (xs # sts)), j) \<and>
    fst (get_char j) = AT_EOF"
proof -
  obtain l where "get_n (length (concat (xs # sts))) (new_input xs sts) =
      (map ucast (concat (xs # sts)), \<lparr>d_deque = [], d_in = Some [], d_lineNr = l, later = []\<rparr>)"
    using get_n_streams [OF assms, of xs 1] by (auto simp: new_input_def)
  then show ?thesis
    by (simp add: get_char_def next_char_def split_beta)
qed

theorem reads_across_streams_witness:
  "\<exists>j. get_n (length (concat [[], [71, 69], [84 :: u8]])) (new_input [] [[71, 69], [84]]) = (map ucast [71, 69, 84 :: u8], j) \<and>
    fst (get_char j) = AT_EOF"
proof -
  have "list_all (\<lambda>st. st \<noteq> []) [[71, 69], [84 :: u8]]" by simp
  from reads_across_streams [OF this, of "[]"] show ?thesis by simp
qed

section \<open>The communicator's address\<close>

text \<open>
  The scanner finds its communicator through its input: \<open>Communicator::getAddrIStream\<close> gives a stream of the bytes
  of the communicator's address (64 bits, the lowest byte first), and \<open>resolve\<close> reads them back; a shorter stream
  would leave a part of the pointer unset.
\<close>

primrec addr_bytes :: "nat \<Rightarrow> u64 \<Rightarrow> u8 list" where
  "addr_bytes 0 a = []"
| "addr_bytes (Suc n) a = ucast a # addr_bytes n (drop_bit 8 a)"

definition getAddrIStream :: "u64 \<Rightarrow> u8 list" where
  "getAddrIStream c = addr_bytes 8 c"

definition addr_of_bytes :: "u8 list \<Rightarrow> u64" where
  "addr_of_bytes bs = foldr (\<lambda>b a. or (push_bit 8 a) (ucast b)) bs 0"

definition resolve :: "input \<Rightarrow> u64 option \<times> input" where
  "resolve i =
     (case d_in i of
        None \<Rightarrow> (None, i)
      | Some st \<Rightarrow> (if length st < 8 then None else Some (addr_of_bytes (take 8 st)), i\<lparr>d_in := Some (drop 8 st)\<rparr>))"

lemma length_addr_bytes [simp]: "length (addr_bytes n a) = n"
  by (induction n arbitrary: a) simp_all

lemma addr_of_addr_bytes: "addr_of_bytes (addr_bytes n a) = take_bit (8 * n) a"
proof (induction n arbitrary: a)
  case (Suc n)
  have "or (push_bit 8 (take_bit (8 * n) (drop_bit 8 a))) (ucast (ucast a :: u8)) = take_bit (8 * Suc n) a"
    by (rule bit_word_eqI) (auto simp: bit_simps)
  with Suc show ?case by (simp add: addr_of_bytes_def)
qed (simp add: addr_of_bytes_def)

text \<open>
   A scanner that is given the address of its communicator finds it, and what it reads after that is what
  the communicator's streams hold, as one text.
\<close>

theorem scanner_finds_communicator:
  assumes "list_all (\<lambda>st. st \<noteq> []) sts"
  shows "\<exists>i j. resolve (new_input (getAddrIStream c) sts) = (Some c, i) \<and>
    get_n (length (concat sts)) i = (map ucast (concat sts), j) \<and> fst (get_char j) = AT_EOF"
proof -
  have "take_bit 64 c = c" by (rule bit_word_eqI) (simp add: bit_simps)
  then have "resolve (new_input (getAddrIStream c) sts) = (Some c, new_input [] sts)"
    using addr_of_addr_bytes [of 8 c] by (simp add: resolve_def new_input_def getAddrIStream_def)
  with reads_across_streams [OF assms, of "[]"] show ?thesis by simp
qed

end
