(* ===== verification/Communicator.thy ===== *)
theory Communicator
  imports State
begin

text \<open>
  \<open>communicator.h\<close>, \<open>communicator.cc\<close> and the registry of \<open>parser.cc\<close>: how data reaches a parser.  A
  stateless communicator runs the parser on one packet's data.  A stateful one runs it in a thread of its
  own, so that it can wait in the middle of a message for the next packet: father and son talk over two
  pipes.  The generated parser is unknown here: at any moment of parsing it may ask for more data or stop.
\<close>

section \<open>The registry\<close>

text \<open>
  \<open>Parser::mp_\<close>: parsers by the address of their communicator; reading \<open>mp_[c]\<close> inserts a null pointer when
  there is none.  \<open>run\<close> calls \<open>run__\<close> of the parser found.
\<close>

type_synonym registry = "(nat, nat option) std_map"

definition reg_add :: "nat option \<Rightarrow> nat \<Rightarrow> registry \<Rightarrow> registry" where
  "reg_add p c mp = map_put (<) c p mp"

definition reg_getParser :: "nat \<Rightarrow> registry \<Rightarrow> nat option \<times> registry" where
  "reg_getParser c mp = map_index (<) None c mp"

definition reg_run :: "(nat \<Rightarrow> 'w \<Rightarrow> 'w) \<Rightarrow> nat \<Rightarrow> registry \<Rightarrow> 'w \<Rightarrow> registry \<times> 'w" where
  "reg_run run' c mp w =
     (let (p, mp1) = map_index (<) None c mp in (mp1, case p of Some q \<Rightarrow> run' q w | None \<Rightarrow> w))"

section \<open>The stateless communicator\<close>

definition stateless_getIStream :: "string \<Rightarrow> string option \<times> string" where
  "stateless_getIStream data' = (if 0 < length data' then (Some data', []) else (None, data'))"

text \<open>\<open>addData\<close> stores the data and runs the parser, which takes it from the communicator.\<close>

definition stateless_addData ::
    "(nat \<Rightarrow> string \<times> 'w \<Rightarrow> string \<times> 'w) \<Rightarrow> nat \<Rightarrow> registry \<Rightarrow> string \<Rightarrow> 'w \<Rightarrow> int \<times> registry \<times> string \<times> 'w" where
  "stateless_addData run' c mp data' w =
     (let (mp1, d, w1) = reg_run run' c mp (data', w) in (0, mp1, d, w1))"

section \<open>The stateful communicator\<close>

datatype command = ADDDATA | MOREDATA | QUIT

text \<open>
  Where the two threads are.  The father: outside \<open>addData\<close>; in \<open>init\<close>, about to read the son's first
  answer; about to write \<open>ADDDATA\<close>; about to read the answer.  The son: not started; in the parser; in
  \<open>getIStream\<close>, about to read a command; out of the parser, about to write \<open>QUIT\<close>; ended.
\<close>

datatype father_pc = Outside | In_init | To_send | In_wait

datatype son_pc = Unstarted | Parsing | Reading | Leaving | Ended

text \<open>
  \<open>ans_open\<close> is the writing end of \<open>fd_ans\<close>, which only the son closes; \<open>cm_end\<close> is the flag \<open>end\<close> that
  \<open>Parser::process\<close> sets when \<open>addData\<close> answers a negative number.  The last three fields are history: the
  data handed in, the streams handed to the parser and the answers of \<open>addData\<close>.
\<close>

record comm =
  cm_data :: string
  running :: bool
  fd_data :: "command list"
  fd_ans :: "command list"
  ans_open :: bool
  total_len :: int
  father :: father_pc
  son :: son_pc
  cm_end :: bool
  given :: "string list"
  streams :: "string list"
  answers :: "int list"

definition new_comm :: comm where
  "new_comm =
     \<lparr>cm_data = [], running = False, fd_data = [], fd_ans = [], ans_open = True, total_len = 0,
      father = Outside, son = Unstarted, cm_end = False, given = [], streams = [], answers = []\<rparr>"

text \<open>
  \<open>addData\<close> up to its first wait: the first call starts the son.  \<open>Flow::getParser\<close> gives out a new parser
  instead of one whose \<open>end\<close> is set, so there is no call after that.
\<close>

definition add_data :: "string \<Rightarrow> comm \<Rightarrow> comm option" where
  "add_data d st =
     (if father st \<noteq> Outside \<or> cm_end st then None
      else let st1 = st\<lparr>cm_data := d, given := given st @ [d]\<rparr> in
        Some (if running st then st1\<lparr>father := To_send\<rparr>
              else st1\<lparr>running := True, son := Parsing, father := In_init\<rparr>))"

text \<open>
  Reading the son's pipe waits while it is empty and open, and gives nothing at its end.  \<open>init\<close> looks at
  neither the answer nor the end.
\<close>

definition init_read :: "comm \<Rightarrow> comm option" where
  "init_read st =
     (if father st \<noteq> In_init then None
      else case fd_ans st of
        c # cs \<Rightarrow> Some (st\<lparr>fd_ans := cs, father := To_send\<rparr>)
      | [] \<Rightarrow> if ans_open st then None else Some (st\<lparr>father := To_send\<rparr>))"

definition send_command :: "comm \<Rightarrow> comm option" where
  "send_command st =
     (if father st \<noteq> To_send then None
      else Some (st\<lparr>fd_data := fd_data st @ [ADDDATA], father := In_wait\<rparr>))"

text \<open>The return from \<open>addData\<close> to \<open>Parser::process\<close>.\<close>

definition add_return :: "int \<Rightarrow> comm \<Rightarrow> comm" where
  "add_return r st =
     st\<lparr>father := Outside, answers := answers st @ [r], cm_end := (if r < 0 then True else cm_end st)\<rparr>"

definition wait_read :: "comm \<Rightarrow> comm option" where
  "wait_read st =
     (if father st \<noteq> In_wait then None
      else case fd_ans st of
        c # cs \<Rightarrow> Some (add_return (case c of QUIT \<Rightarrow> -1 | _ \<Rightarrow> 0) (st\<lparr>fd_ans := cs\<rparr>))
      | [] \<Rightarrow> if ans_open st then None else Some (add_return (-1) st))"

text \<open>
  \<open>getIStream\<close> up to its read; \<open>e\<close> is the parser's \<open>endPos\<close> at that moment.  When the message is complete
  it writes \<open>QUIT\<close> and throws.
\<close>

definition get_istream :: "int \<Rightarrow> comm \<Rightarrow> comm option" where
  "get_istream e st =
     (if son st \<noteq> Parsing then None
      else if 0 < e \<and> e \<le> total_len st
      then Some (st\<lparr>fd_ans := fd_ans st @ [QUIT], son := Leaving\<rparr>)
      else Some (st\<lparr>fd_ans := fd_ans st @ [MOREDATA], son := Reading\<rparr>))"

text \<open>The father never closes his pipe, so the read waits while it is empty.\<close>

definition read_command :: "comm \<Rightarrow> comm option" where
  "read_command st =
     (if son st \<noteq> Reading then None
      else case fd_data st of
        [] \<Rightarrow> None
      | c # cs \<Rightarrow>
          if c = ADDDATA
          then Some (st\<lparr>fd_data := cs, total_len := total_len st + int (length (cm_data st)),
                        streams := streams st @ [cm_data st], son := Parsing\<rparr>)
          else Some (st\<lparr>fd_data := cs, son := Leaving\<rparr>))"

text \<open>The parser returns or throws; \<open>run\<close> goes on behind its handler.\<close>

definition parser_stops :: "comm \<Rightarrow> comm option" where
  "parser_stops st = (if son st = Parsing then Some (st\<lparr>son := Leaving\<rparr>) else None)"

definition run_end :: "comm \<Rightarrow> comm option" where
  "run_end st =
     (if son st = Leaving then Some (st\<lparr>fd_ans := fd_ans st @ [QUIT], ans_open := False, son := Ended\<rparr>) else None)"

text \<open>A step of either thread, other than a new call of \<open>addData\<close>.\<close>

inductive comm_work :: "comm \<Rightarrow> comm \<Rightarrow> bool" where
  init_read: "init_read st = Some st' \<Longrightarrow> comm_work st st'"
| send_command: "send_command st = Some st' \<Longrightarrow> comm_work st st'"
| wait_read: "wait_read st = Some st' \<Longrightarrow> comm_work st st'"
| get_istream: "get_istream e st = Some st' \<Longrightarrow> comm_work st st'"
| read_command: "read_command st = Some st' \<Longrightarrow> comm_work st st'"
| parser_stops: "parser_stops st = Some st' \<Longrightarrow> comm_work st st'"
| run_end: "run_end st = Some st' \<Longrightarrow> comm_work st st'"

inductive comm_reach :: "comm \<Rightarrow> bool" where
  start: "comm_reach new_comm"
| call: "comm_reach st \<Longrightarrow> add_data d st = Some st' \<Longrightarrow> comm_reach st'"
| work: "comm_reach st \<Longrightarrow> comm_work st st' \<Longrightarrow> comm_reach st'"

inductive_cases comm_workE: "comm_work st st'"

end
