(* ===== verification/Communicator_Props.thy ===== *)
theory Communicator_Props
  imports Communicator
begin

text \<open>
  The two threads of a stateful communicator work in turns: when \<open>addData\<close> has returned, the parser is
  waiting for data or gone, everything handed in has gone to the parser once and in order, and every call
  returns as long as the parser does.  The stateless one gives its data exactly once.
\<close>

section \<open>The invariant\<close>

definition son_done :: "comm \<Rightarrow> bool" where
  "son_done st \<longleftrightarrow>
     son st = Leaving \<and> ans_open st \<and> fd_ans st \<in> {[], [QUIT]} \<or>
     son st = Ended \<and> \<not> ans_open st \<and> fd_ans st \<in> {[], [QUIT], [QUIT, QUIT]}"

definition son_reads :: "comm \<Rightarrow> command list \<Rightarrow> bool" where
  "son_reads st as \<longleftrightarrow> son st = Reading \<and> ans_open st \<and> fd_ans st = as"

definition son_parses :: "comm \<Rightarrow> bool" where
  "son_parses st \<longleftrightarrow> son st = Parsing \<and> ans_open st \<and> fd_ans st = []"

text \<open>The data of the current call is the only one that may not have reached the parser.\<close>

definition all_given :: "comm \<Rightarrow> bool" where
  "all_given st \<longleftrightarrow> streams st = given st"

definition one_missing :: "comm \<Rightarrow> bool" where
  "one_missing st \<longleftrightarrow> given st = streams st @ [cm_data st]"

definition comm_fresh :: "comm \<Rightarrow> bool" where
  "comm_fresh st \<longleftrightarrow>
     son st = Unstarted \<and> ans_open st \<and> fd_data st = [] \<and> fd_ans st = [] \<and> \<not> cm_end st \<and> given st = [] \<and>
     streams st = []"

definition comm_inv :: "comm \<Rightarrow> bool" where
  "comm_inv st \<longleftrightarrow>
     (case father st of
        Outside \<Rightarrow>
          (if \<not> running st
           then comm_fresh st
           else if cm_end st then son_done st \<and> length (fd_data st) \<le> 1 \<and> (all_given st \<or> one_missing st)
           else son_reads st [] \<and> fd_data st = [] \<and> all_given st)
      | In_init \<Rightarrow>
          running st \<and> \<not> cm_end st \<and> fd_data st = [] \<and> one_missing st \<and>
          (son_parses st \<or> son_reads st [MOREDATA] \<or> son_done st)
      | To_send \<Rightarrow>
          running st \<and> \<not> cm_end st \<and> fd_data st = [] \<and> one_missing st \<and> (son_reads st [] \<or> son_done st)
      | In_wait \<Rightarrow>
          running st \<and> \<not> cm_end st \<and>
          (if fd_data st = [ADDDATA] then one_missing st \<and> (son_reads st [] \<or> son_done st)
           else fd_data st = [] \<and> all_given st \<and> (son_parses st \<or> son_reads st [MOREDATA] \<or> son_done st)))"

lemmas comm_inv_defs = comm_inv_def comm_fresh_def son_done_def son_reads_def son_parses_def all_given_def one_missing_def

lemma comm_inv_start: "comm_inv new_comm"
  by (simp add: comm_inv_def comm_fresh_def new_comm_def)

lemma comm_inv_call: "comm_inv st \<Longrightarrow> add_data d st = Some st' \<Longrightarrow> comm_inv st'"
  by (auto simp: add_data_def comm_inv_defs Let_def split: if_splits)

lemma comm_inv_work:
  assumes i: "comm_inv st" and "comm_work st st'"
  shows "comm_inv st'"
  using assms(2)
proof (rule comm_workE)
  assume "init_read st = Some st'"
  with i show ?thesis by (cases "father st"; cases "fd_ans st"; auto simp: init_read_def comm_inv_defs split: if_splits list.splits)
next
  assume "send_command st = Some st'"
  with i show ?thesis by (cases "father st"; auto simp: send_command_def comm_inv_defs split: if_splits)
next
  assume "wait_read st = Some st'"
  with i show ?thesis
    by (cases "father st"; cases "fd_ans st"; auto simp: wait_read_def add_return_def comm_inv_defs split: if_splits)
next
  fix e assume "get_istream e st = Some st'"
  with i show ?thesis by (cases "father st"; auto simp: get_istream_def comm_inv_defs split: if_splits)
next
  assume "read_command st = Some st'"
  with i show ?thesis
    by (cases "father st"; cases "fd_data st"; auto simp: read_command_def comm_inv_defs split: if_splits)
next
  assume "parser_stops st = Some st'"
  with i show ?thesis by (cases "father st"; auto simp: parser_stops_def comm_inv_defs split: if_splits)
next
  assume "run_end st = Some st'"
  with i show ?thesis by (cases "father st"; auto simp: run_end_def comm_inv_defs split: if_splits)
qed

lemma comm_reach_inv: "comm_reach st \<Longrightarrow> comm_inv st"
  by (induction rule: comm_reach.induct) (auto intro: comm_inv_start comm_inv_call comm_inv_work)


section \<open>The stateful communicator's properties\<close>

text \<open>
   Father and son never work at the same time on the parser: in every reachable state in which the
  father is outside \<open>addData\<close>, the son is not in the parser, so the edits \<open>Parser::process\<close> takes are
  complete, and unless the parser has ended, every packet's data has been given to it once and in order.
  Neither pipe ever holds more than two commands.
\<close>
theorem comm_takes_turns:
  assumes "comm_reach st"
  shows "(father st = Outside \<longrightarrow> son st \<noteq> Parsing \<and> (\<not> cm_end st \<longrightarrow> streams st = given st)) \<and>
    (streams st = given st \<or> (\<exists>d. given st = streams st @ [d])) \<and>
    length (fd_data st) \<le> 1 \<and> length (fd_ans st) \<le> 2"
  using comm_reach_inv [OF assms]
  by (cases "father st") (auto simp: comm_inv_defs split: if_splits)

text \<open>
  C37: The answer of \<open>addData\<close>: it is 0 or -1, and -1 exactly when the parser has finished with the message
  or failed; on 0 the parser has taken the data and waits for more.
\<close>
theorem addData_answer:
  assumes "comm_reach st" and "wait_read st = Some st'"
  shows "\<exists>r. answers st' = answers st @ [r] \<and>
    (if son st \<in> {Leaving, Ended} then r = -1 \<and> cm_end st'
     else r = 0 \<and> \<not> cm_end st' \<and> son st' = Reading \<and> streams st' = given st')"
  using comm_reach_inv [OF assms(1)] assms(2)
  by (auto simp: wait_read_def add_return_def comm_inv_defs split: if_splits list.splits command.splits)

text \<open>Every step of the work left in a call uses something up.\<close>

definition father_rank :: "father_pc \<Rightarrow> nat" where
  "father_rank f = (case f of Outside \<Rightarrow> 0 | In_wait \<Rightarrow> 1 | To_send \<Rightarrow> 2 | In_init \<Rightarrow> 3)"

definition son_rank :: "son_pc \<Rightarrow> nat" where
  "son_rank s = (case s of Unstarted \<Rightarrow> 0 | Ended \<Rightarrow> 0 | Leaving \<Rightarrow> 1 | Reading \<Rightarrow> 2 | Parsing \<Rightarrow> 3)"

definition comm_rank :: "comm \<Rightarrow> nat" where
  "comm_rank st =
     father_rank (father st) + son_rank (son st) +
     2 * (length (fd_data st) + (if father st \<in> {In_init, To_send} then 1 else 0))"

lemmas comm_rank_defs = comm_rank_def father_rank_def son_rank_def

lemma comm_work_rank: "comm_work st st' \<Longrightarrow> comm_rank st' < comm_rank st"
  by (erule comm_workE)
    (auto simp: init_read_def send_command_def wait_read_def add_return_def get_istream_def read_command_def
      parser_stops_def run_end_def comm_rank_defs split: if_splits list.splits)

lemma comm_work_count: "(comm_work ^^ n) st st' \<Longrightarrow> n + comm_rank st' \<le> comm_rank st"
proof (induction n arbitrary: st')
  case (Suc n)
  then obtain u where "(comm_work ^^ n) st u" "comm_work u st'" by auto
  with Suc.IH comm_work_rank show ?case by fastforce
qed simp

lemma comm_rank_bound: "comm_inv st \<Longrightarrow> comm_rank st \<le> 8"
  by (cases "father st"; cases "son st")
    (auto simp: comm_rank_defs comm_inv_defs split: if_splits)

lemma comm_not_stuck:
  assumes "comm_inv st" and "father st \<noteq> Outside"
  shows "\<exists>st'. comm_work st st'"
proof (cases "son st")
  case Parsing
  then show ?thesis using comm_work.parser_stops [of st] by (auto simp: parser_stops_def)
next
  case Leaving
  then show ?thesis using comm_work.run_end [of st] by (auto simp: run_end_def)
next
  case Unstarted
  with assms show ?thesis by (cases "father st") (auto simp: comm_inv_defs split: if_splits)
next
  case Reading
  with assms consider "father st = In_init" "fd_ans st = [MOREDATA]" | "father st = To_send"
    | "father st = In_wait" "fd_data st = [ADDDATA]" | "father st = In_wait" "fd_ans st = [MOREDATA]"
    by (cases "father st") (auto simp: comm_inv_defs split: if_splits)
  then have "init_read st \<noteq> None \<or> send_command st \<noteq> None \<or> read_command st \<noteq> None \<or> wait_read st \<noteq> None"
    by cases (simp_all add: init_read_def send_command_def read_command_def wait_read_def Reading)
  then show ?thesis by (auto intro: comm_work.intros)
next
  case Ended
  with assms have "\<not> ans_open st" by (cases "father st") (auto simp: comm_inv_defs split: if_splits)
  then have "\<exists>st'. init_read st = Some st' \<or> send_command st = Some st' \<or> wait_read st = Some st'"
    using assms(2)
    by (cases "father st"; cases "fd_ans st") (auto simp: init_read_def send_command_def wait_read_def)
  then show ?thesis by (auto intro: comm_work.intros)
qed

lemma comm_work_reach: "comm_work\<^sup>*\<^sup>* st st' \<Longrightarrow> comm_reach st \<Longrightarrow> comm_reach st'"
  by (induction rule: rtranclp_induct) (auto intro: comm_reach.work)

text \<open>
  C36: \<open>addData\<close> returns whenever the parser does: however the two threads are scheduled, at most eight steps
  are left in a call, and the threads can stop only when the father has left \<open>addData\<close>; they never wait
  for each other.
\<close>
theorem addData_returns:
  assumes "comm_reach st" and "father st \<noteq> Outside"
  shows "(\<forall>n st'. (comm_work ^^ n) st st' \<longrightarrow> n \<le> 8) \<and>
    (\<forall>st'. comm_work\<^sup>*\<^sup>* st st' \<longrightarrow> (\<forall>st''. \<not> comm_work st' st'') \<longrightarrow> father st' = Outside)"
proof (intro conjI allI impI)
  fix n st' assume "(comm_work ^^ n) st st'"
  then show "n \<le> 8" using comm_work_count comm_rank_bound [OF comm_reach_inv [OF assms(1)]] by fastforce
next
  fix st' assume "comm_work\<^sup>*\<^sup>* st st'" and "\<forall>st''. \<not> comm_work st' st''"
  then show "father st' = Outside"
    using comm_not_stuck comm_reach_inv comm_work_reach [OF _ assms(1)] by blast
qed

text \<open>A parser that takes three bytes and is done with them, up to the father's return.\<close>

definition demo_called :: comm where
  "demo_called = the (add_data ''abc'' new_comm)"

definition demo_waiting :: comm where
  "demo_waiting =
     the (Option.bind (get_istream (-1) demo_called) (\<lambda>st. Option.bind (init_read st) send_command))"

definition demo_quits :: comm where
  "demo_quits = the (Option.bind (read_command demo_waiting) (get_istream 3))"

lemmas comm_steps = add_data_def init_read_def send_command_def wait_read_def get_istream_def
  read_command_def parser_stops_def run_end_def add_return_def new_comm_def

lemma demo_called_reach: "comm_reach demo_called" "father demo_called = In_init"
proof -
  have "add_data ''abc'' new_comm = Some demo_called" by (simp add: demo_called_def comm_steps Let_def)
  then show "comm_reach demo_called" by (rule comm_reach.call [OF comm_reach.start])
  show "father demo_called = In_init" by (simp add: demo_called_def comm_steps Let_def)
qed

lemma demo_waiting_eq:
  "demo_waiting = new_comm\<lparr>cm_data := ''abc'', running := True, fd_data := [ADDDATA], father := In_wait,
     son := Reading, given := [''abc'']\<rparr>"
  by (simp add: demo_waiting_def demo_called_def comm_steps Let_def)

lemma demo_waiting_reach: "comm_reach demo_waiting"
proof -
  obtain a b where "get_istream (-1) demo_called = Some a" "init_read a = Some b" "send_command b = Some demo_waiting"
    by (simp add: demo_waiting_def demo_called_def comm_steps Let_def)
  then show ?thesis using demo_called_reach(1) by (blast intro: comm_reach.work comm_work.intros)
qed

lemma demo_quits_eq:
  "demo_quits = demo_waiting\<lparr>fd_data := [], fd_ans := [QUIT], total_len := 3, son := Leaving, streams := [''abc'']\<rparr>"
  by (simp add: demo_quits_def demo_waiting_eq comm_steps)

lemma demo_quits_reach: "comm_reach demo_quits"
proof -
  obtain a where "read_command demo_waiting = Some a" "get_istream 3 a = Some demo_quits"
    by (simp add: demo_quits_def demo_waiting_eq comm_steps)
  then show ?thesis using demo_waiting_reach by (blast intro: comm_reach.work comm_work.intros)
qed

theorem comm_takes_turns_witness:
  "comm_reach demo_waiting \<and> length (fd_data demo_waiting) \<le> 1 \<and>
   (\<exists>d. given demo_waiting = streams demo_waiting @ [d])"
  using comm_takes_turns [OF demo_waiting_reach] demo_waiting_reach by (simp add: demo_waiting_eq new_comm_def)

theorem addData_answer_witness:
  "\<exists>st'. wait_read demo_quits = Some st' \<and> answers st' = [-1] \<and> cm_end st'"
proof -
  obtain st' where w: "wait_read demo_quits = Some st'" and "answers demo_quits = []" "son demo_quits = Leaving"
    by (simp add: demo_quits_eq demo_waiting_eq comm_steps)
  with addData_answer [OF demo_quits_reach w] show ?thesis by auto
qed

definition demo_stopped :: comm where
  "demo_stopped = demo_called\<lparr>fd_data := [ADDDATA], ans_open := False, father := Outside, son := Ended,
     cm_end := True, answers := [-1]\<rparr>"

lemma demo_stopped_run: "comm_work\<^sup>*\<^sup>* demo_called demo_stopped"
proof -
  obtain a b c d where "parser_stops demo_called = Some a" "run_end a = Some b" "init_read b = Some c"
    "send_command c = Some d" "wait_read d = Some demo_stopped"
    by (simp add: demo_called_def demo_stopped_def comm_steps Let_def)
  then have "comm_work demo_called a" "comm_work a b" "comm_work b c" "comm_work c d" "comm_work d demo_stopped"
    by (blast intro: comm_work.intros)+
  then show ?thesis by (meson converse_rtranclp_into_rtranclp r_into_rtranclp)
qed

lemma demo_stopped_ends: "\<not> comm_work demo_stopped st"
  by (auto simp: demo_stopped_def init_read_def send_command_def wait_read_def get_istream_def read_command_def
      parser_stops_def run_end_def elim!: comm_workE)

theorem addData_returns_witness:
  "father demo_called \<noteq> Outside \<and> comm_work\<^sup>*\<^sup>* demo_called demo_stopped \<and> father demo_stopped = Outside"
  using addData_returns [OF demo_called_reach(1)] demo_called_reach(2) demo_stopped_run demo_stopped_ends by auto

text \<open>
  C38: \<open>addData\<close> can answer that the parser has ended while its thread is still running: it has yet to write to
  the pipe and close it.  The caller drops such a parser, whose destructor deletes the communicator.
\<close>
theorem ended_before_thread:
  "\<exists>st. comm_reach st \<and> father st = Outside \<and> cm_end st \<and> last (answers st) = -1 \<and> son st = Leaving \<and>
     (\<exists>st'. run_end st = Some st')"
proof -
  obtain st where "wait_read demo_quits = Some st" and "father st = Outside" "cm_end st" "last (answers st) = -1"
    "son st = Leaving"
    by (simp add: demo_quits_eq demo_waiting_eq comm_steps)
  moreover from this have "comm_reach st" using demo_quits_reach by (blast intro: comm_reach.work comm_work.intros)
  ultimately show ?thesis by (auto simp: run_end_def)
qed

section \<open>The stateless communicator and the registry\<close>

lemma stateless_gives_once:
  "stateless_getIStream d = (if d = [] then None else Some d, [])"
  "stateless_getIStream (snd (stateless_getIStream d)) = (None, [])"
  by (auto simp: stateless_getIStream_def)

lemma reg_run_added: "reg_run run' c (reg_add (Some p) c mp) w = (reg_add (Some p) c mp, run' p w)"
  by (simp add: reg_run_def reg_add_def map_index_def lin.find_put_same)
end
