(* ===== verification/Tun_Dispatch.thy ===== *)
theory Tun_Dispatch
  imports Translation
begin

text \<open>
  \<open>tun.h\<close> and the verdict callback of \<open>nfqueue.cc\<close>.  The main thread reads packets from the tunnel and
  puts each into the queue of a worker thread: the flow's thread when the flow has one, else one chosen
  by the ports; each worker takes packets from its queue and translates them.  Opening the device and
  starting the threads are left out.
\<close>

section \<open>Receiving\<close>

definition THREADS :: nat where "THREADS = 4"

definition QMAX :: nat where "QMAX = 10000"

text \<open>\<open>tun_handle\<close> up to the unpacked packet; the version nibble is taken with the bits after it.\<close>

definition tun_packet :: "packet \<Rightarrow> mem \<Rightarrow> int \<Rightarrow> packet option" where
  "tun_packet raw buf len = do {
     let p0 = new_packet raw;
     let p1 = (if buf 0 = 0x60 then p0\<lparr>hw_protocol := ETHERTYPE_IPV6\<rparr> else p0\<lparr>hw_protocol := ETHERTYPE_IP\<rparr>);
     p2 \<leftarrow> setIbuf buf len p1;
     unpack p2 }"

definition tun_thread :: "libc \<Rightarrow> packet \<Rightarrow> state_manager \<Rightarrow> (nat \<times> state_manager) option" where
  "tun_thread L p s = do {
     (f, s1) \<leftarrow> getFlow L p s;
     Some (case f of
             Some fid \<Rightarrow> if 0 \<le> tid (flow_at s1 fid) then nat (tid (flow_at s1 fid)) else unat (port_t p) mod THREADS
           | None \<Rightarrow> unat (port_t p) mod THREADS, s1) }"

section \<open>The threads\<close>

text \<open>
  The state of the dispatcher; \<open>t_pending\<close> is the packet the main thread is about to queue, \<open>t_busy\<close> the
  packet a worker has taken.  The last two fields are history: what was queued for a worker and what it
  has finished.
\<close>

record tun_state =
  t_world :: world
  t_queue :: "nat \<Rightarrow> packet list"
  t_pending :: "(nat \<times> packet) option"
  t_busy :: "nat \<Rightarrow> packet option"
  t_nat :: "nat \<Rightarrow> nat_obj"
  t_arrived :: "nat \<Rightarrow> packet list"
  t_finished :: "nat \<Rightarrow> packet list"

definition set_sm :: "state_manager \<Rightarrow> tun_state \<Rightarrow> tun_state" where
  "set_sm s st = st\<lparr>t_world := (t_world st)\<lparr>w_sm := s\<rparr>\<rparr>"

definition tun_receive :: "libc \<Rightarrow> packet \<Rightarrow> mem \<Rightarrow> int \<Rightarrow> tun_state \<Rightarrow> tun_state option" where
  "tun_receive L raw buf len st =
     (if t_pending st \<noteq> None then None
      else do {
        p \<leftarrow> tun_packet raw buf len;
        (t, s) \<leftarrow> tun_thread L p (w_sm (t_world st));
        Some ((set_sm s st)\<lparr>t_pending := Some (t, p)\<rparr>) })"

text \<open>The main thread waits while the queue holds more than \<open>QMAX\<close> packets, then pushes under the lock.\<close>

definition tun_push :: "tun_state \<Rightarrow> tun_state option" where
  "tun_push st =
     (case t_pending st of
        None \<Rightarrow> None
      | Some (t, p) \<Rightarrow>
          if QMAX < length (t_queue st t) then None
          else Some (st\<lparr>t_pending := None, t_queue := (t_queue st)(t := t_queue st t @ [p]),
                        t_arrived := (t_arrived st)(t := t_arrived st t @ [p])\<rparr>))"

definition worker_pop :: "nat \<Rightarrow> tun_state \<Rightarrow> tun_state option" where
  "worker_pop t st =
     (if THREADS \<le> t \<or> t_busy st t \<noteq> None then None
      else case t_queue st t of
        [] \<Rightarrow> None
      | p # ps \<Rightarrow> Some (st\<lparr>t_queue := (t_queue st)(t := ps), t_busy := (t_busy st)(t := Some p)\<rparr>))"

definition worker_translate :: "libc \<Rightarrow> (datagram \<Rightarrow> int) \<Rightarrow> nat \<Rightarrow> tun_state \<Rightarrow> tun_state option" where
  "worker_translate L sendto t st =
     (case t_busy st t of
        None \<Rightarrow> None
      | Some p \<Rightarrow> do {
          (r, q, n, w) \<leftarrow> translate L sendto p (t_nat st t) (t_world st);
          Some (st\<lparr>t_world := w, t_nat := (t_nat st)(t := n), t_busy := (t_busy st)(t := None),
                   t_finished := (t_finished st)(t := t_finished st t @ [p])\<rparr>) })"

inductive tun_step :: "libc \<Rightarrow> (datagram \<Rightarrow> int) \<Rightarrow> tun_state \<Rightarrow> tun_state \<Rightarrow> bool" for L sendto where
  receive: "tun_receive L raw buf len st = Some st' \<Longrightarrow> tun_step L sendto st st'"
| push: "tun_push st = Some st' \<Longrightarrow> tun_step L sendto st st'"
| pop: "worker_pop t st = Some st' \<Longrightarrow> tun_step L sendto st st'"
| translate: "worker_translate L sendto t st = Some st' \<Longrightarrow> tun_step L sendto st st'"

inductive_cases tun_stepE: "tun_step L sendto st st'"

text \<open>The start: empty queues, and every worker's \<open>NAT\<close> object with the worker's number.\<close>

definition tun_start :: "world \<Rightarrow> (nat \<Rightarrow> nat_obj) \<Rightarrow> tun_state" where
  "tun_start w ns =
     \<lparr>t_world = w, t_queue = (\<lambda>_. []), t_pending = None, t_busy = (\<lambda>_. None),
      t_nat = (\<lambda>t. (ns t)\<lparr>nat_tid := int t\<rparr>), t_arrived = (\<lambda>_. []), t_finished = (\<lambda>_. [])\<rparr>"

inductive tun_run :: "libc \<Rightarrow> (datagram \<Rightarrow> int) \<Rightarrow> tun_state \<Rightarrow> tun_state \<Rightarrow> bool" for L sendto where
  start: "tun_run L sendto st st"
| more: "tun_run L sendto st st' \<Longrightarrow> tun_step L sendto st' st'' \<Longrightarrow> tun_run L sendto st st''"

section \<open>nfqueue\<close>

text \<open>
  \<open>print_pkt\<close> and \<open>cb\<close>: the kernel's packet is dropped when \<open>translate\<close> sent its translation, accepted
  otherwise.  The library hands over the header (network byte order), or none, and the payload.
\<close>

datatype verdict = NF_DROP | NF_ACCEPT

definition nfq_packet :: "packet \<Rightarrow> (u32 \<times> u16) option \<Rightarrow> mem \<Rightarrow> int \<Rightarrow> packet option" where
  "nfq_packet raw ph payload len =
     (let p = new_packet raw;
          p1 = (case ph of Some (i, hw) \<Rightarrow> p\<lparr>pkt_id := ntohl i, hw_protocol := ntohs hw\<rparr> | None \<Rightarrow> p)
      in setIbuf payload len p1)"

definition nfq_cb ::
    "libc \<Rightarrow> (datagram \<Rightarrow> int) \<Rightarrow> packet \<Rightarrow> (u32 \<times> u16) option \<Rightarrow> mem \<Rightarrow> int \<Rightarrow> nat_obj \<Rightarrow> world \<Rightarrow>
     (verdict \<times> u32 \<times> nat_obj \<times> world) option" where
  "nfq_cb L sendto raw ph payload len n w = do {
     p \<leftarrow> nfq_packet raw ph payload len;
     p1 \<leftarrow> unpack p;
     (r, p2, n1, w1) \<leftarrow> translate L sendto p1 n w;
     Some (if r \<noteq> 0 then NF_DROP else NF_ACCEPT, pkt_id p2, n1, w1) }"

end
