(* ===== verification/Tun_Props.thy ===== *)
theory Tun_Props
  imports Tun_Dispatch
begin

text \<open>
  What the dispatcher keeps: every worker's packets are translated once and in the order they came, the
  queues stay bounded, and a flow belongs to one thread for good.  The verdict of the nfqueue callback
  says exactly whether a translation was sent.  A step is one operation under its lock; \<open>translate\<close> is one
  step, although the code runs it without a lock of its own (only the tables' operations have one).
\<close>

section \<open>A flow's thread\<close>

definition tid_of :: "state_manager \<Rightarrow> nat \<Rightarrow> int" where
  "tid_of s fid = (if fid < length (flows s) then tid (flow_at s fid) else -1)"

text \<open>No thread number was changed but from none to \<open>k\<close>.\<close>

definition tids_step :: "int \<Rightarrow> state_manager \<Rightarrow> state_manager \<Rightarrow> bool" where
  "tids_step k s s' \<longleftrightarrow> (\<forall>fid. tid_of s' fid = tid_of s fid \<or> tid_of s fid < 0 \<and> tid_of s' fid = k)"

lemma tids_step_flows: "flows s' = flows s \<Longrightarrow> tids_step k s s'"
  by (simp add: tids_step_def tid_of_def flow_at_def)




lemma tids_step_new: "flows s' = flows s @ [f] \<Longrightarrow> tid f = -1 \<Longrightarrow> tids_step k s s'"
  by (auto simp: tids_step_def tid_of_def flow_at_def nth_append less_Suc_eq)



lemma tids_step_doMapping44: "tids_step k s (snd (doMapping44 L a b s))"
  by (auto simp: doMapping44_def Let_def tids_step_flows Flow_new44_def Flow_default_def intro: tids_step_new
      split: option.splits)

lemma tids_step_getFlow: "getFlow L p s = Some (f, s') \<Longrightarrow> tids_step k s s'"
  by (auto simp: getFlow_def bind_eq_Some_conv tids_step_flows split: if_splits
      dest!: arg_cong [of _ _ snd] intro: tids_step_doMapping44)





section \<open>The invariant\<close>



primrec in_hand :: "packet option \<Rightarrow> packet list" where
  "in_hand None = []"
| "in_hand (Some p) = [p]"

definition queue_ok :: "nat \<Rightarrow> tun_state \<Rightarrow> bool" where
  "queue_ok t st \<longleftrightarrow>
     t_arrived st t = t_finished st t @ in_hand (t_busy st t) @ t_queue st t \<and> length (t_queue st t) \<le> Suc QMAX"


lemma queue_ok_step:
  assumes "tun_step L sendto st st'" and q: "queue_ok u st"
  shows "queue_ok u st'"
  using assms(1)
proof (rule tun_stepE)
  fix raw buf len assume "tun_receive L raw buf len st = Some st'"
  with q show ?thesis
    by (auto simp: tun_receive_def bind_eq_Some_conv set_sm_def queue_ok_def split: if_splits)
next
  assume "tun_push st = Some st'"
  with q show ?thesis
    by (auto simp: tun_push_def queue_ok_def split: if_splits option.splits)
next
  fix t assume "worker_pop t st = Some st'"
  with q show ?thesis
    by (cases "u = t") (auto simp: worker_pop_def queue_ok_def split: if_splits list.splits)
next
  fix t assume "worker_translate L sendto t st = Some st'"
  with q show ?thesis
    by (cases "u = t") (auto simp: worker_translate_def bind_eq_Some_conv queue_ok_def split: option.splits)
qed

lemma queue_ok_run: "tun_run L sendto st st' \<Longrightarrow> queue_ok u st \<Longrightarrow> queue_ok u st'"
  by (induction rule: tun_run.induct) (auto intro: queue_ok_step)





lemma translate_keeps_mode:
  "translate L sendto p n w = Some (r, q, n', w') \<Longrightarrow> table_inv (w_sm w) \<Longrightarrow>
   table_inv (w_sm w') \<and> analysisMode (w_sm w') = analysisMode (w_sm w)"
  using translate_extends extends_inv by (fastforce simp: extends_def)






section \<open>The dispatcher's properties\<close>

text \<open>
  C26: Whatever the threads' interleaving, each worker has translated, is translating or still has queued
  exactly the packets that were put into its queue, in that order, and no queue ever holds more than
  \<open>QMAX + 1\<close> packets: nothing is lost, translated twice or overtaken within a queue.
\<close>
theorem tun_translates_in_order:
  assumes "tun_run L sendto (tun_start w ns) st"
  shows "t_arrived st t = t_finished st t @ in_hand (t_busy st t) @ t_queue st t \<and>
    length (t_queue st t) \<le> QMAX + 1"
  using queue_ok_run [OF assms, of t] by (simp add: queue_ok_def tun_start_def)


text \<open>The concrete client's packet, received while its flow has thread 2.\<close>

lemma demo_tun_packet:
  "tun_packet (received 0 []) (ibuf (received ETHERTYPE_IPV6 udp6_bytes)) 48 = Some demo_out4"
proof -
  let ?p = "received ETHERTYPE_IPV6 udp6_bytes"
  have "setIbuf (ibuf ?p) 48 ((new_packet (received 0 []))\<lparr>hw_protocol := ETHERTYPE_IPV6\<rparr>) = Some ?p"
    by (auto simp: setIbuf_def BUF_LEN_def new_packet_def received_def memcpy_def fun_eq_iff)
  moreover have "ibuf ?p 0 = 0x60" by (simp add: udp6_bytes_def)
  moreover have "\<exists>p'. unpack ?p = Some p'"
    by (rule unpack6 [of ?p]) (auto simp: ETHERTYPE_IPV6_def)
  ultimately show ?thesis by (auto simp: tun_packet_def Let_def demo_out4_def)
qed




lemma demo_out4_flow: "getFlow demo_libc demo_out4 s = Some (getMapping6 (client_of demo_out4) (server_of demo_out4) s, s)"
  using demo_out4_props(1,2)
  by (simp add: getFlow_def out4_def load_in6_def load_ptr_def client_of_def server_of_def)

theorem tun_translates_in_order_witness:
  "\<exists>st t. tun_run demo_libc demo_sendto (tun_start demo_world (\<lambda>_. demo_nat)) st \<and>
     t_queue st t = [demo_out4] \<and> t_arrived st t = t_finished st t @ in_hand (t_busy st t) @ t_queue st t"
proof -
  let ?st = "tun_start demo_world (\<lambda>_. demo_nat)"
  obtain t where "tun_thread demo_libc demo_out4 demo_ready = Some (t, demo_ready)"
    by (simp add: tun_thread_def demo_out4_flow)
  then have r: "tun_receive demo_libc (received 0 []) (ibuf (received ETHERTYPE_IPV6 udp6_bytes)) 48 ?st =
      Some ((set_sm demo_ready ?st)\<lparr>t_pending := Some (t, demo_out4)\<rparr>)" (is "_ = Some ?st1")
    by (simp add: tun_receive_def demo_tun_packet tun_start_def)
  obtain st2 where p: "tun_push ?st1 = Some st2" "t_queue st2 t = [demo_out4]"
    by (simp add: tun_push_def tun_start_def set_sm_def)
  have run: "tun_run demo_libc demo_sendto ?st st2"
    by (rule tun_run.more [OF tun_run.more [OF tun_run.start tun_step.receive [OF r]] tun_step.push [OF p(1)]])
  from tun_translates_in_order [OF run, of t] run p(2) show ?thesis by blast
qed


section \<open>The verdict\<close>

lemma nat_account_wire [simp]: "wire (nat_account w) = wire w"
  by (simp add: nat_account_def split_beta Let_def)

lemma nat_send_wire:
  assumes "nat_send sendto p n w = Some (q, w')"
  shows "\<exists>ds. ds \<noteq> [] \<and> wire w' = wire w @ ds"
  using assms
  by (auto simp: nat_send_def send4_def send6_def Let_def bind_eq_Some_conv split: if_splits)

lemma translate_wire:
  assumes "translate L sendto p n w = Some (r, q, n', w')" and "table_inv (w_sm w)"
    and m: "\<not> analysisMode (w_sm w)"
  shows "(r = 0 \<and> wire w' = wire w) \<or> (r = 1 \<and> (\<exists>ds. ds \<noteq> [] \<and> wire w' = wire w @ ds))"
  using assms(1)
proof (cases rule: translate_cases)
  case (begun s2 k n1 s3)
  have "w' = w\<lparr>w_sm := after_begin s3\<rparr> \<Longrightarrow> \<not> analysisMode (after_begin s3)"
    using translate_keeps_mode [OF assms(1,2)] m by simp
  moreover have "\<exists>ds. ds \<noteq> [] \<and> wire (nat_account w1) = wire w @ ds"
    if "nat_send sendto p1 k (w\<lparr>w_sm := s\<rparr>) = Some (p2, w1)" for p1 k s p2 w1
    using nat_send_wire [OF that] by simp
  ultimately show ?thesis
    using begun(3) by (auto simp: bind_eq_Some_conv split: if_splits)
qed simp

lemma nfq_packet_id:
  "nfq_packet raw (Some (i, hw)) payload len = Some p \<Longrightarrow> pkt_id p = ntohl i"
  by (auto simp: nfq_packet_def Let_def setIbuf_def split: if_splits)

lemma unpack_id: "unpack p = Some q \<Longrightarrow> pkt_id q = pkt_id p"
  by (auto simp: unpack_def copy_transport_def handleTransportLayer_def Let_def split: if_splits)

lemma set_port_id [simp]: "pkt_id (set_port k v p) = pkt_id p"
  by (auto simp: set_port_def Let_def split: option.splits)

lemma clear_checks_id: "pkt_id (clear_checks p) = pkt_id p"
  by (auto simp: clear_checks_def Let_def split: option.splits)

lemma transport_check_id: "transport_check h sa d l pr c th p = Some q \<Longrightarrow> pkt_id q = pkt_id p"
  by (auto simp: transport_check_def bind_eq_Some_conv split: option.splits if_splits)

lemma ip_check_id: "ip_check p = Some q \<Longrightarrow> pkt_id q = pkt_id p"
  by (auto simp: ip_check_def split: ptr.splits if_splits)

lemma updateChecksum_id: "updateChecksum p = Some q \<Longrightarrow> pkt_id q = pkt_id p"
  unfolding updateChecksum_def Let_def
  by (auto simp: bind_eq_Some_conv clear_checks_id split: if_splits dest!: ip_check_id transport_check_id)

lemma doIP_id: "doIP n s p = Some q \<Longrightarrow> pkt_id q = pkt_id p"
  by (auto simp: doIP_def bind_eq_Some_conv split: if_splits)

lemma nat_rewrite_id: "nat_rewrite n s p = Some q \<Longrightarrow> pkt_id q = pkt_id p"
  by (auto simp: nat_rewrite_def nat_finish_def bind_eq_Some_conv doSPort_def doDPort_def
      dest!: updateChecksum_id doIP_id split: if_splits)

lemma doExtraTCP_id: "doExtraTCP p n s = Some (b, q, s') \<Longrightarrow> pkt_id q = pkt_id p"
  by (auto simp: doExtraTCP_def Let_def setTransportLen_def split: option.splits if_splits)

lemma nat_send_id: "nat_send sendto p n w = Some (q, w') \<Longrightarrow> pkt_id q = pkt_id p"
  by (auto simp: nat_send_def Let_def bind_eq_Some_conv split: if_splits dest: doExtraTCP_id)

lemma translate_id: "translate L sendto p n w = Some (r, q, n', w') \<Longrightarrow> pkt_id q = pkt_id p"
  by (erule translate_cases)
    (auto simp: bind_eq_Some_conv split: if_splits dest!: nat_send_id nat_rewrite_id)

text \<open>
   The verdict of the nfqueue callback is for the packet the kernel named, and is right: a packet is
  dropped exactly when its translation was handed to a socket, and a packet that is accepted has sent
  nothing, so the kernel's copy and the translation never both go out, and never neither.
\<close>
theorem nfq_cb_verdict:
  assumes "nfq_cb L sendto raw (Some (i, hw)) payload len n w = Some (v, pid, n', w')"
    and "table_inv (w_sm w)" and "\<not> analysisMode (w_sm w)"
  shows "pid = ntohl i \<and>
    (case v of NF_ACCEPT \<Rightarrow> wire w' = wire w | NF_DROP \<Rightarrow> (\<exists>ds. ds \<noteq> [] \<and> wire w' = wire w @ ds))"
proof -
  obtain p p1 r p2 where p: "nfq_packet raw (Some (i, hw)) payload len = Some p" "unpack p = Some p1"
    and tr: "translate L sendto p1 n w = Some (r, p2, n', w')"
    and v: "v = (if r \<noteq> 0 then NF_DROP else NF_ACCEPT)" "pid = pkt_id p2"
    using assms(1) by (auto simp: nfq_cb_def bind_eq_Some_conv)
  have "pid = ntohl i" using v(2) translate_id [OF tr] unpack_id [OF p(2)] nfq_packet_id [OF p(1)] by simp
  with translate_wire [OF tr assms(2,3)] v(1) show ?thesis by auto
qed

lemma ntohl_0: "ntohl 0 = 0"
  by (simp add: ntohl_def ntohs_def)

theorem nfq_cb_verdict_witness:
  "\<exists>n' w'. nfq_cb demo_libc demo_sendto (received 0 []) (Some (0, ntohs ETHERTYPE_IPV6))
       (ibuf (received ETHERTYPE_IPV6 udp6_bytes)) 48 demo_nat demo_world = Some (NF_DROP, 0, n', w') \<and>
     (\<exists>ds. ds \<noteq> [] \<and> wire w' = ds)"
proof -
  let ?p = "received ETHERTYPE_IPV6 udp6_bytes"
  have "nfq_packet (received 0 []) (Some (0, ntohs ETHERTYPE_IPV6)) (ibuf ?p) 48 = Some ?p"
    by (auto simp: nfq_packet_def setIbuf_def BUF_LEN_def new_packet_def received_def memcpy_def fun_eq_iff Let_def
        ntohl_0)
  moreover have "unpack ?p = Some demo_out4"
    by (rule unpack6 [of ?p]) (auto simp: ETHERTYPE_IPV6_def demo_out4_def)
  moreover obtain q n' w' where t: "translate demo_libc demo_sendto demo_out4 demo_nat demo_world = Some (1, q, n', w')"
    by (rule demo_translated)
  ultimately have "nfq_cb demo_libc demo_sendto (received 0 []) (Some (0, ntohs ETHERTYPE_IPV6))
      (ibuf ?p) 48 demo_nat demo_world = Some (NF_DROP, pkt_id q, n', w')"
    by (simp add: nfq_cb_def)
  moreover from this have "pkt_id q = ntohl 0 \<and> (\<exists>ds. ds \<noteq> [] \<and> wire w' = wire demo_world @ ds)"
    using nfq_cb_verdict [of demo_libc demo_sendto "received 0 []" 0] demo_inv
    by (fastforce simp: demo_ready_def)
  ultimately show ?thesis by (auto simp: ntohl_0)
qed
end
