(* ===== verification/Analysis.thy ===== *)
theory Analysis
  imports Translation Modify
begin

text \<open>
  The offline analysis of \<open>main.cc\<close>: the search for a literal IPv4 address in a URL (\<open>parse\<close>) and what
  \<open>analyze\<close> does with one captured packet.  Reading the capture file, the progress output and the
  final statistics are left out.
\<close>

section \<open>Literal addresses\<close>

text \<open>The counting loop over up to three digits, with its bounds check.\<close>

primrec octet_loop :: "nat \<Rightarrow> string \<Rightarrow> nat \<Rightarrow> nat \<Rightarrow> nat" where
  "octet_loop 0 buf j t = t"
| "octet_loop (Suc n) buf j t =
     (if length buf \<le> j + t \<or> \<not> is_digit (buf ! (j + t)) then t else octet_loop n buf j (t + 1))"

text \<open>A number and the dot after it; the position behind it, when there is still text.\<close>

definition octet_dot :: "string \<Rightarrow> nat \<Rightarrow> nat option" where
  "octet_dot buf j =
     (let t = octet_loop 3 buf j 0 in
      if t = 0 then None
      else let j1 = j + t in
        if length buf \<le> j1 \<or> buf ! j1 \<noteq> CHR ''.'' then None
        else if length buf \<le> j1 + 1 then None else Some (j1 + 1))"

definition literal_at :: "string \<Rightarrow> nat \<Rightarrow> bool" where
  "literal_at buf i \<longleftrightarrow>
     buf ! i = CHR ''h'' \<and> buf ! (i + 1) = CHR ''t'' \<and> buf ! (i + 2) = CHR ''t'' \<and> buf ! (i + 3) = CHR ''p'' \<and>
     buf ! (i + 4) = CHR '':'' \<and> buf ! (i + 5) = CHR ''/'' \<and> buf ! (i + 6) = CHR ''/'' \<and>
     (case octet_dot buf (i + 7) of None \<Rightarrow> False | Some j2 \<Rightarrow>
     (case octet_dot buf j2 of None \<Rightarrow> False | Some j3 \<Rightarrow>
     (case octet_dot buf j3 of None \<Rightarrow> False | Some j4 \<Rightarrow> 0 < octet_loop 3 buf j4 0)))"

text \<open>The loop runs while \<open>i + 13 < len\<close> and returns at the first literal.\<close>

definition parse_literal :: "string \<Rightarrow> int" where
  "parse_literal buf = (if list_ex (literal_at buf) [0..<length buf - 13] then 1 else 0)"

section \<open>One captured packet\<close>

record analysis =
  an_world :: world
  total_flow :: int
  sip_flow :: int
  ftp_flow :: int
  http_flow :: int
  literal_flow :: int

text \<open>The classification of a packet's flow by the ports, as the chain of conditions has it.\<close>

definition port_is :: "nat \<Rightarrow> packet \<Rightarrow> bool" where
  "port_is n p \<longleftrightarrow> unat (ntohs (getSourcePort p)) = n \<or> unat (ntohs (getDestPort p)) = n"

definition set_analyze :: "nat \<Rightarrow> int \<Rightarrow> analysis \<Rightarrow> analysis" where
  "set_analyze fid v a = a\<lparr>an_world := (an_world a)\<lparr>w_sm := upd_flow fid (\<lambda>f. f\<lparr>analyze := v\<rparr>) (w_sm (an_world a))\<rparr>\<rparr>"

definition analyze_of :: "nat \<Rightarrow> analysis \<Rightarrow> int" where
  "analyze_of fid a = analyze (flow_at (w_sm (an_world a)) fid)"

definition classify :: "packet \<Rightarrow> nat \<Rightarrow> analysis \<Rightarrow> analysis" where
  "classify p fid a =
     (let a1 = (if analyze_of fid a = 0 then set_analyze fid 1 (a\<lparr>total_flow := total_flow a + 1\<rparr>) else a) in
      if analyze_of fid a1 \<le> 1 then
        (if isTCP p then
           (let a2 = (if port_is 80 p then set_analyze fid 2 (a1\<lparr>http_flow := http_flow a1 + 1\<rparr>) else a1);
                a3 = (if port_is 8080 p then set_analyze fid 2 (a2\<lparr>http_flow := http_flow a2 + 1\<rparr>) else a2)
            in if port_is 21 p then set_analyze fid 3 (a3\<lparr>ftp_flow := ftp_flow a3 + 1\<rparr>) else a3)
         else if isUDP p \<and> port_is 5060 p
         then set_analyze fid 4 (a1\<lparr>sip_flow := sip_flow a1 + 1\<rparr>)
         else a1)
      else a1)"

text \<open>The search for literals in a flow taken for HTTP; 100 marks a flow in which one was found.\<close>

definition search_literal :: "string \<Rightarrow> nat \<Rightarrow> analysis \<Rightarrow> analysis" where
  "search_literal text fid a =
     (if (analyze_of fid a = 2 \<or> analyze_of fid a = 100) \<and> parse_literal text \<noteq> 0
      then set_analyze fid 100
             (if analyze_of fid a = 2 then a\<lparr>literal_flow := literal_flow a + 1\<rparr> else a)
      else a)"

text \<open>
  A frame of the capture: 14 bytes of Ethernet header, then the packet.  The frame overwrites the start
  of a buffer of 65536 bytes; behind it the buffer still holds what earlier frames left, \<open>stale\<close>.
\<close>

definition analyze_packet ::
    "libc \<Rightarrow> (datagram \<Rightarrow> int) \<Rightarrow> nat_obj \<Rightarrow> packet \<Rightarrow> u8 list \<Rightarrow> u8 list \<Rightarrow> analysis \<Rightarrow> analysis option" where
  "analyze_packet L sendto n0 raw stale frame a =
     (let buf = (\<lambda>i. if i < length frame then frame ! i else stale ! i); len = int (length frame) - 14 in
      if buf 12 \<noteq> 0x08 \<or> buf 13 \<noteq> 0x00 then Some a
      else do {
        p1 \<leftarrow> setIbuf (\<lambda>i. buf (14 + i)) len (new_packet raw);
        p2 \<leftarrow> unpack (p1\<lparr>hw_protocol := ETHERTYPE_IP\<rparr>);
        (r, p3, n, w) \<leftarrow> translate L sendto p2 n0 (an_world a);
        (fo, s) \<leftarrow> getFlow L p3 (w_sm w);
        let a1 = a\<lparr>an_world := w\<lparr>w_sm := s\<rparr>\<rparr>;
        Some (case fo of
                None \<Rightarrow> a1
              | Some fid \<Rightarrow> search_literal (string_at buf 14 (nat len)) fid (classify p3 fid a1)) })"

section \<open>The search\<close>

definition is_octet :: "string \<Rightarrow> bool" where
  "is_octet a \<longleftrightarrow> a \<noteq> [] \<and> length a \<le> 3 \<and> list_all is_digit a"

lemma octet_loop_eq:
  "octet_loop n buf j t = t + length (takeWhile is_digit (take n (drop (j + t) buf)))"
proof (induction n arbitrary: t)
  case (Suc n)
  show ?case
  proof (cases "j + t < length buf")
    case True
    then have "drop (j + t) buf = buf ! (j + t) # drop (j + (t + 1)) buf"
      by (simp add: Cons_nth_drop_Suc)
    with True Suc [of "t + 1"] show ?thesis by simp
  qed simp
qed simp

lemma octet_dot_iff:
  "octet_dot buf j = Some k \<longleftrightarrow>
     (\<exists>a rest. drop j buf = a @ CHR ''.'' # rest \<and> is_octet a \<and> rest \<noteq> [] \<and> k = j + length a + 1)"
proof
  assume k: "octet_dot buf j = Some k"
  define a where "a = takeWhile is_digit (take 3 (drop j buf))"
  let ?t = "length a"
  from k have t: "0 < ?t" "buf ! (j + ?t) = CHR ''.''" "j + ?t + 1 < length buf" "k = j + ?t + 1"
    by (auto simp: octet_dot_def Let_def octet_loop_eq a_def split: if_splits)
  have le: "?t \<le> 3" unfolding a_def by (metis length_take length_takeWhile_le le_trans min.cobounded2)
  have pre: "a = take ?t (drop j buf)"
    unfolding a_def by (metis takeWhile_eq_take take_take min.absorb1 length_take length_takeWhile_le min.bounded_iff)
  have "drop j buf = a @ drop ?t (drop j buf)" using pre by (metis append_take_drop_id)
  moreover have "drop ?t (drop j buf) = buf ! (j + ?t) # drop (j + ?t + 1) buf"
    using t(3) by (simp add: Cons_nth_drop_Suc add.commute)
  moreover have "list_all is_digit a" by (auto simp: a_def list_all_iff dest: set_takeWhileD)
  ultimately show "\<exists>a rest. drop j buf = a @ CHR ''.'' # rest \<and> is_octet a \<and> rest \<noteq> [] \<and> k = j + length a + 1"
    using t le by (intro exI [of _ a] exI [of _ "drop (j + ?t + 1) buf"]) (auto simp: is_octet_def)
next
  assume "\<exists>a rest. drop j buf = a @ CHR ''.'' # rest \<and> is_octet a \<and> rest \<noteq> [] \<and> k = j + length a + 1"
  then obtain a rest where d: "drop j buf = a @ CHR ''.'' # rest" and o: "is_octet a" and r: "rest \<noteq> []"
    and k: "k = j + length a + 1" by blast
  have dot: "\<not> is_digit CHR ''.''" by (simp add: is_digit_def)
  have "takeWhile is_digit (take 3 (a @ CHR ''.'' # rest)) = a"
    using o dot by (auto simp: is_octet_def list_all_iff take_Cons' takeWhile_append)
  then have "octet_loop 3 buf j 0 = length a" by (simp add: octet_loop_eq d)
  moreover have "length buf = j + length a + 1 + length rest"
    using d o by (metis append.assoc length_append length_drop list.size(4) le_add_diff_inverse is_octet_def
        add.commute add.left_commute drop_all append_is_Nil_conv nat_le_linear One_nat_def plus_1_eq_Suc)
  moreover have "buf ! (j + length a) = CHR ''.''"
    using d by (metis nth_append_length nth_drop drop_all nat_le_linear append_is_Nil_conv list.distinct(1))
  ultimately show "octet_dot buf j = Some k"
    using o r k by (auto simp: octet_dot_def Let_def is_octet_def)
qed

lemma http_prefix:
  assumes "i + 7 \<le> length buf"
  shows "(buf ! i = CHR ''h'' \<and> buf ! (i + 1) = CHR ''t'' \<and> buf ! (i + 2) = CHR ''t'' \<and> buf ! (i + 3) = CHR ''p'' \<and>
     buf ! (i + 4) = CHR '':'' \<and> buf ! (i + 5) = CHR ''/'' \<and> buf ! (i + 6) = CHR ''/'') \<longleftrightarrow>
    drop i buf = ''http://'' @ drop (i + 7) buf"
proof -
  have "drop i buf = [buf ! i, buf ! (i + 1), buf ! (i + 2), buf ! (i + 3), buf ! (i + 4), buf ! (i + 5),
      buf ! (i + 6)] @ drop (i + 7) buf"
    using assms by (simp add: Cons_nth_drop_Suc numeral_eq_Suc)
  then show ?thesis by auto
qed

lemma octet_end: "0 < octet_loop 3 buf j 0 \<longleftrightarrow> (\<exists>d rest. drop j buf = d @ rest \<and> is_octet d)"
proof
  assume "0 < octet_loop 3 buf j 0"
  then obtain x xs where x: "drop j buf = x # xs" "is_digit x"
    by (cases "drop j buf") (auto simp: octet_loop_eq split: if_splits)
  then show "\<exists>d rest. drop j buf = d @ rest \<and> is_octet d"
    by (intro exI [of _ "[x]"] exI [of _ xs]) (simp add: is_octet_def)
next
  assume "\<exists>d rest. drop j buf = d @ rest \<and> is_octet d"
  then obtain x xs where "drop j buf = x # xs" "is_digit x"
    by (auto simp: is_octet_def neq_Nil_conv)
  then show "0 < octet_loop 3 buf j 0" by (simp add: octet_loop_eq)
qed

definition literal_text :: "string \<Rightarrow> bool" where
  "literal_text t \<longleftrightarrow> (\<exists>a b c d rest. t = ''http://'' @ a @ ''.'' @ b @ ''.'' @ c @ ''.'' @ d @ rest \<and>
     is_octet a \<and> is_octet b \<and> is_octet c \<and> is_octet d)"

lemma drop_append_add: "drop j buf = xs @ ys \<Longrightarrow> drop (j + length xs) buf = ys"
  by (metis append_eq_conv_conj drop_drop add.commute)

lemma literal_at_iff:
  assumes "i + 13 < length buf"
  shows "literal_at buf i \<longleftrightarrow> literal_text (drop i buf)"
proof
  assume l: "literal_at buf i"
  then obtain j2 j3 j4 where o: "octet_dot buf (i + 7) = Some j2" "octet_dot buf j2 = Some j3"
    "octet_dot buf j3 = Some j4" "0 < octet_loop 3 buf j4 0"
    by (auto simp: literal_at_def split: option.splits)
  have h: "drop i buf = ''http://'' @ drop (i + 7) buf"
    using l http_prefix [of i buf] assms by (simp add: literal_at_def)
  obtain a r1 where a: "drop (i + 7) buf = a @ CHR ''.'' # r1" "is_octet a" "j2 = i + 7 + length a + 1"
    using o(1) octet_dot_iff by blast
  obtain b r2 where b: "drop j2 buf = b @ CHR ''.'' # r2" "is_octet b" "j3 = j2 + length b + 1"
    using o(2) octet_dot_iff by blast
  obtain c r3 where c: "drop j3 buf = c @ CHR ''.'' # r3" "is_octet c" "j4 = j3 + length c + 1"
    using o(3) octet_dot_iff by blast
  obtain d r4 where d: "drop j4 buf = d @ r4" "is_octet d" using o(4) octet_end by blast
  have "drop j2 buf = r1" "drop j3 buf = r2" "drop j4 buf = r3"
    using drop_append_add [of "i + 7" buf "a @ ''.''" r1] drop_append_add [of j2 buf "b @ ''.''" r2]
      drop_append_add [of j3 buf "c @ ''.''" r3] a b c by (simp_all add: add.assoc)
  with h a b c d have "drop i buf = ''http://'' @ a @ ''.'' @ b @ ''.'' @ c @ ''.'' @ d @ r4" by simp
  with a b c d show "literal_text (drop i buf)" unfolding literal_text_def by blast
next
  assume "literal_text (drop i buf)"
  then obtain a b c d rest where t: "drop i buf = ''http://'' @ a @ ''.'' @ b @ ''.'' @ c @ ''.'' @ d @ rest"
    and o: "is_octet a" "is_octet b" "is_octet c" "is_octet d"
    unfolding literal_text_def by blast
  have h: "drop (i + 7) buf = a @ CHR ''.'' # b @ ''.'' @ c @ ''.'' @ d @ rest"
    using drop_append_add [of i buf "''http://''" "a @ CHR ''.'' # b @ ''.'' @ c @ ''.'' @ d @ rest"] t
    by (simp add: numeral_eq_Suc)
  let ?j2 = "i + 7 + length a + 1"
  have j2: "drop ?j2 buf = b @ CHR ''.'' # c @ ''.'' @ d @ rest"
    using drop_append_add [of "i + 7" buf "a @ ''.''"] h by simp
  let ?j3 = "?j2 + length b + 1"
  have j3: "drop ?j3 buf = c @ CHR ''.'' # d @ rest"
    using drop_append_add [of ?j2 buf "b @ ''.''"] j2 by simp
  let ?j4 = "?j3 + length c + 1"
  have j4: "drop ?j4 buf = d @ rest"
    using drop_append_add [of ?j3 buf "c @ ''.''"] j3 by simp
  have "octet_dot buf (i + 7) = Some ?j2" "octet_dot buf ?j2 = Some ?j3" "octet_dot buf ?j3 = Some ?j4"
    using h j2 j3 o by (fastforce simp: octet_dot_iff is_octet_def)+
  moreover have "0 < octet_loop 3 buf ?j4 0" using j4 o octet_end by blast
  moreover have "drop i buf = ''http://'' @ drop (i + 7) buf" using t h by simp
  ultimately show "literal_at buf i"
    using http_prefix [of i buf] assms by (simp add: literal_at_def)
qed

text \<open>
   The search finds exactly what it is for: it answers 1 when and only when the text holds
  \<open>http://\<close> followed by four dotted numbers of one to three digits, wherever it is, and 0 otherwise.
\<close>

theorem parse_literal_correct:
  "(parse_literal buf = 1 \<longleftrightarrow> (\<exists>pre t. buf = pre @ t \<and> literal_text t)) \<and> parse_literal buf \<in> {0, 1}"
proof -
  have "list_ex (literal_at buf) [0..<length buf - 13] \<longleftrightarrow> (\<exists>pre t. buf = pre @ t \<and> literal_text t)"
  proof
    assume "list_ex (literal_at buf) [0..<length buf - 13]"
    then obtain i where "i + 13 < length buf" "literal_at buf i" by (auto simp: list_ex_iff less_diff_conv)
    with literal_at_iff show "\<exists>pre t. buf = pre @ t \<and> literal_text t"
      by (metis append_take_drop_id)
  next
    assume "\<exists>pre t. buf = pre @ t \<and> literal_text t"
    then obtain pre t where t: "buf = pre @ t" "literal_text t" by blast
    then have "14 \<le> length t" by (auto simp: literal_text_def is_octet_def neq_Nil_conv)
    with t have "length pre + 13 < length buf" by simp
    with t literal_at_iff [of "length pre" buf] show "list_ex (literal_at buf) [0..<length buf - 13]"
      by (auto simp: list_ex_iff intro!: bexI [of _ "length pre"])
  qed
  then show ?thesis by (simp add: parse_literal_def)
qed

section \<open>The counters\<close>

lemma analyze_of_set [simp]:
  "fid < length (flows (w_sm (an_world a))) \<Longrightarrow> analyze_of fid (set_analyze fid v a) = v"
  "flows (w_sm (an_world (set_analyze fid v a))) = (flows (w_sm (an_world a)))[fid := (flow_at (w_sm (an_world a)) fid)\<lparr>analyze := v\<rparr>]"
  "total_flow (set_analyze fid v a) = total_flow a" "http_flow (set_analyze fid v a) = http_flow a"
  "ftp_flow (set_analyze fid v a) = ftp_flow a" "sip_flow (set_analyze fid v a) = sip_flow a"
  by (simp_all add: analyze_of_def set_analyze_def upd_flow_def flow_at_def)

lemma analyze_of_counter [simp]:
  "analyze_of fid (a\<lparr>total_flow := n\<rparr>) = analyze_of fid a" "analyze_of fid (a\<lparr>http_flow := n\<rparr>) = analyze_of fid a"
  "analyze_of fid (a\<lparr>ftp_flow := n\<rparr>) = analyze_of fid a" "analyze_of fid (a\<lparr>sip_flow := n\<rparr>) = analyze_of fid a"
  by (simp_all add: analyze_of_def)

definition service_port :: "packet \<Rightarrow> bool" where
  "service_port p \<longleftrightarrow> isTCP p \<and> (port_is 80 p \<or> port_is 8080 p \<or> port_is 21 p) \<or>
     \<not> isTCP p \<and> isUDP p \<and> port_is 5060 p"

lemma classify_analyze:
  "fid < length (flows (w_sm (an_world a))) \<Longrightarrow> analyze_of fid (classify p fid a) \<noteq> 0 \<and>
     (service_port p \<longrightarrow> 1 < analyze_of fid (classify p fid a))"
  by (auto simp: classify_def Let_def service_port_def)

text \<open>
   No flow is counted twice: once a packet of it has been classified, further packets do not change
  the number of flows, and once one had a service port, they change nothing at all.
\<close>

theorem classify_counts_once:
  assumes "fid < length (flows (w_sm (an_world a)))"
  shows "total_flow (classify q fid (classify p fid a)) = total_flow (classify p fid a) \<and>
    (service_port p \<longrightarrow> classify q fid (classify p fid a) = classify p fid a)"
  using classify_analyze [OF assms, of p]
  by (auto simp: classify_def [of q] Let_def)

text \<open>A capture with one flow and a packet to port 21.\<close>

definition demo_analysis :: analysis where
  "demo_analysis = \<lparr>an_world = demo_world\<lparr>w_sm := snd (doMapping demo_libc (demo_client 1 80) demo_server demo_ready)\<rparr>,
     total_flow = 0, sip_flow = 0, ftp_flow = 0, http_flow = 0, literal_flow = 0\<rparr>"

definition demo_ftp :: packet where
  "demo_ftp = (received ETHERTYPE_IP [])\<lparr>tcp_hdr := Some 40, obuf := wr16 42 (htons 21) (\<lambda>_. 0)\<rparr>"

theorem classify_counts_once_witness:
  "service_port demo_ftp \<and>
   classify demo_ftp 0 (classify demo_ftp 0 demo_analysis) = classify demo_ftp 0 demo_analysis"
proof -
  have "0 < length (flows (w_sm (an_world demo_analysis)))"
    using doMapping_bound(1) [OF demo_inv demo_mapping] by (simp add: demo_analysis_def flow_bound_def)
  moreover have "service_port demo_ftp"
    by (simp add: service_port_def port_is_def demo_ftp_def isTCP_def getDestPort_def buf_simps)
  ultimately show ?thesis using classify_counts_once [of 0 demo_analysis demo_ftp demo_ftp] by blast
qed

end
