(* ===== verification/Capture.thy ===== *)
theory Capture
  imports Analysis
begin

text \<open>
  \<open>analyze\<close> of \<open>main.cc\<close>: the loop over a capture file.  \<open>fread\<close> takes what is left of the file, up to
  the number of bytes asked for.  The members a constructor leaves unset (of every new \<open>Packet\<close> and
  \<open>NAT\<close>) and the buffer's first contents are arguments.  Printing and waiting are left out.
\<close>

section \<open>Reading the file\<close>

datatype cap_stop = Cap_eof | Cap_header | Cap_data | Cap_limit

record capture =
  cp_file :: "u8 list"
  cp_buf :: "u8 list"
  cp_cnt :: int
  cp_total :: int
  cp_total1 :: int
  cp_mxlen :: u32
  cp_an :: analysis

record cap_env =
  ce_L :: libc
  ce_sendto :: "datagram \<Rightarrow> int"
  ce_nat :: "int \<Rightarrow> nat_obj"
  ce_packet :: "int \<Rightarrow> packet"

definition fread :: "nat \<Rightarrow> u8 list \<Rightarrow> u8 list \<times> u8 list" where
  "fread n file = (take n file, drop n file)"

text \<open>The length field of a record header, the third of its four words.\<close>

definition incl_len :: "u8 list \<Rightarrow> u32" where
  "incl_len h = rd32 (\<lambda>i. h ! i) 8"

definition is_ipv4_frame :: "u8 list \<Rightarrow> bool" where
  "is_ipv4_frame buf \<longleftrightarrow> buf ! 12 = 0x08 \<and> buf ! 13 = 0x00"

text \<open>
  What is done with the data of a record: \<open>n\<close> is the length its header gives, \<open>d\<close> what the file still
  had, \<open>rest\<close> what comes after.  More data than the buffer holds is written behind its end.  A frame
  that is not IPv4 goes on with the next round, past the test of the limit.
\<close>

definition capture_frame :: "cap_env \<Rightarrow> u32 \<Rightarrow> u8 list \<Rightarrow> u8 list \<Rightarrow> capture \<Rightarrow> (cap_stop option \<times> capture) option" where
  "capture_frame e n d rest c =
     (let mx = (if cp_mxlen c < n then n else cp_mxlen c);
          buf = d @ drop (length d) (cp_buf c)
      in if 65536 < length d then None
         else if length d \<noteq> unat n
         then Some (Some Cap_data, c\<lparr>cp_file := rest, cp_buf := buf, cp_mxlen := mx\<rparr>)
         else
           (let total = cp_total c + int (length d);
                cnt = cp_cnt c + 1;
                total1 = (if cp_total1 c = 0 \<and> 2000000 < cnt then total else cp_total1 c)
            in do {
              a \<leftarrow> analyze_packet (ce_L e) (ce_sendto e) (ce_nat e cnt) (ce_packet e cnt) (cp_buf c) d (cp_an c);
              Some (if is_ipv4_frame buf \<and> 2200000 < cnt then Some Cap_limit else None,
                    \<lparr>cp_file = rest, cp_buf = buf, cp_cnt = cnt, cp_total = total, cp_total1 = total1,
                     cp_mxlen = mx, cp_an = a\<rparr>) }))"

text \<open>One round of the loop.\<close>

definition capture_step :: "cap_env \<Rightarrow> capture \<Rightarrow> (cap_stop option \<times> capture) option" where
  "capture_step e c =
     (let (h, rest) = fread 16 (cp_file c) in
      if length h = 0 then Some (Some Cap_eof, c\<lparr>cp_file := rest\<rparr>)
      else if length h \<noteq> 16 then Some (Some Cap_header, c\<lparr>cp_file := rest\<rparr>)
      else let (d, rest2) = fread (unat (incl_len h)) rest in capture_frame e (incl_len h) d rest2 c)"

lemma capture_frame_file: "capture_frame e n d rest c = Some (r, c') \<Longrightarrow> cp_file c' = rest"
  by (auto simp: capture_frame_def Let_def bind_eq_Some_conv split: if_splits)

lemma capture_step_cases:
  assumes "capture_step e c = Some (r, c')"
  obtains (stop) r' where "r = Some r'" and "c' = c\<lparr>cp_file := drop 16 (cp_file c)\<rparr>"
  | (frame) n d rest where "capture_frame e n d rest c = Some (r, c')" and "length rest < length (cp_file c)"
proof (cases "length (take 16 (cp_file c)) = 16")
  case True
  let ?n = "incl_len (take 16 (cp_file c))"
  have "capture_frame e ?n (take (unat ?n) (drop 16 (cp_file c))) (drop (unat ?n) (drop 16 (cp_file c))) c =
      Some (r, c')"
    using assms True by (cases "cp_file c = []") (simp_all add: capture_step_def fread_def Let_def)
  then show ?thesis by (rule frame) (use True in simp)
next
  case False
  with assms show ?thesis
    by (intro stop [of "the r"]) (auto simp: capture_step_def fread_def split: if_splits)
qed

lemma capture_step_shorter:
  assumes "capture_step e c = Some (None, c')"
  shows "length (cp_file c') < length (cp_file c)"
  using assms by (cases rule: capture_step_cases) (auto dest: capture_frame_file)

function capture_loop :: "cap_env \<Rightarrow> capture \<Rightarrow> (cap_stop \<times> capture) option" where
  "capture_loop e c =
     (case capture_step e c of
        None \<Rightarrow> None
      | Some (Some r, c') \<Rightarrow> Some (r, c')
      | Some (None, c') \<Rightarrow> capture_loop e c')"
  by pat_completeness auto
termination
  by (relation "measure (\<lambda>(e, c). length (cp_file c))") (auto intro: capture_step_shorter)

declare capture_loop.simps [simp del]

text \<open>
  \<open>analyze\<close> with the state \<open>sm.init\<close> has left; the sum of bytes printed at the end leaves out what came
  before the measuring began.
\<close>

definition new_analysis :: "world \<Rightarrow> analysis" where
  "new_analysis w = \<lparr>an_world = w, total_flow = 0, sip_flow = 0, ftp_flow = 0, http_flow = 0, literal_flow = 0\<rparr>"

definition analyze_file :: "cap_env \<Rightarrow> u8 list \<Rightarrow> u8 list \<Rightarrow> world \<Rightarrow> (cap_stop \<times> capture) option" where
  "analyze_file e buf0 file w =
     (let w1 = w\<lparr>w_sm := (w_sm w)\<lparr>analysisMode := True\<rparr>\<rparr>;
          (h, rest) = fread 24 file;
          c = \<lparr>cp_file = rest, cp_buf = buf0, cp_cnt = 0, cp_total = int (length h), cp_total1 = 0, cp_mxlen = 0,
               cp_an = new_analysis w1\<rparr>
      in if length h \<noteq> 24 then Some (Cap_header, c)
         else do { (r, c') \<leftarrow> capture_loop e c; Some (r, c'\<lparr>cp_total := cp_total c' - cp_total1 c'\<rparr>) })"

end
