(* ===== verification/Capture_Props.thy ===== *)
theory Capture_Props
  imports Capture Nat64_Props
begin

text \<open>
  The capture loop analyses exactly the records of the file, in order; the analysis sends nothing; and
  the numbers printed at the end are the numbers of flows they stand for.
\<close>

section \<open>The records\<close>

text \<open>A record: eight bytes of time, the length, four bytes of the original length, the frame.\<close>

definition le32 :: "u32 \<Rightarrow> u8 list" where
  "le32 n = bytes_at (wr32 0 n (\<lambda>_. 0)) 0 4"

definition record_bytes :: "u8 list \<times> u8 list \<times> u8 list \<Rightarrow> u8 list" where
  "record_bytes r = (case r of (ts, orig, f) \<Rightarrow> ts @ le32 (of_nat (length f)) @ orig @ f)"

definition record_ok :: "u8 list \<times> u8 list \<times> u8 list \<Rightarrow> bool" where
  "record_ok r \<longleftrightarrow> (case r of (ts, orig, f) \<Rightarrow> length ts = 8 \<and> length orig = 4 \<and> length f \<le> 65536)"

lemma length_le32 [simp]: "length (le32 n) = 4"
  by (simp add: le32_def)

lemma incl_len_record:
  assumes "length ts = 8"
  shows "incl_len (ts @ le32 n @ rest) = n"
proof -
  let ?h = "ts @ le32 n @ rest"
  have *: "?h ! (8 + i) = wr32 0 n (\<lambda>_. 0) i" if "i < 4" for i
    using assms that by (simp add: nth_append le32_def bytes_at_def)
  have "incl_len ?h = rd32 (wr32 0 n (\<lambda>_. 0)) 0"
    using * [of 0] * [of 1] * [of 2] * [of 3] by (simp add: incl_len_def rd32_def rd16_def flip: numeral_2_eq_2 numeral_3_eq_3)
  then show ?thesis by (simp add: buf_simps)
qed

text \<open>The frames analysed one after the other, without the file.\<close>

primrec analyze_frames ::
    "cap_env \<Rightarrow> u8 list list \<Rightarrow> int \<Rightarrow> u8 list \<Rightarrow> analysis \<Rightarrow> analysis option" where
  "analyze_frames e [] k buf a = Some a"
| "analyze_frames e (f # fs) k buf a = do {
     a1 \<leftarrow> analyze_packet (ce_L e) (ce_sendto e) (ce_nat e (k + 1)) (ce_packet e (k + 1)) buf f a;
     analyze_frames e fs (k + 1) (f @ drop (length f) buf) a1 }"

text \<open>
  The frames that are read: all of them, unless an IPv4 frame after the first 2200000 frames ends the loop.
\<close>

primrec read_frames :: "u8 list list \<Rightarrow> int \<Rightarrow> u8 list \<Rightarrow> u8 list list \<times> bool" where
  "read_frames [] k buf = ([], False)"
| "read_frames (f # fs) k buf =
     (let buf' = f @ drop (length f) buf in
      if is_ipv4_frame buf' \<and> 2200000 < k + 1 then ([f], True)
      else (case read_frames fs (k + 1) buf' of (gs, b) \<Rightarrow> (f # gs, b)))"

text \<open>The bytes before the measuring starts, with the first frame after 2000000.\<close>

primrec unmeasured :: "u8 list list \<Rightarrow> int \<Rightarrow> int \<Rightarrow> int \<Rightarrow> int" where
  "unmeasured [] k t t1 = t1"
| "unmeasured (f # fs) k t t1 =
     (let t' = t + int (length f) in unmeasured fs (k + 1) t' (if t1 = 0 \<and> 2000000 < k + 1 then t' else t1))"

abbreviation bytes_of :: "u8 list list \<Rightarrow> int" where
  "bytes_of fs \<equiv> (\<Sum>f\<leftarrow>fs. int (length f))"

lemma unmeasured_set: "t1 \<noteq> 0 \<Longrightarrow> unmeasured fs k t t1 = t1"
  by (induction fs arbitrary: k t) (simp_all add: Let_def)

lemma bytes_split: "bytes_of fs = bytes_of (take n fs) + bytes_of (drop n fs)"
proof -
  have "bytes_of (take n fs @ drop n fs) = bytes_of (take n fs) + bytes_of (drop n fs)"
    by (simp only: map_append sum_list_append)
  then show ?thesis by (simp only: append_take_drop_id)
qed

lemma unmeasured_start:
  "0 \<le> k \<Longrightarrow> k \<le> 2000000 \<Longrightarrow> 0 < t \<Longrightarrow> unmeasured fs k t 0 =
     (if k + int (length fs) \<le> 2000000 then 0 else t + bytes_of (take (2000001 - nat k) fs))"
proof (induction fs arbitrary: k t)
  case (Cons f fs)
  show ?case
  proof (cases "k = 2000000")
    case True
    with Cons.prems(3) show ?thesis by (simp add: unmeasured_set)
  next
    case False
    then have k: "2000001 - nat k = Suc (2000001 - nat (k + 1))" using Cons.prems(1,2) by (simp add: Suc_nat_eq_nat_zadd1)
    show ?thesis unfolding k using Cons.IH [of "k + 1" "t + int (length f)"] Cons.prems False by (auto simp: Let_def)
  qed
qed simp

lemma read_frames_prefix: "read_frames fs k buf = (gs, b) \<Longrightarrow> gs = take (length gs) fs"
  by (induction fs arbitrary: k buf gs b) (auto simp: Let_def split: if_splits prod.splits)

lemma read_frames_all: "k + int (length fs) \<le> 2200000 \<Longrightarrow> read_frames fs k buf = (fs, False)"
  by (induction fs arbitrary: k buf) (simp_all add: Let_def)

lemma capture_step_record:
  assumes "record_ok (ts, orig, f)" and "cp_file c = record_bytes (ts, orig, f) @ rest"
  shows "\<exists>m. capture_step e c =
    map_option (\<lambda>a. (if is_ipv4_frame (f @ drop (length f) (cp_buf c)) \<and> 2200000 < cp_cnt c + 1 then Some Cap_limit else None,
        \<lparr>cp_file = rest, cp_buf = f @ drop (length f) (cp_buf c), cp_cnt = cp_cnt c + 1,
        cp_total = cp_total c + int (length f),
        cp_total1 = (if cp_total1 c = 0 \<and> 2000000 < cp_cnt c + 1 then cp_total c + int (length f) else cp_total1 c),
        cp_mxlen = m, cp_an = a\<rparr>))
      (analyze_packet (ce_L e) (ce_sendto e) (ce_nat e (cp_cnt c + 1)) (ce_packet e (cp_cnt c + 1))
         (cp_buf c) f (cp_an c))"
proof -
  have l: "length ts = 8" "length orig = 4" "length f \<le> 65536" using assms(1) by (auto simp: record_ok_def)
  let ?h = "ts @ le32 (of_nat (length f)) @ orig"
  have h: "fread 16 (cp_file c) = (?h, f @ rest)" using l assms(2) by (simp add: fread_def record_bytes_def)
  have n: "incl_len ?h = of_nat (length f)" using incl_len_record [OF l(1)] by simp
  have u: "unat (of_nat (length f) :: u32) = length f" using l(3) by (simp add: unsigned_of_nat take_bit_nat_eq_self)
  have len: "length ?h = 16" using l by simp
  have d: "fread (length f) (f @ rest) = (f, rest)" by (simp add: fread_def)
  show ?thesis
    unfolding capture_step_def h prod.case Let_def n u d capture_frame_def
    using l(3) len
    by (intro exI) (cases "analyze_packet (ce_L e) (ce_sendto e) (ce_nat e (cp_cnt c + 1)) (ce_packet e (cp_cnt c + 1))
         (cp_buf c) f (cp_an c)"; simp)
qed

lemma capture_loop_records:
  assumes "\<forall>r \<in> set rs. record_ok r" and "cp_file c = concat (map record_bytes rs)"
    and "read_frames (map (\<lambda>(ts, orig, f). f) rs) (cp_cnt c) (cp_buf c) = (gs, b)"
  shows "map_option (\<lambda>(r, d). (r, cp_an d, cp_cnt d, cp_total d, cp_total1 d)) (capture_loop e c) =
    map_option (\<lambda>a. (if b then Cap_limit else Cap_eof, a, cp_cnt c + int (length gs), cp_total c + bytes_of gs,
        unmeasured gs (cp_cnt c) (cp_total c) (cp_total1 c)))
      (analyze_frames e gs (cp_cnt c) (cp_buf c) (cp_an c))"
  using assms
proof (induction rs arbitrary: c gs b)
  case Nil
  then show ?case by (simp add: capture_loop.simps [of e c] capture_step_def fread_def)
next
  case (Cons r rs)
  obtain ts orig f where r: "r = (ts, orig, f)" by (cases r)
  let ?a = "analyze_packet (ce_L e) (ce_sendto e) (ce_nat e (cp_cnt c + 1)) (ce_packet e (cp_cnt c + 1))
    (cp_buf c) f (cp_an c)"
  let ?buf = "f @ drop (length f) (cp_buf c)" and ?t = "cp_total c + int (length f)"
  let ?t1 = "if cp_total1 c = 0 \<and> 2000000 < cp_cnt c + 1 then ?t else cp_total1 c"
  let ?stop = "is_ipv4_frame ?buf \<and> 2200000 < cp_cnt c + 1"
  obtain m where step: "capture_step e c =
      map_option (\<lambda>a. (if ?stop then Some Cap_limit else None,
        \<lparr>cp_file = concat (map record_bytes rs), cp_buf = ?buf, cp_cnt = cp_cnt c + 1, cp_total = ?t, cp_total1 = ?t1,
         cp_mxlen = m, cp_an = a\<rparr>)) ?a"
    using capture_step_record [of ts orig f c "concat (map record_bytes rs)" e] Cons.prems by (auto simp: r)
  show ?case
  proof (cases ?stop)
    case True
    then have "gs = [f]" "b" using Cons.prems(3) by (simp_all add: r Let_def)
    with True show ?thesis by (cases ?a) (simp_all add: capture_loop.simps [of e c] step Let_def)
  next
    case False
    then obtain gs' where g: "read_frames (map (\<lambda>(ts, orig, f). f) rs) (cp_cnt c + 1) ?buf = (gs', b)" "gs = f # gs'"
      using Cons.prems(3) by (auto simp: r Let_def split: prod.splits)
    show ?thesis
    proof (cases ?a)
      case None
      then show ?thesis by (simp add: capture_loop.simps [of e c] step g(2))
    next
      case (Some a)
      let ?c = "\<lparr>cp_file = concat (map record_bytes rs), cp_buf = ?buf, cp_cnt = cp_cnt c + 1, cp_total = ?t,
          cp_total1 = ?t1, cp_mxlen = m, cp_an = a\<rparr>"
      have "capture_loop e c = capture_loop e ?c"
        unfolding capture_loop.simps [of e c] step Some using False by auto
      then show ?thesis using Cons.IH [of ?c gs' b] Cons.prems g Some by (simp add: Let_def algebra_simps)
    qed
  qed
qed

text \<open>
  C39: The loop analyses the captured frames, each once and in the file's order, and counts them; only the buffer's old
  contents go from one frame to the next.  For a capture of at most 2200000 frames these are all of them, and the end of
  the file ends the loop; a longer one it leaves at the first IPv4 frame after so many.  The bytes printed are those of
  all the frames with the 24 of the file header while there are at most 2000000 frames; beyond, they are those of the
  frames after the 2000001st alone, although all frames are counted.
\<close>
theorem capture_reads_records:
  assumes "length hdr = 24" and "\<forall>r \<in> set rs. record_ok r"
    and "fs = map (\<lambda>(ts, orig, f). f) rs" and "read_frames fs 0 buf0 = (gs, limit)"
  shows "map_option (\<lambda>(r, c). (r, cp_an c, cp_cnt c, cp_total c))
      (analyze_file e buf0 (hdr @ concat (map record_bytes rs)) w) =
    map_option (\<lambda>a. (if limit then Cap_limit else Cap_eof, a, int (length gs),
        if length gs \<le> 2000000 then 24 + bytes_of gs else bytes_of (drop 2000001 gs)))
      (analyze_frames e gs 0 buf0 (new_analysis (w\<lparr>w_sm := (w_sm w)\<lparr>analysisMode := True\<rparr>\<rparr>))) \<and>
    gs = take (length gs) fs \<and> (length fs \<le> 2200000 \<longrightarrow> gs = fs \<and> \<not> limit)"
proof (intro conjI)
  define c where "c = \<lparr>cp_file = concat (map record_bytes rs), cp_buf = buf0, cp_cnt = 0, cp_total = 24,
    cp_total1 = 0, cp_mxlen = 0, cp_an = new_analysis (w\<lparr>w_sm := (w_sm w)\<lparr>analysisMode := True\<rparr>\<rparr>)\<rparr>"
  have "analyze_file e buf0 (hdr @ concat (map record_bytes rs)) w =
      map_option (\<lambda>(r, d). (r, d\<lparr>cp_total := cp_total d - cp_total1 d\<rparr>)) (capture_loop e c)"
    using assms(1)
    by (cases "capture_loop e c") (simp_all add: analyze_file_def fread_def c_def Let_def split_beta)
  then have "map_option (\<lambda>(r, c). (r, cp_an c, cp_cnt c, cp_total c))
      (analyze_file e buf0 (hdr @ concat (map record_bytes rs)) w) =
    map_option (\<lambda>(r, a, k, t, t1). (r, a, k, t - t1))
      (map_option (\<lambda>(r, d). (r, cp_an d, cp_cnt d, cp_total d, cp_total1 d)) (capture_loop e c))"
    by (simp add: option.map_comp comp_def split_beta)
  also have "\<dots> = map_option (\<lambda>a. (if limit then Cap_limit else Cap_eof, a, int (length gs),
        24 + bytes_of gs - unmeasured gs 0 24 0))
      (analyze_frames e gs 0 buf0 (new_analysis (w\<lparr>w_sm := (w_sm w)\<lparr>analysisMode := True\<rparr>\<rparr>)))"
    using assms(2-4) by (subst capture_loop_records [of rs c gs limit]) (simp_all add: c_def option.map_comp comp_def)
  also have "24 + bytes_of gs - unmeasured gs 0 24 0 =
      (if length gs \<le> 2000000 then 24 + bytes_of gs else bytes_of (drop 2000001 gs))"
  proof -
    have "bytes_of gs = bytes_of (take 2000001 gs) + bytes_of (drop 2000001 gs)"
      by (rule bytes_split)
    moreover have "unmeasured gs 0 24 0 = (if length gs \<le> 2000000 then 0 else 24 + bytes_of (take 2000001 gs))"
    proof -
      have "0 + int (length gs) \<le> 2000000 \<longleftrightarrow> length gs \<le> 2000000" by linarith
      then show ?thesis using unmeasured_start [of 0 24 gs] by (simp only: nat_0 diff_zero zero_less_numeral zero_le_numeral order_refl)
    qed
    moreover have "t = x + y \<Longrightarrow> u = (if q then 0 else 24 + x) \<Longrightarrow> 24 + t - u = (if q then 24 + t else y)"
      for t x y u :: int and q by simp
    ultimately show ?thesis by blast
  qed
  finally show "map_option (\<lambda>(r, c). (r, cp_an c, cp_cnt c, cp_total c))
      (analyze_file e buf0 (hdr @ concat (map record_bytes rs)) w) =
    map_option (\<lambda>a. (if limit then Cap_limit else Cap_eof, a, int (length gs),
        if length gs \<le> 2000000 then 24 + bytes_of gs else bytes_of (drop 2000001 gs)))
      (analyze_frames e gs 0 buf0 (new_analysis (w\<lparr>w_sm := (w_sm w)\<lparr>analysisMode := True\<rparr>\<rparr>)))" .
  show "gs = take (length gs) fs" by (rule read_frames_prefix [OF assms(4)])
  show "length fs \<le> 2200000 \<longrightarrow> gs = fs \<and> \<not> limit"
  proof
    assume "length fs \<le> 2200000"
    then have "0 + int (length fs) \<le> 2200000" by linarith
    from read_frames_all [OF this, of buf0] assms(4) show "gs = fs \<and> \<not> limit" by simp
  qed
qed

section \<open>The numbers of flows\<close>

definition num :: "int set \<Rightarrow> analysis \<Rightarrow> int" where
  "num S a = int (length (filter (\<lambda>f. analyze f \<in> S) (flows (w_sm (an_world a)))))"

lemma length_filter_update:
  "i < length xs \<Longrightarrow> int (length (filter P (xs[i := y]))) =
     int (length (filter P xs)) - of_bool (P (xs ! i)) + of_bool (P y)"
proof (induction xs arbitrary: i)
  case (Cons x xs)
  then show ?case
  proof (cases i)
    case (Suc j)
    then show ?thesis using Cons.IH [of j] Cons.prems by simp
  qed simp
qed simp

lemma num_set_analyze:
  "fid < length (flows (w_sm (an_world a))) \<Longrightarrow>
   num S (set_analyze fid v a) = num S a - of_bool (analyze_of fid a \<in> S) + of_bool (v \<in> S)"
  by (simp add: num_def length_filter_update analyze_of_def flow_at_def)

lemma num_counter [simp]:
  "num S (a\<lparr>total_flow := n\<rparr>) = num S a" "num S (a\<lparr>http_flow := n\<rparr>) = num S a"
  "num S (a\<lparr>ftp_flow := n\<rparr>) = num S a" "num S (a\<lparr>sip_flow := n\<rparr>) = num S a"
  "num S (a\<lparr>literal_flow := n\<rparr>) = num S a"
  by (simp_all add: num_def)

text \<open>
  The ports of a pair of addresses, and of a flow: those of the pairs under which it is found.  \<open>web_ports\<close> counts how
  many of 80 and 8080 are among them, for the flows that TCP packets have put into a class.
\<close>

definition port_of :: "ip4port \<Rightarrow> nat" where
  "port_of a = unat (ntohs (getPort4 a))"

definition pair_ports :: "ip4port \<times> ip4port \<Rightarrow> nat set" where
  "pair_ports k = {port_of (fst k), port_of (snd k)}"

definition flow_ports :: "state_manager \<Rightarrow> nat \<Rightarrow> nat set" where
  "flow_ports s fid = {n. \<exists>k. map_find k44_lt (map44 s) k = Some fid \<and> n \<in> pair_ports k}"

definition web_ports :: "state_manager \<Rightarrow> nat \<Rightarrow> int" where
  "web_ports s fid = (if analyze (flow_at s fid) \<in> {2, 3, 100} then int (card ({80, 8080} \<inter> flow_ports s fid)) else 0)"

definition web_total :: "state_manager \<Rightarrow> int" where
  "web_total s = (\<Sum>fid<length (flows s). web_ports s fid)"

text \<open>All pairs under which a flow is found have its ports.\<close>

definition known_flows :: "state_manager \<Rightarrow> bool" where
  "known_flows s \<longleftrightarrow> (\<forall>k fid. map_find k44_lt (map44 s) k = Some fid \<longrightarrow>
     fid < length (flows s) \<and> (\<forall>k'. map_find k44_lt (map44 s) k' = Some fid \<longrightarrow> pair_ports k' = pair_ports k))"

lemma flow_ports_known: "known_flows s \<Longrightarrow> map_find k44_lt (map44 s) k = Some fid \<Longrightarrow> flow_ports s fid = pair_ports k"
  unfolding known_flows_def flow_ports_def by blast

lemma web_total_same:
  assumes "flows s' = flows s" and "map44 s' = map44 s"
  shows "web_total s' = web_total s"
proof -
  have "flow_ports s' = flow_ports s" by (simp add: flow_ports_def fun_eq_iff assms(2))
  then have "web_ports s' = web_ports s" by (simp add: fun_eq_iff web_ports_def flow_at_def assms(1))
  then show ?thesis by (simp add: web_total_def assms(1))
qed

lemma known_flows_same: "flows s' = flows s \<Longrightarrow> map44 s' = map44 s \<Longrightarrow> known_flows s' = known_flows s"
  by (simp add: known_flows_def)

text \<open>Putting a flow into another class.\<close>

abbreviation sm_of :: "analysis \<Rightarrow> state_manager" where
  "sm_of a \<equiv> w_sm (an_world a)"

lemma set_analyze_ports [simp]:
  "flow_ports (sm_of (set_analyze fid v a)) i = flow_ports (sm_of a) i"
  "known_flows (sm_of (set_analyze fid v a)) = known_flows (sm_of a)"
  by (simp_all add: flow_ports_def known_flows_def set_analyze_def upd_flow_def)

lemma web_set_analyze:
  assumes "fid < length (flows (sm_of a))"
  shows "web_total (sm_of (set_analyze fid v a)) = web_total (sm_of a) - web_ports (sm_of a) fid +
    (if v \<in> {2, 3, 100} then int (card ({80, 8080} \<inter> flow_ports (sm_of a) fid)) else 0)"
proof -
  let ?s = "sm_of a" and ?s' = "sm_of (set_analyze fid v a)"
  have at: "analyze (flow_at ?s' i) = (if i = fid then v else analyze (flow_at ?s i))" for i
    using assms by (auto simp: set_analyze_def upd_flow_def flow_at_def)
  have len: "length (flows ?s') = length (flows ?s)" by (simp add: set_analyze_def upd_flow_def)
  have "web_total ?s' = web_ports ?s' fid + (\<Sum>i\<in>{..<length (flows ?s)} - {fid}. web_ports ?s' i)"
    unfolding web_total_def len by (rule sum.remove) (use assms in simp_all)
  also have "(\<Sum>i\<in>{..<length (flows ?s)} - {fid}. web_ports ?s' i) = (\<Sum>i\<in>{..<length (flows ?s)} - {fid}. web_ports ?s i)"
    by (rule sum.cong) (simp_all add: web_ports_def at)
  also have "\<dots> = web_total ?s - web_ports ?s fid"
    unfolding web_total_def by (subst (2) sum.remove [of _ fid]) (use assms in simp_all)
  finally show ?thesis by (simp add: web_ports_def [of ?s'] at)
qed

text \<open>A new flow.\<close>

lemma web_total_new:
  assumes "known_flows s" and "flows s' = flows s @ [f]" and "analyze f = 0"
    and "map44 s' = map_put k44_lt key (length (flows s)) (map44 s)" and "map_find k44_lt (map44 s) key = None"
  shows "web_total s' = web_total s" and "known_flows s'"
proof -
  have find: "map_find k44_lt (map44 s') k = (if k = key then Some (length (flows s)) else map_find k44_lt (map44 s) k)" for k
    by (simp add: assms(4) table_find)
  have old: "fid < length (flows s)" if "map_find k44_lt (map44 s) k = Some fid" for k fid
    using assms(1) that unfolding known_flows_def by blast
  have same: "pair_ports k = pair_ports k'" if "map_find k44_lt (map44 s) k = Some fid" "map_find k44_lt (map44 s) k' = Some fid"
    for k k' fid
    using assms(1) that unfolding known_flows_def by blast
  have ports: "flow_ports s' i = flow_ports s i" if "i < length (flows s)" for i
  proof -
    have "map_find k44_lt (map44 s') k = Some i \<longleftrightarrow> map_find k44_lt (map44 s) k = Some i" for k
      using that assms(5) by (cases "k = key") (simp_all add: find)
    then show ?thesis by (simp add: flow_ports_def)
  qed
  have at: "flow_at s' i = (if i < length (flows s) then flow_at s i else f)" if "i < Suc (length (flows s))" for i
    using that by (auto simp: flow_at_def assms(2) nth_append)
  have "web_total s' = (\<Sum>i<length (flows s). web_ports s' i) + web_ports s' (length (flows s))"
    by (simp add: web_total_def assms(2))
  also have "web_ports s' (length (flows s)) = 0" by (simp add: web_ports_def at assms(3))
  also have "(\<Sum>i<length (flows s). web_ports s' i) = web_total s"
    unfolding web_total_def by (rule sum.cong) (simp_all add: web_ports_def at ports)
  finally show "web_total s' = web_total s" by simp
  show "known_flows s'"
    unfolding known_flows_def
  proof (intro allI impI)
    fix k fid assume k: "map_find k44_lt (map44 s') k = Some fid"
    have "fid < Suc (length (flows s))" using k old [of k fid] by (auto simp: find split: if_splits)
    moreover have "pair_ports k' = pair_ports k" if "map_find k44_lt (map44 s') k' = Some fid" for k'
      using that k old [of k fid] old [of k' fid] same [of k' fid k] unfolding find by (auto split: if_splits)
    ultimately show "fid < length (flows s') \<and> (\<forall>k'. map_find k44_lt (map44 s') k' = Some fid \<longrightarrow> pair_ports k' = pair_ports k)"
      by (simp add: assms(2))
  qed
qed

text \<open>
  What the counters stand for, given the numbers at the start: new flows seen, flows newly put on the FTP and the SIP
  port, flows newly found to hold a literal.  The HTTP counter counts the HTTP ports of the flows newly put into a class.
\<close>

definition stats_ok :: "(int set \<Rightarrow> int) \<Rightarrow> int \<Rightarrow> analysis \<Rightarrow> bool" where
  "stats_ok b h a \<longleftrightarrow>
     total_flow a = num (- {0}) a - b (- {0}) \<and> ftp_flow a = num {3} a - b {3} \<and> sip_flow a = num {4} a - b {4} \<and>
     literal_flow a = num {100} a - b {100} \<and> num {2, 100} a - b {2, 100} \<le> http_flow a \<and>
     http_flow a = web_total (sm_of a) - h"

lemma literal_set_analyze [simp]: "literal_flow (set_analyze fid v a) = literal_flow a"
  by (simp add: set_analyze_def)

lemma analyze_of_literal [simp]: "analyze_of fid (a\<lparr>literal_flow := n\<rparr>) = analyze_of fid a"
  by (simp add: analyze_of_def)

lemma web_counters [simp]:
  "sm_of (a\<lparr>total_flow := n\<rparr>) = sm_of a" "sm_of (a\<lparr>http_flow := n\<rparr>) = sm_of a" "sm_of (a\<lparr>ftp_flow := n\<rparr>) = sm_of a"
  "sm_of (a\<lparr>sip_flow := n\<rparr>) = sm_of a" "sm_of (a\<lparr>literal_flow := n\<rparr>) = sm_of a"
  by simp_all

lemma card_web: "int (card ({80, 8080} \<inter> A)) = of_bool (80 \<in> A) + of_bool (8080 \<in> A)" for A :: "nat set"
  by (auto simp: Int_insert_left)

lemma web_ports_analyze:
  "web_ports (sm_of a) fid = (if analyze_of fid a \<in> {2, 3, 100} then int (card ({80, 8080} \<inter> flow_ports (sm_of a) fid)) else 0)"
  by (simp add: web_ports_def analyze_of_def)

lemma stats_classify:
  assumes "fid < length (flows (w_sm (an_world a)))" and "stats_ok b h a"
    and "flow_ports (sm_of a) fid = {unat (ntohs (getSourcePort p)), unat (ntohs (getDestPort p))}"
  shows "stats_ok b h (classify p fid a)"
proof -
  have port: "port_is n p \<longleftrightarrow> n \<in> flow_ports (sm_of a) fid" for n using assms(3) by (auto simp: port_is_def)
  note rules = classify_def Let_def stats_ok_def num_set_analyze web_set_analyze web_ports_analyze card_web port
  have classes: "v \<noteq> 2" "v \<noteq> 3" "v \<noteq> 4" "v \<noteq> 100" if "v \<le> 1" for v :: int using that by simp_all
  consider "analyze_of fid a = 0" | "analyze_of fid a \<noteq> 0" "analyze_of fid a \<le> 1" | "\<not> analyze_of fid a \<le> 1" by linarith
  then show ?thesis
  proof cases
    case 3
    with assms(2) show ?thesis by (cases "analyze_of fid a = 0") (simp_all add: classify_def Let_def)
  next
    case 1
    with assms(1,2) show ?thesis
      by (cases "isTCP p"; cases "isUDP p"; cases "80 \<in> flow_ports (sm_of a) fid";
        cases "8080 \<in> flow_ports (sm_of a) fid"; cases "21 \<in> flow_ports (sm_of a) fid";
        cases "5060 \<in> flow_ports (sm_of a) fid"; simp add: rules)
  next
    case 2
    with assms(1,2) classes [OF 2(2)] show ?thesis
      by (cases "isTCP p"; cases "isUDP p"; cases "80 \<in> flow_ports (sm_of a) fid";
        cases "8080 \<in> flow_ports (sm_of a) fid"; cases "21 \<in> flow_ports (sm_of a) fid";
        cases "5060 \<in> flow_ports (sm_of a) fid"; simp add: rules)
  qed
qed

lemma stats_search:
  assumes "fid < length (flows (w_sm (an_world a)))" and "stats_ok b h a"
  shows "stats_ok b h (search_literal t fid a)"
  using assms by (simp add: search_literal_def stats_ok_def num_set_analyze web_set_analyze web_ports_analyze)

section \<open>The analysis sends nothing\<close>

definition analysing :: "state_manager \<Rightarrow> bool" where
  "analysing s \<longleftrightarrow> analysisMode s \<and> known_flows s"

lemma after_begin_analysis:
  "analysisMode (after_begin s) = analysisMode s \<and> flows (after_begin s) = flows s \<and> map44 (after_begin s) = map44 s"
  by (simp add: after_begin_def count1_def count2_def gettimeofday_def split_beta Let_def)

lemma translate_analysis:
  assumes "translate L sendto p n w = Some (r, q, n', w')" and "analysisMode (w_sm w)"
  shows "q = p \<and> wire w' = wire w \<and> analysisMode (w_sm w') \<and> flows (w_sm w') = flows (w_sm w) \<and>
    map44 (w_sm w') = map44 (w_sm w)"
proof -
  let ?s = "count1 ''begin'' (count1 ''total'' (w_sm w))"
  have s: "analysisMode ?s" "flows ?s = flows (w_sm w)" "map44 ?s = map44 (w_sm w)"
    using assms(2) by (simp_all add: count1_def gettimeofday_def split_beta Let_def)
  then have d: "dest_in_range p ?s = Some (True, ?s)" by (simp add: dest_in_range_def)
  show ?thesis
    using assms(1)
    by (cases rule: translate_cases) (use s d after_begin_analysis [of ?s] in auto)
qed

text \<open>A packet's flow has its ports, and a new flow has no class.\<close>

definition flow_found :: "state_manager \<Rightarrow> nat set \<Rightarrow> nat option \<Rightarrow> state_manager \<Rightarrow> bool" where
  "flow_found s ps fo s' \<longleftrightarrow> analysing s' \<and> web_total s' = web_total s \<and>
     (\<forall>fid. fo = Some fid \<longrightarrow> fid < length (flows s') \<and> flow_ports s' fid = ps) \<and>
     (flows s' = flows s \<or> (\<exists>f. analyze f = 0 \<and> flows s' = flows s @ [f]))"

lemma doMapping44_analysing:
  assumes "analysing s" and "doMapping44 L x y s = (fo, s')"
  shows "flow_found s {port_of x, port_of y} fo s'"
proof -
  have k: "known_flows s" using assms(1) by (simp add: analysing_def)
  have pp: "pair_ports (x, y) = {port_of x, port_of y}" "pair_ports (y, x) = {port_of x, port_of y}"
    by (auto simp: pair_ports_def)
  have old: "fid < length (flows s) \<and> flow_ports s fid = pair_ports p" if "map_find k44_lt (map44 s) p = Some fid" for p fid
    using flow_ports_known [OF k that] k that unfolding known_flows_def by blast
  show ?thesis
  proof (cases rule: doMapping44_cases [of s x y L])
    case (new44 key)
    let ?f = "Flow_new44 L (fst key) (snd key)"
    have f: "analyze ?f = 0" by (simp add: Flow_new44_def Flow_default_def)
    have s': "fo = Some (length (flows s))" "flows s' = flows s @ [?f]" "analysisMode s' = analysisMode s"
      "map44 s' = map_put k44_lt key (length (flows s)) (map44 s)"
      using new44(4) assms(2) by auto
    have none: "map_find k44_lt (map44 s) key = None" using new44(1-3) by auto
    note n = web_total_new [OF k s'(2) f s'(4) none]
    have "map_find k44_lt (map44 s') key = Some (length (flows s))" by (simp add: s'(4) table_find)
    from flow_ports_known [OF n(2) this] have "flow_ports s' (length (flows s)) = {port_of x, port_of y}"
      using new44(3) pp by auto
    with n s' f assms(1) show ?thesis by (auto simp: flow_found_def analysing_def)
  qed (use assms old pp in \<open>auto simp: flow_found_def\<close>)
qed

lemma getFlow_analysing:
  assumes "getFlow L p s = Some (fo, s')" and "analysing s" and "ipVersionBefore p = 4"
  shows "flow_found s {unat (ntohs (getSourcePort p)), unat (ntohs (getDestPort p))} fo s'"
proof -
  from assms consider "s' = s" "fo = None"
    | d c where "doMapping44 L (IP4Port d (getDestPort p)) (IP4Port c (getSourcePort p)) s = (fo, s')"
    by (auto simp: getFlow_def bind_eq_Some_conv analysing_def split: if_splits)
  then show ?thesis
  proof cases
    case 1
    with assms(2) show ?thesis by (simp add: flow_found_def)
  next
    case 2
    from doMapping44_analysing [OF assms(2) 2] show ?thesis by (simp add: port_of_def insert_commute)
  qed
qed

lemma unpack_version: "unpack p = Some q \<Longrightarrow> hw_protocol p = ETHERTYPE_IP \<Longrightarrow> ipVersionBefore q = 4"
  by (auto simp: unpack_def copy_transport_def handleTransportLayer_def Let_def ETHERTYPE_IP_def ETHERTYPE_IPV6_def
      split: if_splits)

text \<open>What one packet, one round and the loop keep.\<close>

definition cap_inv :: "(int set \<Rightarrow> int) \<Rightarrow> int \<Rightarrow> datagram list \<Rightarrow> analysis \<Rightarrow> bool" where
  "cap_inv b h ds a \<longleftrightarrow> analysing (w_sm (an_world a)) \<and> wire (an_world a) = ds \<and> stats_ok b h a"

lemma cap_inv_set_world:
  assumes "cap_inv b h ds a" and "analysing (w_sm w)" and "wire w = ds" and "web_total (w_sm w) = web_total (sm_of a)"
    and "flows (w_sm w) = flows (w_sm (an_world a)) \<or> (\<exists>f. analyze f = 0 \<and> flows (w_sm w) = flows (w_sm (an_world a)) @ [f])"
  shows "cap_inv b h ds (a\<lparr>an_world := w\<rparr>)"
  using assms by (auto simp: cap_inv_def stats_ok_def num_def)

lemma set_analyze_rest [simp]:
  "wire (an_world (set_analyze fid v a)) = wire (an_world a)"
  "analysing (w_sm (an_world (set_analyze fid v a))) = analysing (w_sm (an_world a))"
  by (simp_all add: analysing_def) (simp_all add: set_analyze_def upd_flow_def)

lemma cap_inv_classify:
  "fid < length (flows (w_sm (an_world a))) \<Longrightarrow>
   flow_ports (sm_of a) fid = {unat (ntohs (getSourcePort p)), unat (ntohs (getDestPort p))} \<Longrightarrow>
   cap_inv b h ds a \<Longrightarrow> cap_inv b h ds (classify p fid a)"
  using stats_classify [of fid a b h p] by (simp add: cap_inv_def) (simp add: classify_def Let_def)

lemma cap_inv_search:
  "fid < length (flows (w_sm (an_world a))) \<Longrightarrow> cap_inv b h ds a \<Longrightarrow> cap_inv b h ds (search_literal t fid a)"
  using stats_search [of fid a b h t] by (simp add: cap_inv_def) (simp add: search_literal_def)

lemma length_flows_classify: "length (flows (w_sm (an_world (classify p fid a)))) = length (flows (w_sm (an_world a)))"
  by (simp add: classify_def Let_def)

lemma cap_inv_packet:
  assumes "analyze_packet L sendto n raw stale f a = Some a'" and i: "cap_inv b h ds a"
  shows "cap_inv b h ds a'"
proof -
  let ?buf = "\<lambda>i. if i < length f then f ! i else stale ! i"
  show ?thesis
  proof (cases "?buf 12 \<noteq> 0x08 \<or> ?buf 13 \<noteq> 0x00")
    case True
    with assms show ?thesis by (simp add: analyze_packet_def split: if_splits)
  next
    case False
    with assms(1) obtain p1 p2 r p3 n' w fo s where
      u: "unpack (p1\<lparr>hw_protocol := ETHERTYPE_IP\<rparr>) = Some p2"
      and t: "translate L sendto p2 n (an_world a) = Some (r, p3, n', w)"
      and g: "getFlow L p3 (w_sm w) = Some (fo, s)"
      and a': "a' = (case fo of None \<Rightarrow> a\<lparr>an_world := w\<lparr>w_sm := s\<rparr>\<rparr>
        | Some fid \<Rightarrow> search_literal (string_at ?buf 14 (nat (int (length f) - 14))) fid
            (classify p3 fid (a\<lparr>an_world := w\<lparr>w_sm := s\<rparr>\<rparr>)))"
      unfolding analyze_packet_def Let_def
      by (simp only: if_False) (auto simp: bind_eq_Some_conv)
    have w: "p3 = p2" "wire w = ds" "analysing (w_sm w)" "flows (w_sm w) = flows (w_sm (an_world a))"
      "web_total (w_sm w) = web_total (sm_of a)"
      using translate_analysis [OF t] i known_flows_same [of "w_sm w" "sm_of a"] web_total_same [of "w_sm w" "sm_of a"]
      by (auto simp: cap_inv_def analysing_def)
    have v: "ipVersionBefore p3 = 4" using unpack_version [OF u] w(1) by simp
    note s = getFlow_analysing [OF g w(3) v, unfolded flow_found_def]
    have i1: "cap_inv b h ds (a\<lparr>an_world := w\<lparr>w_sm := s\<rparr>\<rparr>)"
      by (rule cap_inv_set_world [OF i]) (use s w in auto)
    show ?thesis
    proof (cases fo)
      case (Some fid)
      let ?b = "a\<lparr>an_world := w\<lparr>w_sm := s\<rparr>\<rparr>"
      have fl: "fid < length (flows (sm_of ?b))"
        "flow_ports (sm_of ?b) fid = {unat (ntohs (getSourcePort p3)), unat (ntohs (getDestPort p3))}"
        using s Some by simp_all
      have "a' = search_literal (string_at ?buf 14 (nat (int (length f) - 14))) fid (classify p3 fid ?b)"
        using a' by (simp only: Some option.case)
      moreover have "fid < length (flows (sm_of (classify p3 fid ?b)))"
        unfolding length_flows_classify by (rule fl(1))
      ultimately show ?thesis
        using cap_inv_search cap_inv_classify [OF fl i1] by (simp only:)
    qed (use i1 a' in simp)
  qed
qed

lemma cap_inv_step:
  assumes "capture_step e c = Some (r, c')" and "cap_inv b h ds (cp_an c)"
  shows "cap_inv b h ds (cp_an c')"
  using assms(1)
proof (cases rule: capture_step_cases)
  case (frame n d rest)
  then show ?thesis
    using assms(2)
    by (auto simp: capture_frame_def Let_def bind_eq_Some_conv split: if_splits intro: cap_inv_packet)
qed (use assms(2) in simp)

lemma cap_inv_loop:
  "capture_loop e c = Some (r, c') \<Longrightarrow> cap_inv b h ds (cp_an c) \<Longrightarrow> cap_inv b h ds (cp_an c')"
proof (induction e c rule: capture_loop.induct)
  case (1 e c)
  then obtain x d where s: "capture_step e c = Some (x, d)"
    by (auto simp: capture_loop.simps [of e c] split: option.splits)
  with 1 show ?case
    by (cases x) (auto simp: capture_loop.simps [of e c] dest: cap_inv_step)
qed

definition flows_in :: "int set \<Rightarrow> state_manager \<Rightarrow> int" where
  "flows_in S s = int (length (filter (\<lambda>f. analyze f \<in> S) (flows s)))"

lemma analyze_file_inv:
  assumes "analyze_file e buf0 file w = Some (r, c)"
    and "known_flows (w_sm w)"
  shows "cap_inv (\<lambda>S. flows_in S (w_sm w)) (web_total (w_sm w)) (wire w) (cp_an c)"
proof -
  let ?a = "new_analysis (w\<lparr>w_sm := (w_sm w)\<lparr>analysisMode := True\<rparr>\<rparr>)"
  have i: "cap_inv (\<lambda>S. flows_in S (w_sm w)) (web_total (w_sm w)) (wire w) ?a"
    using assms(2) known_flows_same [of "(w_sm w)\<lparr>analysisMode := True\<rparr>" "w_sm w"]
      web_total_same [of "(w_sm w)\<lparr>analysisMode := True\<rparr>" "w_sm w"]
    by (simp add: cap_inv_def new_analysis_def analysing_def stats_ok_def num_def flows_in_def)
  show ?thesis
    using assms(1) i cap_inv_loop [of e _ _ _ "\<lambda>S. flows_in S (w_sm w)" "web_total (w_sm w)" "wire w"]
    by (fastforce simp: analyze_file_def fread_def Let_def bind_eq_Some_conv split: if_splits)
qed

text \<open>
  C40: Analysing a capture, whatever the file holds, sends no packet, and each printed number is determined by the flows:
  the flows counted are those first seen in this file, those counted for FTP and SIP are the flows it put
  into these classes, those counted as holding a literal address are the ones it marked so.  The number for HTTP is
  one of ports and not of flows: each flow that the file put into the classes of HTTP or FTP counts once for each of the
  ports 80 and 8080 that it has, so a flow between these two counts twice; no flow put into the HTTP class goes uncounted.
\<close>
theorem capture_statistics:
  assumes "analyze_file e buf0 file w = Some (r, c)" and "known_flows (w_sm w)"
  shows "wire (an_world (cp_an c)) = wire w \<and>
    (let n = (\<lambda>S. int (length (filter (\<lambda>f. analyze f \<in> S) (flows (w_sm (an_world (cp_an c)))))) -
                   int (length (filter (\<lambda>f. analyze f \<in> S) (flows (w_sm w))))) in
     total_flow (cp_an c) = n (- {0}) \<and> ftp_flow (cp_an c) = n {3} \<and> sip_flow (cp_an c) = n {4} \<and>
     literal_flow (cp_an c) = n {100} \<and> n {2, 100} \<le> http_flow (cp_an c) \<and>
     http_flow (cp_an c) = web_total (w_sm (an_world (cp_an c))) - web_total (w_sm w))"
  using analyze_file_inv [OF assms] by (simp add: cap_inv_def stats_ok_def num_def flows_in_def Let_def)

text \<open>A capture with one frame, the UDP datagram of a server.\<close>

definition demo_frame :: "u8 list" where
  "demo_frame = replicate 12 0 @ [0x08, 0] @ udp4_bytes"

definition demo_cap :: cap_env where
  "demo_cap = \<lparr>ce_L = demo_libc, ce_sendto = demo_sendto, ce_nat = (\<lambda>_. demo_nat), ce_packet = (\<lambda>_. received 0 [])\<rparr>"

definition demo_record :: "u8 list \<times> u8 list \<times> u8 list" where
  "demo_record = (replicate 8 0, replicate 4 0, demo_frame)"

definition demo_file :: "u8 list" where
  "demo_file = replicate 24 0 @ concat (map record_bytes [demo_record])"

definition demo_start :: analysis where
  "demo_start = new_analysis (demo_world\<lparr>w_sm := (w_sm demo_world)\<lparr>analysisMode := True\<rparr>\<rparr>)"

lemma demo_start_eq: "new_analysis (demo_world\<lparr>w_sm := demo_ready\<lparr>analysisMode := True\<rparr>\<rparr>) = demo_start"
  by (simp add: demo_start_def)

lemma demo_ready_empty: "flows demo_ready = []" "map44 demo_ready = []"
  by (simp_all add: demo_ready_def)

lemma translate_analysis_answer:
  assumes "analysisMode (w_sm w)" and "isTCP p \<or> isUDP p"
  shows "\<exists>s. translate L sendto p n w = Some (1, p, n\<lparr>modified := False\<rparr>, w\<lparr>w_sm := s\<rparr>) \<and>
    analysisMode s \<and> flows s = flows (w_sm w) \<and> map44 s = map44 (w_sm w)"
proof -
  let ?s = "count1 ''begin'' (count1 ''total'' (w_sm w))"
  have s: "analysisMode ?s \<and> flows ?s = flows (w_sm w) \<and> map44 ?s = map44 (w_sm w)"
    using assms(1) by (simp add: count1_def gettimeofday_def split_beta Let_def)
  then have "dest_in_range p ?s = Some (True, ?s)" by (simp add: dest_in_range_def)
  with s assms(2) after_begin_analysis [of ?s] show ?thesis
    by (intro exI [of _ "after_begin ?s"])
      (auto simp: translate_def Let_def after_begin_def [symmetric])
qed

lemma new_flow_counted:
  "fid < length (flows (w_sm (an_world a))) \<Longrightarrow> analyze_of fid a = 0 \<Longrightarrow>
   total_flow (search_literal t fid (classify p fid a)) = total_flow a + 1"
  by (simp add: search_literal_def classify_def Let_def)

lemma getFlow_first:
  assumes "out6 p" and "isUDP p" and "analysisMode s" and "flows s = []" and "map44 s = []"
  obtains s' f where "getFlow L p s = Some (Some 0, s')" and "flows s' = [f]" and "analyze f = 0"
proof -
  obtain d c where "load32 p (ip_hdr p) 16 = Some d" "load32 p (ip_hdr p) 12 = Some c" "ipVersionBefore p = 4"
    using assms(1) by (auto simp: out6_def load32_def load_ptr_def)
  with assms(2-5) that show ?thesis
    by (simp add: getFlow_def doMapping44_def Let_def Flow_new44_def Flow_default_def)
qed

lemma demo_cap_packet:
  obtains a where
    "analyze_packet demo_libc demo_sendto demo_nat (received 0 []) buf demo_frame demo_start = Some a"
    "total_flow a = 1"
proof -
  let ?p = "received ETHERTYPE_IP udp4_bytes" and ?w = "an_world demo_start"
  let ?buf = "\<lambda>i. if i < length demo_frame then demo_frame ! i else buf ! i"
  have len: "length demo_frame = 42" by (simp add: demo_frame_def)
  have n: "demo_frame ! (14 + i) = udp4_bytes ! i" if "i < 28" for i using that by (simp add: demo_frame_def nth_append)
  have "memcpy (\<lambda>_. 0) 0 (\<lambda>i. ?buf (14 + i)) 0 28 = ibuf ?p" by (auto simp: memcpy_def fun_eq_iff len n)
  then obtain p1 where p1: "setIbuf (\<lambda>i. ?buf (14 + i)) 28 (new_packet (received 0 [])) = Some p1"
    "p1\<lparr>hw_protocol := ETHERTYPE_IP\<rparr> = ?p"
    by (simp add: setIbuf_def BUF_LEN_def new_packet_def received_def)
  have u: "unpack ?p = Some demo_out6"
    by (rule unpack4 [of ?p]) (auto simp: ETHERTYPE_IP_def demo_out6_def)
  obtain s where t: "translate demo_libc demo_sendto demo_out6 demo_nat ?w =
      Some (1, demo_out6, demo_nat\<lparr>modified := False\<rparr>, ?w\<lparr>w_sm := s\<rparr>)"
    and s: "analysisMode s" "flows s = []" "map44 s = []"
    using translate_analysis_answer [of ?w demo_out6 demo_libc demo_sendto demo_nat] demo_out6_props(2)
    by (auto simp: demo_start_def new_analysis_def demo_ready_empty)
  obtain s' f where g: "getFlow demo_libc demo_out6 s = Some (Some 0, s')" "flows s' = [f]" "analyze f = 0"
    using getFlow_first [OF demo_out6_props(1,2) s] by blast
  have ip: "?buf 12 = 0x08" "?buf 13 = 0" by (simp_all add: demo_frame_def nth_append)
  have "total_flow (search_literal x 0 (classify demo_out6 0 (demo_start\<lparr>an_world := ?w\<lparr>w_sm := s'\<rparr>\<rparr>))) = 1" for x
    using g(2,3) by (subst new_flow_counted) (auto simp: analyze_of_def flow_at_def demo_start_def new_analysis_def)
  then show ?thesis
    by (intro that) (use ip len p1 u t g in \<open>auto simp: analyze_packet_def Let_def\<close>)
qed

theorem capture_reads_records_witness:
  "\<exists>a. map_option (\<lambda>(r, c). (r, cp_an c, cp_cnt c, cp_total c))
      (analyze_file demo_cap (replicate 65536 0) demo_file demo_world) = Some (Cap_eof, a, 1, 66) \<and> total_flow a = 1"
proof -
  obtain a where a: "analyze_packet demo_libc demo_sendto demo_nat (received 0 []) (replicate 65536 0) demo_frame
      demo_start = Some a" "total_flow a = 1"
    by (rule demo_cap_packet)
  have "length demo_frame = 42" by (simp add: demo_frame_def)
  moreover have "read_frames [demo_frame] 0 (replicate 65536 0) = ([demo_frame], False)" by (simp add: Let_def)
  ultimately
  have "map_option (\<lambda>(r, c). (r, cp_an c, cp_cnt c, cp_total c))
      (analyze_file demo_cap (replicate 65536 0) demo_file demo_world) = Some (Cap_eof, a, 1, 66)"
    using capture_reads_records [of "replicate 24 0" "[demo_record]" "[demo_frame]" "replicate 65536 0" "[demo_frame]" False demo_cap
        demo_world] a(1)
    by (simp add: demo_file_def record_ok_def demo_record_def demo_cap_def demo_start_eq)
  with a(2) show ?thesis by blast
qed

theorem capture_statistics_witness:
  "\<exists>c. analyze_file demo_cap (replicate 65536 0) demo_file demo_world = Some (Cap_eof, c) \<and>
     total_flow (cp_an c) = 1 \<and>
     length (filter (\<lambda>f. analyze f \<in> - {0}) (flows (w_sm (an_world (cp_an c))))) = 1 \<and>
     wire (an_world (cp_an c)) = []"
proof -
  obtain a where a: "analyze_packet demo_libc demo_sendto demo_nat (received 0 []) (replicate 65536 0) demo_frame
      demo_start = Some a" "total_flow a = 1"
    by (rule demo_cap_packet)
  define c0 where "c0 = \<lparr>cp_file = record_bytes demo_record, cp_buf = replicate 65536 0, cp_cnt = 0, cp_total = 24,
    cp_total1 = 0, cp_mxlen = 0, cp_an = demo_start\<rparr>"
  have "length demo_frame = 42" by (simp add: demo_frame_def)
  with capture_loop_records [of "[demo_record]" c0 "[demo_frame]" False demo_cap] a
  obtain d where "capture_loop demo_cap c0 = Some (Cap_eof, d)" "cp_an d = a"
    by (auto simp: c0_def record_ok_def demo_record_def demo_cap_def)
  then have f: "analyze_file demo_cap (replicate 65536 0) demo_file demo_world =
      Some (Cap_eof, d\<lparr>cp_total := cp_total d - cp_total1 d\<rparr>)"
    by (simp add: analyze_file_def fread_def demo_file_def Let_def demo_start_eq) (simp add: c0_def)
  have "known_flows (w_sm demo_world)" by (simp add: known_flows_def demo_ready_empty)
  from capture_statistics [OF f this] a(2) \<open>cp_an d = a\<close> show ?thesis
    by (intro exI [of _ "d\<lparr>cp_total := cp_total d - cp_total1 d\<rparr>"] conjI f)
      (simp_all add: demo_ready_empty Let_def)
qed

end
