(* ===== verification/Main_Program.thy ===== *)
theory Main_Program
  imports Capture_Props Tun_Dispatch
begin

text \<open>
  \<open>main\<close> of \<open>main.cc\<close>, with what it calls to set the program up and to shut it down: \<open>nfqueue_init\<close>,
  \<open>nfqueue_close\<close> (\<open>nfqueue.cc\<close>), \<open>tun_create\<close> (\<open>tun.h\<close>), the signal handler and the loops that read
  packets.  Calls of the system and of libnetfilter_queue are events with results given from outside.
\<close>

section \<open>nfqueue\<close>

datatype event = Shell string | Nfq_open | Nfq_unbind | Nfq_bind | Nfq_create | Nfq_set_mode | Nfq_destroy
  | Nfq_close | Tun_open | Tun_ioctl | Close_fd | Thread nat

text \<open>How a run of the program ends.\<close>

datatype ending = Exit int | Return int

record nfq_results =
  nfq_opens :: bool
  nfq_unbind_pf :: int
  nfq_bind_pf :: int
  nfq_creates :: bool
  nfq_set_mode :: int
  nfq_fd :: int

definition ip6_rule_add :: event where
  "ip6_rule_add = Shell ''ip6tables -t raw -A PREROUTING -j NFQUEUE --queue-num 0''"

definition ip4_rule_add :: event where
  "ip4_rule_add = Shell ''iptables  -A FORWARD -j NFQUEUE --queue-num 0''"

definition ip6_rule_del :: event where
  "ip6_rule_del = Shell ''ip6tables -t raw -D PREROUTING -j NFQUEUE --queue-num 0''"

definition ip4_rule_del :: event where
  "ip4_rule_del = Shell ''iptables  -D FORWARD -j NFQUEUE --queue-num 0''"

definition forward_on :: event where
  "forward_on = Shell ''sysctl net.ipv4.ip_forward=1''"

definition iptables_start :: "event list" where
  "iptables_start = [ip6_rule_add, ip4_rule_add, forward_on]"

definition iptables_stop :: "event list" where
  "iptables_stop = [ip6_rule_del, ip4_rule_del]"

text \<open>Every failure of the library ends the program.\<close>

definition nfqueue_init :: "nfq_results \<Rightarrow> event list \<times> (ending + int)" where
  "nfqueue_init r =
     (let e1 = iptables_start @ [Nfq_open] in
      if \<not> nfq_opens r then (e1, Inl (Exit 1))
      else let e2 = e1 @ [Nfq_unbind] in
        if nfq_unbind_pf r < 0 then (e2, Inl (Exit 1))
        else let e3 = e2 @ [Nfq_bind] in
          if nfq_bind_pf r < 0 then (e3, Inl (Exit 1))
          else let e4 = e3 @ [Nfq_create] in
            if \<not> nfq_creates r then (e4, Inl (Exit 1))
            else let e5 = e4 @ [Nfq_set_mode] in
              if nfq_set_mode r < 0 then (e5, Inl (Exit 1)) else (e5, Inr (nfq_fd r)))"

definition nfqueue_close :: "event list" where
  "nfqueue_close = iptables_stop @ [Nfq_destroy, Nfq_close]"

text \<open>A body of calls, of which \<open>exit\<close> is the last one made; what was done and how the program ended, if it did.\<close>

datatype statement = Calls "event list" | Call_exit int

fun run_body :: "statement list \<Rightarrow> event list \<times> ending option" where
  "run_body [] = ([], None)"
| "run_body (Call_exit k # b) = ([], Some (Exit k))"
| "run_body (Calls es # b) = (case run_body b of (es', x) \<Rightarrow> (es @ es', x))"

definition sigHandler :: "event list \<times> ending option" where
  "sigHandler = run_body [Call_exit 0, Calls nfqueue_close, Call_exit 0]"

section \<open>The tunnel\<close>

record tun_results =
  tun_opens :: int
  tun_setiff :: int

definition tun_create :: "tun_results \<Rightarrow> event list \<times> int" where
  "tun_create r =
     (if tun_opens r < 0 then ([Tun_open], -1)
      else if tun_setiff r < 0 then ([Tun_open, Tun_ioctl, Close_fd], -1)
      else ([Tun_open, Tun_ioctl] @ map Thread [0..<THREADS], tun_opens r))"

section \<open>The loops\<close>

text \<open>
  What the descriptor gives: a packet (cut to the buffer's 4096 bytes), or an error, which for the queue can
  be that packets were lost.  The handler of a packet is an argument.  A list that is used up is a
  program that still waits.
\<close>

datatype got = Got "u8 list" | Lost | Failed

definition main_buf :: nat where
  "main_buf = 4096"

primrec main_nfq :: "(u8 list \<Rightarrow> 's \<Rightarrow> 's option) \<Rightarrow> got list \<Rightarrow> 's \<Rightarrow> (event list \<times> ending option \<times> 's) option" where
  "main_nfq h [] s = Some ([], None, s)"
| "main_nfq h (g # gs) s =
     (case g of
        Got bs \<Rightarrow> do { s1 \<leftarrow> h (take main_buf bs) s; main_nfq h gs s1 }
      | Lost \<Rightarrow> main_nfq h gs s
      | Failed \<Rightarrow> Some (nfqueue_close, Some (Return 0), s))"

primrec main_tun :: "(u8 list \<Rightarrow> 's \<Rightarrow> 's option) \<Rightarrow> got list \<Rightarrow> 's \<Rightarrow> (ending option \<times> 's) option" where
  "main_tun h [] s = Some (None, s)"
| "main_tun h (g # gs) s =
     (case g of
        Got bs \<Rightarrow> do { s1 \<leftarrow> h (take main_buf bs) s; main_tun h gs s1 }
      | _ \<Rightarrow> Some (Some (Return (-1)), s))"

section \<open>Analysing the files named on the command line\<close>

text \<open>
  Each file is analysed after a new \<open>sm.init\<close> in the same global state.  A file that cannot be opened is a
  null pointer given to \<open>fread\<close>; with each file come the buffer's first contents.
\<close>

primrec analyze_files ::
    "cap_env \<Rightarrow> config \<Rightarrow> (u8 list option \<times> u8 list) list \<Rightarrow> world \<Rightarrow> ((init_error + capture list) \<times> world) option" where
  "analyze_files e cfg [] w = Some (Inr [], w)"
| "analyze_files e cfg (f # fs) w =
     (case init (ce_L e) cfg (w_sm w) of
        Inl err \<Rightarrow> Some (Inl err, w)
      | Inr s \<Rightarrow> do {
          file \<leftarrow> fst f;
          (r, c) \<leftarrow> analyze_file e (snd f) file (w\<lparr>w_sm := s\<rparr>);
          (cs, w1) \<leftarrow> analyze_files e cfg fs (an_world (cp_an c));
          Some (map_sum (\<lambda>x. x) (\<lambda>cs. c # cs) cs, w1) })"

end
