(* ===== verification/Main_Props.thy ===== *)
theory Main_Props
  imports Main_Program
begin

text \<open>
  Starting and stopping: what is left behind when the queue cannot be set up or the program is
  interrupted, that the reading loop handles every packet before its end, and that the analysis of any
  number of files sends nothing.
\<close>

section \<open>The packet filter's rules\<close>

text \<open>A rule is in force after a sequence of events when it was added and not deleted since.\<close>

primrec in_force :: "event \<Rightarrow> event \<Rightarrow> event list \<Rightarrow> bool \<Rightarrow> bool" where
  "in_force add del [] b = b"
| "in_force add del (e # es) b = in_force add del es (if e = add then True else if e = del then False else b)"

definition rules_left :: "event list \<Rightarrow> event set" where
  "rules_left es =
     (if in_force ip6_rule_add ip6_rule_del es False then {ip6_rule_add} else {}) \<union>
     (if in_force ip4_rule_add ip4_rule_del es False then {ip4_rule_add} else {})"

lemmas rule_defs = ip6_rule_add_def ip4_rule_add_def ip6_rule_del_def ip4_rule_del_def forward_on_def

lemma rules_distinct:
  "distinct [ip6_rule_add, ip4_rule_add, forward_on, ip6_rule_del, ip4_rule_del]"
  by (simp add: rule_defs)

lemma rules_not_library:
  "{ip6_rule_add, ip4_rule_add, ip6_rule_del, ip4_rule_del} \<inter>
     {Nfq_open, Nfq_unbind, Nfq_bind, Nfq_create, Nfq_set_mode} = {}"
  by (simp add: rule_defs)

lemma in_force_append: "in_force add del (xs @ ys) b = in_force add del ys (in_force add del xs b)"
  by (induction xs arbitrary: b) auto

lemma in_force_other: "add \<notin> set es \<Longrightarrow> del \<notin> set es \<Longrightarrow> in_force add del es b = b"
  by (induction es arbitrary: b) auto

lemma init_events:
  "\<exists>es. fst (nfqueue_init r) = iptables_start @ es \<and> set es \<subseteq> {Nfq_open, Nfq_unbind, Nfq_bind, Nfq_create, Nfq_set_mode}"
  by (simp add: nfqueue_init_def Let_def)

lemma rules_after_init: "rules_left (fst (nfqueue_init r)) = {ip6_rule_add, ip4_rule_add}"
proof -
  obtain es where e: "fst (nfqueue_init r) = iptables_start @ es"
    and s: "set es \<subseteq> {Nfq_open, Nfq_unbind, Nfq_bind, Nfq_create, Nfq_set_mode}"
    using init_events by blast
  have "in_force ip6_rule_add ip6_rule_del es b = b" "in_force ip4_rule_add ip4_rule_del es b = b" for b
    using s rules_not_library by (auto intro!: in_force_other)
  with rules_distinct show ?thesis
    by (auto simp: rules_left_def e in_force_append iptables_start_def)
qed

lemma rules_after_close: "rules_left (es @ nfqueue_close) = {}"
  using rules_distinct
  by (simp add: rules_left_def in_force_append nfqueue_close_def iptables_stop_def) (simp add: rule_defs)

lemma init_fails_iff:
  "snd (nfqueue_init r) = Inl (Exit 1) \<longleftrightarrow>
     \<not> nfq_opens r \<or> nfq_unbind_pf r < 0 \<or> nfq_bind_pf r < 0 \<or> \<not> nfq_creates r \<or> nfq_set_mode r < 0"
  "snd (nfqueue_init r) = Inl x \<Longrightarrow> x = Exit 1"
  by (auto simp: nfqueue_init_def Let_def split: if_splits)

section \<open>The reading loop\<close>

primrec handle_all :: "(u8 list \<Rightarrow> 's \<Rightarrow> 's option) \<Rightarrow> u8 list list \<Rightarrow> 's \<Rightarrow> 's option" where
  "handle_all h [] s = Some s"
| "handle_all h (b # bs) s = Option.bind (h b s) (handle_all h bs)"

definition packets_in :: "got list \<Rightarrow> u8 list list" where
  "packets_in gs = concat (map (\<lambda>g. case g of Got bs \<Rightarrow> [take main_buf bs] | _ \<Rightarrow> []) gs)"

lemma packets_in_simps [simp]:
  "packets_in [] = []" "packets_in (Got bs # gs) = take main_buf bs # packets_in gs"
  "packets_in (Lost # gs) = packets_in gs" "packets_in (Failed # gs) = packets_in gs"
  by (simp_all add: packets_in_def)

lemma main_nfq_handles_all:
  "Failed \<notin> set gs \<Longrightarrow> main_nfq h (gs @ Failed # rest) s =
     map_option (\<lambda>s'. (nfqueue_close, Some (Return 0), s')) (handle_all h (packets_in gs) s)"
proof (induction gs arbitrary: s)
  case (Cons g gs)
  then show ?case
    by (cases g) (auto simp: bind_eq_None_conv map_option_bind split: bind_splits)
qed simp

lemma main_nfq_ends:
  "main_nfq h gs s = Some (ev, x, s') \<Longrightarrow>
   (if Failed \<in> set gs then ev = nfqueue_close \<and> x = Some (Return 0) else ev = [] \<and> x = None)"
proof (induction gs arbitrary: s)
  case (Cons g gs)
  then show ?case by (cases g) (auto simp: bind_eq_Some_conv)
qed simp

section \<open>Several files\<close>

lemma init_keeps:
  assumes "init L cfg s = Inr s'"
  shows "flows s' = flows s \<and> map44 s' = map44 s"
proof -
  have f: "flows (fold (init_protocol cfg) vs s0) = flows s0 \<and> map44 (fold (init_protocol cfg) vs s0) = map44 s0" for vs s0
    by (induction vs arbitrary: s0) (simp_all add: init_protocol_def)
  show ?thesis
    using assms f
    by (auto simp: init_def Let_def addIPv4Pool_def setIPv6Prefix_def split: if_splits option.splits)
qed

text \<open>
   The analysis mode sends no packet, whatever files it is given and wherever it ends.
\<close>
theorem analysis_sends_nothing:
  assumes "analyze_files e cfg fs w = Some (r, w')" and "known_flows (w_sm w)"
  shows "wire w' = wire w \<and> known_flows (w_sm w')"
  using assms
proof (induction fs arbitrary: w r)
  case (Cons f fs)
  show ?case
  proof (cases "init (ce_L e) cfg (w_sm w)")
    case (Inr s)
    with Cons.prems(1) obtain bytes x c cs where
      a: "analyze_file e (snd f) bytes (w\<lparr>w_sm := s\<rparr>) = Some (x, c)"
      and r: "analyze_files e cfg fs (an_world (cp_an c)) = Some (cs, w')"
      by (auto simp: bind_eq_Some_conv)
    have "known_flows s" using init_keeps [OF Inr] Cons.prems(2) known_flows_same by blast
    then have "cap_inv (\<lambda>S. flows_in S s) (web_total s) (wire w) (cp_an c)"
      using analyze_file_inv [OF a] by simp
    then have "wire (an_world (cp_an c)) = wire w" "known_flows (w_sm (an_world (cp_an c)))"
      by (simp_all add: cap_inv_def analysing_def)
    with Cons.IH [OF r] show ?thesis by simp
  qed (use Cons.prems in auto)
qed simp


text \<open>A configuration without protocols, and a capture without a record.\<close>

definition demo_config :: config where
  "demo_config = \<lparr>cfg_opens = True, cfg_parses = True, cfg_string = (\<lambda>_. Some []), cfg_children = (\<lambda>_. Some [])\<rparr>"

theorem analysis_sends_nothing_witness:
  "\<exists>r w'. analyze_files demo_cap demo_config [(Some (replicate 24 0), [])] demo_world = Some (Inr r, w') \<and>
     length r = 1 \<and> wire w' = []"
proof -
  obtain s where i: "init demo_libc demo_config demo_ready = Inr s"
    by (simp add: init_def Let_def demo_config_def)
  then obtain r w' where a: "analyze_files demo_cap demo_config [(Some (replicate 24 0), [])] demo_world = Some (Inr r, w')"
    "length r = 1"
    by (simp add: analyze_file_def fread_def capture_loop.simps capture_step_def demo_cap_def)
  have "known_flows (w_sm demo_world)" by (simp add: known_flows_def demo_ready_empty)
  with analysis_sends_nothing [OF a(1)] a show ?thesis by auto
qed
end
