(* ===== verification/Lexer.thy ===== *)
theory Lexer
  imports Protocol_Actions
begin

text \<open>
  What the \<open>lexer\<close> files mean: patterns as regular expressions, the scanner flexc++ makes of a table of
  rules (the longest match, of equally long ones the first rule; \<open>^\<close> at the beginning of a line; the rules
  of the current start condition), and the positions its \<open>postCode\<close> gives the tokens.
\<close>

section \<open>Patterns\<close>

datatype rexp = Zero | One | Chars "char \<Rightarrow> bool" | Alt rexp rexp | Seq rexp rexp | Star rexp

inductive matches :: "rexp \<Rightarrow> string \<Rightarrow> bool" where
  m_One: "matches One []"
| m_Chars: "p c \<Longrightarrow> matches (Chars p) [c]"
| m_Alt1: "matches r xs \<Longrightarrow> matches (Alt r s) xs"
| m_Alt2: "matches s xs \<Longrightarrow> matches (Alt r s) xs"
| m_Seq: "matches r xs \<Longrightarrow> matches s ys \<Longrightarrow> matches (Seq r s) (xs @ ys)"
| m_Star0: "matches (Star r) []"
| m_Star: "matches r xs \<Longrightarrow> matches (Star r) ys \<Longrightarrow> matches (Star r) (xs @ ys)"

inductive_simps matches_simps [simp]:
  "matches Zero xs" "matches One xs" "matches (Chars p) xs" "matches (Alt r s) xs" "matches (Seq r s) xs"

primrec nullable :: "rexp \<Rightarrow> bool" where
  "nullable Zero = False"
| "nullable One = True"
| "nullable (Chars p) = False"
| "nullable (Alt r s) = (nullable r \<or> nullable s)"
| "nullable (Seq r s) = (nullable r \<and> nullable s)"
| "nullable (Star r) = True"

text \<open>What is left to match after a character.\<close>

primrec deriv :: "char \<Rightarrow> rexp \<Rightarrow> rexp" where
  "deriv c Zero = Zero"
| "deriv c One = Zero"
| "deriv c (Chars p) = (if p c then One else Zero)"
| "deriv c (Alt r s) = Alt (deriv c r) (deriv c s)"
| "deriv c (Seq r s) = (if nullable r then Alt (Seq (deriv c r) s) (deriv c s) else Seq (deriv c r) s)"
| "deriv c (Star r) = Seq (deriv c r) (Star r)"

lemma matches_nullable: "matches r [] \<longleftrightarrow> nullable r"
  by (induction r) (auto intro: m_Star0)

text \<open>A non-empty match of an iteration starts with a non-empty match of its body.\<close>

lemma matches_Star_Cons:
  "matches (Star r) (c # w) \<longleftrightarrow> (\<exists>u v. w = u @ v \<and> matches r (c # u) \<and> matches (Star r) v)"
proof
  show "\<exists>u v. w = u @ v \<and> matches r (c # u) \<and> matches (Star r) v" if "matches (Star r) (c # w)"
    using that
  proof (induction "Star r" "c # w" rule: matches.induct)
    case (m_Star xs ys)
    then show ?case by (cases xs) auto
  qed
qed (use m_Star [of r "c # _"] in auto)

lemma matches_deriv: "matches (deriv c r) w \<longleftrightarrow> matches r (c # w)"
proof (induction r arbitrary: w)
  case (Seq r s)
  have "matches (Seq r s) (c # w) \<longleftrightarrow>
      matches (Seq (deriv c r) s) w \<or> nullable r \<and> matches (deriv c s) w"
    unfolding matches_simps Seq Cons_eq_append_conv
    by (safe; (metis append_Nil matches_nullable | metis append_Cons matches_nullable))
  then show ?case by simp
next
  case (Star r)
  then show ?case by (auto simp: matches_Star_Cons)
qed auto

section \<open>The longest match\<close>

primrec longest :: "string \<Rightarrow> rexp \<Rightarrow> nat option" where
  "longest [] r = (if nullable r then Some 0 else None)"
| "longest (c # cs) r =
     (case longest cs (deriv c r) of
        Some n \<Rightarrow> Some (Suc n)
      | None \<Rightarrow> if nullable r then Some 0 else None)"

text \<open>The length of the longest prefix the pattern matches.\<close>

definition is_longest :: "string \<Rightarrow> rexp \<Rightarrow> nat \<Rightarrow> bool" where
  "is_longest s r n \<longleftrightarrow> n \<le> length s \<and> matches r (take n s) \<and> (\<forall>k\<le>length s. matches r (take k s) \<longrightarrow> k \<le> n)"

lemma longest_None: "longest s r = None \<Longrightarrow> k \<le> length s \<Longrightarrow> \<not> matches r (take k s)"
proof (induction s arbitrary: r k)
  case (Cons c cs)
  then show ?case
    by (cases k) (auto simp: matches_nullable matches_deriv [symmetric] split: option.splits if_splits)
qed (auto simp: matches_nullable split: if_splits)

lemma longest_Some: "longest s r = Some n \<Longrightarrow> is_longest s r n"
proof (induction s arbitrary: r n)
  case (Cons c cs)
  have all: "(\<forall>k\<le>length (c # cs). P k) \<longleftrightarrow> P 0 \<and> (\<forall>k\<le>length cs. P (Suc k))" for P
    by (metis Suc_le_mono length_Cons not0_implies_Suc zero_le)
  show ?case
  proof (cases "longest cs (deriv c r)")
    case None
    with Cons.prems longest_None [OF None] show ?thesis
      unfolding is_longest_def all by (auto simp: matches_nullable matches_deriv split: if_splits)
  next
    case (Some m)
    with Cons.prems Cons.IH [OF Some] show ?thesis
      unfolding is_longest_def all by (auto simp: matches_deriv)
  qed
qed (auto simp: is_longest_def matches_nullable split: if_splits)

lemma longest_eq: "longest s r = Some n \<longleftrightarrow> is_longest s r n"
proof
  assume l: "is_longest s r n"
  then obtain m where "longest s r = Some m"
    using longest_None [of s r n] by (cases "longest s r") (auto simp: is_longest_def)
  moreover from this l longest_Some have "m = n"
    by (auto simp: is_longest_def intro!: antisym)
  ultimately show "longest s r = Some n" by simp
qed (rule longest_Some)

lemma longest_None_eq: "longest s r = None \<longleftrightarrow> (\<forall>k\<le>length s. \<not> matches r (take k s))"
proof (cases "longest s r")
  case None
  with longest_None show ?thesis by blast
next
  case (Some n)
  with longest_Some [OF Some] show ?thesis unfolding is_longest_def by auto
qed

section \<open>The patterns of the lexers\<close>

abbreviation one_of :: "string \<Rightarrow> rexp" where
  "one_of cs \<equiv> Chars (\<lambda>c. c \<in> set cs)"

abbreviation plus :: "(char \<Rightarrow> bool) \<Rightarrow> rexp" where
  "plus p \<equiv> Seq (Chars p) (Star (Chars p))"

abbreviation two :: "char \<Rightarrow> char \<Rightarrow> rexp" where
  "two a b \<equiv> Seq (Chars (\<lambda>c. c = a)) (Chars (\<lambda>c. c = b))"

lemma matches_Star_Chars: "matches (Star (Chars p)) xs \<longleftrightarrow> list_all p xs"
proof (induction xs)
  case Nil
  show ?case by (simp add: m_Star0)
next
  case (Cons c xs)
  then show ?case by (auto simp: matches_Star_Cons)
qed

lemma take_all_takeWhile: "k \<le> length s \<Longrightarrow> list_all p (take k s) \<longleftrightarrow> k \<le> length (takeWhile p s)"
proof (induction s arbitrary: k)
  case (Cons c s)
  then show ?case by (cases k) auto
qed simp

text \<open>Evaluation of the matches the lexers need.\<close>

lemma longest_Star [simp]: "longest s (Star (Chars p)) = Some (length (takeWhile p s))"
  using length_takeWhile_le [of p s]
  by (simp add: longest_eq is_longest_def matches_Star_Chars take_all_takeWhile)

lemma longest_Seq_Chars:
  "longest [] (Seq (Chars p) r) = None"
  "longest (c # s) (Seq (Chars p) r) = (if p c then map_option Suc (longest s r) else None)"
proof -
  have e: "longest s (Seq One r) = longest s r" for s
  proof (cases "longest s r")
    case None
    then have "longest s (Seq One r) = None" unfolding longest_None_eq by simp
    with None show ?thesis by simp
  next
    case (Some n)
    then have "longest s (Seq One r) = Some n" unfolding longest_eq is_longest_def by simp
    with Some show ?thesis by simp
  qed
  have n: "longest s (Seq Zero r) = None" for s by (simp add: longest_None_eq)
  show "longest [] (Seq (Chars p) r) = None" by simp
  show "longest (c # s) (Seq (Chars p) r) = (if p c then map_option Suc (longest s r) else None)"
    by (simp add: e n split: option.splits)
qed

lemma longest_Chars [simp]:
  "longest [] (Chars p) = None" "longest (c # s) (Chars p) = (if p c then Some 1 else None)"
proof -
  have "longest s One = Some 0" "longest s Zero = None" for s
    by (auto simp: longest_eq longest_None_eq is_longest_def)
  then show "longest [] (Chars p) = None" "longest (c # s) (Chars p) = (if p c then Some 1 else None)"
    by simp_all
qed

declare longest.simps [simp del]

named_theorems lex_simps \<open>evaluation of rules\<close>

lemmas [lex_simps] = longest_Star longest_Seq_Chars longest_Chars

section \<open>Classes of characters\<close>

definition newline :: char where
  "newline = CHR 0x0A"

definition is_alpha :: "char \<Rightarrow> bool" where
  "is_alpha c \<longleftrightarrow> (let n = of_char c :: nat in 65 \<le> n \<and> n \<le> 90 \<or> 97 \<le> n \<and> n \<le> 122)"

definition carriage :: char where
  "carriage = CHR 0x0D"

definition is_eol :: "char \<Rightarrow> bool" where
  "is_eol c \<longleftrightarrow> c = carriage \<or> c = newline"

definition number :: "string \<Rightarrow> bool" where
  "number g \<longleftrightarrow> g \<noteq> [] \<and> list_all is_digit g"

lemma is_digit_simps [simp]:
  "\<not> is_digit (CHR '' '')" "\<not> is_digit (CHR ''|'')" "\<not> is_digit (CHR '':'')" "\<not> is_digit newline" "\<not> is_digit carriage"
  by (simp_all add: is_digit_def newline_def carriage_def)

lemma is_eol_simps [simp]:
  "\<not> is_eol (CHR '' '')" "\<not> is_eol (CHR ''|'')" "\<not> is_eol (CHR '':'')" "is_eol newline" "is_eol carriage"
  "carriage \<noteq> newline" "newline \<noteq> CHR '' ''" "newline \<noteq> CHR ''|''" "carriage \<noteq> CHR '' ''" "carriage \<noteq> CHR ''|''"
  "newline \<noteq> carriage" "CHR '' '' \<noteq> newline" "CHR ''|'' \<noteq> newline" "CHR '' '' \<noteq> carriage" "CHR ''|'' \<noteq> carriage"
  by (simp_all add: is_eol_def newline_def carriage_def)

lemma digit_not_eol [simp]: "is_digit c \<Longrightarrow> \<not> is_eol c"
  by (auto simp: is_eol_def)

section \<open>Rules and scanners\<close>

text \<open>
  A rule: whether it is for the beginning of a line, its pattern, and its action, which may return a token
  and changes the scanner's variables (its start condition among them).
\<close>

datatype ('v, 't) rule = Rule (at_bol: bool) (pattern: rexp) (action: "string \<Rightarrow> 'v \<Rightarrow> 't option \<times> 'v")

definition rule_match :: "bool \<Rightarrow> string \<Rightarrow> ('v, 't) rule \<Rightarrow> (nat \<times> ('v, 't) rule) option" where
  "rule_match bol s r = (if at_bol r \<and> \<not> bol then None else map_option (\<lambda>n. (n, r)) (longest s (pattern r)))"

fun longer :: "(nat \<times> 'r) option \<Rightarrow> (nat \<times> 'r) option \<Rightarrow> (nat \<times> 'r) option" where
  "longer None x = x"
| "longer (Some m) None = Some m"
| "longer (Some m) (Some m') = (if fst m' \<le> fst m then Some m else Some m')"

primrec best_rule :: "bool \<Rightarrow> string \<Rightarrow> ('v, 't) rule list \<Rightarrow> (nat \<times> ('v, 't) rule) option" where
  "best_rule bol s [] = None"
| "best_rule bol s (r # rs) = longer (rule_match bol s r) (best_rule bol s rs)"

lemma best_rule_matches: "r \<in> set rs \<Longrightarrow> rule_match bol s r \<noteq> None \<Longrightarrow> best_rule bol s rs \<noteq> None"
proof (induction rs)
  case (Cons a rs)
  then show ?case by (cases "rule_match bol s a"; cases "best_rule bol s rs") auto
qed simp

text \<open>
  Whether a rule for the beginning of a line comes before a longer match of another rule is up to flexc++:
  \<open>wins n k\<close> says whether the best rule of the first kind, of length \<open>n\<close>, comes before the best one of the
  second kind, of length \<open>k\<close>.
\<close>

definition ranked_rule ::
    "(nat \<Rightarrow> nat \<Rightarrow> bool) \<Rightarrow> bool \<Rightarrow> string \<Rightarrow> ('v, 't) rule list \<Rightarrow> (nat \<times> ('v, 't) rule) option" where
  "ranked_rule wins bol s rs =
     (case (best_rule bol s (filter at_bol rs), best_rule bol s (filter (\<lambda>r. \<not> at_bol r) rs)) of
        (Some m, Some m') \<Rightarrow> if wins (fst m) (fst m') then Some m else Some m'
      | (m, m') \<Rightarrow> longer m m')"

lemma best_rule_filter:
  "\<forall>r\<in>set rs. \<not> P r \<longrightarrow> rule_match bol s r = None \<Longrightarrow> best_rule bol s (filter P rs) = best_rule bol s rs"
  by (induction rs) auto

lemma best_rule_None: "\<forall>r\<in>set rs. rule_match bol s r = None \<Longrightarrow> best_rule bol s rs = None"
  by (induction rs) auto

lemma best_rule_Some: "best_rule bol s rs \<noteq> None \<Longrightarrow> \<exists>r\<in>set rs. rule_match bol s r \<noteq> None"
  using best_rule_None by metis

text \<open>Where the two kinds of rules do not compete, the ranking plays no part.\<close>

lemma ranked_rule_best:
  assumes "\<And>r r'. r \<in> set rs \<Longrightarrow> r' \<in> set rs \<Longrightarrow> at_bol r \<Longrightarrow> \<not> at_bol r' \<Longrightarrow>
    rule_match bol s r \<noteq> None \<Longrightarrow> rule_match bol s r' = None"
  shows "ranked_rule wins bol s rs = best_rule bol s rs"
proof (cases "best_rule bol s (filter at_bol rs)")
  case None
  have "\<forall>r\<in>set rs. at_bol r \<longrightarrow> rule_match bol s r = None"
  proof (rule ccontr)
    assume "\<not> (\<forall>r\<in>set rs. at_bol r \<longrightarrow> rule_match bol s r = None)"
    then have "\<forall>r\<in>set rs. \<not> at_bol r \<longrightarrow> rule_match bol s r = None" using assms by blast
    from best_rule_filter [OF this] None have "best_rule bol s rs = None" by simp
    with \<open>\<not> (\<forall>r\<in>set rs. at_bol r \<longrightarrow> rule_match bol s r = None)\<close> show False
      using best_rule_matches by blast
  qed
  then have "best_rule bol s (filter (\<lambda>r. \<not> at_bol r) rs) = best_rule bol s rs"
    by (intro best_rule_filter) blast
  with None show ?thesis by (simp add: ranked_rule_def)
next
  case (Some m)
  then obtain r where "r \<in> set rs" "at_bol r" "rule_match bol s r \<noteq> None"
    using best_rule_Some [of bol s "filter at_bol rs"] by auto
  with assms have n: "\<forall>r\<in>set rs. \<not> at_bol r \<longrightarrow> rule_match bol s r = None" by blast
  then have "best_rule bol s (filter (\<lambda>r. \<not> at_bol r) rs) = None" by (intro best_rule_None) auto
  moreover have "best_rule bol s (filter at_bol rs) = best_rule bol s rs" by (rule best_rule_filter [OF n])
  ultimately show ?thesis using Some by (simp add: ranked_rule_def del: not_None_eq split: option.split)
qed

text \<open>
  All tokens of an input, the rule for each match chosen by \<open>B\<close>.  \<^const>\<open>None\<close>: no rule matches at least one
  character, and the lexer file does not say what happens then.
\<close>

function lex_by ::
    "(bool \<Rightarrow> string \<Rightarrow> ('v, 't) rule list \<Rightarrow> (nat \<times> ('v, 't) rule) option) \<Rightarrow>
     ('v \<Rightarrow> ('v, 't) rule list) \<Rightarrow> bool \<Rightarrow> string \<Rightarrow> 'v \<Rightarrow> scanner \<Rightarrow> ('t \<times> tokentype) list option" where
  "lex_by B R bol s v sc =
     (if s = [] then Some []
      else (case B bol s (R v) of
              None \<Rightarrow> None
            | Some (n, r) \<Rightarrow>
                if n = 0 then None
                else
                  (let m = take n s; (t, v1) = action r m v; sc1 = postCode m sc in do {
                     ts \<leftarrow> lex_by B R (last m = newline) (drop n s) v1 sc1;
                     Some (case t of None \<Rightarrow> ts | Some k \<Rightarrow> (k, d_val sc1) # ts) })))"
  by pat_completeness auto

termination
  by (relation "measure (\<lambda>(B, R, bol, s, v, sc). length s)") auto

declare lex_by.simps [simp del]

lemma lex_by_Nil [simp]: "lex_by B R bol [] v sc = Some []"
  by (simp add: lex_by.simps)

lemma lex_by_step:
  assumes "B bol (m @ s) (R v) = Some (length m, r)" and "m \<noteq> []" and "action r m v = (t, v1)"
  shows "lex_by B R bol (m @ s) v sc =
    map_option (\<lambda>ts. (case t of None \<Rightarrow> [] | Some k \<Rightarrow> [(k, d_val (postCode m sc))]) @ ts)
      (lex_by B R (last m = newline) s v1 (postCode m sc))"
  using assms by (simp add: lex_by.simps [of B R bol] map_option_case bind_eq_None_conv split: option.splits)

lemma rule_match_Rule [lex_simps]:
  "rule_match bol s (Rule b p a) =
     (if b \<and> \<not> bol then None else map_option (\<lambda>n. (n, Rule b p a)) (longest s p))"
  by (simp add: rule_match_def)

section \<open>Tokens are pieces of the input\<close>

text \<open>A token whose text stands at its position in an input that starts at position \<open>k\<close>.\<close>

definition piece_of :: "int \<Rightarrow> string \<Rightarrow> tokentype \<Rightarrow> bool" where
  "piece_of k s t \<longleftrightarrow> k \<le> tok_pos t \<and> tok_pos_end t = tok_pos t + int (length (tok_s t)) \<and>
     take (length (tok_s t)) (drop (nat (tok_pos t - k)) s) = tok_s t"

primrec in_order :: "int \<Rightarrow> tokentype list \<Rightarrow> bool" where
  "in_order k [] = True"
| "in_order k (t # ts) = (k \<le> tok_pos t \<and> tok_pos t < tok_pos_end t \<and> in_order (tok_pos_end t) ts)"

lemma in_order_mono: "in_order k ts \<Longrightarrow> j \<le> k \<Longrightarrow> in_order j ts"
  by (cases ts) auto

lemma piece_of_later:
  assumes "piece_of (k + int n) (drop n s) t" shows "piece_of k s t"
proof -
  have "nat (tok_pos t - k) = nat (tok_pos t - (k + int n)) + n"
    using assms unfolding piece_of_def by linarith
  with assms show ?thesis by (simp add: piece_of_def)
qed

lemma lex_by_pieces:
  "lex_by B R bol s v sc = Some ts \<Longrightarrow>
   list_all (piece_of (sc_cnt sc) s) (map snd ts) \<and> in_order (sc_cnt sc) (map snd ts)"
proof (induction B R bol s v sc arbitrary: ts rule: lex_by.induct)
  case (1 B R bol s v sc)
  show ?case
  proof (cases "s = []")
    case False
    with "1.prems" obtain n r where r: "B bol s (R v) = Some (n, r)" "n \<noteq> 0"
      by (auto simp: lex_by.simps split: option.splits if_splits)
    define m where "m = take n s"
    obtain t v1 where a: "action r m v = (t, v1)" by fastforce
    define sc1 where "sc1 = postCode m sc"
    from "1.prems" False r a obtain us where
      us: "lex_by B R (last m = newline) (drop n s) v1 sc1 = Some us"
      and ts: "ts = (case t of None \<Rightarrow> us | Some k \<Rightarrow> (k, d_val sc1) # us)"
      by (auto simp: lex_by.simps [of B R bol] m_def [symmetric] sc1_def [symmetric] bind_eq_Some_conv)
    have m: "m \<noteq> []" using False r by (simp add: m_def)
    have sc1: "sc_cnt sc1 = sc_cnt sc + int (length m)" "tok_s (d_val sc1) = m" "tok_pos (d_val sc1) = sc_cnt sc"
      "tok_pos_end (d_val sc1) = sc_cnt sc + int (length m)"
      by (simp_all add: sc1_def postCode_def TokenType_def)
    have IH: "list_all (piece_of (sc_cnt sc1) (drop n s)) (map snd us) \<and> in_order (sc_cnt sc1) (map snd us)"
      by (rule "1.IH" [OF False r(1) refl r(2) m_def a [symmetric] refl sc1_def us])
    have drop: "drop (length m) s = drop n s" by (cases "n \<le> length s") (simp_all add: m_def)
    have "piece_of (sc_cnt sc) s (d_val sc1)"
      using sc1 by (cases "length s \<le> n") (simp_all add: piece_of_def m_def)
    moreover have "list_all (piece_of (sc_cnt sc) s) (map snd us)"
      using IH piece_of_later [of "sc_cnt sc" "length m" s] by (auto simp: sc1(1) drop list_all_iff)
    moreover have "in_order (sc_cnt sc) (map snd us)" "in_order (sc_cnt sc1) (map snd us)"
      using IH in_order_mono [of "sc_cnt sc1" "map snd us" "sc_cnt sc"] sc1 by auto
    ultimately show ?thesis
      using ts sc1 m by (cases t) auto
  qed (use "1.prems" in simp)
qed

section \<open>Scanning from a position\<close>

definition scanner_at :: "int \<Rightarrow> scanner" where
  "scanner_at k = \<lparr>d_val = TokenType [] 0 0, sc_cnt = k\<rparr>"

lemma new_scanner_at: "new_scanner = scanner_at 0"
  by (simp add: scanner_at_def new_scanner_def)

text \<open>Only the count of a scanner matters for the tokens to come.\<close>

lemma lex_by_cnt: "lex_by B R bol s v sc = lex_by B R bol s v (scanner_at (sc_cnt sc))"
proof -
  have "postCode m (scanner_at (sc_cnt sc)) = postCode m sc" for m
    by (simp add: postCode_def scanner_at_def)
  then show ?thesis by (simp add: lex_by.simps [of B R bol] Let_def split: option.split prod.split)
qed

definition lexed_by ::
    "(bool \<Rightarrow> string \<Rightarrow> ('v, 't) rule list \<Rightarrow> (nat \<times> ('v, 't) rule) option) \<Rightarrow>
     ('v \<Rightarrow> ('v, 't) rule list) \<Rightarrow> bool \<Rightarrow> string \<Rightarrow> 'v \<Rightarrow> int \<Rightarrow> ('t \<times> tokentype) list option" where
  "lexed_by B R bol s v k = lex_by B R bol s v (scanner_at k)"

lemma lexed_by_Nil [simp]: "lexed_by B R bol [] v k = Some []"
  by (simp add: lexed_by_def)

lemma lexed_by_step:
  assumes "B bol (m @ s) (R v) = Some (length m, r)" and "m \<noteq> []"
  shows "action r m v = (None, v1) \<Longrightarrow>
      lexed_by B R bol (m @ s) v k = lexed_by B R (last m = newline) s v1 (k + int (length m))"
    and "action r m v = (Some a, v1) \<Longrightarrow>
      lexed_by B R bol (m @ s) v k =
        map_option ((#) (a, TokenType m k (k + int (length m)))) (lexed_by B R (last m = newline) s v1 (k + int (length m)))"
proof -
  let ?rest = "lexed_by B R (last m = newline) s v1 (k + int (length m))"
  have p: "d_val (postCode m (scanner_at k)) = TokenType m k (k + int (length m))"
    "sc_cnt (postCode m (scanner_at k)) = k + int (length m)"
    by (simp_all add: postCode_def scanner_at_def)
  have *: "lexed_by B R bol (m @ s) v k = map_option
      (\<lambda>ts. (case t of None \<Rightarrow> [] | Some a \<Rightarrow> [(a, TokenType m k (k + int (length m)))]) @ ts) ?rest"
    if "action r m v = (t, v1)" for t
    unfolding lexed_by_def lex_by_step [where B = B and R = R, OF assms that] lex_by_cnt [of _ _ _ _ _ "postCode m (scanner_at k)"] p ..
  show "action r m v = (None, v1) \<Longrightarrow> lexed_by B R bol (m @ s) v k = ?rest"
    using * [of None] by (cases ?rest) simp_all
  show "action r m v = (Some a, v1) \<Longrightarrow>
      lexed_by B R bol (m @ s) v k = map_option ((#) (a, TokenType m k (k + int (length m)))) ?rest"
    using * [of "Some a"] by (cases ?rest) simp_all
qed

lemma append_fun: "(@) (x # xs) = (\<lambda>ys. x # (xs @ ys))"
  by (rule ext) simp

text \<open>A token where its text starts.\<close>

definition tok_at :: "int \<Rightarrow> string \<Rightarrow> tokentype" where
  "tok_at k m = TokenType m k (k + int (length m))"

section \<open>Longest match\<close>

abbreviation lex_all ::
    "('v \<Rightarrow> ('v, 't) rule list) \<Rightarrow> bool \<Rightarrow> string \<Rightarrow> 'v \<Rightarrow> scanner \<Rightarrow> ('t \<times> tokentype) list option" where
  "lex_all \<equiv> lex_by best_rule"

abbreviation lexed :: "('v \<Rightarrow> ('v, 't) rule list) \<Rightarrow> bool \<Rightarrow> string \<Rightarrow> 'v \<Rightarrow> int \<Rightarrow> ('t \<times> tokentype) list option" where
  "lexed \<equiv> lexed_by best_rule"

lemmas lexed_step = lexed_by_step [where B = best_rule]

lemmas lex_all_pieces = lex_by_pieces [where B = best_rule]

lemmas lexed_def = lexed_by_def [where B = best_rule]

text \<open>Tables of rules in which the two kinds never compete mean the same under every ranking.\<close>

lemma lex_by_ranked:
  assumes "\<And>bol s v. ranked_rule wins bol s (R v) = best_rule bol s (R v)"
  shows "lex_by (ranked_rule wins) R bol s v sc = lex_all R bol s v sc"
proof (induction "length s" arbitrary: bol s v sc rule: less_induct)
  case less
  show ?case
  proof (cases "s = [] \<or> best_rule bol s (R v) = None")
    case True
    then show ?thesis by (auto simp: lex_by.simps [of _ R bol s] assms)
  next
    case False
    then obtain n r where b: "best_rule bol s (R v) = Some (n, r)" by auto
    have "lex_by (ranked_rule wins) R c (drop n s) v' sc' = lex_all R c (drop n s) v' sc'" if "n \<noteq> 0" for c v' sc'
      by (rule less) (use False that in auto)
    with b show ?thesis by (cases "n = 0") (simp_all add: lex_by.simps [of _ R bol s] assms Let_def split_beta)
  qed
qed

end
