(* ===== verification/Ftp_Language.thy ===== *)
theory Ftp_Language
  imports Lexer
begin

text \<open>
  FTP as \<open>ftp/lexer\<close> and \<open>ftp/grammar\<close> describe it: the table of rules of every start condition, the rules of
  the grammar as derivations that run the actions of \<open>Protocol_Actions\<close>, and a recogniser that computes the
  same.
\<close>

section \<open>The lexer\<close>

datatype ftp_token = FTP_INT | RESPONSE_TEXT | REQUEST_TEXT | CMD | CMD_EPRT | FTP_CHAR char

datatype ftp_condition = FTP_INITIAL | FTP_response | FTP_request | FTP_eprt

text \<open>The end of a line, in the conditions for the rest of a line.\<close>

definition ftp_eol_rules :: "(ftp_condition, ftp_token) rule list" where
  "ftp_eol_rules =
     [Rule False (two carriage newline) (\<lambda>m v. (Some (FTP_CHAR (m ! 1)), FTP_INITIAL)),
      Rule False (one_of [newline]) (\<lambda>m v. (Some (FTP_CHAR (m ! 0)), FTP_INITIAL))]"

definition ftp_text_rules :: "ftp_token \<Rightarrow> (ftp_condition, ftp_token) rule list" where
  "ftp_text_rules k =
     [Rule False (Seq (Chars (\<lambda>c. c \<noteq> CHR '' '' \<and> \<not> is_eol c)) (Star (Chars (\<lambda>c. \<not> is_eol c)))) (\<lambda>m v. (Some k, v)),
      Rule False (one_of '' '') (\<lambda>m v. (None, v))]"

fun ftp_rules :: "ftp_condition \<Rightarrow> (ftp_condition, ftp_token) rule list" where
  "ftp_rules FTP_INITIAL =
     [Rule True (plus is_digit) (\<lambda>m v. (Some FTP_INT, FTP_response)),
      Rule True (plus is_alpha)
        (\<lambda>m v. if m = ''EPRT'' then (Some CMD_EPRT, FTP_eprt) else (Some CMD, FTP_request)),
      Rule False (Seq (Chars (\<lambda>c. \<not> is_digit c \<and> \<not> is_alpha c \<and> c \<noteq> newline)) (Star (Chars (\<lambda>c. c \<noteq> newline))))
        (\<lambda>m v. (None, v)),
      Rule False (one_of [newline]) (\<lambda>m v. (Some (FTP_CHAR (m ! 0)), v))]"
| "ftp_rules FTP_response = ftp_text_rules RESPONSE_TEXT @ ftp_eol_rules"
| "ftp_rules FTP_request = ftp_text_rules REQUEST_TEXT @ ftp_eol_rules"
| "ftp_rules FTP_eprt =
     [Rule False (one_of '' |'') (\<lambda>m v. (None, v)),
      Rule False (plus is_digit) (\<lambda>m v. (Some FTP_INT, v)),
      Rule False (Chars (\<lambda>c. c \<notin> set '' |'' \<and> \<not> is_eol c)) (\<lambda>m v. (Some (FTP_CHAR (m ! 0)), v))] @ ftp_eol_rules"

text \<open>
  flexc++ need not be asked whether a rule for the beginning of a line or a longer match of another rule
  comes first: where a rule for the beginning of a line matches, no other kind of rule does.
\<close>

lemma ftp_rules_do_not_compete:
  assumes "r \<in> set (ftp_rules v)" and "r' \<in> set (ftp_rules v)" and "at_bol r" and "\<not> at_bol r'"
    and "longest s (pattern r) \<noteq> None"
  shows "longest s (pattern r') = None"
proof -
  have n: "\<not> is_digit newline" "\<not> is_alpha newline"
    by (simp_all add: is_digit_def is_alpha_def newline_def)
  show ?thesis
    using assms n by (cases v; cases s) (auto simp: lex_simps ftp_text_rules_def ftp_eol_rules_def split: if_splits)
qed

lemma ftp_rules_any_ranking:
  "lex_by (ranked_rule wins) ftp_rules bol s v sc = lex_all ftp_rules bol s v sc"
proof (intro lex_by_ranked ranked_rule_best)
  fix bol s v and r r' :: "(ftp_condition, ftp_token) rule"
  assume "r \<in> set (ftp_rules v)" "r' \<in> set (ftp_rules v)" "at_bol r" "\<not> at_bol r'" "rule_match bol s r \<noteq> None"
  with ftp_rules_do_not_compete [of r v r' s] show "rule_match bol s r' = None"
    by (auto simp: rule_match_def split: if_splits)
qed

type_synonym ftp_tokens = "(ftp_token \<times> tokentype) list"

text \<open>The tokens of a packet's data: the scanner is new.\<close>

definition ftp_lex :: "string \<Rightarrow> ftp_tokens option" where
  "ftp_lex s = lex_all ftp_rules True s FTP_INITIAL new_scanner"

section \<open>The grammar\<close>

text \<open>The value of an address, put together from its numbers.\<close>

inductive ftp_ipp :: "ftp_tokens \<Rightarrow> tokentype \<Rightarrow> bool" where
  ipp_INT: "ftp_ipp [(FTP_INT, t1)] t1"
| ipp_colon: "ftp_ipp ts t1 \<Longrightarrow>
    ftp_ipp (ts @ [(FTP_CHAR (CHR '':''), t2), (FTP_INT, t3)]) (ftp_ipp_colon t1 t3)"

inductive ftp_ip :: "ftp_tokens \<Rightarrow> tokentype \<Rightarrow> bool" where
  ip_double: "ftp_ipp ts t1 \<Longrightarrow> ftp_ipp us t4 \<Longrightarrow>
    ftp_ip (ts @ [(FTP_CHAR (CHR '':''), t2), (FTP_CHAR (CHR '':''), t3)] @ us) (ftp_ip_double t1 t4)"
| ip_single: "ftp_ipp ts t1 \<Longrightarrow> ftp_ip ts t1"

text \<open>
  \<open>FTPmessage\<close>, by the parser object \<open>pid\<close> in a state, with the state after the action (\<^const>\<open>None\<close>: a null
  flow).  The production \<open>error\<close> takes every other sequence of tokens and has no action.
\<close>

inductive ftp_message ::
    "libc \<Rightarrow> nat \<Rightarrow> ftp_tokens \<Rightarrow> state_manager \<Rightarrow> state_manager option \<Rightarrow> bool" for L pid where
  response: "ftp_message L pid [(FTP_INT, t1), (RESPONSE_TEXT, t2), (FTP_CHAR newline, t3)] s (Some s)"
| request: "ftp_message L pid [(CMD, t1), (FTP_CHAR newline, t2)] s (Some s)"
| request_text: "ftp_message L pid [(CMD, t1), (REQUEST_TEXT, t2), (FTP_CHAR newline, t3)] s (Some (ftp_request pid t1 s))"
| request_eprt: "ftp_ip ts t3 \<Longrightarrow>
    ftp_message L pid ((CMD_EPRT, t1) # (FTP_INT, t2) # ts @ [(FTP_INT, t4), (FTP_CHAR newline, t5)]) s
      (ftp_eprt L pid t2 t3 t4 s)"

section \<open>A recogniser\<close>

abbreviation colon :: ftp_token where
  "colon \<equiv> FTP_CHAR (CHR '':'')"

fun ipp_tail :: "tokentype \<Rightarrow> ftp_tokens \<Rightarrow> tokentype \<times> ftp_tokens" where
  "ipp_tail t (a # b # ts) =
     (if fst a = colon \<and> fst b = FTP_INT then ipp_tail (ftp_ipp_colon t (snd b)) ts else (t, a # b # ts))"
| "ipp_tail t ts = (t, ts)"

definition ip_after :: "tokentype \<Rightarrow> ftp_tokens \<Rightarrow> tokentype \<times> ftp_tokens" where
  "ip_after t ts =
     (if take 3 (map fst ts) = [colon, colon, FTP_INT]
      then (let (t4, us) = ipp_tail (snd (ts ! 2)) (drop 3 ts) in (ftp_ip_double t t4, us))
      else (t, ts))"

definition ip_tail :: "tokentype \<Rightarrow> ftp_tokens \<Rightarrow> tokentype \<times> ftp_tokens" where
  "ip_tail t ts = case_prod ip_after (ipp_tail t ts)"

definition ftp_run :: "libc \<Rightarrow> nat \<Rightarrow> ftp_tokens \<Rightarrow> state_manager \<Rightarrow> state_manager option option" where
  "ftp_run L pid ts s =
     (let ks = map fst ts; val = (\<lambda>i. snd (ts ! i)) in
      if ks = [FTP_INT, RESPONSE_TEXT, FTP_CHAR newline] \<or> ks = [CMD, FTP_CHAR newline] then Some (Some s)
      else if ks = [CMD, REQUEST_TEXT, FTP_CHAR newline] then Some (Some (ftp_request pid (val 0) s))
      else if take 3 ks = [CMD_EPRT, FTP_INT, FTP_INT]
      then (let (t3, us) = ip_tail (val 2) (drop 3 ts) in
            if map fst us = [FTP_INT, FTP_CHAR newline] then Some (ftp_eprt L pid (val 1) t3 (snd (us ! 0)) s)
            else None)
      else None)"

section \<open>The recogniser computes the grammar\<close>

lemma ipp_tail_sound:
  "ipp_tail t us = (t', vs) \<Longrightarrow> ftp_ipp pre t \<Longrightarrow> \<exists>ws. us = ws @ vs \<and> ftp_ipp (pre @ ws) t'"
proof (induction t us arbitrary: pre rule: ipp_tail.induct)
  case (1 t a b ts)
  show ?case
  proof (cases "fst a = colon \<and> fst b = FTP_INT")
    case True
    then have "a = (colon, snd a)" "b = (FTP_INT, snd b)" by (simp_all add: prod_eq_iff)
    then have "ftp_ipp (pre @ [a, b]) (ftp_ipp_colon t (snd b))"
      using ipp_colon [OF "1.prems"(2)] by metis
    from "1.IH" [OF True _ this] True "1.prems"(1) show ?thesis by auto
  qed (use 1 in auto)
qed auto

lemma ipp_tail_complete:
  "ftp_ipp ts t \<Longrightarrow> \<exists>t1 us. ts = (FTP_INT, t1) # us \<and> (\<forall>vs. ipp_tail t1 (us @ vs) = ipp_tail t vs)"
  by (induction rule: ftp_ipp.induct) auto

lemma ipp_tail_stops: "us = [] \<or> fst (hd us) \<noteq> colon \<or> fst (us ! 1) \<noteq> FTP_INT \<Longrightarrow> ipp_tail t us = (t, us)"
  by (cases "(t, us)" rule: ipp_tail.cases) auto

lemma take3_iff: "take 3 (map fst ts) = [a, b, c] \<longleftrightarrow> (\<exists>x y z us. ts = (a, x) # (b, y) # (c, z) # us)"
  by (cases ts; cases "tl ts"; cases "tl (tl ts)") auto

lemma ip_tail_sound:
  assumes "ip_tail t1 us = (t, vs)"
  shows "\<exists>ws. us = ws @ vs \<and> ftp_ip ((FTP_INT, t1) # ws) t"
proof -
  obtain t' us' where p: "ipp_tail t1 us = (t', us')" by fastforce
  with ipp_tail_sound [OF p ipp_INT] obtain ws where
    ws: "us = ws @ us'" "ftp_ipp ((FTP_INT, t1) # ws) t'" by auto
  show ?thesis
  proof (cases "take 3 (map fst us') = [colon, colon, FTP_INT]")
    case True
    then obtain x y z xs where us': "us' = (colon, x) # (colon, y) # (FTP_INT, z) # xs"
      by (auto simp: take3_iff)
    obtain t4 where q: "ipp_tail z xs = (t4, vs)" and t: "t = ftp_ip_double t' t4"
      using assms p True by (auto simp: ip_tail_def ip_after_def us' Let_def split: prod.splits)
    from ipp_tail_sound [OF q ipp_INT] obtain xs' where
      "xs = xs' @ vs" "ftp_ipp ((FTP_INT, z) # xs') t4" by auto
    with ip_double [OF ws(2) this(2), of x y] ws(1) show ?thesis
      by (auto simp: us' t intro!: exI [of _ "ws @ (colon, x) # (colon, y) # (FTP_INT, z) # xs'"])
  next
    case False
    with assms p ws show ?thesis by (auto simp: ip_tail_def ip_after_def intro: ip_single)
  qed
qed

lemma ip_tail_complete:
  assumes "ftp_ip ts t" and "us \<noteq> []" and "fst (hd us) \<noteq> colon"
  shows "\<exists>t1 ws. ts = (FTP_INT, t1) # ws \<and> ip_tail t1 (ws @ us) = (t, us)"
  using assms(1)
proof cases
  case (ip_double ts1 t1 us1 t4 t2 t3)
  obtain a as where a: "ts1 = (FTP_INT, a) # as" "\<And>vs. ipp_tail a (as @ vs) = ipp_tail t1 vs"
    using ipp_tail_complete [OF ip_double(3)] by blast
  obtain b bs where b: "us1 = (FTP_INT, b) # bs" "\<And>vs. ipp_tail b (bs @ vs) = ipp_tail t4 vs"
    using ipp_tail_complete [OF ip_double(4)] by blast
  have s: "ipp_tail t4 us = (t4, us)" using assms(2,3) by (simp add: ipp_tail_stops)
  have "ipp_tail a (as @ (colon, t2) # (colon, t3) # (FTP_INT, b) # bs @ us) =
      (t1, (colon, t2) # (colon, t3) # (FTP_INT, b) # bs @ us)"
    by (simp add: a(2))
  then have "ip_tail a (as @ (colon, t2) # (colon, t3) # (FTP_INT, b) # bs @ us) = (t, us)"
    by (simp add: ip_tail_def ip_after_def b(2) s ip_double(2))
  then show ?thesis by (simp add: ip_double(1) a(1) b(1))
next
  case ip_single
  obtain a as where a: "ts = (FTP_INT, a) # as" "\<And>vs. ipp_tail a (as @ vs) = ipp_tail t vs"
    using ipp_tail_complete [OF ip_single] by blast
  have "take 3 (map fst us) \<noteq> [colon, colon, FTP_INT]" using assms(2,3) by (cases us) auto
  moreover have "ipp_tail t us = (t, us)" using assms(2,3) by (simp add: ipp_tail_stops)
  ultimately show ?thesis by (simp add: a ip_tail_def ip_after_def)
qed

lemma map_fst_Cons: "map fst ts = k # ks \<longleftrightarrow> (\<exists>t us. ts = (k, t) # us \<and> map fst us = ks)"
  by (cases ts) auto

lemma ftp_run_complete:
  assumes "ftp_message L pid ts s r" shows "ftp_run L pid ts s = Some r"
  using assms
proof cases
  case (request_eprt us t3 t1 t2 t4 t5)
  obtain a as where a: "us = (FTP_INT, a) # as"
    "ip_tail a (as @ [(FTP_INT, t4), (FTP_CHAR newline, t5)]) = (t3, [(FTP_INT, t4), (FTP_CHAR newline, t5)])"
    using ip_tail_complete [OF request_eprt(3), of "[(FTP_INT, t4), (FTP_CHAR newline, t5)]"] by auto
  then show ?thesis by (simp add: ftp_run_def request_eprt(1,2))
qed (simp_all add: ftp_run_def)

lemma ftp_run_sound:
  assumes "ftp_run L pid ts s = Some r" shows "ftp_message L pid ts s r"
proof (cases "take 3 (map fst ts) = [CMD_EPRT, FTP_INT, FTP_INT]")
  case True
  then obtain x y z us where ts: "ts = (CMD_EPRT, x) # (FTP_INT, y) # (FTP_INT, z) # us"
    by (auto simp: take3_iff)
  obtain t3 vs where v: "ip_tail z us = (t3, vs)" by fastforce
  with assms ts have k: "map fst vs = [FTP_INT, FTP_CHAR newline]" "r = ftp_eprt L pid y t3 (snd (vs ! 0)) s"
    by (auto simp: ftp_run_def split: if_splits)
  obtain ws where "us = ws @ vs" "ftp_ip ((FTP_INT, z) # ws) t3" using ip_tail_sound [OF v] by blast
  moreover obtain t4 t5 where "vs = [(FTP_INT, t4), (FTP_CHAR newline, t5)]"
    using k(1) by (auto simp: map_fst_Cons)
  ultimately show ?thesis
    using request_eprt [of "(FTP_INT, z) # ws" t3 L pid x y t4 t5 s] k(2) by (simp add: ts)
qed (use assms in \<open>auto simp: ftp_run_def Let_def map_fst_Cons split: if_splits intro: ftp_message.intros\<close>)

text \<open>
   The recogniser finds exactly the derivations of the grammar's rules, with their actions' results; so
  the tokens determine what an FTP message does.
\<close>

theorem ftp_run_computes_grammar: "ftp_message L pid ts s r \<longleftrightarrow> ftp_run L pid ts s = Some r"
  using ftp_run_complete ftp_run_sound by blast

end
