(* ===== verification/Edit_Ranges.thy ===== *)
theory Edit_Ranges
  imports Protocol_Props
begin

text \<open>
  The ranges of tokens and of edits: the layout that \<open>postCode\<close> gives the tokens of a text, ranges that do not
  overlap, and that edits on such ranges are edits \<open>modify\<close> applies, to a text or to its two parts.
\<close>

section \<open>The layout of tokens\<close>

text \<open>Tokens that stand in their order, with texts of their lengths, between two positions.\<close>

primrec laid :: "int \<Rightarrow> tokentype list \<Rightarrow> int \<Rightarrow> bool" where
  "laid k [] n \<longleftrightarrow> k \<le> n"
| "laid k (t # ts) n \<longleftrightarrow> k \<le> tok_pos t \<and> tok_s t \<noteq> [] \<and> tok_pos_end t = tok_pos t + int (length (tok_s t)) \<and>
     laid (tok_pos_end t) ts n"

lemma laid_le: "laid k ts n \<Longrightarrow> k \<le> n"
  by (induction ts arbitrary: k) fastforce+

lemma laid_append: "laid k (xs @ ys) n \<longleftrightarrow> (\<exists>j. laid k xs j \<and> laid j ys n)"
proof (induction xs arbitrary: k)
  case Nil
  show ?case
  proof
    show "laid k ([] @ ys) n \<Longrightarrow> \<exists>j. laid k [] j \<and> laid j ys n" by auto
    show "\<exists>j. laid k [] j \<and> laid j ys n \<Longrightarrow> laid k ([] @ ys) n" by (cases ys) auto
  qed
qed auto

section \<open>Ranges\<close>

type_synonym range = "int \<times> int"

definition apart :: "range \<Rightarrow> range \<Rightarrow> bool" where
  "apart a b \<longleftrightarrow> snd a \<le> fst b \<or> snd b \<le> fst a"

definition within :: "int \<Rightarrow> int \<Rightarrow> range \<Rightarrow> bool" where
  "within j k r \<longleftrightarrow> j \<le> fst r \<and> fst r < snd r \<and> snd r \<le> k"

text \<open>Ranges that do not overlap, between two positions.\<close>

definition tidy :: "int \<Rightarrow> int \<Rightarrow> range list \<Rightarrow> bool" where
  "tidy j k rs \<longleftrightarrow> distinct rs \<and> pairwise apart (set rs) \<and> (\<forall>r\<in>set rs. within j k r)"

lemma tidy_sub: "tidy j k xs \<Longrightarrow> distinct ys \<Longrightarrow> set ys \<subseteq> set xs \<Longrightarrow> tidy j k ys"
  unfolding tidy_def using pairwise_subset by blast

lemma tidy_mono: "tidy i j rs \<Longrightarrow> i' \<le> i \<Longrightarrow> j \<le> j' \<Longrightarrow> tidy i' j' rs"
  by (fastforce simp: tidy_def within_def)

lemma tidy_append:
  assumes "tidy i j xs" and "tidy j k ys" and "i \<le> j" and "j \<le> k"
  shows "tidy i k (xs @ ys)"
proof -
  have far: "x \<noteq> y \<and> apart x y \<and> apart y x" if "x \<in> set xs" "y \<in> set ys" for x y
    using that assms(1,2) by (force simp: tidy_def within_def apart_def)
  have "tidy i k xs" "tidy i k ys" using assms tidy_mono by blast+
  with far show ?thesis unfolding tidy_def pairwise_def by auto
qed

text \<open>The ranges of edits and of tokens.\<close>

definition op_range :: "operation \<Rightarrow> range" where
  "op_range o' = (start_pos o', end_pos o')"

definition tok_range :: "tokentype \<Rightarrow> range" where
  "tok_range t = (tok_pos t, tok_pos_end t)"

lemma laid_tidy: "laid k ts n \<Longrightarrow> tidy k n (map tok_range ts)"
proof (induction ts arbitrary: k)
  case (Cons t ts)
  have l: "laid (tok_pos_end t) ts n" "k \<le> tok_pos t" "tok_pos t < tok_pos_end t"
    using Cons.prems by auto
  have "tidy k (tok_pos_end t) [tok_range t]"
    using l(2,3) by (simp add: tidy_def within_def tok_range_def)
  from tidy_append [OF this Cons.IH [OF l(1)] _ laid_le [OF l(1)]] l(2,3) show ?case by simp
qed (simp add: tidy_def)

section \<open>Edits that do not overlap\<close>

text \<open>Sorted, tidy edits are edits \<open>modify\<close> applies.\<close>

lemma tidy_edits_ok:
  assumes "sorted (map start_pos os)" and "tidy (off + k) (off + n) (map op_range os)"
    and "\<forall>o'\<in>set os. newdata o' \<noteq> []" and "0 \<le> k" and "k \<le> n"
  shows "edits_ok off k os n"
  using assms(1-5)
proof (induction os arbitrary: k)
  case (Cons a os)
  have a: "off + k \<le> start_pos a" "start_pos a < end_pos a" "end_pos a \<le> off + n"
    using Cons.prems(2) by (auto simp: tidy_def within_def op_range_def)
  have "end_pos a \<le> start_pos x" if "x \<in> set os" for x
  proof -
    have "apart (op_range a) (op_range x)" "op_range a \<noteq> op_range x" "start_pos a \<le> start_pos x" "start_pos x < end_pos x"
      using Cons.prems(1,2) that by (auto simp: tidy_def pairwise_def within_def op_range_def)
    then show ?thesis by (auto simp: apart_def op_range_def)
  qed
  then have "\<forall>r\<in>set (map op_range os). within (off + (end_pos a - off)) (off + n) r"
    using Cons.prems(2) by (auto simp: tidy_def within_def op_range_def)
  moreover have "tidy (off + k) (off + n) (map op_range os)"
    using tidy_sub [OF Cons.prems(2), of "map op_range os"] Cons.prems(2) by (auto simp: tidy_def)
  ultimately have "tidy (off + (end_pos a - off)) (off + n) (map op_range os)" unfolding tidy_def by blast
  from Cons.IH [OF _ this] Cons.prems(1,3,4) a show ?case by simp
qed simp

lemma sort_set:
  assumes "std_sort srt" shows "set (srt os) = set os" and "sorted (map start_pos (srt os))"
    and "distinct (map f (srt os)) = distinct (map f os)" and "mset (filter P (srt os)) = mset (filter P os)"
proof -
  have m: "mset (srt os) = mset os" using assms by (simp add: std_sort_def)
  then show "set (srt os) = set os" by (metis set_mset_mset)
  show "sorted (map start_pos (srt os))" using assms by (simp add: std_sort_def)
  show "distinct (map f (srt os)) = distinct (map f os)" using m by (metis mset_map mset_eq_imp_distinct_iff)
  show "mset (filter P (srt os)) = mset (filter P os)" using m by simp
qed

lemma sorted_edits_ok:
  assumes "std_sort srt" and "tidy off (off + n) (map op_range os)" and "\<forall>o'\<in>set os. newdata o' \<noteq> []" and "0 \<le> n"
  shows "edits_ok off 0 (srt os) n"
proof (rule tidy_edits_ok)
  show "sorted (map start_pos (srt os))" by (rule sort_set(2) [OF assms(1)])
  show "tidy (off + 0) (off + n) (map op_range (srt os))"
    using assms(2) unfolding tidy_def sort_set(1,3) [OF assms(1)] set_map add_0_right by blast
  show "\<forall>o'\<in>set (srt os). newdata o' \<noteq> []" using assms(3) sort_set(1) [OF assms(1)] by simp
qed (use assms(4) in simp_all)

section \<open>Head and body\<close>

text \<open>Edits before and behind a position of the text are applied to the two parts of it.\<close>

lemma splice_shift:
  assumes "edits_ok off k os (int (length ys))" and "off = int (length xs) + d"
  shows "splice d (int (length xs) + k) os (xs @ ys) = splice off k os ys"
  using assms
proof (induction os arbitrary: k)
  case Nil
  then show ?case by (simp add: nat_add_distrib)
next
  case (Cons a os)
  have k: "0 \<le> k" "k \<le> start_pos a - off" using Cons.prems by auto
  have e: "end_pos a - d = int (length xs) + (end_pos a - off)" "start_pos a - d - (int (length xs) + k) = start_pos a - off - k"
    using Cons.prems(2) by simp_all
  have "splice d (end_pos a - d) os (xs @ ys) = splice off (end_pos a - off) os ys"
    unfolding e(1) by (rule Cons.IH) (use Cons.prems in simp_all)
  with k show ?case by (simp add: e(2) nat_add_distrib)
qed

lemma splice_two_parts:
  assumes "edits_ok 0 k os (int (length xs))" and "edits_ok (int (length xs)) 0 us (int (length ys))"
  shows "splice 0 k (os @ us) (xs @ ys) = splice 0 k os xs @ splice (int (length xs)) 0 us ys"
  using assms(1)
proof (induction os arbitrary: k)
  case Nil
  show ?case
  proof (cases us)
    case Nil
    have "nat k \<le> length xs" using \<open>edits_ok 0 k [] (int (length xs))\<close> by (simp add: nat_le_iff)
    with Nil show ?thesis by simp
  next
    case (Cons u us')
    have k: "0 \<le> k" "k \<le> int (length xs)" using Nil by simp_all
    have "take (nat (start_pos u - k)) (drop (nat k) (xs @ ys)) =
        drop (nat k) xs @ take (nat (start_pos u - int (length xs))) ys"
      using k assms(2) Cons by (simp add: take_drop nat_diff_distrib le_nat_iff)
    moreover have "splice 0 (end_pos u) us' (xs @ ys) =
        splice (int (length xs)) (end_pos u - int (length xs)) us' ys"
      using splice_shift [of "int (length xs)" "end_pos u - int (length xs)" us' ys xs 0] assms(2) Cons by simp
    ultimately show ?thesis by (simp add: Cons)
  qed
next
  case (Cons a os)
  then have "nat (start_pos a - k) \<le> length xs - nat k" by (auto simp: nat_diff_distrib nat_le_iff diff_le_mono)
  with Cons show ?case by (simp add: take_append)
qed

text \<open>An edit with a text; the counted ones are those behind \<open>b\<close>, where the body of a message starts.\<close>

definition edit_ok :: "int \<Rightarrow> operation \<Rightarrow> bool" where
  "edit_ok b o' \<longleftrightarrow> newdata o' \<noteq> [] \<and> (if op_cnt o' then b \<le> start_pos o' else end_pos o' \<le> b)"

lemma tidy_starts:
  assumes "tidy j k (map op_range os)" shows "distinct (map start_pos os)"
proof -
  have "start_pos x \<noteq> start_pos y" if "x \<in> set os" "y \<in> set os" "x \<noteq> y" for x y
  proof -
    have "op_range x \<noteq> op_range y"
      using assms that by (auto simp: tidy_def distinct_map inj_on_def)
    then have "apart (op_range x) (op_range y)" "within j k (op_range x)" "within j k (op_range y)"
      using assms that by (auto simp: tidy_def pairwise_def)
    then show ?thesis by (auto simp: apart_def within_def op_range_def)
  qed
  moreover have "distinct os" using assms by (auto simp: tidy_def distinct_map)
  ultimately show ?thesis by (auto simp: distinct_map inj_on_def)
qed

text \<open>Edits of the head and of the body, sorted together, are applied to the two apart.\<close>

lemma splice_head_body:
  assumes "std_sort srt" and "tidy 0 (int (length head + length body)) (map op_range os)"
    and "\<forall>o'\<in>set os. edit_ok (int (length head)) o'"
    and "us = srt (filter (\<lambda>o'. \<not> op_cnt o') os)" and "cs = srt (filter op_cnt os)"
  shows "edits_ok 0 0 (srt os) (int (length (head @ body)))"
    and "splice 0 0 (srt os) (head @ body) = splice 0 0 us head @ splice (int (length head)) 0 cs body"
    and "edits_ok (int (length head)) 0 cs (int (length body))"
proof -
  let ?b = "int (length head)" and ?n = "int (length body)"
  have ne: "\<forall>o'\<in>set os. newdata o' \<noteq> []" using assms(3) by (simp add: edit_ok_def)
  show "edits_ok 0 0 (srt os) (int (length (head @ body)))"
    by (rule sorted_edits_ok [OF assms(1) _ ne]) (use assms(2) in simp_all)
  have sub: "tidy 0 (?b + ?n) (map op_range (filter P os))" for P
    by (rule tidy_sub [OF assms(2) [simplified]]) (use assms(2) in \<open>auto simp: tidy_def distinct_map_filter\<close>)
  have tu: "tidy 0 (0 + ?b) (map op_range (filter (\<lambda>o'. \<not> op_cnt o') os))"
    using sub [of "\<lambda>o'. \<not> op_cnt o'"] assms(3) by (auto simp: tidy_def within_def edit_ok_def op_range_def)
  have tc: "tidy ?b (?b + ?n) (map op_range (filter op_cnt os))"
    using sub [of op_cnt] assms(3) by (auto simp: tidy_def within_def edit_ok_def op_range_def)
  have us: "edits_ok 0 0 us ?b"
    unfolding assms(4) by (rule sorted_edits_ok [OF assms(1) tu]) (use ne in simp_all)
  show cs: "edits_ok ?b 0 cs ?n"
    unfolding assms(5) by (rule sorted_edits_ok [OF assms(1) tc]) (use ne in simp_all)
  have strict: "sorted_wrt (<) (map start_pos (srt (filter P os)))" for P
    unfolding strict_sorted_iff sort_set(3) [OF assms(1)] using tidy_starts [OF sub] sort_set(2) [OF assms(1)] by blast
  have "start_pos x < start_pos y" if "x \<in> set us" "y \<in> set cs" for x y
  proof -
    have "within 0 (0 + ?b) (op_range x)" "within ?b (?b + ?n) (op_range y)"
      using that tu tc by (auto simp: assms(4,5) sort_set(1) [OF assms(1)] tidy_def)
    then show ?thesis by (simp add: within_def op_range_def)
  qed
  with strict have "sorted_wrt (<) (map start_pos (us @ cs))"
    by (auto simp: assms(4,5) sorted_wrt_append)
  moreover have "mset (us @ cs) = mset os"
    using assms(1) by (simp add: assms(4,5) std_sort_def multiset_partition [symmetric] union_commute)
  ultimately have "srt os = us @ cs" by (intro std_sort_unique [OF assms(1)])
  then show "splice 0 0 (srt os) (head @ body) = splice 0 0 us head @ splice ?b 0 cs body"
    using splice_two_parts [OF us cs] by simp
qed

section \<open>Pieces of a text and their edits\<close>

text \<open>A gap, the text of an edited piece, what it becomes, and whether the edit counts; a last gap ends the text.\<close>

type_synonym pieces = "(string \<times> string \<times> string \<times> bool) list"

fun old_text :: "pieces \<Rightarrow> string \<Rightarrow> string" where
  "old_text [] z = z"
| "old_text ((g, x, y, c) # ps) z = g @ x @ old_text ps z"

fun new_text :: "pieces \<Rightarrow> string \<Rightarrow> string" where
  "new_text [] z = z"
| "new_text ((g, x, y, c) # ps) z = g @ y @ new_text ps z"

definition piece_edit :: "bool \<Rightarrow> int \<Rightarrow> string \<Rightarrow> string \<Rightarrow> operation" where
  "piece_edit c k x y = \<lparr>start_pos = k, end_pos = k + int (length x), op = REPLACE, newdata = y, op_cnt = c\<rparr>"

lemma piece_edit_simps [simp]:
  "start_pos (piece_edit c k x y) = k" "end_pos (piece_edit c k x y) = k + int (length x)"
  "newdata (piece_edit c k x y) = y" "op_cnt (piece_edit c k x y) = c"
  "op_delta (piece_edit c k x y) = int (length y) - int (length x)"
  by (simp_all add: piece_edit_def op_delta_def)

fun piece_edits :: "int \<Rightarrow> pieces \<Rightarrow> operation list" where
  "piece_edits k [] = []"
| "piece_edits k ((g, x, y, c) # ps) =
     piece_edit c (k + int (length g)) x y # piece_edits (k + int (length g) + int (length x)) ps"

lemma splice_pieces:
  "splice 0 (int (length front)) (piece_edits (int (length front)) ps) (map byte_of (front @ old_text ps z)) =
     map byte_of (new_text ps z)"
proof (induction ps arbitrary: front)
  case (Cons p ps)
  obtain g x y c where p: "p = (g, x, y, c)" by (cases p)
  have n: "nat (int a + int b - int a) = b" for a b by simp
  have "splice 0 (int (length (front @ g @ x))) (piece_edits (int (length (front @ g @ x))) ps)
      (map byte_of ((front @ g @ x) @ old_text ps z)) = map byte_of (new_text ps z)" by (rule Cons.IH)
  then show ?case by (simp add: p n add.assoc)
qed simp

lemma edits_ok_pieces:
  assumes "list_all (\<lambda>p. fst p \<noteq> []) (tl ps)"
  shows "edits_ok 0 (int (length front)) (piece_edits (int (length front)) ps) (int (length (front @ old_text ps z)))"
  using assms
proof (induction ps arbitrary: front)
  case (Cons p ps)
  obtain g x y c where p: "p = (g, x, y, c)" by (cases p)
  have "list_all (\<lambda>p. fst p \<noteq> []) (tl ps)" using Cons.prems by (cases ps) simp_all
  from Cons.IH [of "front @ g @ x", OF this] Cons.prems show ?case by (cases ps) (auto simp: p add.assoc)
qed simp

lemma piece_edits_start: "o' \<in> set (piece_edits k ps) \<Longrightarrow> k \<le> start_pos o'"
  by (induction k ps rule: piece_edits.induct) (force simp: piece_edit_def)+

lemma piece_edits_sorted:
  "list_all (\<lambda>(g, x, y, c). x \<noteq> []) ps \<Longrightarrow> sorted_wrt (<) (map start_pos (piece_edits k ps))"
proof (induction k ps rule: piece_edits.induct)
  case (2 k g x y c ps)
  then show ?case by (cases x) (auto dest!: piece_edits_start)
qed simp

lemma piece_edits_append:
  "piece_edits k (ps @ qs) = piece_edits k ps @ piece_edits (k + int (length (old_text ps []))) qs"
  by (induction k ps rule: piece_edits.induct) (simp_all add: add.assoc)

text \<open>The counted edits change the length of the text by what they add.\<close>

lemma piece_edits_delta:
  "list_all (\<lambda>(g, x, y, c). c) ps \<Longrightarrow>
   sum_list (map op_delta (filter op_cnt (piece_edits k ps))) = int (length (new_text ps z)) - int (length (old_text ps z))"
  by (induction k ps rule: piece_edits.induct) simp_all

end
