(* ===== verification/Sip_Language.thy ===== *)
theory Sip_Language
  imports Edit_Ranges
begin

text \<open>
  SIP as \<open>sip/grammar\<close> describes it: the derivations of a message over the lexer's tokens, which run the
  actions of \<open>Protocol_Actions\<close> in the order of the tokens.
\<close>

section \<open>The grammar\<close>

datatype sip_token = METHOD | SIP_TEXT | CRLF | HEADER_IDENT | HEADER_VALUE | SDP_CHAR | IP6ADDR
  | HEADER_IDENT_VIA | HEADER_IDENT_CONTACT | CHAR_c | CHAR_m | SIP_CHAR char

type_synonym sip_tokens = "(sip_token \<times> tokentype) list"
type_synonym sip_state = "sip_vars \<times> state_manager"

inductive sip_trailing :: "sip_tokens \<Rightarrow> bool" where
  trailing_one: "sip_trailing [(SIP_TEXT, t)]"
| trailing_more: "sip_trailing ts \<Longrightarrow> sip_trailing (ts @ [(SIP_TEXT, t)])"

inductive sip_header_line :: "libc \<Rightarrow> nat \<Rightarrow> sip_tokens \<Rightarrow> sip_state \<Rightarrow> sip_state \<Rightarrow> bool" for L pid where
  header_ident: "sip_header_line L pid
     [(HEADER_IDENT, t1), (SIP_CHAR (CHR '':''), t2), (HEADER_VALUE, t3), (CRLF, t4)] (v, s) (sip_header t1 t3 v, s)"
| header_via: "sip_trailing ts \<Longrightarrow> sip_via L pid t4 t5 s = Some s' \<Longrightarrow> sip_header_line L pid
     ([(HEADER_IDENT_VIA, t1), (SIP_CHAR (CHR '':''), t2), (SIP_TEXT, t3), (IP6ADDR, t4), (SIP_TEXT, t5)] @ ts @ [(CRLF, t7)])
     (v, s) (v, s')"
| header_contact: "sip_contact L pid t7 t9 s = Some s' \<Longrightarrow> sip_header_line L pid
     [(HEADER_IDENT_CONTACT, t1), (SIP_CHAR (CHR '':''), t2), (SIP_TEXT, t3), (SIP_CHAR (CHR '':''), t4), (SIP_TEXT, t5),
      (SIP_CHAR (CHR ''@''), t6), (IP6ADDR, t7), (SIP_CHAR (CHR '':''), t8), (SIP_TEXT, t9), (CRLF, t10)]
     (v, s) (v, s')"

inductive sip_headers :: "libc \<Rightarrow> nat \<Rightarrow> sip_tokens \<Rightarrow> sip_state \<Rightarrow> sip_state \<Rightarrow> bool" for L pid where
  headers_one: "sip_header_line L pid ts x y \<Longrightarrow> sip_headers L pid ts x y"
| headers_more: "sip_headers L pid ts x y \<Longrightarrow> sip_header_line L pid us y z \<Longrightarrow> sip_headers L pid (ts @ us) x z"

inductive sip_sdp_line :: "libc \<Rightarrow> nat \<Rightarrow> sip_tokens \<Rightarrow> sip_state \<Rightarrow> sip_state \<Rightarrow> bool" for L pid where
  sdp_char: "sip_trailing ts \<Longrightarrow>
     sip_sdp_line L pid ([(SDP_CHAR, t1), (SIP_CHAR (CHR ''=''), t2)] @ ts @ [(CRLF, t4)]) x x"
| sdp_c: "sip_sdp_line L pid
     [(CHAR_c, t1), (SIP_CHAR (CHR ''=''), t2), (SIP_TEXT, t3), (SIP_TEXT, t4), (SIP_TEXT, t5), (CRLF, t6)]
     (v, s) (sip_c_line pid t4 t5 v s)"
| sdp_m: "sip_trailing ts \<Longrightarrow> sip_m_line L pid t4 v s = Some s' \<Longrightarrow> sip_sdp_line L pid
     ([(CHAR_m, t1), (SIP_CHAR (CHR ''=''), t2), (SIP_TEXT, t3), (SIP_TEXT, t4)] @ ts @ [(CRLF, t6)]) (v, s) (v, s')"

inductive sip_sdp :: "libc \<Rightarrow> nat \<Rightarrow> sip_tokens \<Rightarrow> sip_state \<Rightarrow> sip_state \<Rightarrow> bool" for L pid where
  sdp_one: "sip_sdp_line L pid ts x y \<Longrightarrow> sip_sdp L pid ts x y"
| sdp_more: "sip_sdp L pid ts x y \<Longrightarrow> sip_sdp_line L pid us y z \<Longrightarrow> sip_sdp L pid (ts @ us) x z"

text \<open>
  \<open>sipmessage\<close> for a new parser, with the tokens of its head (to the empty line) and of its body apart, and
  the variables and the state before its own action, which is \<^const>\<open>sip_message\<close>.
\<close>

inductive sip_derived ::
    "libc \<Rightarrow> nat \<Rightarrow> sip_tokens \<Rightarrow> sip_tokens \<Rightarrow> state_manager \<Rightarrow> sip_state \<Rightarrow> bool" for L pid where
  message: "sip_headers L pid hs (new_sip, s) x \<Longrightarrow> sip_sdp L pid bs x y \<Longrightarrow>
     sip_derived L pid ([(METHOD, t1), (SIP_TEXT, t2), (SIP_TEXT, t3), (CRLF, t4)] @ hs @ [(CRLF, t5)]) bs s y"

section \<open>One media line to a connection line\<close>

fun media_used :: "bool \<Rightarrow> sip_token list \<Rightarrow> bool" where
  "media_used u [] = u"
| "media_used u (CHAR_c # ks) = media_used False ks"
| "media_used u (CHAR_m # ks) = media_used True ks"
| "media_used u (k # ks) = media_used u ks"

fun one_media :: "bool \<Rightarrow> sip_token list \<Rightarrow> bool" where
  "one_media u [] = True"
| "one_media u (CHAR_c # ks) = one_media False ks"
| "one_media u (CHAR_m # ks) = (\<not> u \<and> one_media True ks)"
| "one_media u (k # ks) = one_media u ks"

lemma media_append [simp]:
  "media_used u (xs @ ys) = media_used (media_used u xs) ys"
  "one_media u (xs @ ys) = (one_media u xs \<and> one_media (media_used u xs) ys)"
  by (induction u xs rule: media_used.induct) auto

lemma trailing_media [simp]:
  assumes "sip_trailing ts" shows "media_used u (map fst ts) = u \<and> one_media u (map fst ts)"
  using assms by (induction rule: sip_trailing.induct) auto

lemma header_line_media: "sip_header_line L pid ts x y \<Longrightarrow> media_used u (map fst ts) = u"
  by (cases rule: sip_header_line.cases) auto

end
