(* ===== verification/App_Tables.thy ===== *)
theory App_Tables
  imports App_Props
begin

text \<open>
  \<open>doApp\<close> and the translator's tables: whatever the gateway does with a packet, the bindings of the flows
  stay, so that translations before and after it agree on every endpoint.
\<close>

section \<open>Steps that leave the tables alone\<close>

definition flow_ends :: "flow \<Rightarrow> ip6port \<times> ipv6addr \<times> ip4port \<times> ipv4addr" where
  "flow_ends f = (ip6p f, ip6srv f, ip4p f, ip4srv f)"

lemma same_tables_ends:
  assumes "flow_ends (g (flow_at s i)) = flow_ends (flow_at s i)" shows "same_tables (upd_flow i g s) s"
proof (cases "i < length (flows s)")
  case True
  with assms have "endpoints (upd_flow i g s) = endpoints s"
    by (simp add: endpoints_def upd_flow_def flow_at_def map_update list_update_same_conv flow_ends_def)
  then show ?thesis by (simp add: same_tables_def upd_flow_def)
next
  case False
  then show ?thesis by (simp add: upd_flow_def same_tables_def endpoints_def list_update_beyond)
qed

lemma same_tables_heap [simp]:
  "same_tables (s\<lparr>parser_heap := h\<rparr>) r \<longleftrightarrow> same_tables s r" "same_tables (s\<lparr>protocols := c\<rparr>) r \<longleftrightarrow> same_tables s r"
  by (simp_all add: same_tables_def endpoints_def)

lemma doMapping_cur_same:
  "same_tables s r \<Longrightarrow> ip6srv_cur s = ip6srv_cur r \<Longrightarrow>
   same_tables (snd (doMapping_cur L a s)) (snd (doMapping_cur L a r))"
  by (simp add: doMapping_cur_def doMapping_same(2))

lemma flow_ends_simps [simp]:
  "flow_ends (setIgnore f) = flow_ends f" "flow_ends (setProtocol pr f) = flow_ends f"
  "flow_ends (addOffset d k f) = flow_ends f" "flow_ends (flow_count b sq l d f) = flow_ends f"
  "flow_ends (snd (getPktOffset b q sq f)) = flow_ends f" "flow_ends (snd (keep_trail x p i l lo m f)) = flow_ends f"
  "flow_ends (f\<lparr>parsers_s2c := m'\<rparr>) = flow_ends f" "flow_ends (f\<lparr>parsers_c2s := m'\<rparr>) = flow_ends f"
  by (simp_all add: flow_ends_def setIgnore_def setProtocol_def addOffset_def flow_count_def getPktOffset_def
      keep_trail_def Let_def)

lemma shift_ends: "shift x p d l f = Some (m, f') \<Longrightarrow> flow_ends f' = flow_ends f"
  by (auto simp: shift_def split_beta Let_def flow_ends_def split: if_splits)

lemma modify_ends:
  assumes "modify srt junk gcle x p os ps f = Some (delta, p', ps', f')"
  shows "flow_ends f' = flow_ends f"
  using assms by (auto simp: modify_def split_beta Let_def bind_eq_Some_conv split: if_splits option.splits)

lemma tables_shift:
  assumes "app_shift p len fid s = Some (q, s')" shows "same_tables s' s"
proof -
  have "same_tables (upd_flow fid (\<lambda>_. f) s) s"
    if "shift (extra s) p d l (flow_at s fid) = Some (m, f)" for d l m f
    by (rule same_tables_ends) (rule shift_ends [OF that])
  with assms show ?thesis
    by (auto simp: app_shift_def bind_eq_Some_conv split: option.splits if_splits)
qed

lemma tables_app_count: "same_tables (app_count p dest fid s) s"
  by (auto simp: app_count_def intro!: same_tables_ends split: option.splits)

lemma tables_getParser: "same_tables (snd (getParser u proto dest fid s)) s"
proof -
  have "same_tables (upd_flow fid (\<lambda>f. f\<lparr>parsers_s2c := m\<rparr>) (s\<lparr>protocols := ps, parser_heap := h\<rparr>)) s"
    "same_tables (upd_flow fid (\<lambda>f. f\<lparr>parsers_c2s := m\<rparr>) (s\<lparr>protocols := ps, parser_heap := h\<rparr>)) s" for m ps h
    by (rule same_tables_trans [OF same_tables_ends]; simp)+
  then show ?thesis
    unfolding getParser_def Let_def split_beta by (auto split: PROCESS_TYPE.splits)
qed

lemma tables_modify:
  assumes "app_modify e p dest fid g n s = Some (p', n', s')" shows "same_tables s' s"
proof (cases "g_ops g = []")
  case True
  with assms show ?thesis
    by (auto simp: app_modify_def Let_def intro: same_tables_trans [OF same_tables_count(2)])
next
  case False
  let ?s = "count1 ''mo'' s"
  from False assms obtain pid delta p1 ps f where
    m: "modify (env_sort e) (env_junk e) (env_gcle e) (extra ?s) p (g_ops g) (parser_heap ?s ! pid)
          (flow_at ?s fid) = Some (delta, p1, ps, f)"
    and s': "s' = snd (count2 ''mo'' (upd_flow fid (\<lambda>_. addOffset dest delta f)
          (?s\<lparr>parser_heap := (parser_heap ?s)[pid := ps]\<rparr>)))"
    by (auto simp: app_modify_def Let_def bind_eq_Some_conv)
  have "flow_at (?s\<lparr>parser_heap := h\<rparr>) i = flow_at ?s i" for h i by (simp add: flow_at_def)
  with modify_ends [OF m] have "same_tables (upd_flow fid (\<lambda>_. addOffset dest delta f)
      (?s\<lparr>parser_heap := (parser_heap ?s)[pid := ps]\<rparr>)) (?s\<lparr>parser_heap := (parser_heap ?s)[pid := ps]\<rparr>)"
    by (intro same_tables_ends) simp
  then show ?thesis
    unfolding s' by (rule same_tables_trans [OF same_tables_count(2) same_tables_trans]) simp
qed

section \<open>Bindings stay\<close>

text \<open>
  What is relied on of the generated parsers: started in a state with the table invariant, their actions only
  extend the tables (they make mappings, with \<open>doMapping\<close>, and ignore flows).
\<close>

definition env_extends :: "app_env \<Rightarrow> bool" where
  "env_extends e \<longleftrightarrow> (\<forall>pid c s. table_inv s \<longrightarrow> extends s (snd (env_feed e pid c s)))"

definition keeps_tables :: "state_manager \<Rightarrow> state_manager \<Rightarrow> bool" where
  "keeps_tables s s' \<longleftrightarrow> (table_inv s \<longrightarrow> extends s s')"

lemma keeps_same: "same_tables s' s \<Longrightarrow> keeps_tables s s'"
  by (simp add: keeps_tables_def extends_same)

lemma keeps_tables_trans: "keeps_tables s s' \<Longrightarrow> keeps_tables s' s'' \<Longrightarrow> keeps_tables s s''"
  unfolding keeps_tables_def using extends_trans extends_inv by blast

text \<open>In analysis mode a packet may create a flow, which is in neither table.\<close>

lemma keeps_tables_new_flow:
  "keeps_tables s (s\<lparr>flow_cnt := c, flows := flows s @ [f], map44 := m\<rparr>)"
proof -
  let ?s = "s\<lparr>flow_cnt := c, flows := flows s @ [f], map44 := m\<rparr>"
  have b: "flow_bound s i \<Longrightarrow> flow_bound ?s i \<and> flow_at ?s i = flow_at s i" for i
    by (simp add: flow_bound_def flow_at_def nth_append)
  have e: "map46 ?s = map46 s" by simp
  have "table_inv ?s" if inv: "table_inv s"
    unfolding table_inv_def
  proof (intro conjI allI impI)
    show "distinct (pool ?s)" using inv by (simp add: table_inv_def)
    show "flow_bound ?s i" "getPort6 (ip6p (flow_at ?s i)) = getPort6 (fst k)"
      if "map_find k64_lt (map64 ?s) k = Some i" for k i
      using table_inv64 [OF inv, of k i] b [of i] that by simp_all
    show "flow_bound ?s i" "k = (ip4p (flow_at ?s i), ip4srv (flow_at ?s i))"
      if "map_find k46_lt (map46 ?s) k = Some i" for k i
      using table_inv46 [OF inv, of k i] b [of i] that by simp_all
    show "i = j" if "map_find k46_lt (map46 ?s) k = Some i" "map_find k46_lt (map46 ?s) k' = Some j"
      "fst k = fst k'" for k k' i j
      using inv that unfolding table_inv_def e by blast
  qed
  with b show ?thesis by (simp add: keeps_tables_def extends_def pool_addr_def)
qed

lemma keeps_tables_getFlow:
  assumes "getFlow L p s = Some (fo, s')" shows "keeps_tables s s'"
proof -
  have "keeps_tables s (snd (doMapping44 L a b s))" for a b
    by (simp add: doMapping44_def Let_def keeps_same keeps_tables_new_flow split: option.splits)
  moreover have "s' = s \<or> (\<exists>a b. s' = snd (doMapping44 L a b s))"
    using assms by (auto simp: getFlow_def bind_eq_Some_conv split: if_splits) (metis snd_conv)+
  ultimately show ?thesis by (auto simp: keeps_same)
qed

interpretation tables: doApp_relation keeps_tables env_extends
proof unfold_locales
  fix s s' s'' e pid c r u proto d fid l p q len L fo g n p' n'
  show "keeps_tables s s' \<Longrightarrow> keeps_tables s' s'' \<Longrightarrow> keeps_tables s s''" by (rule keeps_tables_trans)
  show "env_extends e \<Longrightarrow> keeps_tables s (snd (env_feed e pid c s))"
    by (simp add: env_extends_def keeps_tables_def)
  show "getFlow L p s = Some (fo, s') \<Longrightarrow> keeps_tables s s'" by (rule keeps_tables_getFlow)
  show "keeps_tables s (upd_flow fid (setProtocol proto) s)" by (rule keeps_same) (simp add: same_tables_ends)
  show "app_shift p len fid s = Some (q, s') \<Longrightarrow> keeps_tables s s'" by (rule keeps_same) (rule tables_shift)
  show "app_modify e p d fid g n s = Some (p', n', s') \<Longrightarrow> keeps_tables s s'" by (rule keeps_same) (rule tables_modify)
qed (simp_all add: keeps_same same_tables_sym tables_getParser tables_app_count)

end
