(* ===== verification/Action_Relation.thy ===== *)
theory Action_Relation
  imports Ftp_Language Sip_Language Protocol_Props App_Tables
begin

text \<open>
  What all semantic actions of the FTP and SIP grammars have in common: they record edits in their parser
  object, make mappings, and leave flows alone from then on.  A relation between states that these three
  respect is respected by every sequence of actions.
\<close>

section \<open>Sequences of actions\<close>

text \<open>One action of either grammar, on the parser object \<open>pid\<close>, with any tokens.\<close>

inductive action_step :: "libc \<Rightarrow> nat \<Rightarrow> state_manager \<Rightarrow> state_manager \<Rightarrow> bool" for L pid where
  do_request: "action_step L pid s (ftp_request pid t s)"
| do_eprt: "ftp_eprt L pid t2 t3 t4 s = Some s' \<Longrightarrow> action_step L pid s s'"
| do_via: "sip_via L pid t4 t5 s = Some s' \<Longrightarrow> action_step L pid s s'"
| do_contact: "sip_contact L pid t7 t9 s = Some s' \<Longrightarrow> action_step L pid s s'"
| do_c_line: "action_step L pid s (snd (sip_c_line pid t4 t5 v s))"
| do_m_line: "sip_m_line L pid t4 v s = Some s' \<Longrightarrow> action_step L pid s s'"
| do_message: "action_step L pid s (sip_message u pid v s)"

abbreviation actions :: "libc \<Rightarrow> nat \<Rightarrow> state_manager \<Rightarrow> state_manager \<Rightarrow> bool" where
  "actions L pid \<equiv> rtranclp (action_step L pid)"

lemma actions_one: "action_step L pid s s' \<Longrightarrow> actions L pid s s'"
  by (rule r_into_rtranclp)

lemma ftp_message_actions:
  assumes "ftp_message L pid ts s (Some s')" shows "actions L pid s s'"
  using assms by (cases rule: ftp_message.cases) (auto dest: sym intro: actions_one action_step.intros)

lemma sip_header_actions: "sip_header_line L pid ts x y \<Longrightarrow> actions L pid (snd x) (snd y)"
  by (induction rule: sip_header_line.induct) (auto intro: actions_one action_step.intros)

lemma sip_sdp_line_actions: "sip_sdp_line L pid ts x y \<Longrightarrow> actions L pid (snd x) (snd y)"
  by (induction rule: sip_sdp_line.induct) (auto intro: actions_one action_step.intros)

lemma sip_derived_actions:
  assumes "sip_derived L pid hs bs s y" shows "actions L pid s (snd y)"
proof -
  have h: "sip_headers L pid ts x y \<Longrightarrow> actions L pid (snd x) (snd y)" for ts x y
    by (induction rule: sip_headers.induct) (auto intro: sip_header_actions rtranclp_trans)
  have b: "sip_sdp L pid ts x y \<Longrightarrow> actions L pid (snd x) (snd y)" for ts x y
    by (induction rule: sip_sdp.induct) (auto intro: sip_sdp_line_actions rtranclp_trans)
  from assms show ?thesis
  proof cases
    case (message hs' x t1 t2 t3 t4 t5)
    from rtranclp_trans [OF h [OF message(2)] b [OF message(3)]] show ?thesis by simp
  qed
qed

section \<open>Relations that actions respect\<close>

locale action_relation =
  fixes R :: "state_manager \<Rightarrow> state_manager \<Rightarrow> bool"
  assumes R_trans: "R s s' \<Longrightarrow> R s' s'' \<Longrightarrow> R s s''"
    and R_refl: "R s s"
    and R_edit: "R s (upd_parser pid (addOperation o') s)"
    and R_correct: "R s (upd_parser pid setCorrectProtocol s)"
    and R_ignore: "R s (upd_flow fid setIgnore s)"
    and R_mapping: "R s (snd (doMapping_cur L a s))"
begin

lemma R_edits:
  "R r s \<Longrightarrow> R r (upd_parser pid (addOperation_range i j c n b) s)"
  "R r s \<Longrightarrow> R r (upd_parser pid (addOperation_token t c n b) s)"
  by (simp_all add: range_operation token_operation R_trans [OF _ R_edit])

lemma R_eprt:
  assumes "ftp_eprt L pid t2 t3 t4 s = Some s'" shows "R s s'"
proof -
  have ignore: "R s (upd_flow fid setIgnore r)" if "R s r" for fid r using that R_ignore by (rule R_trans)
  from assms show ?thesis
    by (auto simp: ftp_eprt_def Let_def split_beta bind_eq_Some_conv intro!: ignore R_edits R_mapping)
qed

lemma R_map: "sip_map L pid c ta tp s = Some s' \<Longrightarrow> R s s'"
  by (auto simp: sip_map_def Let_def split_beta bind_eq_Some_conv intro!: R_edits R_mapping)

lemma R_message: "R s (sip_message u pid v s)"
proof -
  let ?n = "\<lambda>p. tok_s (tok_add_int u (content_len v) (totalDelta p))"
  have "upd_parser pid (\<lambda>p. addOperation_token (content_len v) REPLACE (?n p) False p) s =
      upd_parser pid (addOperation_token (content_len v) REPLACE (?n (parser_heap s ! pid)) False) s"
    by (simp add: upd_parser_def)
  then show ?thesis by (simp add: sip_message_def R_refl R_edits)
qed

lemma R_step: "action_step L pid s s' \<Longrightarrow> R s s'"
  by (induction rule: action_step.induct)
    (auto simp: ftp_request_def sip_via_def sip_contact_def sip_c_line_def sip_m_line_def R_refl R_correct
      intro: R_eprt R_map R_message R_edits split: if_splits)

lemma R_actions: "actions L pid s s' \<Longrightarrow> R s s'"
  by (induction rule: rtranclp_induct) (auto intro: R_refl R_trans R_step)

end

text \<open>Flows are only added, and of the parser objects only the edits change.\<close>

definition only_adds :: "state_manager \<Rightarrow> state_manager \<Rightarrow> bool" where
  "only_adds s s' \<longleftrightarrow> length (flows s) \<le> length (flows s') \<and> map maxPos (parser_heap s') = map maxPos (parser_heap s)"

lemma only_adds_parser:
  assumes "\<And>p. maxPos (g p) = maxPos p" shows "only_adds s (upd_parser pid g s)"
proof -
  have "map maxPos (ps[pid := g (ps ! pid)]) = map maxPos ps" for ps
    using assms by (cases "pid < length ps") (simp_all add: map_update list_update_same_conv list_update_beyond)
  then show ?thesis by (simp add: only_adds_def upd_parser_def)
qed

interpretation adds: action_relation only_adds
proof unfold_locales
  fix s pid o' L a
  show "only_adds s (upd_parser pid (addOperation o') s)"
    by (rule only_adds_parser) (simp add: addOperation_def split: OP.split)
  show "only_adds s (snd (doMapping_cur L a s))"
    by (cases rule: doMapping_cases [of s a "ip6srv_cur s" L]) (simp_all add: only_adds_def doMapping_cur_def)
qed (auto simp: setCorrectProtocol_def intro!: only_adds_parser, auto simp: only_adds_def upd_flow_def)

lemma same_tables_parser [simp]: "same_tables (upd_parser pid g s) r \<longleftrightarrow> same_tables s r"
  by (simp add: upd_parser_def)

interpretation bindings: action_relation keeps_tables
proof unfold_locales
  fix s fid L a
  show "keeps_tables s (upd_flow fid setIgnore s)" by (rule keeps_same) (simp add: same_tables_ends)
  show "keeps_tables s (snd (doMapping_cur L a s))" by (simp add: keeps_tables_def doMapping_cur_def extends_doMapping)
qed (simp_all add: keeps_same keeps_tables_trans)

section \<open>Generated parsers\<close>

text \<open>
  What the build gives: given data, a parser object runs some sequence of its grammar's actions (how many
  depends on the data and on where a syntax error is); those of HTTP only change the parser object.
\<close>

definition runs_actions :: "app_env \<Rightarrow> bool" where
  "runs_actions e \<longleftrightarrow> (\<forall>pid c s.
     actions (env_L e) pid s (snd (env_feed e pid c s)) \<or> (\<exists>g. snd (env_feed e pid c s) = upd_parser pid g s))"

lemma runs_actions_extends: "runs_actions e \<Longrightarrow> env_extends e"
  unfolding runs_actions_def env_extends_def keeps_tables_def [symmetric]
  using bindings.R_actions keeps_same [of "upd_parser pid g s" s for pid g s] by (metis same_tables_parser same_tables_refl)

end
