(* ===== verification/Ftp_Props.thy ===== *)
theory Ftp_Props
  imports Ftp_Language Protocol_Props Action_Relation
begin

text \<open>
  FTP from the packet's bytes to the packet's bytes: how the scanner cuts an \<open>EPRT\<close> command line, what the
  parser does with it, the addresses it does not understand, and the rewritten packet that \<open>doApp\<close> leaves.
\<close>

section \<open>The scanner inside an EPRT line\<close>

abbreviation eprt_lexed :: "string \<Rightarrow> int \<Rightarrow> ftp_tokens option" where
  "eprt_lexed s k \<equiv> lexed ftp_rules False s FTP_eprt k"

lemmas [lex_simps] = ftp_eol_rules_def ftp_text_rules_def

lemma eprt_skip:
  assumes "c = CHR '' '' \<or> c = CHR ''|''" shows "lexed ftp_rules b (c # s) FTP_eprt k = eprt_lexed s (k + 1)"
  using lexed_step(1) [of b "[c]" s ftp_rules FTP_eprt "hd (ftp_rules FTP_eprt)" FTP_eprt k] assms
  by (auto simp: lex_simps)

lemma eprt_int:
  assumes "ds \<noteq> []" and "list_all is_digit ds" and "s = [] \<or> \<not> is_digit (hd s)"
  shows "eprt_lexed (ds @ s) k =
    map_option ((#) (FTP_INT, TokenType ds k (k + int (length ds)))) (eprt_lexed s (k + int (length ds)))"
proof -
  obtain d ds' where ds: "ds = d # ds'" using assms(1) by (cases ds) auto
  have tw: "takeWhile is_digit (ds' @ s) = ds'"
    using assms(2,3) by (cases s) (auto simp: ds list_all_iff takeWhile_append)
  have d: "is_digit d" "d \<noteq> CHR '' ''" "d \<noteq> CHR ''|''" "d \<noteq> newline" "d \<noteq> carriage" "\<not> is_eol d"
    using assms(2) ds by auto
  have "last ds \<noteq> newline" using assms(1,2) by (metis is_digit_simps(4) last_in_set list_all_iff)
  with lexed_step(2) [of False ds s ftp_rules FTP_eprt "ftp_rules FTP_eprt ! 1" FTP_INT FTP_eprt k] d tw assms(1)
  show ?thesis
    by (simp add: ds lex_simps)
qed

lemma eprt_char:
  assumes "\<not> is_digit c" and "c \<noteq> CHR '' ''" and "c \<noteq> CHR ''|''" and "\<not> is_eol c"
  shows "eprt_lexed (c # s) k = map_option ((#) (FTP_CHAR c, TokenType [c] k (k + 1))) (eprt_lexed s (k + 1))"
proof -
  have "c \<noteq> newline" "c \<noteq> carriage" using assms by auto
  with lexed_step(2) [of False "[c]" s ftp_rules FTP_eprt "ftp_rules FTP_eprt ! 2" "FTP_CHAR c" FTP_eprt k] assms
  show ?thesis by (simp add: lex_simps)
qed

lemma eprt_eol: "eprt_lexed [carriage, newline] k = Some [(FTP_CHAR newline, TokenType [carriage, newline] k (k + 2))]"
  using lexed_step(2) [of False "[carriage, newline]" "[]" ftp_rules FTP_eprt "ftp_rules FTP_eprt ! 3"
      "FTP_CHAR newline" FTP_INITIAL k]
  by (simp add: lex_simps numeral_3_eq_3)

lemma eprt_start:
  assumes "s \<noteq> []" and "\<not> is_alpha (hd s)"
  shows "ftp_lex (''EPRT'' @ s) =
    map_option ((#) (CMD_EPRT, TokenType ''EPRT'' 0 4)) (eprt_lexed s 4)"
proof -
  have a: "is_alpha (CHR ''E'')" "is_alpha (CHR ''P'')" "is_alpha (CHR ''R'')" "is_alpha (CHR ''T'')"
    "\<not> is_digit (CHR ''E'')" "CHR ''E'' \<noteq> newline"
    by (simp_all add: is_alpha_def is_digit_def newline_def)
  have "takeWhile is_alpha (''PRT'' @ s) = ''PRT''"
    using a assms by (cases s) simp_all
  with lexed_step(2) [of True "''EPRT''" s ftp_rules FTP_INITIAL "ftp_rules FTP_INITIAL ! 1" CMD_EPRT FTP_eprt 0] a
  show ?thesis
    by (simp add: ftp_lex_def new_scanner_at lexed_def [symmetric] lex_simps newline_def
       )
qed

section \<open>Addresses\<close>

text \<open>Numbers with colons between them, and their tokens from a position on.\<close>

fun groups_text :: "string list \<Rightarrow> string" where
  "groups_text [] = []"
| "groups_text [g] = g"
| "groups_text (g # gs) = g @ '':'' @ groups_text gs"

fun groups_toks :: "int \<Rightarrow> string list \<Rightarrow> ftp_tokens" where
  "groups_toks k [] = []"
| "groups_toks k [g] = [(FTP_INT, TokenType g k (k + int (length g)))]"
| "groups_toks k (g # gs) =
     (FTP_INT, TokenType g k (k + int (length g))) #
     (colon, TokenType '':'' (k + int (length g)) (k + int (length g) + 1)) #
     groups_toks (k + int (length g) + 1) gs"

lemma groups_text_snoc: "gs \<noteq> [] \<Longrightarrow> groups_text (gs @ [g]) = groups_text gs @ '':'' @ g"
  by (induction gs rule: groups_text.induct) auto

lemma groups_toks_snoc:
  "gs \<noteq> [] \<Longrightarrow> groups_toks k (gs @ [g]) = groups_toks k gs @
     [(colon, TokenType '':'' (k + int (length (groups_text gs))) (k + int (length (groups_text gs)) + 1)),
      (FTP_INT, TokenType g (k + int (length (groups_text gs)) + 1) (k + int (length (groups_text gs)) + 1 + int (length g)))]"
  by (induction k gs rule: groups_toks.induct) (auto simp: algebra_simps)

lemma groups_lexed:
  assumes "gs \<noteq> []" and "list_all number gs" and "s = [] \<or> \<not> is_digit (hd s)"
  shows "eprt_lexed (groups_text gs @ s) k =
    map_option ((@) (groups_toks k gs)) (eprt_lexed s (k + int (length (groups_text gs))))"
  using assms(1,2)
proof (induction k gs rule: groups_toks.induct)
  case (2 k g)
  with eprt_int [of g s k] assms(3) show ?case
    by (cases "eprt_lexed s (k + int (length g))") (simp_all add: number_def)
next
  case (3 k g g' gs)
  have "eprt_lexed (groups_text (g # g' # gs) @ s) k = map_option ((#) (FTP_INT, TokenType g k (k + int (length g))))
      (eprt_lexed ('':'' @ groups_text (g' # gs) @ s) (k + int (length g)))"
    using eprt_int [of g "'':'' @ groups_text (g' # gs) @ s" k] "3.prems" by (simp add: number_def)
  also have "eprt_lexed ('':'' @ groups_text (g' # gs) @ s) (k + int (length g)) =
      map_option ((#) (colon, TokenType '':'' (k + int (length g)) (k + int (length g) + 1)))
        (eprt_lexed (groups_text (g' # gs) @ s) (k + int (length g) + 1))"
    using eprt_char [of "CHR '':''" "groups_text (g' # gs) @ s" "k + int (length g)"] by simp
  finally show ?case
    using "3.IH" "3.prems" by (cases "eprt_lexed s (k + int (length (groups_text (g # g' # gs))))")
      (simp_all add: algebra_simps)
qed simp

lemma groups_derived:
  "gs \<noteq> [] \<Longrightarrow> ftp_ipp (groups_toks k gs) (TokenType (groups_text gs) k (k + int (length (groups_text gs))))"
proof (induction gs rule: rev_induct)
  case (snoc g gs)
  show ?case
  proof (cases "gs = []")
    case False
    let ?j = "k + int (length (groups_text gs))"
    from False ipp_colon [OF snoc.IH, of "TokenType '':'' ?j (?j + 1)" "TokenType g (?j + 1) (?j + 1 + int (length g))"]
    show ?thesis
      by (simp add: groups_toks_snoc groups_text_snoc ftp_ipp_colon_def tok_concat_def tok_append_def TokenType_def
          algebra_simps)
  qed (simp add: ipp_INT)
qed simp

text \<open>An address of the form the grammar knows: numbers, and at most one double colon between numbers.\<close>

definition address_text :: "string list \<Rightarrow> string list \<Rightarrow> string" where
  "address_text gs hs = groups_text gs @ (if hs = [] then [] else ''::'' @ groups_text hs)"

definition address_toks :: "int \<Rightarrow> string list \<Rightarrow> string list \<Rightarrow> ftp_tokens" where
  "address_toks k gs hs =
     (let j = k + int (length (groups_text gs)) in
      groups_toks k gs @
      (if hs = [] then []
       else [(colon, TokenType '':'' j (j + 1)), (colon, TokenType '':'' (j + 1) (j + 2))] @ groups_toks (j + 2) hs))"

lemma address_lexed:
  assumes "gs \<noteq> []" and "list_all number gs" and "list_all number hs" and "s = [] \<or> \<not> is_digit (hd s)"
  shows "eprt_lexed (address_text gs hs @ s) k =
    map_option ((@) (address_toks k gs hs)) (eprt_lexed s (k + int (length (address_text gs hs))))"
proof (cases "hs = []")
  case True
  with groups_lexed [OF assms(1,2,4)] show ?thesis by (simp add: address_text_def address_toks_def Let_def)
next
  case False
  let ?j = "k + int (length (groups_text gs))"
  have c: "eprt_lexed (''::'' @ groups_text hs @ s) ?j =
      map_option (\<lambda>ts. (colon, TokenType '':'' ?j (?j + 1)) # (colon, TokenType '':'' (?j + 1) (?j + 2)) # ts)
        (eprt_lexed (groups_text hs @ s) (?j + 2))"
    using eprt_char [of "CHR '':''" "CHR '':'' # groups_text hs @ s" ?j]
      eprt_char [of "CHR '':''" "groups_text hs @ s" "?j + 1"]
    by (cases "eprt_lexed (groups_text hs @ s) (?j + 2)") (simp_all add: algebra_simps)
  have g: "eprt_lexed (groups_text gs @ ''::'' @ groups_text hs @ s) k =
      map_option ((@) (groups_toks k gs)) (eprt_lexed (''::'' @ groups_text hs @ s) ?j)"
    by (rule groups_lexed) (use assms(1,2) in simp_all)
  have h: "eprt_lexed (groups_text hs @ s) (?j + 2) =
      map_option ((@) (groups_toks (?j + 2) hs)) (eprt_lexed s (?j + 2 + int (length (groups_text hs))))"
    using groups_lexed [OF False assms(3,4)] by simp
  show ?thesis
    using False g unfolding c h
    by (cases "eprt_lexed s (?j + 2 + int (length (groups_text hs)))")
      (simp_all add: address_text_def address_toks_def Let_def algebra_simps)
qed

lemma address_derived:
  assumes "gs \<noteq> []"
  shows "ftp_ip (address_toks k gs hs) (TokenType (address_text gs hs) k (k + int (length (address_text gs hs))))"
proof (cases "hs = []")
  case True
  with ip_single [OF groups_derived [OF assms]] show ?thesis
    by (simp add: address_toks_def address_text_def)
next
  case False
  let ?j = "k + int (length (groups_text gs))"
  have "ftp_ip_double (TokenType (groups_text gs) k ?j)
      (TokenType (groups_text hs) (?j + 2) (?j + 2 + int (length (groups_text hs)))) =
    TokenType (address_text gs hs) k (k + int (length (address_text gs hs)))"
    using False by (simp add: ftp_ip_double_def tok_concat_def tok_append_def TokenType_def address_text_def)
  with ip_double [OF groups_derived [OF assms, of k] groups_derived [OF False, of "?j + 2"]] False show ?thesis
    by (simp add: address_toks_def Let_def)
qed

section \<open>The command line\<close>

definition eprt_line :: "string \<Rightarrow> string \<Rightarrow> string \<Rightarrow> string" where
  "eprt_line net addr port = ''EPRT |'' @ net @ ''|'' @ addr @ ''|'' @ port @ ''|'' @ [carriage, newline]"

lemma eprt_line_tokens:
  assumes "number net" and "number port" and "gs \<noteq> []" and "list_all number gs" and "list_all number hs"
  obtains t1 ts t2 t3 t4 t5 where
    "ftp_lex (eprt_line net (address_text gs hs) port) =
       Some ((CMD_EPRT, t1) # (FTP_INT, t2) # ts @ [(FTP_INT, t4), (FTP_CHAR newline, t5)])"
    "ftp_ip ts t3" "token_at t2 net (length ''EPRT |'')"
    "token_at t3 (address_text gs hs) (length (''EPRT |'' @ net @ ''|''))"
    "token_at t4 port (length (''EPRT |'' @ net @ ''|'' @ address_text gs hs @ ''|''))"
proof -
  let ?a = "address_text gs hs" and ?eol = "[carriage, newline]"
  let ?n = "6 + int (length net)" and ?m = "7 + int (length net) + int (length (address_text gs hs))"
  let ?p = "8 + int (length net) + int (length (address_text gs hs))"
  have alpha: "\<not> is_alpha (CHR '' '')" by (simp add: is_alpha_def)
  let ?fin = "[(FTP_INT, TokenType port ?p (?p + int (length port))),
    (FTP_CHAR newline, TokenType ?eol (?p + int (length port) + 1) (?p + int (length port) + 3))]"
  have port: "eprt_lexed (port @ ''|'' @ ?eol) k = Some [(FTP_INT, TokenType port k (k + int (length port))),
      (FTP_CHAR newline, TokenType ?eol (k + int (length port) + 1) (k + int (length port) + 3))]" for k
    using eprt_int [of port "''|'' @ ?eol" k] assms(2) by (simp add: number_def eprt_skip eprt_eol add.commute)
  have tail: "eprt_lexed (''|'' @ port @ ''|'' @ ?eol) ?m = Some ?fin"
    using port [of ?p] by (simp add: eprt_skip algebra_simps)
  have addr: "eprt_lexed (?a @ ''|'' @ port @ ''|'' @ ?eol) (?n + 1) = Some (address_toks (?n + 1) gs hs @ ?fin)"
    using address_lexed [OF assms(3,4,5), of "''|'' @ port @ ''|'' @ ?eol" "?n + 1"] tail by (simp add: algebra_simps)
  have "eprt_lexed (net @ ''|'' @ ?a @ ''|'' @ port @ ''|'' @ ?eol) 6 =
      Some ((FTP_INT, TokenType net 6 ?n) # address_toks (?n + 1) gs hs @ ?fin)"
    using eprt_int [of net "''|'' @ ?a @ ''|'' @ port @ ''|'' @ ?eol" 6] assms(1) addr
    by (simp add: eprt_skip number_def)
  then have "eprt_lexed ('' |'' @ net @ ''|'' @ ?a @ ''|'' @ port @ ''|'' @ ?eol) 4 =
      Some ((FTP_INT, TokenType net 6 ?n) # address_toks (?n + 1) gs hs @ ?fin)"
    by (simp add: eprt_skip)
  then have "ftp_lex (eprt_line net ?a port) =
      Some ((CMD_EPRT, TokenType ''EPRT'' 0 4) # (FTP_INT, TokenType net 6 ?n) # address_toks (?n + 1) gs hs @ ?fin)"
    using eprt_start [of "'' |'' @ net @ ''|'' @ ?a @ ''|'' @ port @ ''|'' @ ?eol"] alpha
    by (simp add: eprt_line_def)
  from this address_derived [OF assms(3)] show thesis
    by (rule that) (simp_all add: token_at_def TokenType_def)
qed

section \<open>The action\<close>

text \<open>What the action of an \<open>EPRT\<close> command leaves alone.\<close>

lemma addOperation_fields [simp]:
  "maxPos (addOperation o' p) = maxPos p" "p_protocol (addOperation o' p) = p_protocol p"
  by (simp_all add: addOperation_def split: OP.splits)

lemma eprt_effect:
  assumes "ftp_eprt L pid t2 t3 t4 s = Some s'" and "pid < length (parser_heap s)"
  shows "map start_pos (ops (parser_heap s' ! pid)) =
      map start_pos (ops (parser_heap s ! pid)) @ [tok_pos t2, tok_pos t3, tok_pos t4]"
    and "length (parser_heap s') = length (parser_heap s)"
    and "maxPos (parser_heap s' ! pid) = maxPos (parser_heap s ! pid)"
    and "extra s' = extra s"
    and "length (flows s) \<le> length (flows s')"
    and "i < length (flows s) \<Longrightarrow> getOffset d (flow_at s' i) = getOffset d (flow_at s i) \<and>
      init_seq_set (flow_at s' i) = init_seq_set (flow_at s i)"
proof -
  let ?m = "doMapping_cur L (IP6Port_of_string L (IPv6Addr_of_string L (tok_s t3)) (tok_s t4)) s"
  from assms(1) obtain fid where fid: "fst ?m = Some fid"
    by (auto simp: ftp_eprt_def Let_def split_beta bind_eq_Some_conv)
  define s1 where "s1 = snd ?m"
  obtain n2 n3 n4 where s': "s' = upd_flow fid setIgnore
      (upd_parser pid (addOperation_range (tok_pos t4) (tok_pos_end t4) REPLACE n4 False)
        (upd_parser pid (addOperation_range (tok_pos t3) (tok_pos_end t3) REPLACE n3 False)
          (upd_parser pid (addOperation_range (tok_pos t2) (tok_pos_end t2) REPLACE n2 False) s1)))"
    using assms(1) fid by (auto simp: ftp_eprt_def Let_def split_beta s1_def)
  have s1: "parser_heap s1 = parser_heap s" "extra s1 = extra s" "length (flows s) \<le> length (flows s1)"
    "i < length (flows s) \<Longrightarrow> flow_at s1 i = flow_at s i"
    by (cases rule: doMapping_cases [of s "IP6Port_of_string L (IPv6Addr_of_string L (tok_s t3)) (tok_s t4)" "ip6srv_cur s" L];
        simp add: s1_def doMapping_cur_def flow_at_def nth_append)+
  show "map start_pos (ops (parser_heap s' ! pid)) =
      map start_pos (ops (parser_heap s ! pid)) @ [tok_pos t2, tok_pos t3, tok_pos t4]"
    "length (parser_heap s') = length (parser_heap s)"
    "maxPos (parser_heap s' ! pid) = maxPos (parser_heap s ! pid)"
    using assms(2) s1(1) by (simp_all add: s' range_operation)
  have x: "extra (upd_flow i g r) = extra r" "extra (upd_parser j h r) = extra r" for i g r j h
    by (simp_all add: upd_flow_def upd_parser_def)
  show "extra s' = extra s" using s1(2) by (simp add: s' x)
  have fl: "flows s' = (flows s1)[fid := setIgnore (flows s1 ! fid)]"
    by (simp add: s' upd_flow_def flow_at_def)
  show "length (flows s) \<le> length (flows s')" using s1(3) by (simp add: fl)
  show "i < length (flows s) \<Longrightarrow> getOffset d (flow_at s' i) = getOffset d (flow_at s i) \<and>
      init_seq_set (flow_at s' i) = init_seq_set (flow_at s i)"
    using s1(3,4) by (cases "i = fid") (auto simp: flow_at_def fl getOffset_def setIgnore_def)
qed

lemma eprt_tables:
  assumes "ftp_eprt L pid t2 t3 t4 s = Some s'"
  shows "same_tables s' (snd (doMapping_cur L (IP6Port_of_string L (IPv6Addr_of_string L (tok_s t3)) (tok_s t4)) s))"
proof -
  let ?m = "doMapping_cur L (IP6Port_of_string L (IPv6Addr_of_string L (tok_s t3)) (tok_s t4)) s"
  obtain fid where fid: "fst ?m = Some fid"
    using assms by (auto simp: ftp_eprt_def Let_def split_beta bind_eq_Some_conv)
  define s1 where "s1 = snd ?m"
  have m: "?m = (Some fid, s1)" by (simp add: prod_eq_iff fid s1_def)
  have "same_tables (upd_flow fid setIgnore r) s1" if "same_tables r s1" for r
    by (rule same_tables_trans [OF same_tables_ends that]) simp
  with assms m show ?thesis by (auto simp: ftp_eprt_def Let_def)
qed

text \<open>The whole effect of a command line: its tokens, the state after the action, and the edits.\<close>

lemma eprt_line_effect:
  assumes "number net" and "number port" and "gs \<noteq> []" and "list_all number gs" and "list_all number hs"
    and "pid < length (parser_heap s)" and "ops (parser_heap s ! pid) = []"
    and "fst (doMapping_cur L (IP6Port_of_string L (IPv6Addr_of_string L (address_text gs hs)) port) s) = Some m"
    and "line = eprt_line net (address_text gs hs) port"
  obtains ts t2 t3 t4 s' where
    "ftp_lex line = Some ts" "ftp_message L pid ts s (Some s')" "ftp_eprt L pid t2 t3 t4 s = Some s'"
    "splice 0 0 (ops (parser_heap s' ! pid)) (map byte_of line) =
       map byte_of (eprt_line ''1'' (getString4 L (getIP4 (ip4p (flow_at s' m)))) (getPortString (ip4p (flow_at s' m))))"
    "edits_ok 0 0 (ops (parser_heap s' ! pid)) (int (length line))"
    "sorted_wrt (<) (map start_pos (ops (parser_heap s' ! pid)))" "ops (parser_heap s' ! pid) \<noteq> []"
    "m < length (flows s') \<longrightarrow> ignored (flow_at s' m)"
    "same_tables s' (snd (doMapping_cur L (IP6Port_of_string L (IPv6Addr_of_string L (address_text gs hs)) port) s))"
proof -
  obtain t1 ts t2 t3 t4 t5 where
    lx: "ftp_lex line = Some ((CMD_EPRT, t1) # (FTP_INT, t2) # ts @ [(FTP_INT, t4), (FTP_CHAR newline, t5)])"
    and ip: "ftp_ip ts t3" and t2: "token_at t2 net (length ''EPRT |'')"
    and t3: "token_at t3 (address_text gs hs) (length (''EPRT |'' @ net @ ''|''))"
    and t4: "token_at t4 port (length (''EPRT |'' @ net @ ''|'' @ address_text gs hs @ ''|''))"
    unfolding assms(9) by (rule eprt_line_tokens [OF assms(1-5)])
  have tok: "tok_s t3 = address_text gs hs" "tok_s t4 = port" using t3 t4 by (simp_all add: token_at_def)
  obtain s' where s': "ftp_eprt L pid t2 t3 t4 s = Some s'"
    using assms(8) by (simp add: ftp_eprt_def tok Let_def split_beta)
  have msg: "ftp_message L pid ((CMD_EPRT, t1) # (FTP_INT, t2) # ts @ [(FTP_INT, t4), (FTP_CHAR newline, t5)]) s (Some s')"
    using request_eprt [OF ip] s' by metis
  have bar: "''|'' \<noteq> []" by simp
  note rw = eprt_rewrites_line [where g = "''|'' @ [carriage, newline]", OF s' assms(6,7) bar t2 t3 t4 refl,
      folded eprt_line_def assms(9)]
  have starts: "map start_pos (ops (parser_heap s' ! pid)) = [tok_pos t2, tok_pos t3, tok_pos t4]"
    using eprt_effect(1) [OF s' assms(6)] assms(7) by simp
  then have strict: "sorted_wrt (<) (map start_pos (ops (parser_heap s' ! pid)))" "ops (parser_heap s' ! pid) \<noteq> []"
    using t2 t3 t4 assms(1) by (auto simp: token_at_def number_def)
  show thesis
    by (rule that [OF lx msg s' _ _ strict]) (use rw assms(8) eprt_tables [OF s'] in \<open>auto simp: tok\<close>)
qed

text \<open>
   An \<open>EPRT\<close> command line whose address is written with numbers only is understood: the scanner's tokens
  derive the message, and its action, when a mapping can be made, leaves edits that turn the line into the
  \<open>EPRT\<close> line for IPv4 (network protocol 1) with the external address and port of the mapping made for
  the announced pair, whose flow is left alone from then on.  With no free pair left the action
  dereferences a null flow.
\<close>

theorem eprt_line_translated:
  assumes "number net" and "number port" and "gs \<noteq> []" and "list_all number gs" and "list_all number hs"
    and "pid < length (parser_heap s)" and "ops (parser_heap s ! pid) = []"
  shows "\<exists>ts. ftp_lex (eprt_line net (address_text gs hs) port) = Some ts \<and>
    (case fst (doMapping_cur L (IP6Port_of_string L (IPv6Addr_of_string L (address_text gs hs)) port) s) of
       None \<Rightarrow> ftp_message L pid ts s None
     | Some fid \<Rightarrow> \<exists>s'. ftp_message L pid ts s (Some s') \<and>
         splice 0 0 (ops (parser_heap s' ! pid)) (map byte_of (eprt_line net (address_text gs hs) port)) =
           map byte_of (eprt_line ''1'' (getString4 L (getIP4 (ip4p (flow_at s' fid))))
             (getPortString (ip4p (flow_at s' fid)))) \<and>
         edits_ok 0 0 (ops (parser_heap s' ! pid)) (int (length (eprt_line net (address_text gs hs) port))) \<and>
         (fid < length (flows s') \<longrightarrow> ignored (flow_at s' fid)))"
proof (cases "fst (doMapping_cur L (IP6Port_of_string L (IPv6Addr_of_string L (address_text gs hs)) port) s)")
  case None
  obtain t1 ts t2 t3 t4 t5 where
    lx: "ftp_lex (eprt_line net (address_text gs hs) port) =
       Some ((CMD_EPRT, t1) # (FTP_INT, t2) # ts @ [(FTP_INT, t4), (FTP_CHAR newline, t5)])"
    and ip: "ftp_ip ts t3" and t3: "token_at t3 (address_text gs hs) (length (''EPRT |'' @ net @ ''|''))"
    and t4: "token_at t4 port (length (''EPRT |'' @ net @ ''|'' @ address_text gs hs @ ''|''))"
    by (rule eprt_line_tokens [OF assms(1-5)])
  have "ftp_eprt L pid t2 t3 t4 s = None"
    using None t3 t4 by (simp add: ftp_eprt_def token_at_def Let_def split_beta)
  with request_eprt [OF ip, of L pid t1 t2 t4 t5 s] lx None show ?thesis by auto
next
  case (Some m)
  obtain ts t2 t3 t4 s' where e: "ftp_lex (eprt_line net (address_text gs hs) port) = Some ts"
    "ftp_message L pid ts s (Some s')" "ftp_eprt L pid t2 t3 t4 s = Some s'"
    "splice 0 0 (ops (parser_heap s' ! pid)) (map byte_of (eprt_line net (address_text gs hs) port)) =
       map byte_of (eprt_line ''1'' (getString4 L (getIP4 (ip4p (flow_at s' m)))) (getPortString (ip4p (flow_at s' m))))"
    "edits_ok 0 0 (ops (parser_heap s' ! pid)) (int (length (eprt_line net (address_text gs hs) port)))"
    "m < length (flows s') \<longrightarrow> ignored (flow_at s' m)"
    by (rule eprt_line_effect [OF assms Some refl])
  show ?thesis
    unfolding Some option.case by (intro exI [of _ ts] conjI exI [of _ s']) (rule e)+
qed

text \<open>The line \<open>EPRT |2|2001:0::1|80|\<close>.\<close>

lemma demo_numbers: "number ''2''" "number ''80''" "list_all number [''2001'', ''0'']" "list_all number [''1'']"
  by (simp_all add: number_def is_digit_def)

theorem eprt_line_translated_witness:
  "\<exists>ts s'. ftp_lex (eprt_line ''2'' ''2001:0::1'' ''80'') = Some ts \<and>
     ftp_message demo_libc 0 ts (demo_ready\<lparr>parser_heap := [demo_parser]\<rparr>) (Some s') \<and>
     splice 0 0 (ops (parser_heap s' ! 0)) (map byte_of (eprt_line ''2'' ''2001:0::1'' ''80'')) =
       map byte_of (eprt_line ''1'' ''10.20.30.40'' (getPortString (ip4p (flow_at s' 0))))"
proof -
  let ?s = "demo_ready\<lparr>parser_heap := [demo_parser]\<rparr>"
  have a: "address_text [''2001'', ''0''] [''1''] = ''2001:0::1''" by (simp add: address_text_def)
  have "fst (doMapping_cur demo_libc (IP6Port_of_string demo_libc (IPv6Addr_of_string demo_libc ''2001:0::1'') ''80'') ?s) = Some 0"
    by (simp add: doMapping_cur_def doMapping_def demo_ready_def pool_ready_Cons Let_def)
  moreover have "\<And>x. getString4 demo_libc x = ''10.20.30.40''" by (simp add: getString4_def demo_libc_def)
  ultimately show ?thesis
    using eprt_line_translated [OF demo_numbers(1,2) _ demo_numbers(3,4), of 0 ?s demo_libc] a
    by (auto simp: demo_parser_def new_parser_def)
qed

section \<open>Addresses with letters\<close>

text \<open>Inside an \<open>EPRT\<close> line every character that is not part of a number, a separator or the line's end is a token.\<close>

lemma eprt_chars:
  assumes "list_all (\<lambda>c. \<not> is_eol c) s" and "eprt_lexed (s @ [carriage, newline]) k = Some ts"
    and "c \<in> set s" and "\<not> is_digit c" and "c \<noteq> CHR '' ''" and "c \<noteq> CHR ''|''"
  shows "FTP_CHAR c \<in> fst ` set ts"
  using assms(1-3)
proof (induction "length s" arbitrary: s k ts rule: less_induct)
  case less
  then obtain d s' where s: "s = d # s'" by (cases s) auto
  show ?case
  proof (cases "is_digit d")
    case True
    define ds where "ds = takeWhile is_digit s"
    define rest where "rest = dropWhile is_digit s"
    have s': "s = ds @ rest" by (simp add: ds_def rest_def)
    have ds: "ds \<noteq> []" "list_all is_digit ds" "c \<notin> set ds"
      using True s assms(4) by (auto simp: ds_def list_all_iff dest: set_takeWhileD)
    have "rest = [] \<or> \<not> is_digit (hd rest)" unfolding rest_def using hd_dropWhile by blast
    then have "eprt_lexed (ds @ rest @ [carriage, newline]) k =
        map_option ((#) (FTP_INT, TokenType ds k (k + int (length ds))))
          (eprt_lexed (rest @ [carriage, newline]) (k + int (length ds)))"
      by (intro eprt_int ds) (cases rest; simp)
    with less.prems(2) obtain us where "eprt_lexed (rest @ [carriage, newline]) (k + int (length ds)) = Some us"
      "ts = (FTP_INT, TokenType ds k (k + int (length ds))) # us"
      by (auto simp: s')
    moreover have "length rest < length s" "list_all (\<lambda>c. \<not> is_eol c) rest" "c \<in> set rest"
      using less.prems ds by (auto simp: s')
    ultimately show ?thesis using less.hyps [of rest] by auto
  next
    case False
    have d: "\<not> is_eol d" "list_all (\<lambda>c. \<not> is_eol c) s'" using less.prems(1) by (auto simp: s)
    show ?thesis
    proof (cases "d = CHR '' '' \<or> d = CHR ''|''")
      case True
      with eprt_skip [of d False "s' @ [carriage, newline]" k] less.prems less.hyps [of s'] d assms(5,6)
      show ?thesis by (auto simp: s)
    next
      case dne: False
      have "map_option ((#) (FTP_CHAR d, TokenType [d] k (k + 1))) (eprt_lexed (s' @ [carriage, newline]) (k + 1)) = Some ts"
        using eprt_char [of d "s' @ [carriage, newline]" k] False d dne less.prems(2) by (simp add: s)
      then obtain us where u: "eprt_lexed (s' @ [carriage, newline]) (k + 1) = Some us"
        "ts = (FTP_CHAR d, TokenType [d] k (k + 1)) # us"
        by auto
      show ?thesis
      proof (cases "c = d")
        case False
        with less.hyps [of s', OF _ d(2) u(1)] less.prems(3) u(2) show ?thesis by (auto simp: s)
      qed (use u in auto)
    qed
  qed
qed

lemma ftp_ipp_tokens: "ftp_ipp ts t \<Longrightarrow> fst ` set ts \<subseteq> {FTP_INT, colon}"
  by (induction rule: ftp_ipp.induct) auto

lemma ftp_ip_tokens: "ftp_ip ts t \<Longrightarrow> fst ` set ts \<subseteq> {FTP_INT, colon}"
  by (induction rule: ftp_ip.induct) (use ftp_ipp_tokens in \<open>fastforce+\<close>)

lemma eprt_message_tokens:
  assumes "ftp_message L pid ts s r" and "fst (hd ts) = CMD_EPRT"
  shows "fst ` set ts \<subseteq> {CMD_EPRT, FTP_INT, colon, FTP_CHAR newline}"
  using assms ftp_ip_tokens by cases fastforce+

text \<open>
  C28: An \<open>EPRT\<close> line with a letter anywhere behind the command, so with any address that has a hexadecimal
  digit above 9, is not in the grammar's language: no action runs and the line is left as it is.
\<close>

theorem eprt_with_letter_not_understood:
  assumes "list_all (\<lambda>c. \<not> is_eol c) args" and "ftp_lex (''EPRT '' @ args @ [carriage, newline]) = Some ts"
    and "c \<in> set args" and "is_alpha c"
  shows "\<nexists>r. ftp_message L pid ts s r"
proof
  assume "\<exists>r. ftp_message L pid ts s r"
  then obtain r where r: "ftp_message L pid ts s r" by blast
  have c: "\<not> is_digit c" "c \<noteq> CHR '' ''" "c \<noteq> CHR ''|''" "c \<noteq> CHR '':''" "c \<noteq> newline"
    using assms(4) by (auto simp: is_alpha_def is_digit_def Let_def newline_def)
  have "\<not> is_alpha (CHR '' '')" by (simp add: is_alpha_def)
  then have "ftp_lex (''EPRT '' @ args @ [carriage, newline]) =
      map_option ((#) (CMD_EPRT, TokenType ''EPRT'' 0 4)) (eprt_lexed (args @ [carriage, newline]) 5)"
    using eprt_start [of "'' '' @ args @ [carriage, newline]"] by (simp add: eprt_skip)
  with assms(2) have "map_option ((#) (CMD_EPRT, TokenType ''EPRT'' 0 4)) (eprt_lexed (args @ [carriage, newline]) 5) = Some ts"
    by simp
  then obtain us where us: "eprt_lexed (args @ [carriage, newline]) 5 = Some us"
    "ts = (CMD_EPRT, TokenType ''EPRT'' 0 4) # us"
    by auto
  from eprt_chars [OF assms(1) us(1) assms(3) c(1-3)] have "FTP_CHAR c \<in> fst ` set ts" by (simp add: us(2))
  moreover have "fst ` set ts \<subseteq> {CMD_EPRT, FTP_INT, colon, FTP_CHAR newline}"
    using eprt_message_tokens [OF r] us(2) by simp
  ultimately show False using c by auto
qed

text \<open>The line \<open>EPRT |2|fe80::1|80|\<close>.\<close>

theorem eprt_with_letter_not_understood_witness:
  "\<exists>ts. ftp_lex (''EPRT '' @ ''|2|fe80::1|80|'' @ [carriage, newline]) = Some ts \<and>
     (\<nexists>r. ftp_message demo_libc 0 ts demo_ready r)"
proof -
  have d: "is_digit (CHR ''2'')" "is_digit (CHR ''8'')" "is_digit (CHR ''0'')" "is_digit (CHR ''1'')"
    "\<not> is_digit (CHR ''f'')" "\<not> is_digit (CHR ''e'')" "\<not> is_eol (CHR ''2'')" "\<not> is_eol (CHR ''8'')" "\<not> is_eol (CHR ''0'')"
    "\<not> is_eol (CHR ''1'')" "\<not> is_eol (CHR ''f'')" "\<not> is_eol (CHR ''e'')" "is_alpha (CHR ''f'')" "\<not> is_alpha (CHR '' '')"
    by (simp_all add: is_digit_def is_eol_def is_alpha_def carriage_def newline_def)
  have 1: "\<exists>y. eprt_lexed (''80|'' @ [carriage, newline]) k = Some y" for k
    using eprt_int [of "''80''" "''|'' @ [carriage, newline]"] d by (simp add: eprt_skip eprt_eol)
  have 2: "\<exists>y. eprt_lexed (''1|80|'' @ [carriage, newline]) k = Some y" for k
    using eprt_int [of "''1''" "''|80|'' @ [carriage, newline]" k] 1 d by (simp add: eprt_skip)
  have 3: "\<exists>y. eprt_lexed (''::1|80|'' @ [carriage, newline]) k = Some y" for k
    using 2 by (simp add: eprt_char)
  have 4: "\<exists>y. eprt_lexed (''80::1|80|'' @ [carriage, newline]) k = Some y" for k
    using eprt_int [of "''80''" "''::1|80|'' @ [carriage, newline]" k] 3 d by simp
  have 5: "\<exists>y. eprt_lexed (''fe80::1|80|'' @ [carriage, newline]) k = Some y" for k
    using 4 d by (simp add: eprt_char)
  have 6: "\<exists>y. eprt_lexed (''2|fe80::1|80|'' @ [carriage, newline]) k = Some y" for k
    using eprt_int [of "''2''" "''|fe80::1|80|'' @ [carriage, newline]" k] 5 d by (simp add: eprt_skip)
  have "ftp_lex (''EPRT '' @ ''|2|fe80::1|80|'' @ [carriage, newline]) \<noteq> None"
    using eprt_start [of "'' |2|fe80::1|80|'' @ [carriage, newline]"] 6 [of 6] d by (auto simp: eprt_skip)
  then obtain ts where ts: "ftp_lex (''EPRT '' @ ''|2|fe80::1|80|'' @ [carriage, newline]) = Some ts" by blast
  moreover have "\<nexists>r. ftp_message demo_libc 0 ts demo_ready r"
    by (rule eprt_with_letter_not_understood [OF _ ts, of "CHR ''f''"]) (use d in simp_all)
  ultimately show ?thesis by blast
qed

text \<open>
   The tokens of FTP data are pieces of it: each one's text stands at its position, and they come in the
  order of the data without overlap.
\<close>

theorem ftp_tokens_are_pieces:
  assumes "ftp_lex s = Some ts"
  shows "list_all (piece_of 0 s) (map snd ts) \<and> in_order 0 (map snd ts)"
  using lex_all_pieces [OF assms [unfolded ftp_lex_def]] by (simp add: new_scanner_def)

theorem ftp_tokens_are_pieces_witness:
  "\<exists>ts. ftp_lex (eprt_line ''2'' ''2001:0::1'' ''80'') = Some ts \<and> fst (hd ts) = CMD_EPRT \<and>
     list_all (piece_of 0 (eprt_line ''2'' ''2001:0::1'' ''80'')) (map snd ts) \<and> in_order 0 (map snd ts)"
proof -
  have a: "address_text [''2001'', ''0''] [''1''] = ''2001:0::1''" by (simp add: address_text_def)
  obtain t1 ts t2 t3 t4 t5 where
    ts: "ftp_lex (eprt_line ''2'' ''2001:0::1'' ''80'') =
       Some ((CMD_EPRT, t1) # (FTP_INT, t2) # ts @ [(FTP_INT, t4), (FTP_CHAR newline, t5)])" "ftp_ip ts t3"
    by (rule eprt_line_tokens [OF demo_numbers(1,2) _ demo_numbers(3,4), unfolded a]) auto
  show ?thesis
    using ftp_tokens_are_pieces [OF ts(1)] ts(1) by auto
qed

end
