(* ===== verification/App_Gateway.thy ===== *)
theory App_Gateway
  imports Protocol_Props App_Props
begin

text \<open>
  \<open>doApp\<close> on a packet of a flow whose protocol is known and has a stateless parser: what the parser is
  given, and what becomes of the packet when the edits are within its payload.
\<close>

section \<open>Numbers and counters\<close>

lemma adjust_seq_byte:
  "tcp_hdr p = Some h \<Longrightarrow> j < h + 4 \<or> h + 11 < j \<Longrightarrow> obuf (adjust_seq d f p) j = obuf p j"
  by (cases d) (auto simp: adjust_seq_def Let_def add_word_def wr32_byte_other)

lemma adjust_seq_keeps [simp]:
  "ibuf (adjust_seq d f p) = ibuf p" "tcp_old (adjust_seq d f p) = tcp_old p" "udp_old (adjust_seq d f p) = udp_old p"
  "isTCP (adjust_seq d f p) = isTCP p" "isUDP (adjust_seq d f p) = isUDP p"
  by (auto simp: adjust_seq_def Let_def isTCP_def isUDP_def split: option.splits)

lemma adjust_seq_header [simp]: "getTransportHeaderLen (adjust_seq d f p) = getTransportHeaderLen p"
  by (cases "tcp_hdr p") (simp_all add: getTransportHeaderLen_def adjust_seq_byte)

lemma adjust_seq_payload [simp]: "payload (adjust_seq d f p) h' = payload p h'"
  by (simp add: payload_def)

lemma adjust_seq_ptrs [simp]: "seg_ptrs (adjust_seq d f p) = seg_ptrs p"
  by (simp add: seg_ptrs_def split: option.split)

lemma adjust_seq_has_payload [simp]: "has_payload (adjust_seq d f p) h h' = has_payload p h h'"
  by (simp add: has_payload_def)

lemma adjust_seq_string:
  assumes "tcp_hdr p = Some h" and "12 \<le> i"
  shows "string_at (obuf (adjust_seq d f p)) (h + i) n = string_at (obuf p) (h + i) n"
proof -
  have "bytes_at (obuf (adjust_seq d f p)) (h + i) n = bytes_at (obuf p) (h + i) n"
    by (rule bytes_at_cong) (use assms adjust_seq_byte [OF assms(1)] in auto)
  then show ?thesis by (simp add: string_at_def)
qed

lemma getParser_stateless:
  assumes "map_find (<) (protocols s) proto = Some conf" and "proto \<in> set built_protocols"
    and "(if dest = CLIENT then ptype_s2c conf else ptype_c2s conf) = STATELESS"
  shows "getParser u proto dest fid s =
    (Some (length (parser_heap s)), s\<lparr>parser_heap := parser_heap s @ [new_parser u proto StatelessCommunicator]\<rparr>)"
  using assms by (simp add: getParser_def map_index_def stateless_parser_def make_parser_def)

lemma last_end_nonneg: "edits_ok offset pos os n \<Longrightarrow> 0 \<le> last_end offset pos os"
  by (induction os arbitrary: pos) auto

lemma count_fields [simp]:
  "protocols (count1 l s) = protocols s" "map64 (count1 l s) = map64 s" "pool (count1 l s) = pool s"
  "ip6srv_cur (count1 l s) = ip6srv_cur s" "extra (count1 l s) = extra s"
  "extra (snd (count2 l s)) = extra s" "parser_heap (snd (count2 l s)) = parser_heap s"
  "flow_at (count1 l s) i = flow_at s i" "flow_at (snd (count2 l s)) i = flow_at s i"
  by (simp_all add: count1_def count2_def gettimeofday_def split_beta Let_def flow_at_def)

lemma upd_flow_fields [simp]:
  "protocols (upd_flow i g s) = protocols s" "map64 (upd_flow i g s) = map64 s" "pool (upd_flow i g s) = pool s"
  "ip6srv_cur (upd_flow i g s) = ip6srv_cur s" "extra (upd_flow i g s) = extra s"
  by (simp_all add: upd_flow_def)

lemma fst_doMapping_cong:
  "map64 s' = map64 s \<Longrightarrow> pool s' = pool s \<Longrightarrow> length (flows s') = length (flows s) \<Longrightarrow> ip6srv_cur s' = ip6srv_cur s \<Longrightarrow>
   fst (doMapping_cur L a s') = fst (doMapping_cur L a s)"
  by (simp add: doMapping_cur_def doMapping_def Let_def split: option.split list.split)

section \<open>Parsing\<close>

text \<open>The parser object is new, and its edits are handed over.\<close>

lemma app_parse_known:
  assumes "getProtocol (flow_at s fid) = proto" and "proto \<noteq> []" and "proto \<in> set built_protocols"
    and "map_find (<) (protocols s) proto = Some conf" and "(if d = CLIENT then ptype_s2c conf else ptype_c2s conf) = STATELESS"
    and "sA = (count1 ''parse'' s)\<lparr>parser_heap := parser_heap s @ [new_parser (env_unset e) proto StatelessCommunicator]\<rparr>"
    and "env_feed e (length (parser_heap s)) c sA = (0, sB)"
  shows "app_parse e p c d fid s =
    (no_guess\<lparr>g_ops := ops (parser_heap sB ! length (parser_heap s)), g_parser := Some (length (parser_heap s)), g_protocol := proto\<rparr>,
     snd (count2 ''parse'' (upd_parser (length (parser_heap s)) (\<lambda>q. q\<lparr>ops := []\<rparr>) sB)))"
proof -
  have g: "getParser (env_unset e) proto d fid (count1 ''parse'' s) = (Some (length (parser_heap s)), sA)"
    using getParser_stateless [of "count1 ''parse'' s" proto conf d] assms(3,4,5) by (simp add: assms(6))
  have "process_at e (length (parser_heap s)) c sA =
    (ops (parser_heap sB ! length (parser_heap s)), upd_parser (length (parser_heap s)) (\<lambda>q. q\<lparr>ops := []\<rparr>) sB)"
    using assms(7) by (simp add: process_at_def process_def upd_parser_def Let_def)
  with g assms(1,2) show ?thesis
    by (simp add: app_parse_def parse_known_def Let_def no_guess_def)
qed

text \<open>What \<open>doApp\<close> does with a packet that is neither empty nor of an ignored flow.\<close>

lemma doApp_payload:
  assumes "getFlow (env_L e) p s = Some (Some fid, s)" and "\<not> analysisMode s" and "extra s \<noteq> EXTRA_SHIFT"
    and "\<not> ignored (flow_at s fid)" and "has_payload p h h'" and "getDEST p = d"
    and "isTCP p \<longrightarrow> 12 \<le> getTransportHeaderLen p" and "transport_len p = getTransportHeaderLen p + int (length c)"
    and "c \<noteq> []" and "string_at (obuf p) (h + nat (getTransportHeaderLen p)) (length c) = c"
    and "p1 = adjust_seq d (flow_at s fid) p"
  shows "doApp e p n s =
    (let (g, s4) = app_parse e p1 c d fid (if isTCP p then app_count p1 d fid s else s)
     in app_modify e p1 d fid g (n\<lparr>exttcpflow := Some fid\<rparr>) s4)"
proof -
  have len: "0 < int (length c)" using assms(9) by simp
  have h: "isTCP p \<Longrightarrow> tcp_hdr p = Some h" "\<not> isTCP p \<Longrightarrow> tcp_hdr p = None \<and> udp_hdr p = Some h"
    using assms(5) by (auto simp: has_payload_def seg_ptrs_def isTCP_def isUDP_def split: option.splits)
  have p1: "\<not> isTCP p \<Longrightarrow> p1 = p" using h(2) by (simp add: assms(11) adjust_seq_def)
  have c: "app_content p1 (getTransportHeaderLen p) (transport_len p) = Some c"
  proof (cases "isTCP p")
    case True
    then show ?thesis
      using h(1) assms(7,8,10) adjust_seq_string [of p h "nat (getTransportHeaderLen p)" d "flow_at s fid" "length c"]
      by (simp add: app_content_def assms(11))
  next
    case False
    then show ?thesis using h(2) p1 assms(8,10) by (simp add: app_content_def)
  qed
  have t: "isTCP p1 = isTCP p" "app_shift p1 l fid s = Some (p1, s)" for l
    using assms(3) by (simp_all add: assms(11) app_shift_def split: option.split)
  show ?thesis
    using assms(1,2,4,8,9) len c t
    by (simp add: doApp_def app_dest_def assms(6) assms(11) [symmetric] Let_def)
qed

section \<open>The edited packet\<close>

definition edited :: "packet \<Rightarrow> nat \<Rightarrow> u8 list \<Rightarrow> packet" where
  "edited p h out = setTransportLen (int (length out) + getTransportHeaderLen p)
     (p\<lparr>obuf := put (h + nat (getTransportHeaderLen p)) out (obuf p)\<rparr>)"

lemma app_modify_spliced:
  assumes "std_sort (env_sort e)" and "has_payload p h h'" and "getDEST p = d"
    and "g_ops g = os" and "os \<noteq> []" and "g_parser g = Some pid" and "maxPos (parser_heap s ! pid) = -1"
    and "isTCP p \<longrightarrow> \<not> init_seq_set (flow_at s fid) d \<and>
      (length (payload p h') \<le> 1400 \<or> length out \<le> length (payload p h'))"
    and "edits_ok 0 0 (env_sort e os) (int (length (payload p h')))" and "start_pos (env_junk e 0) < 0"
    and "out = splice 0 0 (env_sort e os) (payload p h')" and "h + nat (getTransportHeaderLen p) + length out \<le> 65536"
    and "fid < length (flows s)"
  shows "\<exists>p' s'. app_modify e p d fid g n s = Some (p', n\<lparr>modified := True\<rparr>, s') \<and>
    bytes_at (obuf p') (h + nat (getTransportHeaderLen p)) (length out) = out \<and>
    transport_len p' = getTransportHeaderLen p + int (length out) \<and>
    getOffset d (flow_at s' fid) =
      getOffset d (flow_at s fid) + (int (length out) - int (length (payload p h'))) \<and>
    (\<forall>i. ip4p (flow_at s' i) = ip4p (flow_at s i)) \<and> p' = edited p h out"
proof -
  let ?a = "h + nat (getTransportHeaderLen p)" and ?f = "flow_at s fid" and ?len = "int (length (payload p h'))"
  let ?s = "count1 ''mo'' s"
  obtain f1 where f1: "getPktOffset (isTCP p) (getDEST p) (ntohl (rd32 (obuf p) (h + 4))) ?f = (0, f1)"
    and f1': "getOffset d f1 = getOffset d ?f" "ip4p f1 = ip4p ?f"
    using assms(3,8) by (cases "isTCP p") (simp_all add: getPktOffset_def getOffset_def)
  have r: "keep_trail (extra s) p ?a (int (length out)) ?len (put ?a out (obuf p)) f1 = (int (length out), f1)"
    using assms(8) by (auto simp: keep_trail_def)
  have m: "modify (env_sort e) (env_junk e) (env_gcle e) (extra s) p os (parser_heap s ! pid) ?f =
      Some (int (length out) - ?len, setTransportLen (int (length out) + getTransportHeaderLen p)
        (p\<lparr>obuf := put ?a out (obuf p)\<rparr>), parser_heap s ! pid, f1)"
    using modify_put(1) [where junk = "env_junk e" and srt = "env_sort e" and os = os and extra' = "extra s" and
        ps = "parser_heap s ! pid" and gcle = "env_gcle e", OF assms(1,2,5) _ f1 _ assms(9), of out ?a] assms(7,10,11,12)
      last_end_nonneg [OF assms(9)] r by simp
  define delta where "delta = int (length out) - ?len"
  define p' where "p' = setTransportLen (int (length out) + getTransportHeaderLen p) (p\<lparr>obuf := put ?a out (obuf p)\<rparr>)"
  define s' where "s' = snd (count2 ''mo'' (upd_flow fid (\<lambda>_. addOffset d delta f1)
      (?s\<lparr>parser_heap := (parser_heap s)[pid := parser_heap s ! pid]\<rparr>)))"
  have "app_modify e p d fid g n s = Some (p', n\<lparr>modified := True\<rparr>, s')"
    using m assms(4,5,6) by (simp add: app_modify_def Let_def p'_def s'_def delta_def)
  moreover have "bytes_at (obuf p') ?a (length out) = out" "transport_len p' = getTransportHeaderLen p + int (length out)"
    using bytes_at_setTransportLen [OF assms(2)] bytes_at_put by (simp_all add: p'_def)
  moreover have fl: "flows s' = (flows s)[fid := addOffset d delta f1]"
    by (simp add: s'_def upd_flow_def)
  moreover from fl have "getOffset d (flow_at s' fid) = getOffset d ?f + delta"
    using assms(13) f1'(1) by (simp add: flow_at_def getOffset_addOffset)
  moreover have "ip4p (flow_at s' i) = ip4p (flow_at s i)" for i
    using fl assms(13) f1'(2) by (cases "i = fid") (simp_all add: flow_at_def addOffset_def)
  moreover have "p' = edited p h out" by (simp add: p'_def edited_def)
  ultimately show ?thesis by (auto simp: delta_def)
qed

lemma length_decimal_le:
  assumes "n < 65536" shows "length (decimal n) \<le> 5"
proof -
  have "length (decimal n) \<le> Suc k" if "n < 10 ^ Suc k" for n k
    using that
  proof (induction k arbitrary: n)
    case 0
    then show ?case by (simp add: decimal.simps)
  next
    case (Suc k)
    then have "n div 10 < 10 ^ Suc k" by (simp add: less_mult_imp_div_less)
    with Suc.IH [of "n div 10"] show ?case by (simp add: decimal.simps [of n])
  qed
  from this [of n 4] assms show ?thesis by simp
qed

lemma length_getPortString: "length (getPortString q) \<le> 5"
  using length_decimal_le [of "unat (ntohs (getPort4 q))"] unsigned_less [of "ntohs (getPort4 q)"]
  by (simp add: getPortString_def)

section \<open>Demonstration packets\<close>

text \<open>An IPv6 header, to 2003::10.0.0.2, and \<open>n\<close> bytes of a transport header.\<close>

definition demo_ip6 :: "nat \<Rightarrow> u8 list" where
  "demo_ip6 n = replicate 24 0 @ [0x20, 3, 0, 0, 0, 0, 0, 0, 0, 0, 0, 0, 10, 0, 0, 2] @ replicate n 0"

lemma length_demo_ip6 [simp]: "length (demo_ip6 n) = 40 + n"
  by (simp add: demo_ip6_def)

lemma demo_ip6_nth: "k < 16 \<Longrightarrow>
  (demo_ip6 n @ bs) ! (24 + k) = [0x20, 3, 0, 0, 0, 0, 0, 0, 0, 0, 0, 0, 10, 0, 0, 2] ! k"
  unfolding demo_ip6_def append_assoc by (simp only: nth_append_right length_replicate) (subst nth_append_left, simp_all)

lemma demo_ip6_server:
  assumes "\<And>i. i < 40 \<Longrightarrow> m i = (demo_ip6 n @ bs) ! i"
  shows "rd_in6 m 24 = In6Addr 0x320 0 0 0x0200000A"
proof -
  have b: "m (24 + k) = [0x20, 3, 0, 0, 0, 0, 0, 0, 0, 0, 0, 0, 10, 0, 0, 2] ! k" if "k < 16" for k
    using that assms [of "24 + k"] demo_ip6_nth [of k n bs] by simp
  show ?thesis
    using b [of 0] b [of 1] b [of 2] b [of 3] b [of 4] b [of 5] b [of 6] b [of 7] b [of 8] b [of 9] b [of 10] b [of 11]
      b [of 12] b [of 13] b [of 14] b [of 15]
    by (simp add: rd_in6_def rd32_def rd16_def)
qed

end
