(* ===== verification/Ftp_Gateway.thy ===== *)
theory Ftp_Gateway
  imports Ftp_Props App_Gateway
begin

text \<open>
  The FTP gateway end to end: \<open>doApp\<close> on a client's TCP packet that carries an \<open>EPRT\<close> command, with the
  stateless parser of the configuration, from the bytes received to the bytes to be sent.
\<close>

text \<open>
  What the build gives for FTP: the parser object of a stateless communicator runs the action of the
  message its data is (bisonc++ and flexc++ do what the grammar and the lexer say).
\<close>

definition runs_ftp :: "app_env \<Rightarrow> bool" where
  "runs_ftp e \<longleftrightarrow> (\<forall>pid c s ts s'.
     p_protocol (parser_heap s ! pid) = ''ftp'' \<longrightarrow> ftp_lex c = Some ts \<longrightarrow>
     ftp_message (env_L e) pid ts s (Some s') \<longrightarrow> env_feed e pid c s = (0, s'))"

text \<open>Parsing an \<open>EPRT\<close> line in a flow known as FTP.\<close>

lemma parse_eprt:
  assumes "runs_ftp e" and "getProtocol (flow_at s fid) = ''ftp''" and "fid < length (flows s)"
    and "map_find (<) (protocols s) ''ftp'' = Some conf" and "ptype_c2s conf = STATELESS"
    and "line = eprt_line net (address_text gs hs) port" and "number net" and "number port" and "gs \<noteq> []"
    and "list_all number gs" and "list_all number hs"
    and "fst (doMapping_cur (env_L e)
          (IP6Port_of_string (env_L e) (IPv6Addr_of_string (env_L e) (address_text gs hs)) port) s) = Some m"
  obtains g s' pid where "app_parse e p line SERVER fid s = (g, s')" "g_parser g = Some pid"
    "maxPos (parser_heap s' ! pid) = -1"
    "splice 0 0 (g_ops g) (map byte_of line) = map byte_of (eprt_line ''1''
       (getString4 (env_L e) (getIP4 (ip4p (flow_at s' m)))) (getPortString (ip4p (flow_at s' m))))"
    "edits_ok 0 0 (g_ops g) (int (length line))"
    "sorted_wrt (<) (map start_pos (g_ops g))" "g_ops g \<noteq> []"
    "getOffset SERVER (flow_at s' fid) = getOffset SERVER (flow_at s fid)"
    "init_seq_set (flow_at s' fid) = init_seq_set (flow_at s fid)" "fid < length (flows s')"
    "same_tables s' (snd (doMapping_cur (env_L e)
       (IP6Port_of_string (env_L e) (IPv6Addr_of_string (env_L e) (address_text gs hs)) port) s))"
proof -
  let ?n = "length (parser_heap s)"
  define sA where "sA = (count1 ''parse'' s)
    \<lparr>parser_heap := parser_heap s @ [new_parser (env_unset e) ''ftp'' StatelessCommunicator]\<rparr>"
  have sA: "flow_at sA i = flow_at s i" "flows sA = flows s"
    "parser_heap sA ! ?n = new_parser (env_unset e) ''ftp'' StatelessCommunicator" for i
    by (simp_all add: sA_def flow_at_def)
  have n: "?n < length (parser_heap sA)" and ops0: "ops (parser_heap sA ! ?n) = []"
    by (simp_all add: sA_def new_parser_def)
  have map: "fst (doMapping_cur (env_L e) x sA) = fst (doMapping_cur (env_L e) x s)" for x
    by (rule fst_doMapping_cong) (simp_all add: sA_def)
  obtain ts t2 t3 t4 sB where lx: "ftp_lex line = Some ts" and msg: "ftp_message (env_L e) ?n ts sA (Some sB)"
    and sB: "ftp_eprt (env_L e) ?n t2 t3 t4 sA = Some sB"
    and sp: "splice 0 0 (ops (parser_heap sB ! ?n)) (map byte_of line) =
       map byte_of (eprt_line ''1'' (getString4 (env_L e) (getIP4 (ip4p (flow_at sB m)))) (getPortString (ip4p (flow_at sB m))))"
    and edits: "edits_ok 0 0 (ops (parser_heap sB ! ?n)) (int (length line))"
    and strict: "sorted_wrt (<) (map start_pos (ops (parser_heap sB ! ?n)))" "ops (parser_heap sB ! ?n) \<noteq> []"
    and tab: "same_tables sB (snd (doMapping_cur (env_L e)
       (IP6Port_of_string (env_L e) (IPv6Addr_of_string (env_L e) (address_text gs hs)) port) sA))"
    by (rule eprt_line_effect [OF assms(7-11) n ops0 assms(12) [folded map] assms(6)])
  note eff = eprt_effect [OF sB n]
  have feed: "env_feed e ?n line sA = (0, sB)"
    using assms(1) lx msg sA(3) unfolding runs_ftp_def by (simp add: new_parser_def)
  define g where "g = no_guess\<lparr>g_ops := ops (parser_heap sB ! ?n), g_parser := Some ?n, g_protocol := ''ftp''\<rparr>"
  define s' where "s' = snd (count2 ''parse'' (upd_parser ?n (\<lambda>q. q\<lparr>ops := []\<rparr>) sB))"
  have s': "flow_at s' i = flow_at sB i" "flows s' = flows sB" for i
    by (simp_all add: s'_def)
  have g: "g_ops g = ops (parser_heap sB ! ?n)" "g_parser g = Some ?n" by (simp_all add: g_def)
  have tab': "same_tables sB (snd (doMapping_cur (env_L e)
       (IP6Port_of_string (env_L e) (IPv6Addr_of_string (env_L e) (address_text gs hs)) port) s))"
    by (rule same_tables_trans [OF tab doMapping_cur_same]) (simp_all add: sA_def)
  show thesis
  proof (rule that)
    show "same_tables s' (snd (doMapping_cur (env_L e)
       (IP6Port_of_string (env_L e) (IPv6Addr_of_string (env_L e) (address_text gs hs)) port) s))"
      unfolding s'_def by (rule same_tables_trans [OF same_tables_count(2)]) (simp add: tab')
    show "app_parse e p line SERVER fid s = (g, s')"
      unfolding g_def s'_def by (rule app_parse_known [where d = SERVER, simplified, OF assms(2) _ _ assms(4,5) sA_def feed]) (simp_all add: built_protocols_def)
    show "g_parser g = Some ?n" by (rule g)
    show "maxPos (parser_heap s' ! ?n) = -1"
      using eff(2,3) n by (simp add: s'_def sA new_parser_def)
  qed (use sp edits strict g s' eff(5) eff(6) [of fid SERVER] assms(3) sA(1,2) in simp_all)
qed

section \<open>The whole packet\<close>

lemma eprt_packet_effect:
  assumes "runs_ftp e" and "std_sort (env_sort e)" and "start_pos (env_junk e 0) < 0"
    and "\<And>a. length (getString4 (env_L e) a) \<le> 15"
    and "line = eprt_line net (address_text gs hs) port" and "number net" and "number port" and "gs \<noteq> []"
    and "list_all number gs" and "list_all number hs" and "length line \<le> 1400"
    and "has_payload p h h'" and "isTCP p" and "getDEST p = SERVER" and "20 \<le> getTransportHeaderLen p"
    and "payload p h' = map byte_of line"
    and "string_at (obuf p) (h + nat (getTransportHeaderLen p)) (length line) = line"
    and "h + nat (getTransportHeaderLen p) + 40 \<le> 65536"
    and "getFlow (env_L e) p s = Some (Some fid, s)" and "fid < length (flows s)" and "\<not> analysisMode s"
    and "extra s \<noteq> EXTRA_SHIFT" and "\<not> ignored (flow_at s fid)" and "getProtocol (flow_at s fid) = ''ftp''"
    and "\<not> init_seq_set (flow_at s fid) SERVER"
    and "map_find (<) (protocols s) ''ftp'' = Some conf" and "ptype_c2s conf = STATELESS"
    and "fst (doMapping_cur (env_L e)
          (IP6Port_of_string (env_L e) (IPv6Addr_of_string (env_L e) (address_text gs hs)) port) s) = Some m"
  shows "\<exists>p' s' out. doApp e p n s = Some (p', n\<lparr>exttcpflow := Some fid, modified := True\<rparr>, s') \<and>
    out = eprt_line ''1'' (getString4 (env_L e) (getIP4 (ip4p (flow_at s' m)))) (getPortString (ip4p (flow_at s' m))) \<and>
    bytes_at (obuf p') (h + nat (getTransportHeaderLen p)) (length out) = map byte_of out \<and>
    transport_len p' = getTransportHeaderLen p + int (length out) \<and>
    getOffset SERVER (flow_at s' fid) = getOffset SERVER (flow_at s fid) + (int (length out) - int (length line)) \<and>
    same_tables s' (snd (doMapping_cur (env_L e)
       (IP6Port_of_string (env_L e) (IPv6Addr_of_string (env_L e) (address_text gs hs)) port) s)) \<and>
    p' = edited (adjust_seq SERVER (flow_at s fid) p) h (map byte_of out)"
proof -
  let ?hl = "getTransportHeaderLen p"
  define p1 where "p1 = adjust_seq SERVER (flow_at s fid) p"
  define s3 where "s3 = app_count p1 SERVER fid s"
  have s3: "protocols s3 = protocols s" "length (flows s3) = length (flows s)"
    "getProtocol (flow_at s3 fid) = ''ftp''" "init_seq_set (flow_at s3 fid) = init_seq_set (flow_at s fid)"
    "getOffset SERVER (flow_at s3 fid) = getOffset SERVER (flow_at s fid)"
    "map64 s3 = map64 s" "pool s3 = pool s" "ip6srv_cur s3 = ip6srv_cur s"
    using assms(20,24) by (simp_all add: s3_def app_count_def upd_flow_def flow_at_def flow_count_def getProtocol_def
        getOffset_def Let_def split: option.split)
  have map: "fst (doMapping_cur (env_L e) x s3) = fst (doMapping_cur (env_L e) x s)" for x
    by (rule fst_doMapping_cong) (simp_all add: s3)
  obtain g s4 pid where parse: "app_parse e p1 line SERVER fid s3 = (g, s4)" and pid: "g_parser g = Some pid"
    and mp: "maxPos (parser_heap s4 ! pid) = -1"
    and sp: "splice 0 0 (g_ops g) (map byte_of line) = map byte_of (eprt_line ''1''
       (getString4 (env_L e) (getIP4 (ip4p (flow_at s4 m)))) (getPortString (ip4p (flow_at s4 m))))"
    and edits: "edits_ok 0 0 (g_ops g) (int (length line))"
    and strict: "sorted_wrt (<) (map start_pos (g_ops g))" "g_ops g \<noteq> []"
    and s4: "getOffset SERVER (flow_at s4 fid) = getOffset SERVER (flow_at s3 fid)"
      "init_seq_set (flow_at s4 fid) = init_seq_set (flow_at s3 fid)" "fid < length (flows s4)"
    and tab: "same_tables s4 (snd (doMapping_cur (env_L e)
       (IP6Port_of_string (env_L e) (IPv6Addr_of_string (env_L e) (address_text gs hs)) port) s3))"
    by (rule parse_eprt [OF assms(1) s3(3) _ _ assms(27,5-10) assms(28) [folded map]])
      (use assms(20,26) s3 in auto)
  define out where "out = eprt_line ''1'' (getString4 (env_L e) (getIP4 (ip4p (flow_at s4 m)))) (getPortString (ip4p (flow_at s4 m)))"
  have pay: "payload p1 h' = map byte_of line" "has_payload p1 h h'" "isTCP p1" "getDEST p1 = SERVER"
    "getTransportHeaderLen p1 = ?hl"
    using assms(12-16) by (simp_all add: p1_def)
  have short: "length out \<le> 40"
    using assms(4) [of "getIP4 (ip4p (flow_at s4 m))"] length_getPortString [of "ip4p (flow_at s4 m)"]
    by (simp add: out_def eprt_line_def)
  have srt: "env_sort e (g_ops g) = g_ops g" by (rule std_sort_unique [OF assms(2) refl strict(1)])
  obtain p' s' where m: "app_modify e p1 SERVER fid g (n\<lparr>exttcpflow := Some fid\<rparr>) s4 =
        Some (p', n\<lparr>exttcpflow := Some fid, modified := True\<rparr>, s')"
    "bytes_at (obuf p') (h + nat ?hl) (length (map byte_of out)) = map byte_of out"
    "transport_len p' = ?hl + int (length (map byte_of out))"
    "getOffset SERVER (flow_at s' fid) =
      getOffset SERVER (flow_at s4 fid) + (int (length (map byte_of out)) - int (length (payload p1 h')))"
    "\<And>i. ip4p (flow_at s' i) = ip4p (flow_at s4 i)" "p' = edited p1 h (map byte_of out)"
    using app_modify_spliced [where d = SERVER, OF assms(2) pay(2,4) refl strict(2) pid mp, of fid "map byte_of out" "n\<lparr>exttcpflow := Some fid\<rparr>"]
      srt s4 s3(4) sp edits short assms(3,11,18,25) pay(1,5) by (auto simp: out_def)
  have line: "line \<noteq> []" "transport_len p = ?hl + int (length line)" "12 \<le> ?hl"
    using length_payload [OF assms(12)] assms(15,16) by (simp_all add: assms(5) eprt_line_def)
  have "doApp e p n s = app_modify e p1 SERVER fid g (n\<lparr>exttcpflow := Some fid\<rparr>) s4"
    using doApp_payload [where d = SERVER, OF assms(19,21,22,23,12,14) _ line(2,1) assms(17) p1_def] line(3) assms(13) parse by (simp add: s3_def)
  moreover have "same_tables s' (snd (doMapping_cur (env_L e)
       (IP6Port_of_string (env_L e) (IPv6Addr_of_string (env_L e) (address_text gs hs)) port) s))"
    by (intro same_tables_trans [OF tables_modify [OF m(1)]] same_tables_trans [OF tab] doMapping_cur_same)
      (simp_all add: s3(8), simp add: s3_def tables_app_count)
  ultimately show ?thesis using m s4(1) s3(5) pay(1) unfolding p1_def [symmetric] by (auto simp: out_def)
qed

text \<open>
   The FTP gateway end to end.  A client's TCP packet of a flow known as FTP carries an \<open>EPRT\<close> command with
  a numeric address; the configuration gives FTP a stateless parser and a mapping can be made.  Then
  \<open>doApp\<close> leaves a packet that carries the \<open>EPRT\<close> command of IPv4 with the external address and port of the mapping
  made for the announced pair, and the flow's offset moves by the difference of the lengths.
\<close>

theorem eprt_packet_rewritten:
  assumes "runs_ftp e" and "std_sort (env_sort e)" and "start_pos (env_junk e 0) < 0"
    and "\<And>a. length (getString4 (env_L e) a) \<le> 15"
    and "line = eprt_line net (address_text gs hs) port" and "number net" and "number port" and "gs \<noteq> []"
    and "list_all number gs" and "list_all number hs" and "length line \<le> 1400"
    and "has_payload p h h'" and "isTCP p" and "getDEST p = SERVER" and "20 \<le> getTransportHeaderLen p"
    and "payload p h' = map byte_of line"
    and "string_at (obuf p) (h + nat (getTransportHeaderLen p)) (length line) = line"
    and "h + nat (getTransportHeaderLen p) + 40 \<le> 65536"
    and "getFlow (env_L e) p s = Some (Some fid, s)" and "fid < length (flows s)" and "\<not> analysisMode s"
    and "extra s \<noteq> EXTRA_SHIFT" and "\<not> ignored (flow_at s fid)" and "getProtocol (flow_at s fid) = ''ftp''"
    and "\<not> init_seq_set (flow_at s fid) SERVER"
    and "map_find (<) (protocols s) ''ftp'' = Some conf" and "ptype_c2s conf = STATELESS"
    and "fst (doMapping_cur (env_L e)
          (IP6Port_of_string (env_L e) (IPv6Addr_of_string (env_L e) (address_text gs hs)) port) s) = Some m"
  shows "\<exists>p' s' out. doApp e p n s = Some (p', n\<lparr>exttcpflow := Some fid, modified := True\<rparr>, s') \<and>
    out = eprt_line ''1'' (getString4 (env_L e) (getIP4 (ip4p (flow_at s' m)))) (getPortString (ip4p (flow_at s' m))) \<and>
    bytes_at (obuf p') (h + nat (getTransportHeaderLen p)) (length out) = map byte_of out \<and>
    transport_len p' = getTransportHeaderLen p + int (length out) \<and>
    getOffset SERVER (flow_at s' fid) = getOffset SERVER (flow_at s fid) + (int (length out) - int (length line))"
  using eprt_packet_effect [OF assms] by blast

text \<open>
  A client whose control connection is mapped and known as FTP announces \<open>|2|2001:0::1|80|\<close>; the parser is
  the one the grammar describes.
\<close>

definition grammar_feed :: "libc \<Rightarrow> nat \<Rightarrow> string \<Rightarrow> state_manager \<Rightarrow> int \<times> state_manager" where
  "grammar_feed L pid c s =
     (case Option.bind (ftp_lex c) (\<lambda>ts. ftp_run L pid ts s) of Some (Some s') \<Rightarrow> (0, s') | _ \<Rightarrow> (0, s))"

definition ftp_env :: app_env where
  "ftp_env = demo_env\<lparr>env_feed := grammar_feed demo_libc\<rparr>"

lemma ftp_env_fields [simp]:
  "env_L ftp_env = demo_libc" "env_sort ftp_env = sort_key start_pos" "start_pos (env_junk ftp_env 0) = -1"
  "env_feed ftp_env = grammar_feed demo_libc"
  by (simp_all add: ftp_env_def demo_env_def)

lemma ftp_env_runs: "runs_ftp ftp_env"
  unfolding runs_ftp_def by (simp add: grammar_feed_def ftp_run_complete)

definition demo_line :: string where
  "demo_line = eprt_line ''2'' (address_text [''2001'', ''0''] [''1'']) ''80''"

definition demo_eprt :: packet where
  "demo_eprt = (received ETHERTYPE_IPV6 (demo_ip6 20 @ map byte_of demo_line))
     \<lparr>tcp_hdr := Some 20, tcp_old := Some 40, ipVersionBefore := 6, ip6_hdr := InI 0, ip_hdr := InO 0, ip_len := 20,
      transport_len := 20 + int (length demo_line), obuf_len := 40 + int (length demo_line),
      obuf := (\<lambda>i. if i = 32 then 80 else if 40 \<le> i \<and> i < 40 + length demo_line then byte_of (demo_line ! (i - 40)) else 0)\<rparr>"

definition demo_ftp :: state_manager where
  "demo_ftp = upd_flow 0 (setProtocol ''ftp'') ((snd (doMapping demo_libc (demo_client 1 0) demo_server demo_ready))
     \<lparr>protocols := [(''ftp'', \<lparr>conf_protocol = ''tcp'', ptype_c2s = STATELESS, ptype_s2c = PROCESS_NONE\<rparr>)]\<rparr>)"

lemma demo_line_length: "length demo_line = 23"
  by (simp add: demo_line_def eprt_line_def address_text_def)

lemma demo_eprt_fields:
  "tcp_hdr demo_eprt = Some 20" "tcp_old demo_eprt = Some 40" "udp_hdr demo_eprt = None" "isTCP demo_eprt = True"
  "isUDP demo_eprt = False" "getDEST demo_eprt = SERVER" "getTransportHeaderLen demo_eprt = 20"
  "transport_len demo_eprt = 43" "ip6_hdr demo_eprt = InI 0" "ipVersionBefore demo_eprt = 6"
  by (simp_all add: demo_eprt_def isTCP_def isUDP_def getDEST_def getTransportHeaderLen_def received_def
      demo_line_length)

lemma demo_eprt_payload:
  "has_payload demo_eprt 20 40" "payload demo_eprt 40 = map byte_of demo_line"
  "string_at (obuf demo_eprt) 40 (length demo_line) = demo_line"
proof -
  show "has_payload demo_eprt 20 40" by (simp add: has_payload_def seg_ptrs_def demo_eprt_fields)
  have "ibuf demo_eprt (60 + k) = byte_of (demo_line ! k)" if "k < length demo_line" for k
    using that by (simp add: demo_eprt_def received_def nth_append)
  then have "bytes_at (ibuf demo_eprt) 60 (length demo_line) = map byte_of demo_line"
    by (intro nth_equalityI) simp_all
  then show "payload demo_eprt 40 = map byte_of demo_line"
    by (simp add: payload_def demo_eprt_fields demo_line_length)
  have "obuf demo_eprt (40 + k) = byte_of (demo_line ! k)" if "k < length demo_line" for k
    using that by (simp add: demo_eprt_def)
  then show "string_at (obuf demo_eprt) 40 (length demo_line) = demo_line"
    by (intro nth_equalityI) (simp_all add: string_at_def char_of_byte_of)
qed

lemma demo_ftp_fields:
  "fst (doMapping_cur demo_libc (IP6Port_of_string demo_libc b ''80'') demo_ftp) \<noteq> None"
  "map_find k64_lt (map64 demo_ftp) (IP6Port a 0, v) = Some 0" "analysisMode demo_ftp = False"
  "extra demo_ftp = EXTRA_NONE" "0 < length (flows demo_ftp)"
  "flow_at demo_ftp 0 = setProtocol ''ftp'' (Flow_new64 demo_libc (demo_client 1 0)
     (IP4Port (IPv4Addr 0x281E140A) (htons 32000)) demo_server (getServerAddr4 demo_server))"
proof -
  let ?s = "snd (doMapping demo_libc (demo_client 1 0) demo_server demo_ready)"
  have f: "flows ?s = [Flow_new64 demo_libc (demo_client 1 0) (IP4Port (IPv4Addr 0x281E140A) (htons 32000)) demo_server
      (getServerAddr4 demo_server)]" "pool ?s \<noteq> []"
    using pool_ports_Cons [of 32001] by (simp_all add: doMapping_def demo_ready_def pool_ready_Cons Let_def)
  have e: "map64 demo_ftp = map64 demo_sip" "pool demo_ftp = pool ?s"
    by (simp_all add: demo_ftp_def demo_sip_def)
  show "fst (doMapping_cur demo_libc (IP6Port_of_string demo_libc b ''80'') demo_ftp) \<noteq> None"
    by (cases rule: doMapping_cases [of demo_ftp "IP6Port_of_string demo_libc b ''80''" "ip6srv_cur demo_ftp" demo_libc])
      (use f(2) e(2) in \<open>auto simp: doMapping_cur_def\<close>)
  show "map_find k64_lt (map64 demo_ftp) (IP6Port a 0, v) = Some 0" unfolding e by (rule demo_sip_fields)
  show "analysisMode demo_ftp = False" "extra demo_ftp = EXTRA_NONE"
    using demo_sip_fields(2,4) by (simp_all add: demo_ftp_def demo_sip_def upd_flow_def)
  show "0 < length (flows demo_ftp)"
    "flow_at demo_ftp 0 = setProtocol ''ftp'' (Flow_new64 demo_libc (demo_client 1 0)
     (IP4Port (IPv4Addr 0x281E140A) (htons 32000)) demo_server (getServerAddr4 demo_server))"
    using f(1) by (simp_all add: demo_ftp_def upd_flow_def flow_at_def)
qed

lemma demo_ftp_getFlow: "getFlow demo_libc demo_eprt demo_ftp = Some (Some 0, demo_ftp)"
proof -
  have "getSourcePort demo_eprt = 0" by (simp add: getSourcePort_def rd16_def demo_eprt_fields) (simp add: demo_eprt_def)
  then show ?thesis by (simp add: getFlow_def getMapping6_def demo_ftp_fields demo_eprt_fields)
qed

theorem eprt_packet_rewritten_witness:
  "\<exists>p' n' s' m. doApp ftp_env demo_eprt demo_nat demo_ftp = Some (p', n', s') \<and> modified n' \<and>
     string_at (obuf p') 40 23 = take 23 (eprt_line ''1'' ''10.20.30.40'' (getPortString (ip4p (flow_at s' m))))"
proof -
  have num: "number ''2''" "number ''80''" "list_all number [''2001'', ''0'']" "list_all number [''1'']"
    by (rule demo_numbers)+
  obtain m where m: "fst (doMapping_cur demo_libc (IP6Port_of_string demo_libc
      (IPv6Addr_of_string demo_libc (address_text [''2001'', ''0''] [''1''])) ''80'') demo_ftp) = Some m"
    using demo_ftp_fields(1) by blast
  have L: "getString4 demo_libc a = ''10.20.30.40''" for a by (simp add: getString4_def demo_libc_def)
  let ?p = demo_eprt and ?s = demo_ftp
  obtain p' s' out where r: "doApp ftp_env ?p demo_nat ?s = Some (p', demo_nat\<lparr>exttcpflow := Some 0, modified := True\<rparr>, s')"
    "out = eprt_line ''1'' ''10.20.30.40'' (getPortString (ip4p (flow_at s' m)))"
    "bytes_at (obuf p') 40 (length out) = map byte_of out"
  proof (rule exE [OF eprt_packet_rewritten [of ftp_env demo_line "''2''" "[''2001'', ''0'']" "[''1'']" "''80''" ?p 20 40 ?s 0
          "\<lparr>conf_protocol = ''tcp'', ptype_c2s = STATELESS, ptype_s2c = PROCESS_NONE\<rparr>" m demo_nat]])
    show "map_find (<) (protocols ?s) ''ftp'' = Some \<lparr>conf_protocol = ''tcp'', ptype_c2s = STATELESS, ptype_s2c = PROCESS_NONE\<rparr>"
      by (simp add: demo_ftp_def)
    show "length demo_line \<le> 1400" by (simp add: demo_line_length)
  qed (use ftp_env_runs std_sort_sort_key demo_numbers demo_eprt_payload demo_ftp_getFlow demo_ftp_fields m in
      \<open>auto simp: L demo_line_def demo_eprt_fields ignored_def getProtocol_def setProtocol_def Flow_new64_def Flow_default_def\<close>)
  show ?thesis
  proof (intro exI conjI)
    show "doApp ftp_env ?p demo_nat ?s = Some (p', demo_nat\<lparr>exttcpflow := Some 0, modified := True\<rparr>, s')" by (rule r)
    show "modified (demo_nat\<lparr>exttcpflow := Some 0, modified := True\<rparr>)" by simp
    have "23 \<le> length out" by (simp add: r(2) eprt_line_def)
    then have "bytes_at (obuf p') 40 23 = take 23 (bytes_at (obuf p') 40 (length out))"
      by (simp add: bytes_at_def take_map)
    then show "string_at (obuf p') 40 23 = take 23 (eprt_line ''1'' ''10.20.30.40'' (getPortString (ip4p (flow_at s' m))))"
      using r(3) by (simp add: string_at_def r(2) take_map char_of_byte_of o_def)
  qed
qed

end
