(* ===== verification/Gateway_Routes.thy ===== *)
theory Gateway_Routes
  imports Ftp_Gateway
begin

text \<open>
  The gateway and the translator together: \<open>translate\<close> and \<open>doApp\<close> work on the same tables, and what a rewritten
  command promises to a server the translator keeps.
\<close>

section \<open>Runs of translator and gateway\<close>

text \<open>
  A step translates a packet or runs the application layer on one, with any \<open>NAT\<close> object (any thread); the
  parsers run any actions of their grammars.
\<close>

inductive gateway_step :: "libc \<Rightarrow> (datagram \<Rightarrow> int) \<Rightarrow> app_env \<Rightarrow> world \<Rightarrow> world \<Rightarrow> bool" for L sendto e where
  translated: "translate L sendto p n w = Some (r, q, n', w') \<Longrightarrow> gateway_step L sendto e w w'"
| application: "doApp e p n (w_sm w) = Some (p', n', s') \<Longrightarrow> gateway_step L sendto e w (w\<lparr>w_sm := s'\<rparr>)"

abbreviation gateway_run :: "libc \<Rightarrow> (datagram \<Rightarrow> int) \<Rightarrow> app_env \<Rightarrow> world \<Rightarrow> world \<Rightarrow> bool" where
  "gateway_run L sendto e \<equiv> rtranclp (gateway_step L sendto e)"

lemma gateway_step_extends:
  assumes "gateway_step L sendto e w w'" and "runs_actions e" and "table_inv (w_sm w)"
  shows "extends (w_sm w) (w_sm w')"
  using assms(1)
proof cases
  case (translated p n r q n')
  then show ?thesis using assms(3) by (rule translate_extends)
next
  case (application p n p' n' s')
  from tables.R_doApp [OF application(2) runs_actions_extends [OF assms(2)]] assms(3) application(1) show ?thesis
    by (simp add: keeps_tables_def)
qed

lemma gateway_run_extends:
  assumes "gateway_run L sendto e w w'" and "runs_actions e" and "table_inv (w_sm w)"
  shows "extends (w_sm w) (w_sm w')"
  using assms(1)
proof induction
  case base
  show ?case using assms(3) by (rule extends_refl)
next
  case (step w' w'')
  show ?case
    by (rule extends_trans [OF step.IH])
      (rule gateway_step_extends [OF step.hyps(2) assms(2) extends_inv [OF step.IH]])
qed

section \<open>Bindings through a run\<close>

text \<open>
  C4: Whatever packets are translated and whatever packets the application layer reads and rewrites, in any
  order and by whatever threads, from any state with the table invariant: the invariant holds, and
  every bound flow keeps its endpoints and is found from both sides.  This holds for every behaviour of the
  scanners and whatever part of a message a parser understands: all it may do is run actions of its grammar.
\<close>

theorem gateway_keeps_bindings:
  assumes "gateway_run L sendto e w w'" and "runs_actions e" and "table_inv (w_sm w)" and "flow_bound (w_sm w) fid"
  shows "table_inv (w_sm w') \<and>
    ip6p (flow_at (w_sm w') fid) = ip6p (flow_at (w_sm w) fid) \<and>
    ip4p (flow_at (w_sm w') fid) = ip4p (flow_at (w_sm w) fid) \<and>
    getMapping6 (ip6p (flow_at (w_sm w) fid)) (ip6srv (flow_at (w_sm w) fid)) (w_sm w') = Some fid \<and>
    getMapping4 (ip4p (flow_at (w_sm w) fid)) (ip4srv (flow_at (w_sm w) fid)) (w_sm w') = Some fid"
  using gateway_run_extends [OF assms(1,2,3)] assms(4)
  by (auto simp: extends_def flow_bound_def Let_def getMapping6_def getMapping4_def)

section \<open>Who may answer\<close>

lemma other_address_ignored:
  assumes "gateway_run L sendto e w w2" and "runs_actions e" and "table_inv (w_sm w)" and "flow_bound (w_sm w) fid"
    and "\<not> analysisMode (w_sm w)" and "out6 a" and "hw_protocol a = ETHERTYPE_IP"
    and "ext_of a = ip4p (flow_at (w_sm w) fid)" and "server4_of a \<noteq> ip4srv (flow_at (w_sm w) fid)"
  shows "\<exists>w3. translate L sendto a m w2 = Some (0, a, m, w3) \<and> wire w3 = wire w2 \<and> extends (w_sm w2) (w_sm w3)"
proof -
  have e: "extends (w_sm w) (w_sm w2)" by (rule gateway_run_extends [OF assms(1-3)])
  then have b: "flow_bound (w_sm w2) fid" "ip4p (flow_at (w_sm w2) fid) = ip4p (flow_at (w_sm w) fid)"
    "ip4srv (flow_at (w_sm w2) fid) = ip4srv (flow_at (w_sm w) fid)"
    using assms(4) by (simp_all add: extends_def)
  have "getMapping4 (ext_of a) (server4_of a) (w_sm w2) = None"
  proof (cases "getMapping4 (ext_of a) (server4_of a) (w_sm w2)")
    case (Some g)
    note g = table_inv46 [OF extends_inv [OF e] Some [unfolded getMapping4_def]]
    have "ip4p (flow_at (w_sm w2) g) = ip4p (flow_at (w_sm w2) fid)" using g(2) assms(8) b(2) by simp
    then have "g = fid" by (rule table_inv_inj [OF extends_inv [OF e] g(1) b(1)])
    with g(2) b(3) assms(9) show ?thesis by simp
  qed
  moreover have "\<not> out4 a" using assms(6) by (auto simp: out4_def out6_def)
  ultimately have "\<not> deliverable a (w_sm w2)" by (simp add: deliverable_def)
  moreover have "\<not> analysisMode (w_sm w2)" using e assms(5) by (simp add: extends_def)
  ultimately show ?thesis
    using translate_ignored [of a w2 L sendto m] assms(6,7) extends_inv [OF e] by blast
qed

text \<open>
  C15: The external pair of a flow is open to the flow's server only.  Once a flow is bound, whatever the gateway and
  the translator do meanwhile, a packet to its external pair from any other address than its server's is answered
  0 and nothing is sent for it.
\<close>

theorem only_the_server_answers:
  assumes "gateway_run L sendto e w w2" and "runs_actions e" and "table_inv (w_sm w)" and "flow_bound (w_sm w) fid"
    and "\<not> analysisMode (w_sm w)" and "out6 a" and "hw_protocol a = ETHERTYPE_IP"
    and "ext_of a = ip4p (flow_at (w_sm w) fid)" and "server4_of a \<noteq> ip4srv (flow_at (w_sm w) fid)"
  shows "\<exists>w3. translate L sendto a m w2 = Some (0, a, m, w3) \<and> wire w3 = wire w2 \<and> extends (w_sm w2) (w_sm w3)"
  using assms by (rule other_address_ignored)

text \<open>The flow of a client to the server 10.0.0.3 and a packet from 10.0.0.2 to its external pair.\<close>

theorem only_the_server_answers_witness:
  "\<exists>w3. translate demo_libc demo_sendto demo_out6 demo_nat
       (demo_world\<lparr>w_sm := snd (doMapping demo_libc (demo_client 1 0) (IPv6Addr (In6Addr 0x320 0 0 0x0300000A)) demo_ready)\<rparr>) =
       Some (0, demo_out6, demo_nat, w3) \<and> wire w3 = []"
proof -
  let ?v = "IPv6Addr (In6Addr 0x320 0 0 0x0300000A)"
  let ?s = "snd (doMapping demo_libc (demo_client 1 0) ?v demo_ready)"
  have f: "flow_bound ?s 0" "table_inv ?s" "\<not> analysisMode ?s"
    "ip4p (flow_at ?s 0) = IP4Port (IPv4Addr 0x281E140A) (htons 32000)" "ip4srv (flow_at ?s 0) = IPv4Addr 0x0300000A"
    using doMapping_bound(1) [OF demo_inv demo_mapping] table_inv_doMapping [OF demo_inv]
    by (simp_all add: demo_flow getServerAddr4_def) (simp add: demo_ready_def)
  have acts: "runs_actions demo_env"
    unfolding runs_actions_def
    by (intro allI disjI2 exI [of _ "addOperation (edit 1 2 ''xyz'')"]) (simp add: demo_env_def upd_parser_def)
  show ?thesis
    using only_the_server_answers [OF rtranclp.rtrancl_refl acts, of "demo_world\<lparr>w_sm := ?s\<rparr>" 0 demo_out6 demo_libc demo_sendto demo_nat]
      demo_out6_props f by (auto simp: demo_ext_of demo_server4_of)
qed

section \<open>The data connection of FTP\<close>

text \<open>A command line determines the text of its address and its port.\<close>

lemma append_bar_eq:
  assumes "xs @ b # ys = xs' @ b # ys'" and "b \<notin> set ys" and "b \<notin> set ys'"
  shows "xs = xs' \<and> ys = ys'"
proof -
  have r: "rev ys @ b # rev xs = rev ys' @ b # rev xs'"
    using arg_cong [OF assms(1), of rev] by simp
  have t: "takeWhile (\<lambda>c. c \<noteq> b) (rev zs @ b # us) = rev zs" if "b \<notin> set zs" for zs us
    using that by (subst takeWhile_append2) auto
  have "rev ys = rev ys'" using arg_cong [OF r, of "takeWhile (\<lambda>c. c \<noteq> b)"] t assms(2,3) by simp
  with r show ?thesis by simp
qed

lemma decimal_no_bar: "CHR ''|'' \<notin> set (decimal n)"
  using decimal_digits [of "CHR ''|''" n] by (auto simp: is_digit_def)

lemma getPortString_inj: "getPortString q = getPortString q' \<Longrightarrow> getPort4 q = getPort4 q'"
  using port_string_roundtrip [of undefined undefined q] port_string_roundtrip [of undefined undefined q'] by simp

lemma eprt_line_inj:
  assumes "eprt_line net a (getPortString q) = eprt_line net a' (getPortString q')"
  shows "a = a' \<and> getPort4 q = getPort4 q'"
proof -
  have "a @ CHR ''|'' # getPortString q = a' @ CHR ''|'' # getPortString q'"
    using assms by (simp add: eprt_line_def)
  from append_bar_eq [OF this] have "a = a' \<and> getPortString q = getPortString q'"
    by (simp add: getPortString_def decimal_no_bar)
  with getPortString_inj [of q q'] show ?thesis by blast
qed

lemma map_byte_of_inj:
  assumes "map byte_of xs = map byte_of ys" shows "xs = ys"
proof -
  have "map char_of_byte (map byte_of zs) = zs" for zs
    by (simp add: map_idI char_of_byte_of)
  then show ?thesis using assms by metis
qed

text \<open>The build and the C library: the parsers, the sorting, what lies behind the edits, and short addresses.\<close>

definition ftp_gateway :: "app_env \<Rightarrow> bool" where
  "ftp_gateway e \<longleftrightarrow> runs_ftp e \<and> runs_actions e \<and> std_sort (env_sort e) \<and> start_pos (env_junk e 0) < 0 \<and>
     (\<forall>a. length (getString4 (env_L e) a) \<le> 15)"

text \<open>A command line with a numeric address and port.\<close>

definition eprt_command :: "string list \<Rightarrow> string list \<Rightarrow> string \<Rightarrow> string \<Rightarrow> bool" where
  "eprt_command gs hs port line \<longleftrightarrow> (\<exists>net. line = eprt_line net (address_text gs hs) port \<and> number net \<and> number port \<and>
     gs \<noteq> [] \<and> list_all number gs \<and> list_all number hs \<and> length line \<le> 1400)"

text \<open>A client's TCP segment with that line, at offset \<open>h\<close> of the packet to be sent and \<open>h'\<close> of the received one.\<close>

definition carries_line :: "packet \<Rightarrow> nat \<Rightarrow> nat \<Rightarrow> string \<Rightarrow> bool" where
  "carries_line p h h' line \<longleftrightarrow> has_payload p h h' \<and> isTCP p \<and> getDEST p = SERVER \<and> 20 \<le> getTransportHeaderLen p \<and>
     payload p h' = map byte_of line \<and>
     string_at (obuf p) (h + nat (getTransportHeaderLen p)) (length line) = line \<and>
     h + nat (getTransportHeaderLen p) + 40 \<le> 65536"

text \<open>The packet's flow is known as FTP, whose parser is stateless, and no edit was made in it before.\<close>

definition ftp_control :: "app_env \<Rightarrow> packet \<Rightarrow> state_manager \<Rightarrow> nat \<Rightarrow> bool" where
  "ftp_control e p s fid \<longleftrightarrow> getFlow (env_L e) p s = Some (Some fid, s) \<and> fid < length (flows s) \<and> \<not> analysisMode s \<and>
     extra s \<noteq> EXTRA_SHIFT \<and> \<not> ignored (flow_at s fid) \<and> getProtocol (flow_at s fid) = ''ftp'' \<and>
     \<not> init_seq_set (flow_at s fid) SERVER \<and>
     (\<exists>conf. map_find (<) (protocols s) ''ftp'' = Some conf \<and> ptype_c2s conf = STATELESS)"

text \<open>
  The pair in the rewritten command is the one at the head of the pool, and the announced pair is bound to it
  in the state that \<open>doApp\<close> leaves.
\<close>

lemma eprt_promise:
  assumes "ftp_gateway e" and "eprt_command gs hs port line" and "carries_line p h h' line" and "ftp_control e p s fid"
    and "announced = IP6Port_of_string (env_L e) (IPv6Addr_of_string (env_L e) (address_text gs hs)) port"
    and "table_inv s" and "map_find k64_lt (map64 s) (announced, ip6srv_cur s) = None" and "pool s \<noteq> []"
  obtains p' n' s' s1 i out where "doApp e p n s = Some (p', n', s')"
    "out = eprt_line ''1'' (getString4 (env_L e) (getIP4 (hd (pool s)))) (getPortString (hd (pool s)))"
    "bytes_at (obuf p') (h + nat (getTransportHeaderLen p)) (length out) = map byte_of out"
    "transport_len p' = getTransportHeaderLen p + int (length out)"
    "extends s s1" "extends s1 s'" "flow_bound s1 i" "ip6p (flow_at s1 i) = announced"
    "ip6srv (flow_at s1 i) = ip6srv_cur s" "ip4p (flow_at s1 i) = hd (pool s)"
    "p' = edited (adjust_seq SERVER (flow_at s fid) p) h (map byte_of out)"
proof -
  let ?L = "env_L e"
  obtain i s1 where m: "doMapping ?L announced (ip6srv_cur s) s = (Some i, s1)"
    and f: "ip6p (flow_at s1 i) = announced" "ip6srv (flow_at s1 i) = ip6srv_cur s" "ip4p (flow_at s1 i) = hd (pool s)"
    by (rule fresh_flow [OF assms(7,8)]) blast
  have cur: "doMapping_cur ?L (IP6Port_of_string ?L (IPv6Addr_of_string ?L (address_text gs hs)) port) s = (Some i, s1)"
    using m by (simp add: doMapping_cur_def assms(5))
  have fst_cur: "fst (doMapping_cur ?L (IP6Port_of_string ?L (IPv6Addr_of_string ?L (address_text gs hs)) port) s) = Some i"
    by (simp add: cur)
  obtain net where line: "line = eprt_line net (address_text gs hs) port" "number net" "number port" "gs \<noteq> []"
    "list_all number gs" "list_all number hs" "length line \<le> 1400"
    using assms(2) by (auto simp: eprt_command_def)
  obtain conf where conf: "map_find (<) (protocols s) ''ftp'' = Some conf" "ptype_c2s conf = STATELESS"
    using assms(4) by (auto simp: ftp_control_def)
  obtain p' s' out where r: "doApp e p n s = Some (p', n\<lparr>exttcpflow := Some fid, modified := True\<rparr>, s')"
    "out = eprt_line ''1'' (getString4 ?L (getIP4 (ip4p (flow_at s' i)))) (getPortString (ip4p (flow_at s' i)))"
    "bytes_at (obuf p') (h + nat (getTransportHeaderLen p)) (length out) = map byte_of out"
    "transport_len p' = getTransportHeaderLen p + int (length out)"
    "p' = edited (adjust_seq SERVER (flow_at s fid) p) h (map byte_of out)" and same: "same_tables s' s1"
    using eprt_packet_effect [where e = e and p = p and s = s and fid = fid and h = h and h' = h' and n = n,
        OF _ _ _ _ line _ _ _ _ _ _ _ _ _ _ _ _ _ _ conf fst_cur] assms(1,3,4)
    unfolding ftp_gateway_def carries_line_def ftp_control_def cur snd_conv by blast
  have inv: "table_inv s1" using table_inv_doMapping [OF assms(6), of ?L announced "ip6srv_cur s"] m by simp
  have b: "flow_bound s1 i" by (rule doMapping_bound(1) [OF assms(6) m])
  have e0: "extends s s1" using extends_doMapping [OF assms(6), of ?L announced "ip6srv_cur s"] m by simp
  have e1: "extends s1 s'" by (rule extends_same [OF inv same])
  then have "ip4p (flow_at s' i) = hd (pool s)" using b f(3) by (simp add: extends_def)
  with that [OF r(1) _ r(3,4) e0 e1 b f r(5)] r(2) show thesis by simp
qed

text \<open>
  C2: The promise of a rewritten command is kept.  A client of a flow known as FTP announces an
  address and port that has no flow yet to its server with \<open>EPRT\<close>, the server being the one of the last packet begun;
  \<open>doApp\<close> rewrites the packet.  Let then any packets be translated and
  read by the application layer, in any order and by any threads.  If the server opens the data connection
  to exactly the address and port that the rewritten command names, \<open>translate\<close> delivers its packet, as
  one IPv6 packet with its checksum recomputed, to the address and port the client announced,
  and it comes from the address under which the client knows the server.
\<close>

theorem eprt_data_connection_reaches_client:
  assumes "ftp_gateway e" and "eprt_command gs hs port line" and "carries_line p h h' line" and "ftp_control e p s fid"
    and "announced = IP6Port_of_string (env_L e) (IPv6Addr_of_string (env_L e) (address_text gs hs)) port"
    and "table_inv s" and "map_find k64_lt (map64 s) (announced, ip6srv_cur s) = None" and "pool s \<noteq> []"
    and "isAddrInRange6 (ip6srv_cur s) s" and "pool_addr (getIP4 (hd (pool s))) s"
    and "inj_on (getString4 (env_L e)) {x. pool_addr x s}"
    and "doApp e p n s = Some (p', n', s')" and "gateway_run (env_L e) sendto e (w\<lparr>w_sm := s'\<rparr>) w2"
    and "to_client a (w_sm w2)" and "exttcpflow m = None" and "server4_of a = getServerAddr4 (ip6srv_cur s)"
    and "bytes_at (obuf p') (h + nat (getTransportHeaderLen p)) (nat (transport_len p' - getTransportHeaderLen p)) =
      map byte_of (eprt_line ''1'' (getString4 (env_L e) (getIP4 (ext_of a))) (getPortString (ext_of a)))"
  shows "\<exists>q' m' w3. translate (env_L e) sendto a m w2 = Some (1, q', m', w3) \<and>
    wire w3 = wire w2 @ [Sent6 (bytes_at (obuf q') 0 (40 + nat (transport_len a))) (getIP6 announced)] \<and>
    translated6 a announced (ip6srv_cur s) (obuf q')"
proof -
  let ?L = "env_L e"
  obtain s1 i out where
    out: "out = eprt_line ''1'' (getString4 ?L (getIP4 (hd (pool s)))) (getPortString (hd (pool s)))"
    "bytes_at (obuf p') (h + nat (getTransportHeaderLen p)) (length out) = map byte_of out"
    "transport_len p' = getTransportHeaderLen p + int (length out)"
    and e: "extends s s1" "extends s1 s'" and b: "flow_bound s1 i"
    and f: "ip6p (flow_at s1 i) = announced" "ip6srv (flow_at s1 i) = ip6srv_cur s" "ip4p (flow_at s1 i) = hd (pool s)"
    by (rule eprt_promise [OF assms(1-8), of n]) (use assms(12) in auto)
  have "extends s' (w_sm w2)"
    using gateway_run_extends [OF assms(13)] extends_inv [OF e(2)] assms(1) by (simp add: ftp_gateway_def)
  note e2 = extends_trans [OF e(2) this]
  have "eprt_line ''1'' (getString4 ?L (getIP4 (ext_of a))) (getPortString (ext_of a)) = out"
    using assms(17) out(2,3) by (intro map_byte_of_inj) simp
  then have "getString4 ?L (getIP4 (ext_of a)) = getString4 ?L (getIP4 (hd (pool s))) \<and>
      getPort4 (ext_of a) = getPort4 (hd (pool s))"
    unfolding out(1) by (rule eprt_line_inj)
  moreover have "pool_addr (getIP4 (ext_of a)) s"
    using assms(14) extends_config(2) [OF e2] extends_config(2) [OF e(1)] by (simp add: to_client_def)
  ultimately have ext: "ext_of a = ip4p (flow_at s1 i)"
    using assms(10) inj_onD [OF assms(11)] unfolding f(3) by (cases "ext_of a"; cases "hd (pool s)") simp
  have "isAddrInRange6 (ip6srv (flow_at s1 i)) s1" using assms(9) by (simp add: f extends_config(1) [OF e(1)])
  with answer_reaches_flow [OF e2 b assms(14,15) ext, of ?L sendto] assms(16) show ?thesis
    unfolding f by blast
qed

text \<open>
  C16: The promise depends on a variable that all worker threads share.  The actions make mappings to the server of the
  last packet that any thread has begun to translate (\<open>ip6srv_cur\<close>).  When that is not the server of
  the command's connection, because another thread has begun a packet to another server before \<open>doApp\<close> runs, then
  the command is rewritten all the same, but every packet of its own server to the address and port it names is
  answered 0 and nothing is sent for it.
\<close>

theorem other_server_voids_command:
  assumes "ftp_gateway e" and "eprt_command gs hs port line" and "carries_line p h h' line" and "ftp_control e p s fid"
    and "announced = IP6Port_of_string (env_L e) (IPv6Addr_of_string (env_L e) (address_text gs hs)) port"
    and "table_inv s" and "map_find k64_lt (map64 s) (announced, ip6srv_cur s) = None" and "pool s \<noteq> []"
    and "server = ip4srv (flow_at s fid)" and "getServerAddr4 (ip6srv_cur s) \<noteq> server"
    and "doApp e p n s = Some (p', n', s')" and "gateway_run (env_L e) sendto e (w\<lparr>w_sm := s'\<rparr>) w2"
    and "out6 a" and "hw_protocol a = ETHERTYPE_IP" and "server4_of a = server" and "ext_of a = hd (pool s)"
  shows "bytes_at (obuf p') (h + nat (getTransportHeaderLen p)) (nat (transport_len p' - getTransportHeaderLen p)) =
      map byte_of (eprt_line ''1'' (getString4 (env_L e) (getIP4 (ext_of a))) (getPortString (ext_of a))) \<and>
    (\<exists>w3. translate (env_L e) sendto a m w2 = Some (0, a, m, w3) \<and> wire w3 = wire w2)"
proof -
  obtain s1 i out where out: "out = eprt_line ''1'' (getString4 (env_L e) (getIP4 (hd (pool s)))) (getPortString (hd (pool s)))"
    "bytes_at (obuf p') (h + nat (getTransportHeaderLen p)) (length out) = map byte_of out"
    "transport_len p' = getTransportHeaderLen p + int (length out)"
    and e: "extends s s1" "extends s1 s'" and b: "flow_bound s1 i"
    and f: "ip6srv (flow_at s1 i) = ip6srv_cur s" "ip4p (flow_at s1 i) = hd (pool s)"
    by (rule eprt_promise [OF assms(1-8), of n]) (use assms(11) in auto)
  have b': "flow_bound s' i" "ip4p (flow_at s' i) = hd (pool s)" "ip4srv (flow_at s' i) = getServerAddr4 (ip6srv_cur s)"
    using e(2) b f by (auto simp: extends_def flow_bound_def Let_def)
  have "\<not> analysisMode s'" "table_inv s'" "runs_actions e"
    using assms(1,4) e extends_inv by (auto simp: ftp_control_def ftp_gateway_def extends_def)
  with other_address_ignored [OF assms(12), of i a m] b' assms(10,13-16) out show ?thesis by auto
qed

section \<open>The demonstration\<close>

text \<open>
  The control connection of \<open>Ftp_Gateway\<close>'s demonstration, with its server set; the command announces port
  80 of another host; then the server sends a TCP segment to 10.20.30.40, port 32001.
\<close>

lemma ftp_env_actions: "runs_actions ftp_env"
  unfolding runs_actions_def
proof (intro allI disjI1)
  fix pid c s
  show "actions (env_L ftp_env) pid s (snd (env_feed ftp_env pid c s))"
  proof (cases "Option.bind (ftp_lex c) (\<lambda>ts. ftp_run demo_libc pid ts s)")
    case (Some r)
    then obtain ts where run: "ftp_run demo_libc pid ts s = Some r" by (auto simp: bind_eq_Some_conv)
    show ?thesis
    proof (cases r)
      case None
      with Some show ?thesis by (simp add: grammar_feed_def)
    next
      case (Some s')
      with run have "actions demo_libc pid s s'" using ftp_message_actions ftp_run_sound by blast
      with \<open>Option.bind _ _ = Some r\<close> Some show ?thesis by (simp add: grammar_feed_def)
    qed
  qed (simp add: grammar_feed_def)
qed

lemma ftp_env_gateway: "ftp_gateway ftp_env"
  using ftp_env_runs ftp_env_actions std_sort_sort_key
  by (simp add: ftp_gateway_def getString4_def demo_libc_def)

definition demo_call_to :: "ipv6addr \<Rightarrow> state_manager" where
  "demo_call_to v = demo_ftp\<lparr>ip6srv_cur := v\<rparr>"

abbreviation demo_call :: state_manager where
  "demo_call \<equiv> demo_call_to demo_server"

abbreviation demo_control :: state_manager where
  "demo_control \<equiv> snd (doMapping demo_libc (demo_client 1 0) demo_server demo_ready)"

definition demo_announced :: ip6port where
  "demo_announced = IP6Port_of_string demo_libc
     (IPv6Addr_of_string demo_libc (address_text [''2001'', ''0''] [''1''])) ''80''"

lemma demo_control_fields:
  assumes "same_tables s demo_control"
  shows "table_inv s" "pool s = pool_ports (IPv4Addr 0x281E140A) 32001" "isAddrInRange6 demo_server s"
    and "pool_addr x s \<longleftrightarrow> x = IPv4Addr 0x281E140A"
    and "getPort6 a \<noteq> 0 \<Longrightarrow> map_find k64_lt (map64 s) (a, v) = None"
proof -
  have empty: "map_find k64_lt (map64 demo_ready) k = None" for k by (simp add: demo_ready_def)
  show "table_inv s" using table_inv_doMapping [OF demo_inv] table_inv_same [OF assms] by simp
  show "pool s = pool_ports (IPv4Addr 0x281E140A) 32001"
  proof -
    have "pool demo_control = tl (pool demo_ready)" by (simp add: pool_doMapping empty)
    also have "\<dots> = pool_ports (IPv4Addr 0x281E140A) 32001"
      unfolding demo_ready_def pool_ready_Cons by (rule list.sel(3))
    finally show ?thesis using assms by (simp only: same_tables_def)
  qed
  show "map_find k64_lt (map64 s) (a, v) = None" if "getPort6 a \<noteq> 0"
    using assms find64_doMapping [of demo_libc "demo_client 1 0" demo_server demo_ready "(a, v)"] that empty
    by (simp add: same_tables_def demo_client_def)
  show "pool_addr x s \<longleftrightarrow> x = IPv4Addr 0x281E140A"
    unfolding pool_addr_same [OF assms]
    by (cases x) (simp add: pool_addr_def, auto simp: demo_ready_def split: if_splits)
  show "isAddrInRange6 demo_server s"
    unfolding same_tables_prefix [OF assms]
    by (simp add: isAddrInRange6_def, simp add: demo_ready_def demo_server_def demo_prefix_def)
qed

lemma demo_call_tables: "same_tables (demo_call_to v) demo_control"
proof -
  have "same_tables (upd_flow 0 (setProtocol ''ftp'') (demo_control\<lparr>protocols := c\<rparr>)) demo_control" for c
    by (rule same_tables_trans [OF same_tables_ends]) simp_all
  then show ?thesis by (simp add: demo_call_to_def demo_ftp_def same_tables_def endpoints_def)
qed

lemmas demo_call_inv = demo_control_fields(1) [OF demo_call_tables]

lemma demo_call_fields:
  "ip6srv_cur (demo_call_to v) = v" "hd (pool (demo_call_to v)) = IP4Port (IPv4Addr 0x281E140A) (htons 32001)"
  "pool (demo_call_to v) \<noteq> []" "map_find k64_lt (map64 (demo_call_to v)) (demo_announced, u) = None"
  "pool_addr x (demo_call_to v) \<longleftrightarrow> x = IPv4Addr 0x281E140A" "isAddrInRange6 demo_server (demo_call_to v)"
proof -
  have "decimal 80 = ''80''" by (simp add: decimal.simps digit_def char_of_def bit_Suc_0_iff)
  then have "getPort6 demo_announced = htons 80"
    using extract_decimal [of 80] by (simp add: demo_announced_def IP6Port_of_string_def)
  then show "map_find k64_lt (map64 (demo_call_to v)) (demo_announced, u) = None"
    by (intro demo_control_fields(5) [OF demo_call_tables]) (simp add: ntohs_def)
  show "ip6srv_cur (demo_call_to v) = v" by (simp add: demo_call_to_def)
  show "hd (pool (demo_call_to v)) = IP4Port (IPv4Addr 0x281E140A) (htons 32001)" "pool (demo_call_to v) \<noteq> []"
    using pool_ports_Cons [of 32001 "IPv4Addr 0x281E140A"] by (simp_all add: demo_control_fields(2) [OF demo_call_tables])
qed (rule demo_control_fields(3,4) [OF demo_call_tables])+

lemma demo_command: "eprt_command [''2001'', ''0''] [''1''] ''80'' demo_line"
  unfolding eprt_command_def using demo_numbers demo_line_length
  by (intro exI [of _ "''2''"]) (simp add: demo_line_def)

lemma demo_carries: "carries_line demo_eprt 20 40 demo_line"
  using demo_eprt_payload by (simp add: carries_line_def demo_eprt_fields)

lemma demo_call_control: "ftp_control ftp_env demo_eprt (demo_call_to v) 0"
proof -
  have f: "flow_at (demo_call_to v) 0 = flow_at demo_ftp 0" "map64 (demo_call_to v) = map64 demo_ftp"
    by (simp_all add: demo_call_to_def flow_at_def)
  have "getSourcePort demo_eprt = 0" by (simp add: getSourcePort_def rd16_def demo_eprt_fields) (simp add: demo_eprt_def)
  then have "getFlow demo_libc demo_eprt (demo_call_to v) = Some (Some 0, demo_call_to v)"
    by (simp add: getFlow_def getMapping6_def f demo_ftp_fields demo_eprt_fields)
  moreover have "0 < length (flows (demo_call_to v))" "\<not> analysisMode (demo_call_to v)" "extra (demo_call_to v) \<noteq> EXTRA_SHIFT"
    using demo_ftp_fields(3,4,5) by (simp_all add: demo_call_to_def)
  moreover have "map_find (<) (protocols (demo_call_to v)) ''ftp'' =
      Some \<lparr>conf_protocol = ''tcp'', ptype_c2s = STATELESS, ptype_s2c = PROCESS_NONE\<rparr>"
    by (simp add: demo_call_to_def demo_ftp_def)
  ultimately show ?thesis
    by (simp add: ftp_control_def f(1) demo_ftp_fields(6))
      (simp add: ignored_def getProtocol_def setProtocol_def Flow_new64_def Flow_default_def)
qed

text \<open>The server's packet: 20 bytes of TCP or UDP to a port of 10.20.30.40, given by its two bytes.\<close>

definition reply_bytes :: "u8 \<Rightarrow> u8 \<Rightarrow> u8 \<Rightarrow> u8 list" where
  "reply_bytes proto hi lo =
     [0x45, 0, 0, 40, 0, 0, 0, 0, 64, proto, 0, 0, 10, 0, 0, 2, 10, 20, 30, 40,
      0, 20, hi, lo, 0, 20, 0, 0, 0, 0, 0, 0, 0x50, 2, 0, 0, 0, 0, 0, 0]"

definition demo_reply :: "u8 \<Rightarrow> u8 \<Rightarrow> u8 \<Rightarrow> packet" where
  "demo_reply proto hi lo = the (unpack (received ETHERTYPE_IP (reply_bytes proto hi lo)))"

lemma demo_reply_fields:
  assumes "proto = IPPROTO_TCP \<or> proto = IPPROTO_UDP"
  shows "out6 (demo_reply proto hi lo)" "hw_protocol (demo_reply proto hi lo) = ETHERTYPE_IP"
    and "transport_len (demo_reply proto hi lo) = 20" "isTCP (demo_reply proto hi lo) \<longleftrightarrow> proto = IPPROTO_TCP"
    and "isUDP (demo_reply proto hi lo) \<longleftrightarrow> proto = IPPROTO_UDP"
    and "ext_of (demo_reply proto hi lo) = IP4Port (IPv4Addr 0x281E140A) (rd16 (\<lambda>i. [hi, lo] ! i) 0)"
    and "server4_of (demo_reply proto hi lo) = IPv4Addr 0x0200000A"
proof -
  let ?b = "reply_bytes proto hi lo" and ?p = "demo_reply proto hi lo"
  let ?r = "received ETHERTYPE_IP ?b"
  have len: "length ?b = 40" by (simp add: reply_bytes_def)
  have tcp: "?b ! 9 = proto" by (simp add: reply_bytes_def)
  from unpack4 [of ?r] len obtain p' where
    *: "unpack ?r = Some p'" "out6 p'" "ibuf p' = ibuf ?r" "hw_protocol p' = ETHERTYPE_IP"
    "transport_len p' = ibuf_len ?r - 20" "obuf p' = memcpy (obuf ?r) 40 (ibuf ?r) 20 (nat (ibuf_len ?r - 20))"
    "isTCP p' \<longleftrightarrow> ibuf ?r 9 = IPPROTO_TCP" "isUDP p' \<longleftrightarrow> ibuf ?r 9 = IPPROTO_UDP"
    by auto
  have d: "?p = p'" using *(1) by (simp add: demo_reply_def)
  show o6: "out6 ?p" "hw_protocol ?p = ETHERTYPE_IP" "transport_len ?p = 20" "isTCP ?p \<longleftrightarrow> proto = IPPROTO_TCP"
    "isUDP ?p \<longleftrightarrow> proto = IPPROTO_UDP"
    using * len tcp by (simp_all add: d)
  have "obuf ?p i = ?b ! (i - 20)" if "40 \<le> i" "i < 60" for i
  proof -
    have "i - 20 < 40" "20 + (i - 40) = i - 20" using that by simp_all
    with that *(6) len show ?thesis by (simp add: d memcpy_def)
  qed
  moreover have "tcp_hdr ?p = Some 40 \<or> tcp_hdr ?p = None \<and> udp_hdr ?p = Some 40"
    using o6 assms by (auto simp: out6_def isTCP_def isUDP_def IPPROTO_TCP_def IPPROTO_UDP_def)
  ultimately have "getDestPort ?p = rd16 (\<lambda>i. [hi, lo] ! i) 0"
    by (auto simp: getDestPort_def rd16_def reply_bytes_def)
  moreover have "ibuf ?p i = ?b ! i" if "i < 40" for i
    using that *(3) len by (simp add: d)
  then have "rd32 (ibuf ?p) 16 = 0x281E140A" "rd32 (ibuf ?p) 12 = 0x0200000A"
    by (simp_all add: rd32_def rd16_def) (simp_all add: reply_bytes_def)
  ultimately show "ext_of ?p = IP4Port (IPv4Addr 0x281E140A) (rd16 (\<lambda>i. [hi, lo] ! i) 0)"
    "server4_of ?p = IPv4Addr 0x0200000A"
    by (simp_all add: ext_of_def server4_of_def)
qed

lemma demo_reply_to_client:
  assumes "proto = IPPROTO_TCP \<or> proto = IPPROTO_UDP" and "extends s s'" and "pool_addr (IPv4Addr 0x281E140A) s"
    and "\<not> analysisMode s"
  shows "to_client (demo_reply proto hi lo) s'"
  using assms out6_fields [OF demo_reply_fields(1) [OF assms(1)]]
  by (auto simp: to_client_def demo_reply_fields check_end_def extends_config(2) [OF assms(2)] extends_def)

abbreviation demo_data :: packet where
  "demo_data \<equiv> demo_reply IPPROTO_TCP 0x7D 1"

lemma demo_data_fields:
  "ext_of demo_data = IP4Port (IPv4Addr 0x281E140A) (htons 32001)" "server4_of demo_data = IPv4Addr 0x0200000A"
  "transport_len demo_data = 20"
  using demo_reply_fields [of IPPROTO_TCP] by (simp_all add: rd16_def ntohs_def)

theorem eprt_data_connection_reaches_client_witness:
  "\<exists>p' n' s' q' m' w3. doApp ftp_env demo_eprt demo_nat demo_call = Some (p', n', s') \<and>
     translate demo_libc demo_sendto demo_data demo_nat (demo_world\<lparr>w_sm := s'\<rparr>) = Some (1, q', m', w3) \<and>
     wire w3 = [Sent6 (bytes_at (obuf q') 0 60) (getIP6 demo_announced)] \<and>
     translated6 demo_data demo_announced demo_server (obuf q')"
proof -
  note c = demo_call_fields
  have srv: "getServerAddr4 demo_server = IPv4Addr 0x0200000A" by (simp add: demo_server_def getServerAddr4_def)
  have new: "map_find k64_lt (map64 demo_call) (demo_announced, ip6srv_cur demo_call) = None" by (simp add: c)
  have ann: "demo_announced = IP6Port_of_string (env_L ftp_env)
      (IPv6Addr_of_string (env_L ftp_env) (address_text [''2001'', ''0''] [''1''])) ''80''"
    by (simp add: demo_announced_def)
  obtain p' n' s' s1 out where r: "doApp ftp_env demo_eprt demo_nat demo_call = Some (p', n', s')"
    "out = eprt_line ''1'' (getString4 demo_libc (IPv4Addr 0x281E140A)) (getPortString (IP4Port (IPv4Addr 0x281E140A) (htons 32001)))"
    "bytes_at (obuf p') 40 (length out) = map byte_of out" "transport_len p' = 20 + int (length out)"
    "extends demo_call s1" "extends s1 s'"
    by (rule eprt_promise [OF ftp_env_gateway demo_command demo_carries demo_call_control ann demo_call_inv new c(3),
          of demo_nat]) (auto simp: c demo_eprt_fields)
  have "\<not> analysisMode demo_call" using demo_ftp_fields(3) by (simp add: demo_call_to_def)
  with demo_reply_to_client [OF _ extends_trans [OF r(5,6)]] have a: "to_client demo_data s'" by (simp add: c)
  have "\<exists>q' m' w3. translate (env_L ftp_env) demo_sendto demo_data demo_nat (demo_world\<lparr>w_sm := s'\<rparr>) = Some (1, q', m', w3) \<and>
    wire w3 = wire (demo_world\<lparr>w_sm := s'\<rparr>) @ [Sent6 (bytes_at (obuf q') 0 (40 + nat (transport_len demo_data))) (getIP6 demo_announced)] \<and>
    translated6 demo_data demo_announced (ip6srv_cur demo_call) (obuf q')"
  proof (rule eprt_data_connection_reaches_client [OF ftp_env_gateway demo_command demo_carries demo_call_control
        ann demo_call_inv new c(3) _ _ _ r(1) rtranclp.rtrancl_refl])
    show "inj_on (getString4 (env_L ftp_env)) {x. pool_addr x demo_call}" by (simp add: c inj_on_def)
    show "to_client demo_data (w_sm (demo_world\<lparr>w_sm := s'\<rparr>))" using a by simp
  qed (use r(2-4) in \<open>simp_all add: c demo_data_fields demo_nat_def demo_eprt_fields srv\<close>)
  with r(1) show ?thesis by (simp add: c demo_data_fields)
qed

text \<open>The control connection's flow, when the application layer has read the command.\<close>

theorem gateway_keeps_bindings_witness:
  "\<exists>p' n' s'. doApp ftp_env demo_eprt demo_nat demo_call = Some (p', n', s') \<and> flow_bound demo_call 0 \<and>
     getMapping4 (IP4Port (IPv4Addr 0x281E140A) (htons 32000)) (IPv4Addr 0x0200000A) s' = Some 0"
proof -
  have new: "map_find k64_lt (map64 demo_call) (demo_announced, ip6srv_cur demo_call) = None"
    by (simp add: demo_call_fields(1,4))
  have ann: "demo_announced = IP6Port_of_string (env_L ftp_env)
      (IPv6Addr_of_string (env_L ftp_env) (address_text [''2001'', ''0''] [''1''])) ''80''"
    by (simp add: demo_announced_def)
  obtain p' n' s' where r: "doApp ftp_env demo_eprt demo_nat demo_call = Some (p', n', s')"
    by (rule eprt_promise [OF ftp_env_gateway demo_command demo_carries demo_call_control ann demo_call_inv new
          demo_call_fields(3), of demo_nat])
  let ?w = "demo_world\<lparr>w_sm := demo_call\<rparr>"
  have "gateway_step demo_libc demo_sendto ftp_env ?w (?w\<lparr>w_sm := s'\<rparr>)"
    by (rule gateway_step.application) (use r in simp)
  then have run: "gateway_run demo_libc demo_sendto ftp_env ?w (?w\<lparr>w_sm := s'\<rparr>)" by (rule r_into_rtranclp)
  have b: "flow_bound demo_call 0"
    using doMapping_bound(1) [OF demo_inv demo_first [of 1 0]] same_tables_bound [OF demo_call_tables] by simp
  have f: "ip4p (flow_at demo_call 0) = IP4Port (IPv4Addr 0x281E140A) (htons 32000)"
    "ip4srv (flow_at demo_call 0) = IPv4Addr 0x0200000A"
    using demo_ftp_fields(6)
    by (simp_all add: demo_call_to_def flow_at_def setProtocol_def Flow_new64_def demo_server_def getServerAddr4_def)
  have "getMapping4 (ip4p (flow_at demo_call 0)) (ip4srv (flow_at demo_call 0)) s' = Some 0"
    using gateway_keeps_bindings [OF run ftp_env_actions, of 0] demo_call_inv b by simp
  with r b show ?thesis unfolding f by blast
qed

text \<open>The same command when a packet to 10.0.0.3 has been begun before.\<close>

theorem other_server_voids_command_witness:
  "\<exists>p' n' s' w3. doApp ftp_env demo_eprt demo_nat
       (setCurIPv6SrvAddr (IPv6Addr (In6Addr 0x320 0 0 0x0300000A)) demo_call) = Some (p', n', s') \<and>
     translate demo_libc demo_sendto demo_data demo_nat (demo_world\<lparr>w_sm := s'\<rparr>) = Some (0, demo_data, demo_nat, w3) \<and>
     wire w3 = []"
proof -
  let ?v = "IPv6Addr (In6Addr 0x320 0 0 0x0300000A)"
  let ?s = "demo_call_to ?v"
  note c = demo_call_fields [where v = ?v]
  have s: "setCurIPv6SrvAddr ?v demo_call = ?s" by (simp add: setCurIPv6SrvAddr_def demo_call_to_def)
  have new: "map_find k64_lt (map64 ?s) (demo_announced, ip6srv_cur ?s) = None" by (rule c(4))
  have ann: "demo_announced = IP6Port_of_string (env_L ftp_env)
      (IPv6Addr_of_string (env_L ftp_env) (address_text [''2001'', ''0''] [''1''])) ''80''"
    by (simp add: demo_announced_def)
  have srv: "IPv4Addr 0x0200000A = ip4srv (flow_at ?s 0)"
    using demo_ftp_fields(6)
    by (simp add: demo_call_to_def flow_at_def setProtocol_def Flow_new64_def demo_server_def getServerAddr4_def)
  have other: "getServerAddr4 (ip6srv_cur ?s) \<noteq> IPv4Addr 0x0200000A" by (simp add: c(1) getServerAddr4_def)
  obtain p' n' s' where r: "doApp ftp_env demo_eprt demo_nat ?s = Some (p', n', s')"
    by (rule eprt_promise [OF ftp_env_gateway demo_command demo_carries demo_call_control ann demo_call_inv new c(3),
          of demo_nat])
  have "\<exists>w3. translate (env_L ftp_env) demo_sendto demo_data demo_nat (demo_world\<lparr>w_sm := s'\<rparr>) = Some (0, demo_data, demo_nat, w3) \<and>
      wire w3 = wire (demo_world\<lparr>w_sm := s'\<rparr>)"
    by (rule conjunct2 [OF other_server_voids_command [OF ftp_env_gateway demo_command demo_carries demo_call_control
          ann demo_call_inv new c(3) srv other r rtranclp.rtrancl_refl]])
      (simp_all add: demo_reply_fields demo_data_fields c(2))
  with r show ?thesis unfolding s by auto
qed

end
