(* ===== verification/Sip_Lexer.thy ===== *)
theory Sip_Lexer
  imports Lexer Sip_Language
begin

text \<open>
  \<open>sip/lexer\<close>: the rules of every start condition, and how the scanner cuts the lines of a message.  In the
  header a rule for the beginning of a line competes with a longer match of another rule; in the body none does.
\<close>

section \<open>The rules\<close>

datatype sip_condition = SIP_INITIAL | SIP_header | SIP_header_via | SIP_header_contact | SIP_body | SIP_sdp_value

text \<open>The start condition, and the variable \<open>nxt\<close> of \<open>SIPScanner\<close>, which the constructor leaves unset.\<close>

record sip_scan =
  sip_cond :: sip_condition
  nxt :: sip_condition

definition new_sip_scan :: "sip_condition \<Rightarrow> sip_scan" where
  "new_sip_scan unset = \<lparr>sip_cond = SIP_INITIAL, nxt = unset\<rparr>"

type_synonym sip_rule = "(sip_scan, sip_token) rule"

abbreviation begin_sip :: "sip_condition \<Rightarrow> sip_scan \<Rightarrow> sip_scan" where
  "begin_sip c v \<equiv> v\<lparr>sip_cond := c\<rparr>"

definition sip_rule :: "bool \<Rightarrow> rexp \<Rightarrow> sip_token \<Rightarrow> (sip_scan \<Rightarrow> sip_scan) \<Rightarrow> sip_rule" where
  "sip_rule b r k g = Rule b r (\<lambda>m v. (Some k, g v))"

definition sip_char_rule :: "rexp \<Rightarrow> (sip_scan \<Rightarrow> sip_scan) \<Rightarrow> sip_rule" where
  "sip_char_rule r g = Rule False r (\<lambda>m v. (Some (SIP_CHAR (m ! 0)), g v))"

definition sip_skip :: "rexp \<Rightarrow> sip_rule" where
  "sip_skip r = Rule False r (\<lambda>m v. (None, v))"

definition is_word :: "char \<Rightarrow> bool" where
  "is_word c \<longleftrightarrow> c \<noteq> CHR '' '' \<and> \<not> is_eol c"

definition is_blank :: "char \<Rightarrow> bool" where
  "is_blank c \<longleftrightarrow> c = CHR '' '' \<or> c = CHR 0x09"

definition is_name :: "char \<Rightarrow> bool" where
  "is_name c \<longleftrightarrow> is_alpha c \<or> c = CHR ''-''"

definition is_lower :: "char \<Rightarrow> bool" where
  "is_lower c \<longleftrightarrow> 97 \<le> (of_char c :: nat) \<and> (of_char c :: nat) \<le> 122"

abbreviation value_start :: "char \<Rightarrow> bool" where
  "value_start c \<equiv> c \<noteq> CHR '':'' \<and> \<not> is_blank c \<and> \<not> is_eol c"

abbreviation crlf_rexp :: rexp where
  "crlf_rexp \<equiv> two carriage newline"

text \<open>An address in brackets.\<close>

definition bracketed :: rexp where
  "bracketed = Seq (Chars (\<lambda>c. c = CHR ''['')) (Seq (plus (\<lambda>c. c \<noteq> CHR '']'')) (Chars (\<lambda>c. c = CHR '']'')))"

definition sip_initial_rules :: "sip_rule list" where
  "sip_initial_rules =
     [sip_rule True (Star (Chars is_word)) METHOD id,
      sip_rule False (Star (Chars is_word)) SIP_TEXT id,
      sip_skip (one_of '' ''),
      sip_rule False crlf_rexp CRLF (begin_sip SIP_header)]"

text \<open>The name of a header decides the condition behind the colon.\<close>

definition sip_header_name :: "string \<Rightarrow> sip_scan \<Rightarrow> sip_token option \<times> sip_scan" where
  "sip_header_name m v =
     (if m = ''Via'' then (Some HEADER_IDENT_VIA, v\<lparr>nxt := SIP_header_via\<rparr>)
      else if m = ''Contact'' then (Some HEADER_IDENT_CONTACT, v\<lparr>nxt := SIP_header_contact\<rparr>)
      else (Some HEADER_IDENT, v\<lparr>nxt := SIP_header\<rparr>))"

definition sip_header_rules :: "sip_rule list" where
  "sip_header_rules =
     [sip_rule True crlf_rexp CRLF (begin_sip SIP_body),
      Rule True (plus is_name) sip_header_name,
      sip_char_rule (one_of '':'') (\<lambda>v. begin_sip (nxt v) v),
      sip_skip (Star (Chars is_blank)),
      sip_rule False (Seq (Chars value_start) (Star (Chars (\<lambda>c. \<not> is_eol c)))) HEADER_VALUE id,
      sip_rule False crlf_rexp CRLF id]"

definition sip_via_rules :: "sip_rule list" where
  "sip_via_rules =
     [sip_rule False (plus (\<lambda>c. \<not> is_blank c \<and> \<not> is_eol c \<and> c \<notin> set ''[]:;'')) SIP_TEXT id,
      sip_rule False bracketed IP6ADDR id,
      sip_rule False crlf_rexp CRLF (begin_sip SIP_header),
      sip_skip (Chars (\<lambda>c. c \<noteq> newline))]"

definition sip_contact_rules :: "sip_rule list" where
  "sip_contact_rules =
     [sip_skip (one_of ''<>''),
      sip_rule False (plus (\<lambda>c. \<not> is_blank c \<and> \<not> is_eol c \<and> c \<notin> set ''[]:@'')) SIP_TEXT id,
      sip_rule False bracketed IP6ADDR id,
      sip_rule False crlf_rexp CRLF (begin_sip SIP_header),
      sip_char_rule (one_of '':@'') id,
      sip_skip (Chars (\<lambda>c. c \<noteq> newline))]"

definition sip_body_rules :: "sip_rule list" where
  "sip_body_rules =
     [Rule True (Chars is_lower)
        (\<lambda>m v. (Some (if m ! 0 = CHR ''c'' then CHAR_c else if m ! 0 = CHR ''m'' then CHAR_m else SDP_CHAR), v)),
      sip_char_rule (one_of ''='') (begin_sip SIP_sdp_value)]"

definition sip_value_rules :: "sip_rule list" where
  "sip_value_rules =
     [sip_rule False (Star (Chars is_word)) SIP_TEXT id,
      sip_rule False crlf_rexp CRLF (begin_sip SIP_body),
      sip_skip (one_of '' '')]"

definition sip_rules :: "sip_scan \<Rightarrow> sip_rule list" where
  "sip_rules v =
     (case sip_cond v of
        SIP_INITIAL \<Rightarrow> sip_initial_rules
      | SIP_header \<Rightarrow> sip_header_rules
      | SIP_header_via \<Rightarrow> sip_via_rules
      | SIP_header_contact \<Rightarrow> sip_contact_rules
      | SIP_body \<Rightarrow> sip_body_rules
      | SIP_sdp_value \<Rightarrow> sip_value_rules)"

text \<open>The tokens of a message; \<open>wins\<close> is the ranking of flexc++.\<close>

definition sip_lex :: "(nat \<Rightarrow> nat \<Rightarrow> bool) \<Rightarrow> string \<Rightarrow> sip_scan \<Rightarrow> sip_tokens option" where
  "sip_lex wins s v = lex_by (ranked_rule wins) sip_rules True s v new_scanner"

abbreviation sip_lexed :: "(nat \<Rightarrow> nat \<Rightarrow> bool) \<Rightarrow> bool \<Rightarrow> string \<Rightarrow> sip_scan \<Rightarrow> int \<Rightarrow> sip_tokens option" where
  "sip_lexed wins \<equiv> lexed_by (ranked_rule wins) sip_rules"

lemmas sip_rule_simps [lex_simps] = sip_rules_def sip_header_rules_def sip_body_rules_def sip_value_rules_def
  sip_rule_def sip_char_rule_def sip_skip_def

section \<open>Lines of the header\<close>

lemma is_name_simps [simp]:
  "\<not> is_name (CHR '':'')" "\<not> is_name (CHR '' '')" "\<not> is_name newline" "\<not> is_name carriage" "\<not> is_blank newline"
  "\<not> is_blank carriage" "\<not> is_blank (CHR '':'')" "is_blank (CHR '' '')"
  "CHR '':'' \<noteq> newline" "CHR '':'' \<noteq> carriage" "newline \<noteq> CHR '':''" "carriage \<noteq> CHR '':''"
  by (simp_all add: is_name_def is_blank_def) (simp_all add: is_alpha_def newline_def carriage_def)

lemma is_name_value: "is_name c \<Longrightarrow> value_start c \<and> c \<noteq> newline \<and> c \<noteq> carriage"
  by (auto simp: is_name_def is_blank_def is_eol_def is_alpha_def newline_def carriage_def)

lemma takeWhile_upto: "list_all p xs \<Longrightarrow> s = [] \<or> \<not> p (hd s) \<Longrightarrow> takeWhile p (xs @ s) = xs"
  by (cases s) (auto simp: list_all_iff takeWhile_append)

definition header_line :: "string \<Rightarrow> string \<Rightarrow> string" where
  "header_line nm val = nm @ '': '' @ val @ [carriage, newline]"

text \<open>What the two kinds of rules match at the start of a header line.\<close>

lemma header_ranked:
  assumes "list_all is_name (c # cs)" and "list_all (\<lambda>c. \<not> is_eol c) val" and "sip_cond v = SIP_header"
  shows "ranked_rule wins True (header_line (c # cs) val @ s) (sip_rules v) =
    Some (if wins (Suc (length cs)) (length cs + 3 + length val)
          then (Suc (length cs), sip_header_rules ! 1) else (length cs + 3 + length val, sip_header_rules ! 4))"
proof -
  have c: "value_start c" "c \<noteq> carriage" "c \<noteq> newline" "is_name c" using assms(1) is_name_value by auto
  have nm: "takeWhile is_name (cs @ CHR '':'' # CHR '' '' # val @ carriage # newline # s) = cs"
    by (rule takeWhile_upto) (use assms(1) in simp_all)
  have ne: "list_all (\<lambda>c. \<not> is_eol c) cs"
    using assms(1) is_name_value by (auto simp: list_all_iff)
  then have vl: "takeWhile (\<lambda>c. \<not> is_eol c) (cs @ CHR '':'' # CHR '' '' # val @ carriage # newline # s) = cs @ '': '' @ val"
    using takeWhile_upto [of "\<lambda>c. \<not> is_eol c" "cs @ '': '' @ val" "carriage # newline # s"] assms(2)
    by (simp add: list_all_iff)
  show ?thesis
    using c nm vl assms(3)
    by (simp add: header_line_def lex_simps ranked_rule_def numeral_3_eq_3)
qed


text \<open>The rest of the line, in the middle of which no rule for its beginning applies.\<close>

lemma sip_token:
  assumes "ranked_rule wins b (m @ s) (sip_rules v) = Some (length m, r)" and "m \<noteq> []" and "action r m v = (Some a, v1)"
  shows "sip_lexed wins b (m @ s) v k = map_option ((#) (a, tok_at k m)) (sip_lexed wins (last m = newline) s v1 (k + int (length m)))"
  using lexed_by_step(2) [where B = "ranked_rule wins" and R = sip_rules, OF assms] by (simp add: tok_at_def)

lemma sip_skipped:
  assumes "ranked_rule wins b (m @ s) (sip_rules v) = Some (length m, r)" and "m \<noteq> []" and "action r m v = (None, v1)"
  shows "sip_lexed wins b (m @ s) v k = sip_lexed wins (last m = newline) s v1 (k + int (length m))"
  using lexed_by_step(1) [where B = "ranked_rule wins" and R = sip_rules, OF assms] by simp

text \<open>
  A text that starts at the beginning of a line and ends with one, and what the scanner makes of it, whatever
  comes behind it.
\<close>

definition scans ::
    "(nat \<Rightarrow> nat \<Rightarrow> bool) \<Rightarrow> string \<Rightarrow> sip_scan \<Rightarrow> int \<Rightarrow> sip_tokens \<Rightarrow> sip_scan \<Rightarrow> bool" where
  "scans wins m v k ts v' \<longleftrightarrow>
     (\<forall>s. sip_lexed wins True (m @ s) v k = map_option ((@) ts) (sip_lexed wins True s v' (k + int (length m))))"

lemma scans_append:
  "scans wins m v k ts v' \<Longrightarrow> scans wins m' v' (k + int (length m)) ts' v'' \<Longrightarrow> scans wins (m @ m') v k (ts @ ts') v''"
proof -
  have "(@) (ts @ ts') = (\<lambda>x. ts @ ts' @ x)" by (rule ext) simp
  then show "scans wins m v k ts v' \<Longrightarrow> scans wins m' v' (k + int (length m)) ts' v'' \<Longrightarrow> scans wins (m @ m') v k (ts @ ts') v''"
    by (simp add: scans_def option.map_comp comp_def add.assoc)
qed

lemma scans_all: "scans wins m v k ts v' \<Longrightarrow> sip_lexed wins True m v k = Some ts"
  unfolding scans_def by (drule spec [of _ "[]"]) simp

lemma header_crlf_lexed:
  assumes "sip_cond v = SIP_header"
  shows "sip_lexed wins False (carriage # newline # s) v k =
    map_option ((#) (CRLF, tok_at k [carriage, newline])) (sip_lexed wins True s v (k + 2))"
proof -
  have "ranked_rule wins False ([carriage, newline] @ s) (sip_rules v) = Some (length [carriage, newline], sip_header_rules ! 5)"
    using assms by (simp add: lex_simps ranked_rule_def)
  from sip_token [where m = "[carriage, newline]", OF this, of CRLF v k] show ?thesis
    by (simp add: sip_header_rules_def sip_rule_def)
qed

lemma header_value_lexed:
  assumes "list_all (\<lambda>c. \<not> is_eol c) (c # cs)" and "value_start c" and "sip_cond v = SIP_header"
  shows "sip_lexed wins False ((c # cs) @ carriage # newline # s) v k =
    map_option ((@) [(HEADER_VALUE, tok_at k (c # cs)), (CRLF, tok_at (k + int (length (c # cs))) [carriage, newline])])
      (sip_lexed wins True s v (k + int (length (c # cs)) + 2))"
proof -
  have c: "c \<noteq> carriage" "c \<noteq> newline" "\<not> is_blank c" using assms(2) by auto
  have tw: "takeWhile (\<lambda>c. \<not> is_eol c) (cs @ carriage # newline # s) = cs"
    using takeWhile_upto [of "\<lambda>c. \<not> is_eol c" cs "carriage # newline # s"] assms(1) by simp
  have l: "last (c # cs) \<noteq> newline" using last_in_set [of "c # cs"] assms(1) by (metis is_eol_simps(4) list.distinct(1) list_all_iff)
  have "ranked_rule wins False ((c # cs) @ carriage # newline # s) (sip_rules v) = Some (length (c # cs), sip_header_rules ! 4)"
    using assms(2,3) c tw by (simp add: lex_simps ranked_rule_def)
  from sip_token [where m = "c # cs", OF this, of HEADER_VALUE v k] l header_crlf_lexed [OF assms(3)] show ?thesis
    by (simp add: sip_header_rules_def sip_rule_def append_fun option.map_comp comp_def)
qed

text \<open>A header's name, with the colon behind it: the rest of the line is scanned in the condition of the name.\<close>

lemma header_name_lexed:
  assumes "list_all is_name (c # cs)" and "list_all (\<lambda>c. \<not> is_eol c) val" and "sip_cond v = SIP_header"
    and "wins (length (c # cs)) (length (c # cs) + 2 + length val)" and "sip_header_name (c # cs) v = (Some a, v1)"
    and "sip_cond v1 = SIP_header"
  shows "sip_lexed wins True (header_line (c # cs) val @ s) v k =
    map_option ((@) [(a, tok_at k (c # cs)), (SIP_CHAR (CHR '':''), tok_at (k + int (length (c # cs))) '':'')])
      (sip_lexed wins False ('' '' @ val @ carriage # newline # s) (begin_sip (nxt v1) v1) (k + int (length (c # cs)) + 1))"
proof -
  define nm where "nm = c # cs"
  have ne: "list_all (\<lambda>c. \<not> is_eol c) nm"
    using assms(1) is_name_value by (auto simp: list_all_iff nm_def)
  have nm: "nm \<noteq> []" "last nm \<noteq> newline"
    using ne last_in_set [of nm] by (auto simp: list_all_iff nm_def)
  note simps = sip_header_rules_def sip_rule_def sip_char_rule_def sip_skip_def
  have "ranked_rule wins True (nm @ '': '' @ val @ carriage # newline # s) (sip_rules v) = Some (length nm, sip_header_rules ! 1)"
    using header_ranked [OF assms(1-3), of wins s] assms(4) by (simp add: header_line_def nm_def numeral_3_eq_3)
  from sip_token [OF this nm(1), of a v1 k] assms(5) nm(2)
  have 1: "sip_lexed wins True (header_line nm val @ s) v k = map_option ((#) (a, tok_at k nm))
      (sip_lexed wins False ('':'' @ '' '' @ val @ carriage # newline # s) v1 (k + int (length nm)))"
    by (simp add: header_line_def simps nm_def)
  have "ranked_rule wins False ('':'' @ s) (sip_rules v1) = Some (length '':'', sip_header_rules ! 2)" for s
    using assms(6) by (simp add: lex_simps ranked_rule_def)
  from sip_token [OF this, of "SIP_CHAR (CHR '':'')"]
  have 2: "sip_lexed wins False ('':'' @ s) v1 j = map_option ((#) (SIP_CHAR (CHR '':''), tok_at j '':''))
      (sip_lexed wins False s (begin_sip (nxt v1) v1) (j + 1))" for s j
    by (simp add: simps)
  show ?thesis unfolding nm_def [symmetric] 1 2 by (simp add: append_fun option.map_comp comp_def)
qed

lemma header_blank:
  assumes "sip_cond v = SIP_header" and "\<not> is_blank c"
  shows "sip_lexed wins False ('' '' @ c # s) v k = sip_lexed wins False (c # s) v (k + 1)"
proof -
  have "ranked_rule wins False ('' '' @ c # s) (sip_rules v) = Some (length '' '', sip_header_rules ! 3)"
    using assms by (simp add: lex_simps ranked_rule_def)
  from sip_skipped [OF this, of v] show ?thesis
    by (simp add: sip_header_rules_def sip_skip_def newline_def)
qed

definition header_toks :: "int \<Rightarrow> string \<Rightarrow> string \<Rightarrow> sip_tokens" where
  "header_toks k nm val =
     [(HEADER_IDENT, tok_at k nm), (SIP_CHAR (CHR '':''), tok_at (k + int (length nm)) '':''),
      (HEADER_VALUE, tok_at (k + int (length nm) + 2) val),
      (CRLF, tok_at (k + int (length nm) + 2 + int (length val)) [carriage, newline])]"

lemma header_line_lexed:
  assumes "list_all is_name (c # cs)" and "value_start d" and "list_all (\<lambda>c. \<not> is_eol c) (d # ds)"
    and "sip_cond v = SIP_header" and "c # cs \<noteq> ''Via''" and "c # cs \<noteq> ''Contact''"
  defines "nm \<equiv> c # cs" and "val \<equiv> d # ds"
  shows "wins (length nm) (length nm + 2 + length val) \<Longrightarrow>
      scans wins (header_line nm val) v k (header_toks k nm val) (v\<lparr>nxt := SIP_header\<rparr>)"
    and "\<not> wins (length nm) (length nm + 2 + length val) \<Longrightarrow>
      scans wins (header_line nm val) v k [(HEADER_VALUE, tok_at k (nm @ '': '' @ val)),
           (CRLF, tok_at (k + int (length nm) + 2 + int (length val)) [carriage, newline])] v"
proof -
  assume w: "wins (length nm) (length nm + 2 + length val)"
  let ?v = "v\<lparr>nxt := SIP_header\<rparr>"
  have v: "begin_sip (nxt ?v) ?v = ?v" "sip_cond ?v = SIP_header" using assms(4) by (cases v; simp)+
  have n: "sip_header_name (c # cs) v = (Some HEADER_IDENT, ?v)" using assms(5,6) by (simp add: sip_header_name_def)
  have blank: "sip_lexed wins False ('' '' @ val @ t) ?v j = sip_lexed wins False (val @ t) ?v (j + 1)" for t j
    using header_blank [OF v(2), of d] assms(2) by (simp add: val_def)
  show "scans wins (header_line nm val) v k (header_toks k nm val) ?v"
    unfolding scans_def
  proof
    fix s
    from header_name_lexed [of c cs "d # ds" v wins HEADER_IDENT ?v s k, folded nm_def val_def] assms(1,3,4) w n v(2)
      header_value_lexed [OF assms(3,2) v(2), of wins s, folded val_def]
    show "sip_lexed wins True (header_line nm val @ s) v k =
        map_option ((@) (header_toks k nm val)) (sip_lexed wins True s ?v (k + int (length (header_line nm val))))"
      unfolding nm_def [symmetric] val_def [symmetric] blank v(1)
      by (simp add: header_toks_def header_line_def option.map_comp comp_def append_fun ac_simps)
  qed
next
  assume w: "\<not> wins (length nm) (length nm + 2 + length val)"
  have ne: "list_all (\<lambda>c. \<not> is_eol c) (nm @ '': '' @ val)"
    using assms(1,3) is_name_value by (auto simp: list_all_iff nm_def val_def)
  then have l: "last (nm @ '': '' @ val) \<noteq> newline"
    using last_in_set [of "nm @ '': '' @ val"] by (metis Nil_is_append_conv is_eol_simps(4) list.distinct(1) list_all_iff)
  show "scans wins (header_line nm val) v k [(HEADER_VALUE, tok_at k (nm @ '': '' @ val)),
           (CRLF, tok_at (k + int (length nm) + 2 + int (length val)) [carriage, newline])] v"
    unfolding scans_def
  proof
    fix s
    have "ranked_rule wins True ((nm @ '': '' @ val) @ carriage # newline # s) (sip_rules v) =
        Some (length (nm @ '': '' @ val), sip_header_rules ! 4)"
      using header_ranked [OF assms(1,3,4), of wins s, folded nm_def val_def] w
      by (simp add: header_line_def nm_def val_def numeral_3_eq_3)
    from sip_token [OF this, of HEADER_VALUE v k] l header_crlf_lexed [OF assms(4)]
    show "sip_lexed wins True (header_line nm val @ s) v k =
        map_option ((@) [(HEADER_VALUE, tok_at k (nm @ '': '' @ val)),
           (CRLF, tok_at (k + int (length nm) + 2 + int (length val)) [carriage, newline])])
          (sip_lexed wins True s v (k + int (length (header_line nm val))))"
      by (simp add: header_line_def sip_header_rules_def sip_rule_def append_fun option.map_comp comp_def algebra_simps)
  qed
qed

text \<open>
  C32: Whether a header line is understood depends on the lexer generator.  A line that starts with a header's
  name (other than \<open>Via\<close> and \<open>Contact\<close>), a colon, a blank and a value is cut into the tokens of a header
  exactly when flexc++ lets the rule for the beginning of a line, which matches the name, come before the rule
  for values, which matches the whole line and is longer; under longest match the whole line is one token and
  no production but \<open>error\<close> takes it.
\<close>

theorem sip_header_needs_ranking:
  assumes "list_all is_name (c # cs)" and "value_start d" and "list_all (\<lambda>c. \<not> is_eol c) (d # ds)"
    and "sip_cond v = SIP_header" and "c # cs \<noteq> ''Via''" and "c # cs \<noteq> ''Contact''"
  shows "(\<exists>ts x y. sip_lexed wins True (header_line (c # cs) (d # ds)) v k = Some ts \<and> sip_header_line L pid ts x y) \<longleftrightarrow>
    wins (length (c # cs)) (length (c # cs) + 2 + length (d # ds))"
proof
  assume "wins (length (c # cs)) (length (c # cs) + 2 + length (d # ds))"
  from scans_all [OF header_line_lexed(1) [of c cs d ds v wins k]] assms this header_ident [of L pid] show "\<exists>ts x y. sip_lexed wins True (header_line (c # cs) (d # ds)) v k = Some ts \<and> sip_header_line L pid ts x y"
    by (fastforce simp: header_toks_def)
next
  assume "\<exists>ts x y. sip_lexed wins True (header_line (c # cs) (d # ds)) v k = Some ts \<and> sip_header_line L pid ts x y"
  then obtain ts x y where l: "sip_lexed wins True (header_line (c # cs) (d # ds)) v k = Some ts"
    and ts: "sip_header_line L pid ts x y" by blast
  from ts have "fst (hd ts) \<noteq> HEADER_VALUE" by cases simp_all
  with l scans_all [OF header_line_lexed(2) [of c cs d ds v wins k]] assms show "wins (length (c # cs)) (length (c # cs) + 2 + length (d # ds))"
    by fastforce
qed

theorem sip_header_needs_ranking_witness:
  "\<exists>ts x y. sip_lexed (\<lambda>_ _. True) True (header_line ''To'' ''you'') (begin_sip SIP_header (new_sip_scan SIP_header)) 0 = Some ts \<and>
    sip_header_line demo_libc 0 ts x y"
  by (subst sip_header_needs_ranking)
    (simp_all add: new_sip_scan_def is_name_def is_alpha_def is_blank_def is_eol_def carriage_def newline_def)

end
