(* ===== verification/Sip_Session.thy ===== *)
theory Sip_Session
  imports Sip_Lexer Action_Relation
begin

text \<open>
  The body of a SIP message, a session description: how the scanner cuts its lines, which derivation they have,
  and what the actions turn them into.
\<close>

section \<open>Lines\<close>

definition word :: "string \<Rightarrow> bool" where
  "word w \<longleftrightarrow> w \<noteq> [] \<and> list_all is_word w"

fun words_text :: "string list \<Rightarrow> string" where
  "words_text [] = []"
| "words_text [w] = w"
| "words_text (w # ws) = w @ '' '' @ words_text ws"

fun words_toks :: "int \<Rightarrow> string list \<Rightarrow> sip_tokens" where
  "words_toks k [] = []"
| "words_toks k (w # ws) = (SIP_TEXT, tok_at k w) # words_toks (k + int (length w) + 1) ws"

abbreviation eol :: string where
  "eol \<equiv> [carriage, newline]"

text \<open>A line \<open>c=w w w\<close>.\<close>

type_synonym sdp_line_text = "char \<times> string list"

definition sdp_ok :: "sdp_line_text \<Rightarrow> bool" where
  "sdp_ok l \<longleftrightarrow> is_lower (fst l) \<and> snd l \<noteq> [] \<and> list_all word (snd l)"

definition line_text :: "sdp_line_text \<Rightarrow> string" where
  "line_text l = fst l # ''='' @ words_text (snd l) @ eol"

definition line_kind :: "char \<Rightarrow> sip_token" where
  "line_kind c = (if c = CHR ''c'' then CHAR_c else if c = CHR ''m'' then CHAR_m else SDP_CHAR)"

definition line_toks :: "int \<Rightarrow> sdp_line_text \<Rightarrow> sip_tokens" where
  "line_toks k l =
     [(line_kind (fst l), tok_at k [fst l]), (SIP_CHAR (CHR ''=''), tok_at (k + 1) ''='')] @
     words_toks (k + 2) (snd l) @ [(CRLF, tok_at (k + 2 + int (length (words_text (snd l)))) eol)]"

definition lines_text :: "sdp_line_text list \<Rightarrow> string" where
  "lines_text ls = concat (map line_text ls)"

fun lines_toks :: "int \<Rightarrow> sdp_line_text list \<Rightarrow> sip_tokens" where
  "lines_toks k [] = []"
| "lines_toks k (l # ls) = line_toks k l @ lines_toks (k + int (length (line_text l))) ls"

lemma lines_append [simp]:
  "lines_text (xs @ ys) = lines_text xs @ lines_text ys"
  "lines_toks k (xs @ ys) = lines_toks k xs @ lines_toks (k + int (length (lines_text xs))) ys"
  by (simp_all add: lines_text_def) (induction xs arbitrary: k; simp add: lines_text_def add.assoc)

section \<open>The scanner\<close>

abbreviation in_value :: "sip_scan \<Rightarrow> sip_scan" where
  "in_value v \<equiv> begin_sip SIP_sdp_value v"

lemma is_word_simps [simp]: "\<not> is_word (CHR '' '')" "\<not> is_word carriage" "\<not> is_word newline"
  by (simp_all add: is_word_def)

lemma value_word:
  assumes "word w" and "s \<noteq> [] \<longrightarrow> \<not> is_word (hd s)"
  shows "sip_lexed wins False (w @ s) (in_value v) k =
    map_option ((#) (SIP_TEXT, tok_at k w)) (sip_lexed wins False s (in_value v) (k + int (length w)))"
proof -
  obtain c cs where w: "w = c # cs" using assms(1) by (cases w) (auto simp: word_def)
  have c: "is_word c" "c \<noteq> carriage" "c \<noteq> CHR '' ''" using assms(1) by (auto simp: w word_def)
  have tw: "takeWhile is_word (w @ s) = w"
    using takeWhile_upto [of is_word w s] assms by (auto simp: word_def)
  have "ranked_rule wins False (w @ s) (sip_rules (in_value v)) = Some (length w, sip_value_rules ! 0)"
    using c tw by (simp add: w lex_simps ranked_rule_def)
  moreover have "last w \<noteq> newline" using assms(1) last_in_set [of w] by (metis is_word_simps(3) list_all_iff word_def)
  ultimately show ?thesis
    using sip_token [where m = w and s = s and v = "in_value v" and r = "sip_value_rules ! 0" and a = SIP_TEXT] assms(1)
    by (simp add: word_def sip_value_rules_def sip_rule_def)
qed

lemma value_space: "sip_lexed wins False (CHR '' '' # s) (in_value v) k = sip_lexed wins False s (in_value v) (k + 1)"
proof -
  have "ranked_rule wins False ('' '' @ s) (sip_rules (in_value v)) = Some (length '' '', sip_value_rules ! 2)"
    by (simp add: lex_simps ranked_rule_def)
  from sip_skipped [OF this, of "in_value v"] show ?thesis
    by (simp add: sip_value_rules_def sip_skip_def newline_def)
qed

lemma value_end:
  "sip_lexed wins False (eol @ s) (in_value v) k =
    map_option ((#) (CRLF, tok_at k eol)) (sip_lexed wins True s (begin_sip SIP_body v) (k + 2))"
proof -
  have "ranked_rule wins False (eol @ s) (sip_rules (in_value v)) = Some (length eol, sip_value_rules ! 1)"
    by (simp add: lex_simps ranked_rule_def)
  from sip_token [OF this, of CRLF "begin_sip SIP_body v"] show ?thesis
    by (simp add: sip_value_rules_def sip_rule_def)
qed

lemma value_words:
  "ws \<noteq> [] \<Longrightarrow> list_all word ws \<Longrightarrow>
   sip_lexed wins False (words_text ws @ eol @ s) (in_value v) k =
     map_option (\<lambda>ts. words_toks k ws @ (CRLF, tok_at (k + int (length (words_text ws))) eol) # ts)
       (sip_lexed wins True s (begin_sip SIP_body v) (k + int (length (words_text ws)) + 2))"
proof (induction ws arbitrary: k rule: words_text.induct)
  case (2 w)
  then show ?case
    using value_word [of w "eol @ s" wins v k] value_end [of wins s v "k + int (length w)"]
    by (simp add: option.map_comp comp_def)
next
  case (3 w w' ws)
  then show ?case
    using value_word [of w "CHR '' '' # words_text (w' # ws) @ eol @ s" wins v k]
    by (simp add: value_space option.map_comp comp_def algebra_simps)
qed simp

lemma body_line:
  assumes "sdp_ok l" and "sip_cond v = SIP_body"
  shows "sip_lexed wins True (line_text l @ s) v k =
    map_option ((@) (line_toks k l)) (sip_lexed wins True s v (k + int (length (line_text l))))"
proof -
  have v: "begin_sip SIP_body v = v" using assms(2) by (cases v) simp
  have nl: "fst l \<noteq> newline" "CHR ''='' \<noteq> newline" "fst l \<noteq> CHR ''=''"
    using assms(1) by (auto simp: sdp_ok_def is_lower_def newline_def)
  let ?t = "words_text (snd l) @ eol @ s"
  have r: "ranked_rule wins True ([fst l] @ ''='' @ ?t) (sip_rules v) = Some (length [fst l], sip_body_rules ! 0)"
    using assms nl by (simp add: lex_simps ranked_rule_def sdp_ok_def)
  from sip_token [OF r, of "line_kind (fst l)" v k] nl
  have 1: "sip_lexed wins True ([fst l] @ ''='' @ ?t) v k = map_option ((#) (line_kind (fst l), tok_at k [fst l]))
      (sip_lexed wins False (''='' @ ?t) v (k + 1))"
    by (simp add: sip_body_rules_def line_kind_def)
  have r: "ranked_rule wins False (''='' @ ?t) (sip_rules v) = Some (length ''='', sip_body_rules ! 1)"
    using assms nl by (simp add: lex_simps ranked_rule_def)
  from sip_token [OF r, of "SIP_CHAR (CHR ''='')" "in_value v"] nl
  have 2: "sip_lexed wins False (''='' @ ?t) v j = map_option ((#) (SIP_CHAR (CHR ''=''), tok_at j ''=''))
      (sip_lexed wins False ?t (in_value v) (j + 1))" for j
    by (simp add: sip_body_rules_def sip_char_rule_def)
  have "line_text l @ s = [fst l] @ ''='' @ ?t" by (simp add: line_text_def)
  then show ?thesis
    using assms(1) value_words [of "snd l" wins s v "k + 2"] v
    by (simp add: 1 [simplified] 2 [simplified] line_toks_def line_text_def sdp_ok_def append_fun option.map_comp comp_def add.assoc)
qed

lemma body_lines:
  assumes "list_all sdp_ok ls" and "sip_cond v = SIP_body"
  shows "sip_lexed wins True (lines_text ls) v k = Some (lines_toks k ls)"
  using assms(1)
proof (induction ls arbitrary: k)
  case (Cons l ls)
  then show ?case using body_line [OF _ assms(2), of l wins "lines_text ls" k] by (simp add: lines_text_def)
qed (simp add: lines_text_def)


section \<open>The derivation\<close>

lemma trailing_words: "ws \<noteq> [] \<Longrightarrow> sip_trailing (words_toks k ws)"
proof (induction ws arbitrary: k rule: rev_induct)
  case (snoc w ws)
  have "words_toks j (xs @ [w]) = words_toks j xs @ [(SIP_TEXT, tok_at (j + sum_list (map (\<lambda>w. int (length w) + 1) xs)) w)]"
    for j xs by (induction xs arbitrary: j) (simp_all add: algebra_simps)
  with snoc show ?case
    by (cases "ws = []") (auto intro: trailing_one trailing_more)
qed simp

lemma sdp_append: "sip_sdp L pid ys y z \<Longrightarrow> sip_sdp L pid xs x y \<Longrightarrow> sip_sdp L pid (xs @ ys) x z"
proof (induction rule: sip_sdp.induct)
  case (sdp_more ts y w us z)
  then show ?case using sip_sdp.sdp_more [of L pid "xs @ ts" x w us z] by simp
qed (rule sip_sdp.sdp_more)

text \<open>Lines, or none.\<close>

definition sdp_lines :: "libc \<Rightarrow> nat \<Rightarrow> sip_tokens \<Rightarrow> sip_state \<Rightarrow> sip_state \<Rightarrow> bool" where
  "sdp_lines L pid ts x y \<longleftrightarrow> ts = [] \<and> x = y \<or> sip_sdp L pid ts x y"

lemma sdp_lines_append: "sdp_lines L pid xs x y \<Longrightarrow> sdp_lines L pid ys y z \<Longrightarrow> sdp_lines L pid (xs @ ys) x z"
  by (auto simp: sdp_lines_def intro: sdp_append)

lemma sdp_lines_one: "sip_sdp_line L pid ts x y \<Longrightarrow> sdp_lines L pid ts x y"
  by (simp add: sdp_lines_def sdp_one)

text \<open>A line that is neither a connection nor a media line has no action.\<close>

definition sdp_other :: "sdp_line_text \<Rightarrow> bool" where
  "sdp_other l \<longleftrightarrow> sdp_ok l \<and> fst l \<noteq> CHR ''c'' \<and> fst l \<noteq> CHR ''m''"

lemma other_lines: "list_all sdp_other ls \<Longrightarrow> sdp_lines L pid (lines_toks k ls) x x"
proof (induction ls arbitrary: k)
  case (Cons l ls)
  have "sip_sdp_line L pid (line_toks k l) x x"
    unfolding line_toks_def
    using Cons.prems sdp_char [OF trailing_words] by (simp add: line_kind_def sdp_other_def sdp_ok_def)
  from sdp_lines_append [OF sdp_lines_one [OF this]] Cons show ?case by simp
qed (simp add: sdp_lines_def)

section \<open>A session\<close>

definition session :: "sdp_line_text list \<Rightarrow> string \<Rightarrow> string \<Rightarrow> string \<Rightarrow> sdp_line_text list \<Rightarrow> string \<Rightarrow> string \<Rightarrow>
    string list \<Rightarrow> sdp_line_text list \<Rightarrow> sdp_line_text list" where
  "session pre net typ addr mid media port rest post =
     pre @ [(CHR ''c'', [net, typ, addr])] @ mid @ [(CHR ''m'', media # port # rest)] @ post"

text \<open>A mapping and an edit do not disturb each other.\<close>

lemma doMapping_cur_upd_parser:
  "doMapping_cur L a (upd_parser pid g s) = (fst (doMapping_cur L a s), upd_parser pid g (snd (doMapping_cur L a s)))"
  by (cases "map_find k64_lt (map64 s) (a, ip6srv_cur s)"; cases "pool s")
    (simp_all add: doMapping_cur_def doMapping_def upd_parser_def Let_def getServerAddr4_def)

text \<open>The external pair a mapping gives to an announced one, as text.\<close>

definition external_pair :: "libc \<Rightarrow> string \<Rightarrow> string \<Rightarrow> state_manager \<Rightarrow> string \<times> string" where
  "external_pair L host port s =
     (case doMapping_cur L (IP6Port_of_string L (IPv6Addr_of_string L host) port) s of
        (Some fid, s') \<Rightarrow> (getString4 L (getIP4 (ip4p (flow_at s' fid))), getPortString (ip4p (flow_at s' fid)))
      | (None, s') \<Rightarrow> ([], []))"

abbreviation mapped :: "libc \<Rightarrow> string \<Rightarrow> string \<Rightarrow> state_manager \<Rightarrow> FlowPtr \<times> state_manager" where
  "mapped L host port s \<equiv> doMapping_cur L (IP6Port_of_string L (IPv6Addr_of_string L host) port) s"

lemma sip_map_edits:
  assumes "fst (mapped L host port s) \<noteq> None" and "external_pair L host port s = (a, q)"
  shows "sip_map L pid c (tok_at j host) (tok_at k port) s =
    Some (upd_parser pid (addOperation (piece_edit c k port q)) (upd_parser pid (addOperation (piece_edit c j host a))
      (snd (mapped L host port s))))"
  using assms
  by (auto simp: sip_map_def external_pair_def token_operation piece_edit_def tok_at_def TokenType_def Let_def
      split: prod.splits option.splits)

lemma getPortString_nonempty: "getPortString p \<noteq> []"
  using decimal.simps [of "unat (ntohs (getPort4 p))"] by (simp add: getPortString_def)

lemma external_pair_upd_parser [simp]: "external_pair L host port (upd_parser pid g s) = external_pair L host port s"
  by (simp add: external_pair_def doMapping_cur_upd_parser split: prod.splits option.splits)

text \<open>The pieces of a session that are edited, behind a gap.\<close>

definition session_pieces :: "string \<Rightarrow> sdp_line_text list \<Rightarrow> string \<Rightarrow> string \<Rightarrow> string \<Rightarrow> string \<Rightarrow> sdp_line_text list \<Rightarrow>
    string \<Rightarrow> string \<Rightarrow> string \<Rightarrow> pieces" where
  "session_pieces gap pre net typ addr a mid media port q =
     [(gap @ lines_text pre @ ''c='' @ net @ '' '', typ, ''IP4'', True), ('' '', addr, a, True),
      (eol @ lines_text mid @ ''m='' @ media @ '' '', port, q, True)]"

definition session_end :: "string list \<Rightarrow> sdp_line_text list \<Rightarrow> string" where
  "session_end rest post = '' '' @ words_text rest @ eol @ lines_text post"

lemma session_texts:
  assumes "rest \<noteq> []"
  shows "old_text (session_pieces gap pre net typ addr a mid media port q) (session_end rest post) =
      gap @ lines_text (session pre net typ addr mid media port rest post)"
    and "new_text (session_pieces gap pre net typ addr a mid media port q) (session_end rest post) =
      gap @ lines_text (session pre net ''IP4'' a mid media q rest post)"
proof -
  have "words_text (x # rest) = x @ '' '' @ words_text rest" for x
    using assms by (cases rest) simp_all
  then show "old_text (session_pieces gap pre net typ addr a mid media port q) (session_end rest post) =
      gap @ lines_text (session pre net typ addr mid media port rest post)"
    "new_text (session_pieces gap pre net typ addr a mid media port q) (session_end rest post) =
      gap @ lines_text (session pre net ''IP4'' a mid media q rest post)"
    by (simp_all add: session_pieces_def session_end_def session_def lines_text_def line_text_def)
qed

text \<open>The derivation of a session's tokens, and the edits of its actions.\<close>

lemma session_derived:
  assumes "list_all sdp_other pre" and "list_all sdp_other mid" and "list_all sdp_other post"
    and "rest \<noteq> []" and "addr \<noteq> []" and "fst (mapped L addr port s) \<noteq> None" and "external_pair L addr port s = (a, q)"
    and "pid < length (parser_heap s)"
  obtains t s' where "sip_sdp L pid (lines_toks k (session pre net typ addr mid media port rest post)) (w, s) (w\<lparr>c_ip := t\<rparr>, s')"
    "ops (parser_heap s' ! pid) = ops (parser_heap s ! pid) @ piece_edits k (session_pieces [] pre net typ addr a mid media port q)"
    "\<And>i. flow_at s' i = flow_at (snd (mapped L addr port s)) i" "length (parser_heap s') = length (parser_heap s)"
    "same_tables s' (snd (mapped L addr port s))"
proof -
  let ?c = "k + int (length (lines_text pre))"
  let ?lc = "(CHR ''c'', [net, typ, addr])" and ?lm = "(CHR ''m'', media # port # rest)"
  let ?m = "?c + int (length (line_text ?lc)) + int (length (lines_text mid))"
  let ?k4 = "?c + 3 + int (length net)"
  let ?k5 = "?k4 + 1 + int (length typ)"
  let ?kp = "?m + 3 + int (length media)"
  define s0 where "s0 = upd_parser pid (addOperation (piece_edit True ?k4 typ ''IP4'')) s"
  let ?w = "w\<lparr>c_ip := tok_at ?k5 addr\<rparr>"
  define s' where "s' = upd_parser pid (addOperation (piece_edit True ?kp port q))
    (upd_parser pid (addOperation (piece_edit True ?k5 addr a)) (snd (mapped L addr port s0)))"
  have m0: "fst (mapped L addr port s0) \<noteq> None" "external_pair L addr port s0 = (a, q)"
    "snd (mapped L addr port s0) = upd_parser pid (addOperation (piece_edit True ?k4 typ ''IP4'')) (snd (mapped L addr port s))"
    using assms(6,7) by (simp_all add: s0_def doMapping_cur_upd_parser)
  have cl: "sip_sdp_line L pid (line_toks ?c ?lc) (w, s) (?w, s0)"
    using sdp_c [of L pid "tok_at ?c ''c''" "tok_at (?c + 1) ''=''" "tok_at (?c + 2) net" "tok_at ?k4 typ" "tok_at ?k5 addr" _ w s]
    by (simp add: line_toks_def line_kind_def sip_c_line_def token_operation s0_def piece_edit_def tok_at_def TokenType_def algebra_simps)
  have "sip_m_line L pid (tok_at ?kp port) ?w s0 = Some s'"
    using sip_map_edits [OF m0(1,2)] assms(5) by (simp add: sip_m_line_def s'_def tok_at_def TokenType_def)
  from sdp_m [OF trailing_words [OF assms(4), of "?m + 4 + int (length media) + int (length port)"] this, of "tok_at ?m ''m''"
        "tok_at (?m + 1) ''=''" "tok_at (?m + 2) media"]
  have ml: "sip_sdp_line L pid (line_toks ?m ?lm) (?w, s0) (?w, s')"
    by (simp add: line_toks_def line_kind_def algebra_simps)
  have "sdp_lines L pid (lines_toks k pre @ line_toks ?c ?lc @ lines_toks (?c + int (length (line_text ?lc))) mid @
      line_toks ?m ?lm @ lines_toks (?m + int (length (line_text ?lm))) post) (w, s) (?w, s')"
    by (rule sdp_lines_append [OF other_lines [OF assms(1)] sdp_lines_append [OF sdp_lines_one [OF cl]
          sdp_lines_append [OF other_lines [OF assms(2)] sdp_lines_append [OF sdp_lines_one [OF ml] other_lines [OF assms(3)]]]]])
  then have "sip_sdp L pid (lines_toks k (session pre net typ addr mid media port rest post)) (w, s) (?w, s')"
    by (auto simp: sdp_lines_def session_def line_toks_def)
  moreover have h: "parser_heap (snd (mapped L addr port s)) = parser_heap s" by (simp add: doMapping_cur_def)
  then have "ops (parser_heap s' ! pid) =
      ops (parser_heap s ! pid) @ piece_edits k (session_pieces [] pre net typ addr a mid media port q)"
    using assms(8) by (simp add: s'_def m0(3) session_pieces_def line_text_def algebra_simps)
  moreover have "flow_at s' i = flow_at (snd (mapped L addr port s)) i" for i by (simp add: s'_def m0(3))
  moreover have "length (parser_heap s') = length (parser_heap s)" by (simp add: s'_def m0(3) h)
  moreover have "same_tables s' (snd (mapped L addr port s))" by (simp add: s'_def m0(3))
  ultimately show thesis by (intro that)
qed

text \<open>
   The session description of a SIP message is translated.  When its body has one connection line and one media
  line after it, with any other lines around them, the scanner's tokens derive it, and the edits of its actions
  turn the message into the one with \<open>IP4\<close>, the external address and the external port of the mapping made
  for the announced pair, everything else as it was.
\<close>

theorem sip_session_translated:
  assumes "list_all sdp_other pre" and "list_all sdp_other mid" and "list_all sdp_other post"
    and "list_all word [net, typ, addr, media, port]" and "list_all word rest" and "rest \<noteq> []"
    and "fst (doMapping_cur L (IP6Port_of_string L (IPv6Addr_of_string L addr) port) s) = Some fid"
    and "pid < length (parser_heap s)" and "ops (parser_heap s ! pid) = []" and "sip_cond v = SIP_body"
  shows "\<exists>ts t s'. sip_lexed wins True (lines_text (session pre net typ addr mid media port rest post)) v (int (length front)) = Some ts \<and>
    sip_sdp L pid ts (w, s) (w\<lparr>c_ip := t\<rparr>, s') \<and>
    splice 0 0 (ops (parser_heap s' ! pid)) (map byte_of (front @ lines_text (session pre net typ addr mid media port rest post))) =
      map byte_of (front @ lines_text (session pre net ''IP4'' (getString4 L (getIP4 (ip4p (flow_at s' fid)))) mid media
        (getPortString (ip4p (flow_at s' fid))) rest post)) \<and>
    edits_ok 0 0 (ops (parser_heap s' ! pid)) (int (length (front @ lines_text (session pre net typ addr mid media port rest post))))"
proof -
  let ?S = "session pre net typ addr mid media port rest post"
  obtain a q where pair: "external_pair L addr port s = (a, q)" by (cases "external_pair L addr port s")
  have aq: "a = getString4 L (getIP4 (ip4p (flow_at (snd (mapped L addr port s)) fid)))"
    "q = getPortString (ip4p (flow_at (snd (mapped L addr port s)) fid))"
    using pair assms(7) by (auto simp: external_pair_def split: prod.splits option.splits)
  have "addr \<noteq> []" using assms(4) by (simp add: word_def)
  from session_derived [OF assms(1-3,6) this _ pair assms(8)] assms(7)
  obtain t s' where d: "sip_sdp L pid (lines_toks (int (length front)) ?S) (w, s) (w\<lparr>c_ip := t\<rparr>, s')"
    and o: "ops (parser_heap s' ! pid) = piece_edits (int (length front)) (session_pieces [] pre net typ addr a mid media port q)"
    and f: "\<And>i. flow_at s' i = flow_at (snd (mapped L addr port s)) i"
    using assms(9) by (metis append_Nil option.distinct(1))
  let ?ps = "session_pieces front pre net typ addr a mid media port q"
  have o': "ops (parser_heap s' ! pid) = piece_edits (int (length ([] :: string))) ?ps"
    unfolding o by (simp add: session_pieces_def algebra_simps)
  have ok: "list_all sdp_ok ?S"
    using assms(1-5) by (auto simp: session_def sdp_other_def sdp_ok_def list_all_iff is_lower_def)
  have "list_all (\<lambda>p. fst p \<noteq> []) (tl ?ps)" by (simp add: session_pieces_def)
  from edits_ok_pieces [OF this, of "[]" "session_end rest post", folded o', unfolded session_texts [OF assms(6)]]
    splice_pieces [of "[]" ?ps "session_end rest post", folded o', unfolded session_texts [OF assms(6)]]
  show ?thesis
    using body_lines [OF ok assms(10), of wins "int (length front)"] d
    by (intro exI [of _ "lines_toks (int (length front)) ?S"] exI [of _ t] exI [of _ s']) (simp add: aq f)
qed


text \<open>The body \<open>v=0\<close>, \<open>c=IN IP6 ::\<close>, \<open>t=0 0\<close>, \<open>m=audio 4000 RTP\<close> behind a head of 29 bytes.\<close>

lemma demo_words:
  "list_all word [''IN'', ''IP6'', ''::'', ''audio'', ''4000'']" "list_all word [''RTP'']" "list_all word [''0'', ''0'']" "word ''0''"
  by (simp_all add: word_def is_word_def is_eol_def carriage_def newline_def)

theorem sip_session_translated_witness:
  "\<exists>ts t s'. sip_lexed (\<lambda>_ _. True) True
      (lines_text (session [(CHR ''v'', [''0''])] ''IN'' ''IP6'' ''::'' [(CHR ''t'', [''0'', ''0''])] ''audio'' ''4000'' [''RTP''] []))
      (begin_sip SIP_body (new_sip_scan SIP_header)) 29 = Some ts \<and>
    sip_sdp demo_libc 0 ts (new_sip, demo_ready\<lparr>parser_heap := [demo_parser]\<rparr>) (new_sip\<lparr>c_ip := t\<rparr>, s') \<and>
    splice 0 0 (ops (parser_heap s' ! 0)) (map byte_of (replicate 29 (CHR ''x'') @
      lines_text (session [(CHR ''v'', [''0''])] ''IN'' ''IP6'' ''::'' [(CHR ''t'', [''0'', ''0''])] ''audio'' ''4000'' [''RTP''] []))) =
    map byte_of (replicate 29 (CHR ''x'') @ lines_text (session [(CHR ''v'', [''0''])] ''IN'' ''IP4'' ''10.20.30.40''
      [(CHR ''t'', [''0'', ''0''])] ''audio'' (getPortString (ip4p (flow_at s' 0))) [''RTP''] []))"
proof -
  let ?s = "demo_ready\<lparr>parser_heap := [demo_parser]\<rparr>"
  have o: "list_all sdp_other [(CHR ''v'', [''0''])]" "list_all sdp_other [(CHR ''t'', [''0'', ''0''])]" "list_all sdp_other []"
    using demo_words by (simp_all add: sdp_other_def sdp_ok_def is_lower_def)
  have m: "fst (doMapping_cur demo_libc (IP6Port_of_string demo_libc (IPv6Addr_of_string demo_libc ''::'') ''4000'') ?s) = Some 0"
    by (simp add: doMapping_cur_def doMapping_def demo_ready_def pool_ready_Cons Let_def)
  have p: "0 < length (parser_heap ?s)" "ops (parser_heap ?s ! 0) = []"
    by (simp_all add: demo_parser_def new_parser_def)
  have "getString4 demo_libc x = ''10.20.30.40''" for x by (simp add: getString4_def demo_libc_def)
  then show ?thesis
    using sip_session_translated [OF o demo_words(1,2) _ m p, of "begin_sip SIP_body (new_sip_scan SIP_header)" "\<lambda>_ _. True"
        "replicate 29 (CHR ''x'')" new_sip]
    by (simp only: length_replicate) auto
qed

end
