(* ===== verification/Sip_Props.thy ===== *)
theory Sip_Props
  imports Sip_Language
begin

text \<open>
  A SIP message as a whole: when every connection line is followed by at most one media line, the edits of the
  message's actions do not overlap, those of the body are the counted ones, and the length field is
  changed to the length of the new body.
\<close>

section \<open>The invariant\<close>

text \<open>The tokens that a later action may edit: the length field and the address of a connection line.\<close>

definition length_ranges :: "sip_vars \<Rightarrow> range list" where
  "length_ranges v = (if tok_s (content_len v) \<noteq> [] then [tok_range (content_len v)] else [])"

definition address_ranges :: "bool \<Rightarrow> sip_vars \<Rightarrow> range list" where
  "address_ranges u v = (if tok_s (c_ip v) \<noteq> [] \<and> \<not> u then [tok_range (c_ip v)] else [])"

text \<open>
  Up to position \<open>k\<close>: the edits and the pending tokens do not overlap, and the counted edits are those behind
  \<open>b\<close>, where the body starts.
\<close>

definition clean :: "int \<Rightarrow> nat \<Rightarrow> int \<Rightarrow> bool \<Rightarrow> sip_state \<Rightarrow> bool" where
  "clean b pid k u x \<longleftrightarrow>
     pid < length (parser_heap (snd x)) \<and>
     tidy 0 k (map op_range (ops (parser_heap (snd x) ! pid)) @ length_ranges (fst x) @ address_ranges u (fst x)) \<and>
     (\<forall>o'\<in>set (ops (parser_heap (snd x) ! pid)). edit_ok b o') \<and>
     (tok_s (content_len (fst x)) \<noteq> [] \<longrightarrow> tok_pos_end (content_len (fst x)) \<le> b) \<and>
     (tok_s (c_ip (fst x)) \<noteq> [] \<longrightarrow> b \<le> tok_pos (c_ip (fst x)))"

lemma clean_mono: "clean b pid k u x \<Longrightarrow> k \<le> n \<Longrightarrow> clean b pid n u x"
  unfolding clean_def using tidy_mono [of 0 k _ 0 n] by blast

text \<open>More edits, and perhaps other pending tokens.\<close>

lemma clean_add:
  assumes "clean b pid k u (v, s)" and "ops (parser_heap s' ! pid) = ops (parser_heap s ! pid) @ os"
    and "length (parser_heap s') = length (parser_heap s)"
    and "tidy 0 n (map op_range (ops (parser_heap s ! pid)) @ map op_range os @ length_ranges v' @ address_ranges u' v')"
    and "\<forall>o'\<in>set os. edit_ok b o'"
    and "tok_s (content_len v') \<noteq> [] \<Longrightarrow> tok_pos_end (content_len v') \<le> b"
    and "tok_s (c_ip v') \<noteq> [] \<Longrightarrow> b \<le> tok_pos (c_ip v')"
  shows "clean b pid n u' (v', s')"
  using assms by (auto simp: clean_def)

lemma cleanD:
  assumes "clean b pid k u (v, s)"
  shows "pid < length (parser_heap s)"
    and "tidy 0 k (map op_range (ops (parser_heap s ! pid)) @ length_ranges v @ address_ranges u v)"
    and "tok_s (content_len v) \<noteq> [] \<Longrightarrow> tok_pos_end (content_len v) \<le> b"
    and "tok_s (c_ip v) \<noteq> [] \<Longrightarrow> b \<le> tok_pos (c_ip v)"
  using assms by (simp_all add: clean_def)

section \<open>The actions keep the invariant\<close>

lemma sip_map_adds:
  assumes "sip_map L pid c ta tp s = Some s'" and "pid < length (parser_heap s)" and "\<And>a. getString4 L a \<noteq> []"
  obtains o1 o2 where "ops (parser_heap s' ! pid) = ops (parser_heap s ! pid) @ [o1, o2]"
    "op_range o1 = tok_range ta" "op_range o2 = tok_range tp" "op_cnt o1 = c" "op_cnt o2 = c"
    "newdata o1 \<noteq> []" "newdata o2 \<noteq> []" "length (parser_heap s') = length (parser_heap s)"
proof -
  have h: "parser_heap (snd (doMapping_cur L a s)) = parser_heap s" for a
    by (simp add: doMapping_cur_def)
  have p: "getPortString q \<noteq> []" for q
    using decimal.simps [of "unat (ntohs (getPort4 q))"] by (simp add: getPortString_def)
  have "\<exists>o1 o2. ops (parser_heap s' ! pid) = ops (parser_heap s ! pid) @ [o1, o2] \<and>
    op_range o1 = tok_range ta \<and> op_range o2 = tok_range tp \<and> op_cnt o1 = c \<and> op_cnt o2 = c \<and>
    newdata o1 \<noteq> [] \<and> newdata o2 \<noteq> [] \<and> length (parser_heap s') = length (parser_heap s)"
    using assms h p
    by (auto simp: sip_map_def Let_def split_beta bind_eq_Some_conv token_operation op_range_def tok_range_def)
  with that show thesis by blast
qed

text \<open>An address and a port of the head.\<close>

lemma clean_head_map:
  assumes "clean b pid k u (v, s)" and "sip_map L pid False ta tp s = Some s'" and "\<And>a. getString4 L a \<noteq> []"
    and "tidy k n [tok_range ta, tok_range tp]" and "0 \<le> k" and "k \<le> n" and "n \<le> b"
  shows "clean b pid n u (v, s')"
proof -
  obtain o1 o2 where o: "ops (parser_heap s' ! pid) = ops (parser_heap s ! pid) @ [o1, o2]"
    "op_range o1 = tok_range ta" "op_range o2 = tok_range tp" "op_cnt o1 = False" "op_cnt o2 = False"
    "newdata o1 \<noteq> []" "newdata o2 \<noteq> []" "length (parser_heap s') = length (parser_heap s)"
    by (rule sip_map_adds [OF assms(2) cleanD(1) [OF assms(1)] assms(3)])
  note t = tidy_append [OF cleanD(2) [OF assms(1)] assms(4,5,6)]
  have "edit_ok b o1" "edit_ok b o2"
    using o(2-7) assms(4,7) by (auto simp: edit_ok_def tidy_def within_def op_range_def tok_range_def)
  moreover have "tidy 0 n (map op_range (ops (parser_heap s ! pid)) @ map op_range [o1, o2] @ length_ranges v @ address_ranges u v)"
    by (rule tidy_sub [OF t]) (use t o(2,3) in \<open>auto simp: tidy_def\<close>)
  ultimately show ?thesis
    using clean_add [OF assms(1) o(1,8)] cleanD(3,4) [OF assms(1)] by simp
qed

lemma clean_header_line:
  assumes "sip_header_line L pid ts x y" and "clean b pid k u x" and "laid k (map snd ts) n" and "0 \<le> k" and "n \<le> b"
    and "\<And>a. getString4 L a \<noteq> []"
  shows "clean b pid n u y"
  using assms(1)
proof cases
  case (header_ident t1 t2 t3 t4 v s)
  have kn: "k \<le> n" by (rule laid_le [OF assms(3)])
  show ?thesis
  proof (cases "tok_s t1 = ''Content-Length''")
    case True
    have c: "clean b pid k u (v, s)" using assms(2) header_ident(2) by simp
    note t = cleanD(2) [OF c]
    have t3: "tidy k n [tok_range t3]" "tok_pos_end t3 \<le> n"
      using laid_tidy [OF assms(3)] tidy_sub [of k n _ "[tok_range t3]"] header_ident(1)
      by (auto simp: tidy_def within_def tok_range_def)
    have "tidy 0 k (map op_range (ops (parser_heap s ! pid)) @ address_ranges u v)"
      by (rule tidy_sub [OF t]) (use t in \<open>auto simp: tidy_def\<close>)
    note t' = tidy_append [OF this t3(1) assms(4) kn]
    have "tidy 0 n (map op_range (ops (parser_heap s ! pid)) @ map op_range [] @
        length_ranges (v\<lparr>content_len := t3\<rparr>) @ address_ranges u (v\<lparr>content_len := t3\<rparr>))"
      by (rule tidy_sub [OF t']) (use t' in \<open>auto simp: tidy_def length_ranges_def address_ranges_def\<close>)
    then have "clean b pid n u (v\<lparr>content_len := t3\<rparr>, s)"
      by (rule clean_add [OF c _ refl, rotated 1]) (use t3(2) assms(5) cleanD(4) [OF c] in simp_all)
    with True header_ident(3) show ?thesis by (simp add: sip_header_def)
  next
    case False
    with header_ident assms(2) clean_mono [OF _ kn] show ?thesis by (simp add: sip_header_def)
  qed
next
  case (header_via us t4 t5 s s' t1 t2 t3 t7 v)
  have "tidy k n [tok_range t4, tok_range t5]"
    using laid_tidy [OF assms(3)] by (rule tidy_sub) (use laid_tidy [OF assms(3)] header_via(1) in \<open>auto simp: tidy_def\<close>)
  with header_via assms(2,4,5,6) clean_head_map [of b pid k u v s L t4 t5 s' n] laid_le [OF assms(3)]
  show ?thesis by (simp add: sip_via_def)
next
  case (header_contact t7 t9 s s' t1 t2 t3 t4 t5 t6 t8 t10 v)
  have "tidy k n [tok_range t7, tok_range t9]"
    using laid_tidy [OF assms(3)] by (rule tidy_sub) (use laid_tidy [OF assms(3)] header_contact(1) in \<open>auto simp: tidy_def\<close>)
  with header_contact assms(2,4,5,6) clean_head_map [of b pid k u v s L t7 t9 s' n] laid_le [OF assms(3)]
  show ?thesis by (simp add: sip_contact_def)
qed

lemma clean_headers:
  assumes "sip_headers L pid ts x y" and "clean b pid k u x" and "laid k (map snd ts) n" and "0 \<le> k" and "n \<le> b"
    and "\<And>a. getString4 L a \<noteq> []"
  shows "clean b pid n u y"
  using assms(1-3,5)
proof (induction arbitrary: n)
  case (headers_one ts x y)
  from clean_header_line [OF headers_one(1,2,3) assms(4) headers_one(4) assms(6)] show ?case .
next
  case (headers_more ts x y us z)
  then obtain j where j: "laid k (map snd ts) j" "laid j (map snd us) n" by (auto simp: laid_append)
  have "clean b pid j u y"
    using headers_more j laid_le [OF j(2)] by auto
  from clean_header_line [OF headers_more(2) this j(2) _ headers_more(6) assms(6)] laid_le [OF j(1)] assms(4)
  show ?case by simp
qed

lemma clean_sdp_line:
  assumes "sip_sdp_line L pid ts x y" and "clean b pid k u x" and "laid k (map snd ts) n" and "0 \<le> k" and "b \<le> k"
    and "one_media u (map fst ts)" and "\<And>a. getString4 L a \<noteq> []"
  shows "clean b pid n (media_used u (map fst ts)) y"
  using assms(1)
proof cases
  case (sdp_char us t1 t2 t4)
  with assms(2) clean_mono [OF _ laid_le [OF assms(3)]] show ?thesis by simp
next
  case (sdp_c t1 t2 t3 t4 t5 t6 v s)
  let ?v = "v\<lparr>c_ip := t5\<rparr>"
  define o1 where "o1 = \<lparr>start_pos = tok_pos t4, end_pos = tok_pos_end t4, op = REPLACE, newdata = ''IP4'', op_cnt = True\<rparr>"
  have c: "clean b pid k u (v, s)" using assms(2) sdp_c(2) by simp
  have y: "y = (?v, upd_parser pid (addOperation o1) s)"
    using sdp_c(3) by (simp add: sip_c_line_def token_operation o1_def)
  note t = cleanD(2) [OF c]
  have t45: "tidy k n [tok_range t4, tok_range t5]"
    using laid_tidy [OF assms(3)] by (rule tidy_sub) (use laid_tidy [OF assms(3)] sdp_c(1) in \<open>auto simp: tidy_def\<close>)
  have "tidy 0 k (map op_range (ops (parser_heap s ! pid)) @ length_ranges v)"
    by (rule tidy_sub [OF t]) (use t in \<open>auto simp: tidy_def\<close>)
  note t' = tidy_append [OF this t45 assms(4) laid_le [OF assms(3)]]
  have o1: "op_range o1 = tok_range t4" by (simp add: o1_def op_range_def tok_range_def)
  have "tidy 0 n (map op_range (ops (parser_heap s ! pid)) @ map op_range [o1] @ length_ranges ?v @ address_ranges False ?v)"
    by (rule tidy_sub [OF t']) (use t' o1 in \<open>auto simp: tidy_def length_ranges_def address_ranges_def\<close>)
  moreover have "edit_ok b o1" "b \<le> tok_pos t5"
    using t45 assms(5) by (auto simp: edit_ok_def o1_def tidy_def within_def tok_range_def)
  ultimately have "clean b pid n False (?v, upd_parser pid (addOperation o1) s)"
    by (intro clean_add [OF c, where os = "[o1]"]) (use cleanD(1,3) [OF c] in simp_all)
  with y sdp_c(1) show ?thesis by simp
next
  case (sdp_m us t4 v s s' t1 t2 t3 t6)
  have c: "clean b pid k u (v, s)" and u: "\<not> u" using assms(2,6) sdp_m by simp_all
  have used: "media_used u (map fst ts) = True" using sdp_m by simp
  note t = cleanD(2) [OF c]
  show ?thesis
  proof (cases "tok_s (c_ip v) = []")
    case True
    then have "s' = s" using sdp_m(5) by (simp add: sip_m_line_def)
    moreover have "clean b pid k True (v, s)" using c True by (simp add: clean_def address_ranges_def)
    ultimately show ?thesis using clean_mono [OF _ laid_le [OF assms(3)]] sdp_m used by simp
  next
    case False
    then have m: "sip_map L pid True (c_ip v) t4 s = Some s'" using sdp_m(5) by (simp add: sip_m_line_def)
    obtain o1 o2 where o: "ops (parser_heap s' ! pid) = ops (parser_heap s ! pid) @ [o1, o2]"
      "op_range o1 = tok_range (c_ip v)" "op_range o2 = tok_range t4" "op_cnt o1 = True" "op_cnt o2 = True"
      "newdata o1 \<noteq> []" "newdata o2 \<noteq> []" "length (parser_heap s') = length (parser_heap s)"
      by (rule sip_map_adds [OF m cleanD(1) [OF c] assms(7)])
    have t4: "tidy k n [tok_range t4]"
      using laid_tidy [OF assms(3)] by (rule tidy_sub) (use sdp_m(1) in auto)
    note t' = tidy_append [OF t t4 assms(4) laid_le [OF assms(3)]]
    have a: "address_ranges u v = [tok_range (c_ip v)]" using False u by (simp add: address_ranges_def)
    have "tidy 0 n (map op_range (ops (parser_heap s ! pid)) @ map op_range [o1, o2] @ length_ranges v @ address_ranges True v)"
      by (rule tidy_sub [OF t']) (use t' o(2,3) a in \<open>auto simp: tidy_def address_ranges_def\<close>)
    moreover have "edit_ok b o1" "edit_ok b o2"
      using o(2-7) t4 assms(5) cleanD(4) [OF c False]
      by (auto simp: edit_ok_def tidy_def within_def op_range_def tok_range_def)
    ultimately have "clean b pid n True (v, s')"
      using clean_add [OF c o(1,8)] cleanD(3,4) [OF c] by simp
    with sdp_m used show ?thesis by simp
  qed
qed

lemma clean_sdp:
  assumes "sip_sdp L pid ts x y" and "clean b pid k u x" and "laid k (map snd ts) n" and "0 \<le> k" and "b \<le> k"
    and "one_media u (map fst ts)" and "\<And>a. getString4 L a \<noteq> []"
  shows "clean b pid n (media_used u (map fst ts)) y"
  using assms(1-3,6)
proof (induction arbitrary: n)
  case (sdp_one ts x y)
  from clean_sdp_line [OF sdp_one(1,2,3) assms(4,5) sdp_one(4) assms(7)] show ?case .
next
  case (sdp_more ts x y us z)
  then obtain j where j: "laid k (map snd ts) j" "laid j (map snd us) n" by (auto simp: laid_append)
  have "clean b pid j (media_used u (map fst ts)) y"
    using sdp_more j by auto
  from clean_sdp_line [OF sdp_more(2) this j(2) _ _ _ assms(7)] laid_le [OF j(1)] assms(4,5) sdp_more(6)
  show ?case by simp
qed

section \<open>The message\<close>

lemma sip_derived_clean:
  assumes "sip_derived L pid hs bs s x" and "laid 0 (map snd hs) b" and "laid b (map snd bs) n"
    and "one_media False (map fst bs)" and "pid < length (parser_heap s)" and "ops (parser_heap s ! pid) = []"
    and "\<And>a. getString4 L a \<noteq> []"
  shows "clean b pid n (media_used False (map fst bs)) x"
  using assms(1)
proof cases
  case (message hs' y t1 t2 t3 t4 t5)
  have "map snd hs = [t1, t2, t3, t4] @ map snd hs' @ [t5]" by (simp add: message(1))
  with assms(2) have "laid 0 ([t1, t2, t3, t4] @ map snd hs' @ [t5]) b" by (simp only:)
  then obtain i j where l: "laid 0 [t1, t2, t3, t4] i" "laid i (map snd hs') j" "laid j [t5] b"
    unfolding laid_append by blast
  note le = laid_le [OF l(1)] laid_le [OF l(2)] laid_le [OF l(3)]
  have "clean b pid 0 False (new_sip, s)"
    using assms(5,6) by (simp add: clean_def tidy_def length_ranges_def address_ranges_def new_sip_def TokenType_def)
  from clean_mono [OF this le(1)] have "clean b pid i False (new_sip, s)" .
  from clean_headers [OF message(2) this l(2) le(1,3) assms(7)] have "clean b pid j False y" .
  from clean_mono [OF this le(3)] have "clean b pid b False y" .
  from clean_sdp [OF message(3) this assms(3) _ order_refl assms(4,7)] le show ?thesis by simp
qed

lemma print_int_nonempty: "print_int i \<noteq> []"
  using scan_print_int [of i] by (auto simp: scan_int_def)

text \<open>
   A SIP message as a whole.  A message of the grammar, with its tokens where the scanner puts them, at most
  one media line to a connection line and a right length field: the edits its actions leave do not
  overlap, applied to the message they change the head by the uncounted and the body by the counted ones,
  and the length field is edited to the length of the new body.
\<close>

theorem sip_message_rewritten:
  assumes "sip_derived L pid hs bs s (v, s1)" and "s' = sip_message u pid v s1" and "os = ops (parser_heap s' ! pid)"
    and "laid 0 (map snd hs) (int (length head))"
    and "laid (int (length head)) (map snd bs) (int (length head + length body))"
    and "one_media False (map fst bs)" and "pid < length (parser_heap s)" and "ops (parser_heap s ! pid) = []"
    and "\<And>a. getString4 L a \<noteq> []" and "std_sort srt"
    and "tok_s (content_len v) \<noteq> []" and "scan_int (tok_s (content_len v)) = Some (int (length body))"
    and "body' = splice (int (length head)) 0 (srt (filter op_cnt os)) body"
  shows "edits_ok 0 0 (srt os) (int (length (head @ body))) \<and>
    splice 0 0 (srt os) (head @ body) = splice 0 0 (srt (filter (\<lambda>o'. \<not> op_cnt o') os)) head @ body' \<and>
    (\<exists>o'\<in>set os. start_pos o' = tok_pos (content_len v) \<and> end_pos o' = tok_pos_end (content_len v) \<and>
       scan_int (newdata o') = Some (int (length body')))"
proof -
  let ?b = "int (length head)" and ?n = "int (length head + length body)"
  let ?os1 = "ops (parser_heap s1 ! pid)"
  have c: "clean ?b pid ?n (media_used False (map fst bs)) (v, s1)"
    by (rule sip_derived_clean [OF assms(1,4,5,6,7,8,9)])
  define t where "t = tok_add_int u (content_len v) (totalDelta (parser_heap s1 ! pid))"
  define o' where "o' = \<lparr>start_pos = tok_pos (content_len v), end_pos = tok_pos_end (content_len v), op = REPLACE,
    newdata = tok_s t, op_cnt = False\<rparr>"
  have os: "os = ?os1 @ [o']"
    using assms(11) cleanD(1) [OF c] by (simp add: assms(2,3) sip_message_def token_operation o'_def t_def)
  have ts: "tok_s t = print_int (int (length body) + totalDelta (parser_heap s1 ! pid))"
    by (simp add: t_def tok_add_int_def TokenType_def assms(12))
  have "edit_ok ?b o'"
    using cleanD(3) [OF c assms(11)] by (simp add: edit_ok_def o'_def ts print_int_nonempty)
  then have ok: "\<forall>o'\<in>set os. edit_ok ?b o'" using c by (auto simp: os clean_def)
  have "length_ranges v = [op_range o']"
    using assms(11) by (simp add: length_ranges_def op_range_def tok_range_def o'_def)
  then have tidy: "tidy 0 ?n (map op_range os)"
    using cleanD(2) [OF c] tidy_sub [OF cleanD(2) [OF c], of "map op_range os"] by (auto simp: os tidy_def)
  note parts = splice_head_body [OF assms(10) tidy ok refl refl]
  have "int (length body') = int (length body) + totalDelta (parser_heap s1 ! pid)"
    using length_splice [OF parts(3)] by (simp add: assms(13) os o'_def totalDelta_sum sum_op_delta_sort [OF assms(10)])
  then have "scan_int (newdata o') = Some (int (length body'))" by (simp add: o'_def ts)
  with parts(1,2) show ?thesis unfolding assms(13) [symmetric] by (auto simp: os o'_def)
qed

text \<open>
  A message with the head \<open>M a b\<close>, \<open>Content-Length: 31\<close> and the body \<open>c=IN IP6 ::\<close>, \<open>m=audio 4000 RTP\<close>.
\<close>

definition demo_head :: sip_tokens where
  "demo_head =
     [(METHOD, TokenType ''M'' 0 1), (SIP_TEXT, TokenType ''a'' 2 3), (SIP_TEXT, TokenType ''b'' 4 5),
      (CRLF, TokenType crlf 5 7)] @
     [(HEADER_IDENT, TokenType ''Content-Length'' 7 21), (SIP_CHAR (CHR '':''), TokenType '':'' 21 22),
      (HEADER_VALUE, TokenType ''31'' 23 25), (CRLF, TokenType crlf 25 27)] @
     [(CRLF, TokenType crlf 27 29)]"

definition demo_body :: sip_tokens where
  "demo_body =
     [(CHAR_c, TokenType ''c'' 29 30), (SIP_CHAR (CHR ''=''), TokenType ''='' 30 31), (SIP_TEXT, TokenType ''IN'' 31 33),
      (SIP_TEXT, TokenType ''IP6'' 34 37), (SIP_TEXT, TokenType ''::'' 38 40), (CRLF, TokenType crlf 40 42)] @
     ([(CHAR_m, TokenType ''m'' 42 43), (SIP_CHAR (CHR ''=''), TokenType ''='' 43 44), (SIP_TEXT, TokenType ''audio'' 44 49),
       (SIP_TEXT, TokenType ''4000'' 50 54)] @ [(SIP_TEXT, TokenType ''RTP'' 55 58)] @ [(CRLF, TokenType crlf 58 60)])"

lemma demo_derived:
  obtains v s1 where "sip_derived demo_libc 0 demo_head demo_body (demo_ready\<lparr>parser_heap := [demo_parser]\<rparr>) (v, s1)"
    "content_len v = TokenType ''31'' 23 25"
proof -
  let ?s = "demo_ready\<lparr>parser_heap := [demo_parser]\<rparr>" and ?v = "new_sip\<lparr>content_len := TokenType ''31'' 23 25\<rparr>"
  let ?c = "TokenType ''::'' 38 40"
  have h: "sip_headers demo_libc 0 [(HEADER_IDENT, TokenType ''Content-Length'' 7 21), (SIP_CHAR (CHR '':''), TokenType '':'' 21 22),
      (HEADER_VALUE, TokenType ''31'' 23 25), (CRLF, TokenType crlf 25 27)] (new_sip, ?s) (?v, ?s)"
    using headers_one [OF header_ident [of demo_libc 0 "TokenType ''Content-Length'' 7 21" "TokenType '':'' 21 22"
          "TokenType ''31'' 23 25" "TokenType crlf 25 27" new_sip ?s]]
    by (simp add: sip_header_def TokenType_def)
  define s2 where "s2 = snd (sip_c_line 0 (TokenType ''IP6'' 34 37) ?c ?v ?s)"
  let ?v2 = "?v\<lparr>c_ip := ?c\<rparr>"
  have c: "sip_c_line 0 (TokenType ''IP6'' 34 37) ?c ?v ?s = (?v2, s2)"
    by (simp add: s2_def sip_c_line_def)
  have "fst (doMapping_cur demo_libc a s2) = Some 0" for a
    by (simp add: s2_def sip_c_line_def doMapping_cur_def doMapping_def demo_ready_def pool_ready_Cons Let_def)
  then obtain s1 where m: "sip_m_line demo_libc 0 (TokenType ''4000'' 50 54) ?v2 s2 = Some s1"
    by (simp add: sip_m_line_def sip_map_def TokenType_def Let_def split_beta)
  have "sip_sdp demo_libc 0 demo_body (?v, ?s) (?v2, s1)"
    unfolding demo_body_def
    by (rule sdp_more [OF sdp_one sdp_m [OF trailing_one m]]) (use sdp_c [of demo_libc 0] c in metis)
  from message [OF h this] show thesis
    by (rule that [unfolded demo_head_def]) (simp add: new_sip_def)
qed

theorem sip_message_rewritten_witness:
  "\<exists>v s1 o' body'. sip_derived demo_libc 0 demo_head demo_body (demo_ready\<lparr>parser_heap := [demo_parser]\<rparr>) (v, s1) \<and>
     o' \<in> set (ops (parser_heap (sip_message 0 0 v s1) ! 0)) \<and>
     body' = splice 29 0 (sort_key start_pos (filter op_cnt (ops (parser_heap (sip_message 0 0 v s1) ! 0))))
       (map byte_of (''c=IN IP6 ::'' @ crlf @ ''m=audio 4000 RTP'' @ crlf)) \<and>
     start_pos o' = 23 \<and> scan_int (newdata o') = Some (int (length body'))"
proof -
  obtain v s1 where d: "sip_derived demo_libc 0 demo_head demo_body (demo_ready\<lparr>parser_heap := [demo_parser]\<rparr>) (v, s1)"
    "content_len v = TokenType ''31'' 23 25" by (rule demo_derived)
  have l: "laid 0 (map snd demo_head) 29" "laid 29 (map snd demo_body) 60"
    by (simp_all add: demo_head_def demo_body_def TokenType_def crlf_def)
  have m: "one_media False (map fst demo_body)" by (simp add: demo_body_def)
  have v: "tok_s (content_len v) \<noteq> []" "scan_int (tok_s (content_len v)) = Some 31"
    by (simp_all add: d(2) TokenType_def scan_int_def is_space_def is_digit_def digits_val_def digit_val_def)
  have n: "\<And>a. getString4 demo_libc a \<noteq> []" by (simp add: getString4_def demo_libc_def)
  show ?thesis
    using sip_message_rewritten [OF d(1) refl refl, of "replicate 29 0"
        "map byte_of (''c=IN IP6 ::'' @ crlf @ ''m=audio 4000 RTP'' @ crlf)" "sort_key start_pos" _ 0, OF _ _ m _ _ n std_sort_sort_key v(1) _ refl]
      l v d std_sort_sort_key
    by (auto simp: crlf_def TokenType_def demo_parser_def new_parser_def)
qed

end
