(* ===== verification/Sip_Message.thy ===== *)
theory Sip_Message
  imports Sip_Session Sip_Props
begin

text \<open>
  A whole SIP request, from its text to its translation: a request line, a Via line with an IPv6 address, other
  header lines among them the length of the body, and a session description.
\<close>

section \<open>The scanner in the head\<close>

lemma matches_plus: "matches (plus p) ys \<longleftrightarrow> ys \<noteq> [] \<and> list_all p ys"
  unfolding matches_simps matches_Star_Chars
proof
  assume "ys \<noteq> [] \<and> list_all p ys"
  then obtain c cs where "ys = [c] @ cs" "p c" "list_all p cs" by (cases ys) auto
  then show "\<exists>xs zs. ys = xs @ zs \<and> (\<exists>c. xs = [c] \<and> p c) \<and> list_all p zs" by blast
qed auto

lemma longest_until:
  assumes "a \<noteq> []" and "q \<notin> set a"
  shows "longest (a @ q # s) (Seq (plus (\<lambda>c. c \<noteq> q)) (Chars (\<lambda>c. c = q))) = Some (Suc (length a))"
proof -
  have m: "matches (Seq (plus (\<lambda>c. c \<noteq> q)) (Chars (\<lambda>c. c = q))) xs \<longleftrightarrow> (\<exists>ys. xs = ys @ [q] \<and> ys \<noteq> [] \<and> q \<notin> set ys)" for xs
  proof -
    have "matches (Seq (plus (\<lambda>c. c \<noteq> q)) (Chars (\<lambda>c. c = q))) xs \<longleftrightarrow>
        (\<exists>ys zs. xs = ys @ zs \<and> matches (plus (\<lambda>c. c \<noteq> q)) ys \<and> matches (Chars (\<lambda>c. c = q)) zs)"
      by (rule matches_simps(5))
    then show ?thesis unfolding matches_plus matches_simps(3) list_all_iff by auto
  qed
  have "k = Suc (length a)" if "k \<le> length (a @ q # s)" "take k (a @ q # s) = ys @ [q]" "q \<notin> set ys" for k ys
  proof -
    have k: "k = Suc (length ys)" using that(1) arg_cong [OF that(2), of length] by simp
    have ys: "ys = take (length ys) (a @ q # s)"
    proof -
      have "ys = take (length ys) (take k (a @ q # s))" unfolding that(2) by simp
      also have "\<dots> = take (length ys) (a @ q # s)" unfolding take_take k by simp
      finally show ?thesis .
    qed
    have at: "(a @ q # s) ! length ys = q"
      by (metis that(2) k nth_take lessI nth_append_length)
    have "\<not> length ys < length a" using at assms(2) nth_mem [of "length ys" a] by (auto simp: nth_append)
    moreover have "\<not> length a < length ys"
    proof
      assume l: "length a < length ys"
      then have "ys ! length a = q" using that(1) k arg_cong [OF ys, of "\<lambda>l. l ! length a"] by (simp add: nth_append)
      with that(3) nth_mem [OF l] show False by simp
    qed
    ultimately show ?thesis using k by simp
  qed
  then have "\<forall>k\<le>length (a @ q # s). (\<exists>ys. take k (a @ q # s) = ys @ [q] \<and> ys \<noteq> [] \<and> q \<notin> set ys) \<longrightarrow> k \<le> Suc (length a)"
    by blast
  moreover have "take (Suc (length a)) (a @ q # s) = a @ [q]" "Suc (length a) \<le> length (a @ q # s)" by simp_all
  ultimately show ?thesis
    using assms unfolding longest_eq is_longest_def m by blast
qed

text \<open>Words of the request line.\<close>

lemma initial_word:
  assumes "word w" and "s \<noteq> [] \<longrightarrow> \<not> is_word (hd s)" and "sip_cond v = SIP_INITIAL" and "\<And>n k. wins n k"
  shows "sip_lexed wins b (w @ s) v k =
    map_option ((#) (if b then METHOD else SIP_TEXT, tok_at k w)) (sip_lexed wins False s v (k + int (length w)))"
proof -
  obtain c cs where w: "w = c # cs" using assms(1) by (cases w) (auto simp: word_def)
  have c: "is_word c" "c \<noteq> carriage" "c \<noteq> CHR '' ''" using assms(1) by (auto simp: w word_def)
  have tw: "takeWhile is_word (w @ s) = w"
    using takeWhile_upto [of is_word w s] assms(1,2) by (auto simp: word_def)
  have "ranked_rule wins b (w @ s) (sip_rules v) = Some (length w, sip_initial_rules ! (if b then 0 else 1))"
    using c tw assms(3,4) by (simp add: w lex_simps sip_initial_rules_def ranked_rule_def)
  moreover have "last w \<noteq> newline" using assms(1) last_in_set [of w] by (metis is_word_simps(3) list_all_iff word_def)
  ultimately show ?thesis
    using sip_token [where b = b and m = w and s = s and v = v and r = "sip_initial_rules ! (if b then 0 else 1)"
        and a = "if b then METHOD else SIP_TEXT"] assms(1)
    by (simp add: word_def sip_initial_rules_def sip_rule_def)
qed

lemma initial_space:
  assumes "sip_cond v = SIP_INITIAL"
  shows "sip_lexed wins False (CHR '' '' # s) v k = sip_lexed wins False s v (k + 1)"
proof -
  have "ranked_rule wins False ('' '' @ s) (sip_rules v) = Some (length '' '', sip_initial_rules ! 2)"
    using assms by (simp add: lex_simps sip_initial_rules_def ranked_rule_def)
  from sip_skipped [OF this, of v] show ?thesis
    by (simp add: sip_initial_rules_def sip_skip_def newline_def)
qed

lemma initial_end:
  assumes "sip_cond v = SIP_INITIAL"
  shows "sip_lexed wins False (eol @ s) v k =
    map_option ((#) (CRLF, tok_at k eol)) (sip_lexed wins True s (begin_sip SIP_header v) (k + 2))"
proof -
  have "ranked_rule wins False (eol @ s) (sip_rules v) = Some (length eol, sip_initial_rules ! 3)"
    using assms by (simp add: lex_simps sip_initial_rules_def ranked_rule_def)
  from sip_token [OF this, of CRLF "begin_sip SIP_header v"] show ?thesis
    by (simp add: sip_initial_rules_def sip_rule_def)
qed

definition request_line :: "string \<Rightarrow> string \<Rightarrow> string \<Rightarrow> string" where
  "request_line m u ver = m @ '' '' @ u @ '' '' @ ver @ eol"

definition request_toks :: "int \<Rightarrow> string \<Rightarrow> string \<Rightarrow> string \<Rightarrow> sip_tokens" where
  "request_toks k m u ver =
     [(METHOD, tok_at k m), (SIP_TEXT, tok_at (k + int (length m) + 1) u),
      (SIP_TEXT, tok_at (k + int (length m) + int (length u) + 2) ver),
      (CRLF, tok_at (k + int (length m) + int (length u) + int (length ver) + 2) eol)]"

lemma request_scans:
  assumes "list_all word [m, u, ver]" and "sip_cond v = SIP_INITIAL" and "\<And>n k. wins n k"
  shows "scans wins (request_line m u ver) v k (request_toks k m u ver) (begin_sip SIP_header v)"
  unfolding scans_def
proof
  fix s
  have w: "sip_lexed wins b (x @ t) v j = map_option ((#) (if b then METHOD else SIP_TEXT, tok_at j x))
      (sip_lexed wins False t v (j + int (length x)))" if "word x" "t \<noteq> [] \<longrightarrow> \<not> is_word (hd t)" for b x t j
    by (rule initial_word [OF that assms(2,3)])
  note sp = initial_space [OF assms(2)] and e = initial_end [OF assms(2)]
  show "sip_lexed wins True (request_line m u ver @ s) v k = map_option ((@) (request_toks k m u ver))
      (sip_lexed wins True s (begin_sip SIP_header v) (k + int (length (request_line m u ver))))"
    using assms(1) w [of m "CHR '' '' # u @ '' '' @ ver @ eol @ s" True]
      w [of u "CHR '' '' # ver @ eol @ s" False] w [of ver "eol @ s" False]
    by (simp add: request_line_def request_toks_def sp e [simplified] append_fun option.map_comp comp_def ac_simps)
qed

section \<open>Via and Contact\<close>

definition via_char :: "char \<Rightarrow> bool" where
  "via_char c \<longleftrightarrow> \<not> is_blank c \<and> \<not> is_eol c \<and> c \<notin> set ''[]:;''"

definition contact_char :: "char \<Rightarrow> bool" where
  "contact_char c \<longleftrightarrow> \<not> is_blank c \<and> \<not> is_eol c \<and> c \<notin> set ''[]:@''"

lemmas sip_value_rules_simps = sip_via_rules_def sip_contact_rules_def bracketed_def sip_rule_def sip_char_rule_def sip_skip_def

lemma last_not_newline: "list_all p w \<Longrightarrow> \<not> p newline \<Longrightarrow> w \<noteq> [] \<Longrightarrow> last w \<noteq> newline"
  using last_in_set [of w] by (metis list_all_iff)

lemma via_text:
  assumes "w \<noteq> []" and "list_all via_char w" and "s \<noteq> [] \<longrightarrow> \<not> via_char (hd s)" and "sip_cond v = SIP_header_via"
  shows "sip_lexed wins False (w @ s) v k =
    map_option ((#) (SIP_TEXT, tok_at k w)) (sip_lexed wins False s v (k + int (length w)))"
proof -
  obtain c cs where w: "w = c # cs" using assms(1) by (cases w) auto
  have c: "via_char c" "c \<noteq> carriage" "c \<noteq> CHR ''[''" using assms(2) by (auto simp: w via_char_def)
  have p: "(\<lambda>c. \<not> is_blank c \<and> \<not> is_eol c \<and> c \<notin> set ''[]:;'') = via_char" by (simp add: fun_eq_iff via_char_def)
  have tw: "takeWhile via_char (cs @ s) = cs" by (rule takeWhile_upto) (use assms(2,3) in \<open>auto simp: w\<close>)
  have "ranked_rule wins False (w @ s) (sip_rules v) = Some (length w, sip_via_rules ! 0)"
    using c tw assms(4) unfolding sip_rules_def sip_via_rules_def p
    by (simp add: w lex_simps ranked_rule_def bracketed_def)
  from sip_token [OF this assms(1), of SIP_TEXT v k] show ?thesis
    using last_not_newline [OF assms(2) _ assms(1)] by (simp add: sip_via_rules_def sip_rule_def via_char_def)
qed

lemma via_skip:
  assumes "sip_cond v = SIP_header_via" and "c \<in> set '' :;''"
  shows "sip_lexed wins False (c # s) v k = sip_lexed wins False s v (k + 1)"
proof -
  have n: "c \<noteq> newline" "c \<noteq> carriage" "c \<noteq> CHR ''[''" "is_blank c \<or> c \<in> set ''[]:;''"
    using assms(2) by (auto simp: newline_def carriage_def is_blank_def)
  have "ranked_rule wins False ([c] @ s) (sip_rules v) = Some (length [c], sip_via_rules ! 3)"
    using assms n by (auto simp: lex_simps ranked_rule_def sip_value_rules_simps)
  from sip_skipped [OF this, of v] n show ?thesis by (simp add: sip_value_rules_simps)
qed

lemma bracketed_token:
  assumes "a \<noteq> []" and "CHR '']'' \<notin> set a" and "sip_cond v = SIP_header_via \<or> sip_cond v = SIP_header_contact"
  shows "sip_lexed wins False (CHR ''['' # a @ CHR '']'' # s) v k =
    map_option ((#) (IP6ADDR, tok_at k (CHR ''['' # a @ '']''))) (sip_lexed wins False s v (k + int (length a) + 2))"
proof -
  let ?m = "CHR ''['' # a @ '']''"
  have n: "CHR ''['' \<noteq> newline" "CHR ''['' \<noteq> carriage" "CHR '']'' \<noteq> newline" by (simp_all add: newline_def carriage_def)
  have "\<exists>i. ranked_rule wins False (?m @ s) (sip_rules v) = Some (length ?m, sip_rules v ! i) \<and>
      action (sip_rules v ! i) ?m v = (Some IP6ADDR, v)"
    using assms(3)
  proof
    assume "sip_cond v = SIP_header_via"
    then show ?thesis using longest_until [OF assms(1,2), of s] assms(1) n
      by (intro exI [of _ 1]) (simp add: lex_simps ranked_rule_def sip_value_rules_simps)
  next
    assume "sip_cond v = SIP_header_contact"
    then show ?thesis using longest_until [OF assms(1,2), of s] assms(1) n
      by (intro exI [of _ 2]) (simp add: lex_simps ranked_rule_def sip_value_rules_simps)
  qed
  then obtain i where i: "ranked_rule wins False (?m @ s) (sip_rules v) = Some (length ?m, sip_rules v ! i)"
    "action (sip_rules v ! i) ?m v = (Some IP6ADDR, v)" by blast
  from sip_token [OF i(1) _ i(2), of k] n show ?thesis by (simp add: ac_simps)
qed

lemma header_value_end:
  assumes "sip_cond v = SIP_header_via \<or> sip_cond v = SIP_header_contact"
  shows "sip_lexed wins False (carriage # newline # s) v k =
    map_option ((#) (CRLF, tok_at k eol)) (sip_lexed wins True s (begin_sip SIP_header v) (k + 2))"
proof -
  have n: "CHR ''['' \<noteq> carriage" "carriage \<notin> set ''<>:@''" by (simp_all add: carriage_def)
  have "\<exists>i. ranked_rule wins False (eol @ s) (sip_rules v) = Some (length eol, sip_rules v ! i) \<and>
      action (sip_rules v ! i) eol v = (Some CRLF, begin_sip SIP_header v)"
    using assms
  proof
    assume "sip_cond v = SIP_header_via"
    then show ?thesis
      using n by (intro exI [of _ 2]) (simp add: lex_simps ranked_rule_def sip_value_rules_simps)
  next
    assume "sip_cond v = SIP_header_contact"
    then show ?thesis
      using n by (intro exI [of _ 3]) (simp add: lex_simps ranked_rule_def sip_value_rules_simps)
  qed
  then obtain i where i: "ranked_rule wins False (eol @ s) (sip_rules v) = Some (length eol, sip_rules v ! i)"
    "action (sip_rules v ! i) eol v = (Some CRLF, begin_sip SIP_header v)" by blast
  from sip_token [OF i(1) _ i(2), of k] show ?thesis by simp
qed

text \<open>An address in brackets.\<close>

definition address_ok :: "string \<Rightarrow> bool" where
  "address_ok host \<longleftrightarrow> (\<exists>a. host = CHR ''['' # a @ '']'' \<and> a \<noteq> [] \<and> CHR '']'' \<notin> set a \<and> list_all (\<lambda>c. \<not> is_eol c) a)"

text \<open>A Via line, and what the scanner makes of it.\<close>

definition via_value :: "string \<Rightarrow> string \<Rightarrow> string \<Rightarrow> string \<Rightarrow> string" where
  "via_value proto host port branch = proto @ '' '' @ host @ '':'' @ port @ '';'' @ branch"

definition via_toks :: "int \<Rightarrow> string \<Rightarrow> string \<Rightarrow> string \<Rightarrow> string \<Rightarrow> sip_tokens" where
  "via_toks k proto host port branch =
     [(HEADER_IDENT_VIA, tok_at k ''Via''), (SIP_CHAR (CHR '':''), tok_at (k + 3) '':''),
      (SIP_TEXT, tok_at (k + 5) proto), (IP6ADDR, tok_at (k + 6 + int (length proto)) host),
      (SIP_TEXT, tok_at (k + 7 + int (length proto) + int (length host)) port),
      (SIP_TEXT, tok_at (k + 8 + int (length proto) + int (length host) + int (length port)) branch),
      (CRLF, tok_at (k + 8 + int (length proto) + int (length host) + int (length port) + int (length branch)) eol)]"

definition via_ok :: "string \<Rightarrow> string \<Rightarrow> string \<Rightarrow> string \<Rightarrow> bool" where
  "via_ok proto host port branch \<longleftrightarrow>
     proto \<noteq> [] \<and> port \<noteq> [] \<and> branch \<noteq> [] \<and> list_all via_char (proto @ port @ branch) \<and> address_ok host"

lemma not_via_char [simp]:
  "\<not> via_char (CHR '' '')" "\<not> via_char (CHR '':'')" "\<not> via_char (CHR '';'')" "\<not> via_char (CHR ''['')" "\<not> via_char carriage"
  by (simp_all add: via_char_def)

lemma eol_chars [simp]: "\<not> is_eol (CHR '' '')" "\<not> is_eol (CHR '':'')" "\<not> is_eol (CHR '';'')" "\<not> is_eol (CHR ''['')"
  "\<not> is_eol (CHR '']'')" "\<not> is_eol (CHR ''@'')"
  by (simp_all add: is_eol_def newline_def carriage_def)

lemma via_scans:
  assumes "via_ok proto host port branch" and "sip_cond v = SIP_header" and "\<And>n k. wins n k"
  shows "scans wins (header_line ''Via'' (via_value proto host port branch)) v k (via_toks k proto host port branch)
    (v\<lparr>nxt := SIP_header_via\<rparr>)"
  unfolding scans_def
proof
  fix s
  obtain a where a: "host = CHR ''['' # a @ '']''" "a \<noteq> []" "CHR '']'' \<notin> set a" "list_all (\<lambda>c. \<not> is_eol c) a"
    and w: "proto \<noteq> []" "port \<noteq> []" "branch \<noteq> []" "list_all via_char proto" "list_all via_char port" "list_all via_char branch"
    using assms(1) by (auto simp: via_ok_def address_ok_def)
  let ?v1 = "v\<lparr>nxt := SIP_header_via\<rparr>" and ?val = "via_value proto host port branch"
  let ?v = "begin_sip SIP_header_via ?v1"
  have v: "begin_sip (nxt ?v1) ?v1 = ?v" "sip_cond ?v1 = SIP_header" "sip_cond ?v = SIP_header_via"
    "begin_sip SIP_header ?v = ?v1"
    using assms(2) by (cases v; simp)+
  have e: "list_all (\<lambda>c. \<not> is_eol c) x" if "list_all via_char x" for x
    using that by (auto simp: list_all_iff via_char_def)
  have val: "list_all (\<lambda>c. \<not> is_eol c) ?val"
    using e [OF w(4)] e [OF w(5)] e [OF w(6)] a(4) by (simp add: via_value_def a(1))
  have nm: "list_all is_name ''Via''" "sip_header_name ''Via'' v = (Some HEADER_IDENT_VIA, ?v1)"
    by (simp_all add: is_name_def is_alpha_def sip_header_name_def)
  have sk: "sip_lexed wins False (c # t) ?v j = sip_lexed wins False t ?v (j + 1)" if "c \<in> set '' :;''" for c t j
    by (rule via_skip [OF v(3) that])
  have tx: "sip_lexed wins False (x @ t) ?v j = map_option ((#) (SIP_TEXT, tok_at j x))
      (sip_lexed wins False t ?v (j + int (length x)))"
    if "x \<noteq> []" "list_all via_char x" "t \<noteq> [] \<longrightarrow> \<not> via_char (hd t)" for x t j
    by (rule via_text [OF that v(3)])
  have ad: "sip_lexed wins False (CHR ''['' # a @ CHR '']'' # t) ?v j =
      map_option ((#) (IP6ADDR, tok_at j host)) (sip_lexed wins False t ?v (j + int (length a) + 2))" for t j
    using bracketed_token [OF a(2,3) disjI1, OF v(3)] by (simp add: a(1))
  have en: "sip_lexed wins False (carriage # newline # t) ?v j =
      map_option ((#) (CRLF, tok_at j eol)) (sip_lexed wins True t ?v1 (j + 2))" for t j
    using header_value_end [OF disjI1, OF v(3)] by (simp only: v(4))
  have "sip_lexed wins False ('' '' @ ?val @ carriage # newline # s) ?v j = map_option ((@)
      [(SIP_TEXT, tok_at (j + 1) proto), (IP6ADDR, tok_at (j + 2 + int (length proto)) host),
       (SIP_TEXT, tok_at (j + 3 + int (length proto) + int (length host)) port),
       (SIP_TEXT, tok_at (j + 4 + int (length proto) + int (length host) + int (length port)) branch),
       (CRLF, tok_at (j + 4 + int (length proto) + int (length host) + int (length port) + int (length branch)) eol)])
      (sip_lexed wins True s ?v1 (j + int (length ?val) + 3))" for j
    using w sk [of "CHR '' ''"] sk [of "CHR '':''"] sk [of "CHR '';''"]
    by (simp add: via_value_def a(1) tx ad en append_fun option.map_comp comp_def ac_simps)
  with header_name_lexed [of "CHR ''V''" "''ia''" ?val v wins HEADER_IDENT_VIA ?v1 s k] nm val assms(2,3) v(2)
  show "sip_lexed wins True (header_line ''Via'' ?val @ s) v k = map_option ((@) (via_toks k proto host port branch))
      (sip_lexed wins True s ?v1 (k + int (length (header_line ''Via'' ?val))))"
    unfolding v(1) by (simp add: via_toks_def header_line_def append_fun option.map_comp comp_def ac_simps)
qed

text \<open>
  A Contact line \<open><scheme:user@[addr]:port>\<close>.  The brackets around the address are text for the scanner, as the
  words next to them are longer matches.
\<close>

lemma contact_text:
  assumes "w \<noteq> []" and "hd w \<in> set ''<>'' \<longrightarrow> 1 < length w" and "list_all contact_char w"
    and "s \<noteq> [] \<longrightarrow> \<not> contact_char (hd s)" and "sip_cond v = SIP_header_contact"
  shows "sip_lexed wins False (w @ s) v k =
    map_option ((#) (SIP_TEXT, tok_at k w)) (sip_lexed wins False s v (k + int (length w)))"
proof -
  obtain c cs where w: "w = c # cs" using assms(1) by (cases w) auto
  have c: "contact_char c" "c \<noteq> carriage" "c \<noteq> CHR ''[''" "c \<notin> set '':@''" using assms(3) by (auto simp: w contact_char_def)
  have p: "(\<lambda>c. \<not> is_blank c \<and> \<not> is_eol c \<and> c \<notin> set ''[]:@'') = contact_char" by (simp add: fun_eq_iff contact_char_def)
  have tw: "takeWhile contact_char (cs @ s) = cs" by (rule takeWhile_upto) (use assms(3,4) in \<open>auto simp: w\<close>)
  have "ranked_rule wins False (w @ s) (sip_rules v) = Some (length w, sip_contact_rules ! 1)"
    using c tw assms(2,5) unfolding sip_rules_def sip_contact_rules_def p
    by (auto simp: w lex_simps ranked_rule_def bracketed_def)
  from sip_token [OF this assms(1), of SIP_TEXT v k] show ?thesis
    using last_not_newline [OF assms(3) _ assms(1)] by (simp add: sip_contact_rules_def sip_rule_def contact_char_def)
qed

lemma contact_chars:
  assumes "sip_cond v = SIP_header_contact"
  shows "sip_lexed wins False (CHR '' '' # s) v k = sip_lexed wins False s v (k + 1)"
    and "c \<in> set '':@'' \<Longrightarrow> sip_lexed wins False (c # s) v k =
      map_option ((#) (SIP_CHAR c, tok_at k [c])) (sip_lexed wins False s v (k + 1))"
proof -
  have "ranked_rule wins False ('' '' @ s) (sip_rules v) = Some (length '' '', sip_contact_rules ! 5)"
    using assms by (simp add: lex_simps ranked_rule_def sip_value_rules_simps newline_def carriage_def)
  from sip_skipped [OF this, of v]
  show "sip_lexed wins False (CHR '' '' # s) v k = sip_lexed wins False s v (k + 1)"
    by (simp add: sip_value_rules_simps newline_def)
  assume c: "c \<in> set '':@''"
  have n: "c \<noteq> newline" "c \<noteq> carriage" "c \<noteq> CHR ''[''" "c \<notin> set ''<>''" using c by (auto simp: newline_def carriage_def)
  have "ranked_rule wins False ([c] @ s) (sip_rules v) = Some (length [c], sip_contact_rules ! 4)"
    using assms c n by (auto simp: lex_simps ranked_rule_def sip_value_rules_simps)
  from sip_token [OF this, of "SIP_CHAR c" v] n
  show "sip_lexed wins False (c # s) v k = map_option ((#) (SIP_CHAR c, tok_at k [c])) (sip_lexed wins False s v (k + 1))"
    by (simp add: sip_value_rules_simps)
qed

definition contact_value :: "string \<Rightarrow> string \<Rightarrow> string \<Rightarrow> string \<Rightarrow> string" where
  "contact_value scheme user host port = scheme @ '':'' @ user @ ''@'' @ host @ '':'' @ port"

definition contact_toks :: "int \<Rightarrow> string \<Rightarrow> string \<Rightarrow> string \<Rightarrow> string \<Rightarrow> sip_tokens" where
  "contact_toks k scheme user host port =
     [(HEADER_IDENT_CONTACT, tok_at k ''Contact''), (SIP_CHAR (CHR '':''), tok_at (k + 7) '':''),
      (SIP_TEXT, tok_at (k + 9) scheme), (SIP_CHAR (CHR '':''), tok_at (k + 9 + int (length scheme)) '':''),
      (SIP_TEXT, tok_at (k + 10 + int (length scheme)) user),
      (SIP_CHAR (CHR ''@''), tok_at (k + 10 + int (length scheme) + int (length user)) ''@''),
      (IP6ADDR, tok_at (k + 11 + int (length scheme) + int (length user)) host),
      (SIP_CHAR (CHR '':''), tok_at (k + 11 + int (length scheme) + int (length user) + int (length host)) '':''),
      (SIP_TEXT, tok_at (k + 12 + int (length scheme) + int (length user) + int (length host)) port),
      (CRLF, tok_at (k + 12 + int (length scheme) + int (length user) + int (length host) + int (length port)) eol)]"

definition contact_word :: "string \<Rightarrow> bool" where
  "contact_word w \<longleftrightarrow> w \<noteq> [] \<and> list_all contact_char w \<and> (hd w \<in> set ''<>'' \<longrightarrow> 1 < length w)"

lemma not_contact_char [simp]:
  "\<not> contact_char (CHR '' '')" "\<not> contact_char (CHR '':'')" "\<not> contact_char (CHR ''@'')" "\<not> contact_char (CHR ''['')"
  "\<not> contact_char carriage"
  by (simp_all add: contact_char_def)

lemma contact_scans:
  assumes "list_all contact_word [scheme, user, port]" and "address_ok host" and "sip_cond v = SIP_header"
    and "\<And>n k. wins n k"
  shows "scans wins (header_line ''Contact'' (contact_value scheme user host port)) v k (contact_toks k scheme user host port)
    (v\<lparr>nxt := SIP_header_contact\<rparr>)"
  unfolding scans_def
proof
  fix s
  obtain a where a: "host = CHR ''['' # a @ '']''" "a \<noteq> []" "CHR '']'' \<notin> set a" "list_all (\<lambda>c. \<not> is_eol c) a"
    using assms(2) by (auto simp: address_ok_def)
  have w: "contact_word scheme" "contact_word user" "contact_word port" using assms(1) by simp_all
  let ?v1 = "v\<lparr>nxt := SIP_header_contact\<rparr>" and ?val = "contact_value scheme user host port"
  let ?v = "begin_sip SIP_header_contact ?v1"
  have v: "begin_sip (nxt ?v1) ?v1 = ?v" "sip_cond ?v1 = SIP_header" "sip_cond ?v = SIP_header_contact"
    "begin_sip SIP_header ?v = ?v1"
    using assms(3) by (cases v; simp)+
  have e: "list_all (\<lambda>c. \<not> is_eol c) x" if "contact_word x" for x
    using that by (auto simp: list_all_iff contact_char_def contact_word_def)
  have val: "list_all (\<lambda>c. \<not> is_eol c) ?val"
    using e [OF w(1)] e [OF w(2)] e [OF w(3)] a(4) by (simp add: contact_value_def a(1))
  have nm: "list_all is_name ''Contact''" "sip_header_name ''Contact'' v = (Some HEADER_IDENT_CONTACT, ?v1)"
    by (simp_all add: is_name_def is_alpha_def sip_header_name_def)
  have tx: "sip_lexed wins False (x @ t) ?v j = map_option ((#) (SIP_TEXT, tok_at j x))
      (sip_lexed wins False t ?v (j + int (length x)))"
    if "contact_word x" "t \<noteq> [] \<longrightarrow> \<not> contact_char (hd t)" for x t j
    using contact_text [OF _ _ _ that(2) v(3)] that(1) by (simp add: contact_word_def)
  have ad: "sip_lexed wins False (CHR ''['' # a @ CHR '']'' # t) ?v j =
      map_option ((#) (IP6ADDR, tok_at j host)) (sip_lexed wins False t ?v (j + int (length a) + 2))" for t j
    using bracketed_token [OF a(2,3) disjI2, OF v(3)] by (simp add: a(1))
  have en: "sip_lexed wins False (carriage # newline # t) ?v j =
      map_option ((#) (CRLF, tok_at j eol)) (sip_lexed wins True t ?v1 (j + 2))" for t j
    using header_value_end [OF disjI2, OF v(3)] by (simp only: v(4))
  note ch = contact_chars(1) [OF v(3)] contact_chars(2) [OF v(3), of "CHR '':''"] contact_chars(2) [OF v(3), of "CHR ''@''"]
  have "sip_lexed wins False ('' '' @ ?val @ carriage # newline # s) ?v j = map_option ((@)
      (drop 2 (contact_toks (j - 8) scheme user host port))) (sip_lexed wins True s ?v1 (j + int (length ?val) + 3))" for j
    using w by (simp add: contact_value_def contact_toks_def a(1) ch tx ad en append_fun option.map_comp comp_def ac_simps)
  with header_name_lexed [of "CHR ''C''" "''ontact''" ?val v wins HEADER_IDENT_CONTACT ?v1 s k] nm val assms(3,4) v(2)
  show "sip_lexed wins True (header_line ''Contact'' ?val @ s) v k = map_option ((@) (contact_toks k scheme user host port))
      (sip_lexed wins True s ?v1 (k + int (length (header_line ''Contact'' ?val))))"
    unfolding v(1) by (simp add: contact_toks_def header_line_def append_fun option.map_comp comp_def ac_simps)
qed

section \<open>The brackets of a contact\<close>

lemma port_before_bracket:
  assumes "port \<noteq> []" and "list_all is_digit port"
  shows "IP6Port_of_string L a (port @ CHR ''>'' # params) = IP6Port_of_string L a port"
proof -
  obtain c cs where p: "port = c # cs" using assms(1) by (cases port) auto
  have c: "is_digit c" "\<not> is_space c" "c \<noteq> CHR ''-''" "c \<noteq> CHR ''+''"
    using assms(2) by (auto simp: p is_digit_def is_space_def)
  have "\<not> is_digit (CHR ''>'')" by (simp add: is_digit_def)
  then have "takeWhile is_digit (cs @ CHR ''>'' # params) = cs" "takeWhile is_digit (cs @ []) = cs"
    by (intro takeWhile_upto; use assms(2) in \<open>simp add: p\<close>)+
  note tw = this(1) this(2) [simplified append_Nil2]
  show ?thesis using c by (simp add: IP6Port_of_string_def extract_u16_def p tw)
qed

text \<open>
  C33: A contact of a SIP message loses the bracket around its address.  In the line
  \<open>Contact: <sip:user@[addr]:port>params\<close>, where the ranking has the name of the header, the scanner's token for
  the port includes the bracket and the parameters behind it.  The announced pair gets its mapping, but the edit
  of the port replaces the token: the line that is sent is \<open>Contact: <sip:user@a:q\<close>.
\<close>

theorem contact_line_loses_bracket:
  assumes "list_all contact_word [user, port @ CHR ''>'' # params]" and "list_all contact_char scheme"
    and "scheme \<noteq> []" and "port \<noteq> []" and "list_all is_digit port" and "address_ok host"
    and "sip_cond v = SIP_header" and "\<And>n k. wins n k" and "fst (mapped L host port s) \<noteq> None"
    and "external_pair L host port s = (a, q)"
    and "pid < length (parser_heap s)" and "ops (parser_heap s ! pid) = []"
  defines "line \<equiv> header_line ''Contact'' (contact_value (CHR ''<'' # scheme) user host (port @ CHR ''>'' # params))"
  shows "\<exists>ts s'. sip_lexed wins True line v (int (length front)) = Some ts \<and>
    sip_header_line L pid ts (w, s) (w, s') \<and>
    edits_ok 0 0 (ops (parser_heap s' ! pid)) (int (length (front @ line))) \<and>
    splice 0 0 (ops (parser_heap s' ! pid)) (map byte_of (front @ line)) =
      map byte_of (front @ header_line ''Contact'' (contact_value (CHR ''<'' # scheme) user a q))"
proof -
  let ?s = "CHR ''<'' # scheme" and ?p = "port @ CHR ''>'' # params" and ?k = "int (length front)"
  let ?h = "?k + 11 + int (length ?s) + int (length user)"
  let ?q = "?h + 1 + int (length host)"
  let ?ps = "[(front @ ''Contact: '' @ ?s @ '':'' @ user @ ''@'', host, a, False), ('':'', ?p, q, False)]"
  have "list_all contact_word [?s, user, ?p]"
    using assms(1-3) by (simp add: contact_word_def contact_char_def is_blank_def is_eol_def newline_def carriage_def)
  note l = scans_all [OF contact_scans [OF this assms(6,7,8)]]
  have port: "IP6Port_of_string L a ?p = IP6Port_of_string L a port" for a by (rule port_before_bracket [OF assms(4,5)])
  have m: "sip_map L pid False (tok_at ?h host) (tok_at ?q ?p) s =
      Some (upd_parser pid (addOperation (piece_edit False ?q ?p q)) (upd_parser pid (addOperation (piece_edit False ?h host a))
        (snd (mapped L host port s))))" (is "_ = Some ?s'")
    using sip_map_edits [of L host ?p s a q pid False ?h ?q] assms(9,10) by (simp add: port external_pair_def)
  have d: "sip_header_line L pid (contact_toks ?k ?s user host ?p) (w, s) (w, ?s')"
    unfolding contact_toks_def using header_contact [of L pid "tok_at ?h host" "tok_at ?q ?p" s ?s'] m
    by (simp add: sip_contact_def algebra_simps)
  have "ops (parser_heap ?s' ! pid) = piece_edits 0 ?ps"
    using assms(11,12) by (simp add: doMapping_cur_def algebra_simps)
  moreover have "front @ line = old_text ?ps eol"
    by (simp add: line_def header_line_def contact_value_def)
  moreover have "front @ header_line ''Contact'' (contact_value ?s user a q) = new_text ?ps eol"
    by (simp add: header_line_def contact_value_def)
  ultimately show ?thesis
    using l d splice_pieces [of "[]" ?ps eol] edits_ok_pieces [of ?ps "[]" eol] unfolding line_def
    by (auto simp only: list.size length_map append_Nil) (auto simp del: piece_edits.simps)
qed

text \<open>The line \<open>Contact: <sip:u@[::]:80>;x\<close> behind a request line of 7 bytes becomes \<open>Contact: <sip:u@10.20.30.40:32000\<close>.\<close>

lemma demo_pair:
  "external_pair demo_libc h p (demo_ready\<lparr>parser_heap := ps\<rparr>) = (''10.20.30.40'', ''32000'')"
  "fst (mapped demo_libc h p (demo_ready\<lparr>parser_heap := ps\<rparr>)) = Some 0"
proof -
  have f: "flows demo_ready = []" "map64 demo_ready = []" by (simp_all add: demo_ready_def)
  have "getPortString (IP4Port a (htons 32000)) = ''32000''" for a
    by (simp add: getPortString_def decimal.simps digit_def ntohs_def char_of_def bit_0)
  moreover have "getString4 demo_libc a = ''10.20.30.40''" for a by (simp add: getString4_def demo_libc_def)
  ultimately show "external_pair demo_libc h p (demo_ready\<lparr>parser_heap := ps\<rparr>) = (''10.20.30.40'', ''32000'')"
    "fst (mapped demo_libc h p (demo_ready\<lparr>parser_heap := ps\<rparr>)) = Some 0"
    using f by (simp_all add: external_pair_def doMapping_cur_def doMapping_def flow_at_def demo_ready_def pool_ready_Cons Let_def)
qed

theorem contact_line_loses_bracket_witness:
  "\<exists>ts s'. sip_lexed (\<lambda>_ _. True) True (''Contact: <sip:u@[::]:80>;x'' @ crlf) (begin_sip SIP_header (new_sip_scan SIP_header)) 7 =
      Some ts \<and>
    sip_header_line demo_libc 0 ts (new_sip, demo_ready\<lparr>parser_heap := [demo_parser]\<rparr>) (new_sip, s') \<and>
    splice 0 0 (ops (parser_heap s' ! 0)) (map byte_of (''M a b'' @ crlf @ ''Contact: <sip:u@[::]:80>;x'' @ crlf)) =
      map byte_of (''M a b'' @ crlf @ ''Contact: <sip:u@10.20.30.40:32000'' @ crlf)"
proof -
  let ?s = "demo_ready\<lparr>parser_heap := [demo_parser]\<rparr>" and ?v = "begin_sip SIP_header (new_sip_scan SIP_header)"
  have w: "list_all contact_word [''u'', ''80'' @ CHR ''>'' # '';x'']" "list_all contact_char ''sip''"
    "''sip'' \<noteq> []" "''80'' \<noteq> []" "list_all is_digit ''80''" "address_ok ''[::]''"
    by (simp_all add: contact_word_def contact_char_def is_blank_def is_eol_def newline_def carriage_def is_digit_def address_ok_def)
  have p: "0 < length (parser_heap ?s)" "ops (parser_heap ?s ! 0) = []"
    by (simp_all add: demo_parser_def new_parser_def)
  have l: "header_line ''Contact'' (contact_value (CHR ''<'' # ''sip'') ''u'' ''[::]'' (''80'' @ CHR ''>'' # '';x'')) =
      ''Contact: <sip:u@[::]:80>;x'' @ crlf"
    "header_line ''Contact'' (contact_value (CHR ''<'' # ''sip'') ''u'' ''10.20.30.40'' ''32000'') =
      ''Contact: <sip:u@10.20.30.40:32000'' @ crlf"
    "int (length (''M a b'' @ crlf)) = 7"
    by (simp_all add: header_line_def contact_value_def crlf_def carriage_def newline_def)
  have m: "fst (mapped demo_libc ''[::]'' ''80'' ?s) \<noteq> None" "external_pair demo_libc ''[::]'' ''80'' ?s = (''10.20.30.40'', ''32000'')"
    by (simp_all add: demo_pair)
  from contact_line_loses_bracket [OF w(1-6) _ _ m p, of ?v "\<lambda>_ _. True" "''M a b'' @ crlf" new_sip, unfolded l append_assoc]
  show ?thesis by fastforce
qed

end
