(* ===== verification/Sip_Request.thy ===== *)
theory Sip_Request
  imports Sip_Message
begin

text \<open>
  A SIP request and its translation: a request line, a Via line with an IPv6 address, other header lines, the
  length of the body, and a session with one connection and one media line.
\<close>

section \<open>The text\<close>

type_synonym header_text = "string \<times> string"

definition headers_text :: "header_text list \<Rightarrow> string" where
  "headers_text hs = concat (map (\<lambda>(nm, val). header_line nm val) hs)"

fun headers_toks :: "int \<Rightarrow> header_text list \<Rightarrow> sip_tokens" where
  "headers_toks k [] = []"
| "headers_toks k ((nm, val) # hs) = header_toks k nm val @ headers_toks (k + int (length (header_line nm val))) hs"

text \<open>A header line the grammar has no action for.\<close>

definition plain_header :: "header_text \<Rightarrow> bool" where
  "plain_header h \<longleftrightarrow>
     fst h \<noteq> [] \<and> list_all is_name (fst h) \<and> fst h \<notin> {''Via'', ''Contact'', ''Content-Length''} \<and>
     snd h \<noteq> [] \<and> value_start (hd (snd h)) \<and> list_all (\<lambda>c. \<not> is_eol c) (snd h)"

record sip_request =
  r_method :: string
  r_uri :: string
  r_version :: string
  r_proto :: string
  r_host :: string
  r_port :: string
  r_branch :: string
  r_before :: "header_text list"
  r_length :: string
  r_after :: "header_text list"
  r_pre :: "sdp_line_text list"
  r_net :: string
  r_type :: string
  r_addr :: string
  r_mid :: "sdp_line_text list"
  r_media :: string
  r_mport :: string
  r_rest :: "string list"
  r_post :: "sdp_line_text list"

definition body_text :: "sip_request \<Rightarrow> string" where
  "body_text r = lines_text (session (r_pre r) (r_net r) (r_type r) (r_addr r) (r_mid r) (r_media r) (r_mport r) (r_rest r) (r_post r))"

definition head_text :: "sip_request \<Rightarrow> string" where
  "head_text r =
     request_line (r_method r) (r_uri r) (r_version r) @
     header_line ''Via'' (via_value (r_proto r) (r_host r) (r_port r) (r_branch r)) @
     headers_text (r_before r) @ header_line ''Content-Length'' (r_length r) @ headers_text (r_after r) @ eol"

definition request_text :: "sip_request \<Rightarrow> string" where
  "request_text r = head_text r @ body_text r"

definition request_ok :: "sip_request \<Rightarrow> bool" where
  "request_ok r \<longleftrightarrow>
     list_all word [r_method r, r_uri r, r_version r] \<and> via_ok (r_proto r) (r_host r) (r_port r) (r_branch r) \<and>
     list_all plain_header (r_before r) \<and> list_all plain_header (r_after r) \<and>
     r_length r \<noteq> [] \<and> list_all is_digit (r_length r) \<and>
     list_all sdp_other (r_pre r) \<and> list_all sdp_other (r_mid r) \<and> list_all sdp_other (r_post r) \<and>
     list_all word [r_net r, r_type r, r_addr r, r_media r, r_mport r] \<and> list_all word (r_rest r) \<and> r_rest r \<noteq> []"

text \<open>
  The translated request: the external pair of the announced ones, the first for the Via line and the second,
  from the state the first leaves, for the session, and the length of the new body.
\<close>

definition via_pair :: "libc \<Rightarrow> state_manager \<Rightarrow> sip_request \<Rightarrow> string \<times> string" where
  "via_pair L s r = external_pair L (r_host r) (r_port r) s"

definition media_pair :: "libc \<Rightarrow> state_manager \<Rightarrow> sip_request \<Rightarrow> string \<times> string" where
  "media_pair L s r = external_pair L (r_addr r) (r_mport r) (snd (mapped L (r_host r) (r_port r) s))"

definition translated_request :: "libc \<Rightarrow> state_manager \<Rightarrow> sip_request \<Rightarrow> sip_request" where
  "translated_request L s r =
     (let r' = r\<lparr>r_host := fst (via_pair L s r), r_port := snd (via_pair L s r),
                 r_type := ''IP4'', r_addr := fst (media_pair L s r), r_mport := snd (media_pair L s r)\<rparr>
      in r'\<lparr>r_length := print_int (int (length (body_text r')))\<rparr>)"

section \<open>The scanner\<close>

lemma plain_header_scans:
  assumes "plain_header (nm, val)" and "sip_cond v = SIP_header" and "\<And>n k. wins n k"
  shows "scans wins (header_line nm val) v k (header_toks k nm val) (v\<lparr>nxt := SIP_header\<rparr>)"
proof -
  obtain c cs where "nm = c # cs" using assms(1) by (cases nm) (auto simp: plain_header_def)
  moreover obtain d ds where "val = d # ds" using assms(1) by (cases val) (auto simp: plain_header_def)
  ultimately show ?thesis
    using header_line_lexed(1) [of c cs d ds v wins k] assms by (simp add: plain_header_def)
qed

lemma map_append_Nil: "map_option ((@) []) x = x"
  by (cases x) simp_all

lemma plain_headers_scans:
  assumes "list_all plain_header hs" and "sip_cond v = SIP_header" and "\<And>n k. wins n k"
  shows "\<exists>v'. sip_cond v' = SIP_header \<and> scans wins (headers_text hs) v k (headers_toks k hs) v'"
  using assms(1,2)
proof (induction hs arbitrary: v k)
  case Nil
  then show ?case by (intro exI [of _ v]) (simp add: scans_def headers_text_def map_append_Nil)
next
  case (Cons h hs)
  obtain nm val where h: "h = (nm, val)" by (cases h)
  have s: "scans wins (header_line nm val) v k (header_toks k nm val) (v\<lparr>nxt := SIP_header\<rparr>)"
    using plain_header_scans [OF _ Cons.prems(2) assms(3)] Cons.prems(1) h by simp
  have "sip_cond (v\<lparr>nxt := SIP_header\<rparr>) = SIP_header" using Cons.prems(2) by simp
  with Cons.IH [of "v\<lparr>nxt := SIP_header\<rparr>" "k + int (length (header_line nm val))"] Cons.prems(1)
  obtain v' where "sip_cond v' = SIP_header" "scans wins (headers_text hs) (v\<lparr>nxt := SIP_header\<rparr>)
      (k + int (length (header_line nm val))) (headers_toks (k + int (length (header_line nm val))) hs) v'" by auto
  with scans_append [OF s] show ?case by (auto simp: h headers_text_def)
qed

lemma length_header_scans:
  assumes "len \<noteq> []" and "list_all is_digit len" and "sip_cond v = SIP_header" and "\<And>n k. wins n k"
  shows "scans wins (header_line ''Content-Length'' len) v k (header_toks k ''Content-Length'' len) (v\<lparr>nxt := SIP_header\<rparr>)"
proof -
  obtain d ds where d: "len = d # ds" using assms(1) by (cases len) auto
  have dig: "is_digit c \<Longrightarrow> value_start c" for c
    by (auto simp: is_digit_def is_blank_def is_eol_def newline_def carriage_def)
  have "list_all is_name ''Content-Length''" by (simp add: is_name_def is_alpha_def)
  with header_line_lexed(1) [of "CHR ''C''" "''ontent-Length''" d ds v wins k] assms(2,3,4) d dig
  show ?thesis by (auto simp: list_all_iff)
qed

text \<open>The empty line ends the header.\<close>

lemma empty_line_scans:
  assumes "sip_cond v = SIP_header" and "\<And>n k. wins n k"
  shows "scans wins eol v k [(CRLF, tok_at k eol)] (begin_sip SIP_body v)"
  unfolding scans_def
proof
  fix s
  have "ranked_rule wins True (eol @ s) (sip_rules v) = Some (length eol, sip_header_rules ! 0)"
    using assms by (simp add: lex_simps ranked_rule_def)
  from sip_token [OF this, of CRLF "begin_sip SIP_body v" k]
  show "sip_lexed wins True (eol @ s) v k =
      map_option ((@) [(CRLF, tok_at k eol)]) (sip_lexed wins True s (begin_sip SIP_body v) (k + int (length eol)))"
    by (simp add: sip_header_rules_def sip_rule_def append_fun)
qed

text \<open>Where the parts of the head start, and the tokens of a request.\<close>

definition via_at :: "sip_request \<Rightarrow> int" where
  "via_at r = int (length (request_line (r_method r) (r_uri r) (r_version r)))"

definition before_at :: "sip_request \<Rightarrow> int" where
  "before_at r = via_at r + int (length (header_line ''Via'' (via_value (r_proto r) (r_host r) (r_port r) (r_branch r))))"

definition length_at :: "sip_request \<Rightarrow> int" where
  "length_at r = before_at r + int (length (headers_text (r_before r)))"

definition after_at :: "sip_request \<Rightarrow> int" where
  "after_at r = length_at r + int (length (header_line ''Content-Length'' (r_length r)))"

definition headers_tokens :: "sip_request \<Rightarrow> sip_tokens" where
  "headers_tokens r =
     via_toks (via_at r) (r_proto r) (r_host r) (r_port r) (r_branch r) @ headers_toks (before_at r) (r_before r) @
     header_toks (length_at r) ''Content-Length'' (r_length r) @ headers_toks (after_at r) (r_after r)"

definition head_tokens :: "sip_request \<Rightarrow> sip_tokens" where
  "head_tokens r = request_toks 0 (r_method r) (r_uri r) (r_version r) @ headers_tokens r @
     [(CRLF, tok_at (after_at r + int (length (headers_text (r_after r)))) eol)]"

definition body_tokens :: "sip_request \<Rightarrow> sip_tokens" where
  "body_tokens r = lines_toks (int (length (head_text r)))
     (session (r_pre r) (r_net r) (r_type r) (r_addr r) (r_mid r) (r_media r) (r_mport r) (r_rest r) (r_post r))"

lemmas positions_defs = via_at_def before_at_def length_at_def after_at_def

lemma request_lexed:
  assumes "request_ok r" and "\<And>n k. wins n k"
  shows "sip_lexed wins True (request_text r) (new_sip_scan unset) 0 = Some (head_tokens r @ body_tokens r)"
proof -
  let ?v0 = "new_sip_scan unset"
  let ?v1 = "begin_sip SIP_header ?v0"
  let ?v2 = "?v1\<lparr>nxt := SIP_header_via\<rparr>"
  have ok: "list_all word [r_method r, r_uri r, r_version r]" "via_ok (r_proto r) (r_host r) (r_port r) (r_branch r)"
    "list_all plain_header (r_before r)" "list_all plain_header (r_after r)" "r_length r \<noteq> []" "list_all is_digit (r_length r)"
    using assms(1) by (simp_all add: request_ok_def)
  have c: "sip_cond ?v0 = SIP_INITIAL" "sip_cond ?v1 = SIP_header" "sip_cond ?v2 = SIP_header" by (simp_all add: new_sip_scan_def)
  obtain v3 where v3: "sip_cond v3 = SIP_header"
    "scans wins (headers_text (r_before r)) ?v2 (before_at r) (headers_toks (before_at r) (r_before r)) v3"
    using plain_headers_scans [where wins = wins, OF ok(3) c(3) assms(2)] by blast
  let ?v4 = "v3\<lparr>nxt := SIP_header\<rparr>"
  have c4: "sip_cond ?v4 = SIP_header" using v3(1) by simp
  obtain v5 where v5: "sip_cond v5 = SIP_header"
    "scans wins (headers_text (r_after r)) ?v4 (after_at r) (headers_toks (after_at r) (r_after r)) v5"
    using plain_headers_scans [where wins = wins, OF ok(4) c4 assms(2)] by blast
  let ?S = "session (r_pre r) (r_net r) (r_type r) (r_addr r) (r_mid r) (r_media r) (r_mport r) (r_rest r) (r_post r)"
  have S: "list_all sdp_ok ?S"
    using assms(1) by (auto simp: request_ok_def session_def sdp_other_def sdp_ok_def list_all_iff is_lower_def)
  note s1 = request_scans [where wins = wins and k = 0, OF ok(1) c(1) assms(2)]
  note s2 = via_scans [where wins = wins and k = "via_at r", OF ok(2) c(2) assms(2)]
  note s4 = length_header_scans [where wins = wins and k = "length_at r", OF ok(5,6) v3(1) assms(2)]
  note s6 = empty_line_scans [where wins = wins and k = "after_at r + int (length (headers_text (r_after r)))", OF v5(1) assms(2)]
  note later = scans_append [OF s2, folded before_at_def, OF scans_append [OF v3(2), folded length_at_def,
      OF scans_append [OF s4, folded after_at_def, OF scans_append [OF v5(2) s6]]]]
  have "scans wins (head_text r) ?v0 0 (head_tokens r) (begin_sip SIP_body v5)"
    unfolding head_text_def head_tokens_def headers_tokens_def append_assoc
    by (rule scans_append [OF s1, unfolded add_0, folded via_at_def, OF later])
  then have "sip_lexed wins True (head_text r @ body_text r) ?v0 0 =
      map_option ((@) (head_tokens r)) (sip_lexed wins True (body_text r) (begin_sip SIP_body v5) (int (length (head_text r))))"
    by (simp add: scans_def)
  with body_lines [OF S, of "begin_sip SIP_body v5" wins "int (length (head_text r))"] show ?thesis
    by (simp add: request_text_def body_text_def body_tokens_def)
qed

section \<open>The derivation\<close>

lemma plain_headers_derived:
  "sip_headers L pid ts x (v, s) \<Longrightarrow> list_all plain_header hs \<Longrightarrow> sip_headers L pid (ts @ headers_toks k hs) x (v, s)"
proof (induction hs arbitrary: ts k)
  case (Cons h hs)
  obtain nm val where h: "h = (nm, val)" by (cases h)
  have "sip_header (tok_at k nm) t v = v" for t
    using Cons.prems(2) by (simp add: sip_header_def tok_at_def TokenType_def h plain_header_def)
  with header_ident [of L pid "tok_at k nm"] have "sip_header_line L pid (header_toks k nm val) (v, s) (v, s)"
    unfolding header_toks_def by metis
  from Cons.IH [OF headers_more [OF Cons.prems(1) this]] Cons.prems(2) show ?case by (simp add: h)
qed simp

text \<open>Where the edited pieces of the head start.\<close>

definition host_at :: "sip_request \<Rightarrow> int" where
  "host_at r = via_at r + 6 + int (length (r_proto r))"

definition port_at :: "sip_request \<Rightarrow> int" where
  "port_at r = host_at r + 1 + int (length (r_host r))"

definition value_at :: "sip_request \<Rightarrow> int" where
  "value_at r = length_at r + 16"

lemma headers_derived:
  assumes "request_ok r" and "fst (mapped L (r_host r) (r_port r) s) \<noteq> None"
  shows "sip_headers L pid (headers_tokens r) (w, s) (w\<lparr>content_len := tok_at (value_at r) (r_length r)\<rparr>,
    upd_parser pid (addOperation (piece_edit False (port_at r) (r_port r) (snd (via_pair L s r))))
     (upd_parser pid (addOperation (piece_edit False (host_at r) (r_host r) (fst (via_pair L s r))))
      (snd (mapped L (r_host r) (r_port r) s))))" (is "sip_headers L pid _ _ (?w, ?s)")
proof -
  have ok: "list_all plain_header (r_before r)" "list_all plain_header (r_after r)"
    using assms(1) by (simp_all add: request_ok_def)
  have "external_pair L (r_host r) (r_port r) s = (fst (via_pair L s r), snd (via_pair L s r))" by (simp add: via_pair_def)
  from sip_map_edits [OF assms(2) this]
  have "sip_via L pid (tok_at (host_at r) (r_host r)) (tok_at (port_at r) (r_port r)) s = Some ?s" by (simp add: sip_via_def)
  from header_via [OF trailing_one this]
  have "sip_header_line L pid (via_toks (via_at r) (r_proto r) (r_host r) (r_port r) (r_branch r)) (w, s) (w, ?s)"
    by (simp add: via_toks_def host_at_def port_at_def algebra_simps)
  note h1 = plain_headers_derived [OF headers_one [OF this] ok(1), of "before_at r"]
  have "sip_header (tok_at (length_at r) ''Content-Length'')
      (tok_at (length_at r + int (length ''Content-Length'') + 2) (r_length r)) w = ?w"
    by (simp add: sip_header_def tok_at_def TokenType_def value_at_def)
  with header_ident [of L pid "tok_at (length_at r) ''Content-Length''"]
  have "sip_header_line L pid (header_toks (length_at r) ''Content-Length'' (r_length r)) (w, ?s) (?w, ?s)"
    unfolding header_toks_def by metis
  from plain_headers_derived [OF headers_more [OF h1 this] ok(2), of "after_at r"]
  show ?thesis by (simp add: headers_tokens_def)
qed

text \<open>The edited pieces of a request.\<close>

definition request_pieces :: "libc \<Rightarrow> state_manager \<Rightarrow> sip_request \<Rightarrow> pieces" where
  "request_pieces L s r =
     [(request_line (r_method r) (r_uri r) (r_version r) @ ''Via: '' @ r_proto r @ '' '', r_host r, fst (via_pair L s r), False),
      ('':'', r_port r, snd (via_pair L s r), False),
      ('';'' @ r_branch r @ eol @ headers_text (r_before r) @ ''Content-Length: '', r_length r,
       r_length (translated_request L s r), False)] @
     session_pieces (eol @ headers_text (r_after r) @ eol) (r_pre r) (r_net r) (r_type r) (r_addr r) (fst (media_pair L s r))
       (r_mid r) (r_media r) (r_mport r) (snd (media_pair L s r))"

lemma request_texts:
  assumes "r_rest r \<noteq> []"
  shows "old_text (request_pieces L s r) (session_end (r_rest r) (r_post r)) = request_text r"
    and "new_text (request_pieces L s r) (session_end (r_rest r) (r_post r)) = request_text (translated_request L s r)"
  using session_texts [OF assms]
  by (simp_all add: request_pieces_def request_text_def head_text_def body_text_def header_line_def via_value_def
      translated_request_def Let_def)

lemma session_pieces_gap:
  "piece_edits k (session_pieces gap pre net typ addr a mid media port q) =
   piece_edits (k + int (length gap)) (session_pieces [] pre net typ addr a mid media port q)"
  by (simp add: session_pieces_def algebra_simps)

abbreviation body_edits :: "libc \<Rightarrow> state_manager \<Rightarrow> sip_request \<Rightarrow> operation list" where
  "body_edits L s r \<equiv> piece_edits (int (length (head_text r)))
     (session_pieces [] (r_pre r) (r_net r) (r_type r) (r_addr r) (fst (media_pair L s r)) (r_mid r) (r_media r) (r_mport r)
       (snd (media_pair L s r)))"

lemma request_edits:
  "piece_edits 0 (request_pieces L s r) =
     [piece_edit False (host_at r) (r_host r) (fst (via_pair L s r)), piece_edit False (port_at r) (r_port r) (snd (via_pair L s r)),
      piece_edit False (value_at r) (r_length r) (r_length (translated_request L s r))] @ body_edits L s r"
  unfolding request_pieces_def append_Cons append_Nil piece_edits.simps
    session_pieces_gap [of _ "carriage # newline # headers_text (r_after r) @ eol"]
  by (simp add: host_at_def port_at_def value_at_def positions_defs head_text_def header_line_def via_value_def algebra_simps)

lemma sip_request_translated_run:
  assumes "request_ok r" and "\<And>n k. wins n k" and "std_sort srt"
    and "scan_int (r_length r) = Some (int (length (body_text r)))"
    and "fst (mapped L (r_host r) (r_port r) s) \<noteq> None"
    and "fst (mapped L (r_addr r) (r_mport r) (snd (mapped L (r_host r) (r_port r) s))) \<noteq> None"
    and "pid < length (parser_heap s)" and "ops (parser_heap s ! pid) = []"
  shows "\<exists>ts bs v s1. sip_lex wins (request_text r) (new_sip_scan unset) = Some (ts @ bs) \<and>
    sip_derived L pid ts bs s (v, s1) \<and>
    same_tables s1 (snd (mapped L (r_addr r) (r_mport r) (snd (mapped L (r_host r) (r_port r) s)))) \<and>
    (let os = srt (ops (parser_heap (sip_message u pid v s1) ! pid)) in
     os \<noteq> [] \<and> edits_ok 0 0 os (int (length (request_text r))) \<and>
     splice 0 0 os (map byte_of (request_text r)) = map byte_of (request_text (translated_request L s r)))"
proof -
  let ?m = "snd (mapped L (r_host r) (r_port r) s)"
  define e1 where "e1 = piece_edit False (host_at r) (r_host r) (fst (via_pair L s r))"
  define e2 where "e2 = piece_edit False (port_at r) (r_port r) (snd (via_pair L s r))"
  define e3 where "e3 = piece_edit False (value_at r) (r_length r) (r_length (translated_request L s r))"
  define s0 where "s0 = upd_parser pid (addOperation e2) (upd_parser pid (addOperation e1) ?m)"
  let ?w = "new_sip\<lparr>content_len := tok_at (value_at r) (r_length r)\<rparr>"
  have ok: "list_all sdp_other (r_pre r)" "list_all sdp_other (r_mid r)" "list_all sdp_other (r_post r)" "r_rest r \<noteq> []"
    "r_addr r \<noteq> []" "r_length r \<noteq> []"
    using assms(1) by (simp_all add: request_ok_def word_def)
  have p0: "pid < length (parser_heap s0)" "ops (parser_heap s0 ! pid) = [e1, e2]"
    using assms(7,8) by (simp_all add: s0_def doMapping_cur_def)
  have "fst (mapped L (r_addr r) (r_mport r) s0) \<noteq> None"
    "external_pair L (r_addr r) (r_mport r) s0 = (fst (media_pair L s r), snd (media_pair L s r))"
    using assms(6) by (simp_all add: s0_def doMapping_cur_upd_parser media_pair_def)
  from session_derived [OF ok(1-5) this p0(1)]
  obtain t s1 where b: "sip_sdp L pid (body_tokens r) (?w, s0) (?w\<lparr>c_ip := t\<rparr>, s1)"
    and o1: "ops (parser_heap s1 ! pid) = [e1, e2] @ body_edits L s r" "pid < length (parser_heap s1)"
    and t0: "same_tables s1 (snd (mapped L (r_addr r) (r_mport r) s0))"
    using p0(1) unfolding body_tokens_def p0(2) by metis
  have tab: "same_tables s1 (snd (mapped L (r_addr r) (r_mport r) ?m))"
    by (rule same_tables_trans [OF t0 doMapping_cur_same]) (simp_all add: s0_def upd_parser_def)
  have d: "sip_derived L pid (head_tokens r) (body_tokens r) s (?w\<lparr>c_ip := t\<rparr>, s1)"
    using message [OF headers_derived [OF assms(1,5)] b [unfolded s0_def e1_def e2_def]]
    by (simp add: head_tokens_def request_toks_def)
  have l: "sip_lex wins (request_text r) (new_sip_scan unset) = Some (head_tokens r @ body_tokens r)"
    using request_lexed [OF assms(1), of wins unset] assms(2) by (simp add: sip_lex_def lexed_by_def new_scanner_at)
  define os where "os = ops (parser_heap (sip_message u pid (?w\<lparr>c_ip := t\<rparr>) s1) ! pid)"
  have c: "list_all (\<lambda>(g, x, y, c). c) (session_pieces [] (r_pre r) (r_net r) (r_type r) (r_addr r) (fst (media_pair L s r))
      (r_mid r) (r_media r) (r_mport r) (snd (media_pair L s r)))"
    by (simp add: session_pieces_def)
  from piece_edits_delta [OF c, of _ "session_end (r_rest r) (r_post r)", unfolded session_texts [OF ok(4)]]
  have "sum_list (map op_delta (filter op_cnt (body_edits L s r))) =
      int (length (body_text (translated_request L s r))) - int (length (body_text r))"
    by (simp add: body_text_def translated_request_def Let_def)
  then have "totalDelta (parser_heap s1 ! pid) = int (length (body_text (translated_request L s r))) - int (length (body_text r))"
    unfolding totalDelta_sum o1 by (simp add: e1_def e2_def)
  then have "os = [e1, e2] @ body_edits L s r @ [e3]"
    using o1 ok(6) assms(4)
    by (simp add: os_def sip_message_def token_operation tok_at_def TokenType_def tok_add_int_def e3_def piece_edit_def
        translated_request_def Let_def body_text_def)
  moreover have "sorted_wrt (<) (map start_pos (piece_edits 0 (request_pieces L s r)))"
    using assms(1) by (intro piece_edits_sorted)
      (auto simp: request_pieces_def session_pieces_def request_ok_def word_def via_ok_def address_ok_def)
  ultimately have srt: "srt os = piece_edits (int (length ([] :: string))) (request_pieces L s r)"
    by (intro std_sort_unique [OF assms(3)]) (simp_all add: request_edits e1_def e2_def e3_def)
  have "list_all (\<lambda>p. fst p \<noteq> []) (tl (request_pieces L s r))" by (simp add: request_pieces_def session_pieces_def)
  from edits_ok_pieces [OF this, of "[]" "session_end (r_rest r) (r_post r)", folded srt, unfolded request_texts [OF ok(4)]]
    splice_pieces [of "[]" "request_pieces L s r" "session_end (r_rest r) (r_post r)", folded srt, unfolded request_texts [OF ok(4)]]
  have "edits_ok 0 0 (srt os) (int (length (request_text r)))"
    "splice 0 0 (srt os) (map byte_of (request_text r)) = map byte_of (request_text (translated_request L s r))"
    by simp_all
  moreover have "srt os \<noteq> []" by (simp add: srt request_edits)
  ultimately show ?thesis using l d tab unfolding os_def Let_def by blast
qed

text \<open>
   A SIP request is translated as a whole.  The text of a well-formed request with a right length field, where
  the ranking of rules has the names of headers, is cut into tokens that derive it, and the edits of its actions
  turn it into the request with the external pair of the Via line's address and port, \<open>IP4\<close> and the external
  pair of the media line's, and the length of the new body, everything else as it was.
\<close>

theorem sip_request_translated:
  assumes "request_ok r" and "\<And>n k. wins n k" and "std_sort srt"
    and "scan_int (r_length r) = Some (int (length (body_text r)))"
    and "fst (mapped L (r_host r) (r_port r) s) \<noteq> None"
    and "fst (mapped L (r_addr r) (r_mport r) (snd (mapped L (r_host r) (r_port r) s))) \<noteq> None"
    and "pid < length (parser_heap s)" and "ops (parser_heap s ! pid) = []"
  shows "\<exists>ts bs v s1. sip_lex wins (request_text r) (new_sip_scan unset) = Some (ts @ bs) \<and>
    sip_derived L pid ts bs s (v, s1) \<and>
    (let os = srt (ops (parser_heap (sip_message u pid v s1) ! pid)) in
     edits_ok 0 0 os (int (length (request_text r))) \<and>
     splice 0 0 os (map byte_of (request_text r)) = map byte_of (request_text (translated_request L s r)))"
  using sip_request_translated_run [where wins = wins, OF assms] unfolding Let_def by blast

text \<open>
  An \<open>INVITE\<close> from port 5060 of \<open>::\<close> that announces port 4000: the two get the ports 32000 and 32001 of 10.20.30.40, and
  the length goes from 36 to 46.
\<close>

definition demo_request :: sip_request where
  "demo_request =
     \<lparr>r_method = ''INVITE'', r_uri = ''u'', r_version = ''SIP/2.0'', r_proto = ''SIP/2.0/UDP'', r_host = ''[::]'', r_port = ''5060'',
      r_branch = ''branch=b'', r_before = [(''To'', ''<u>'')], r_length = ''36'', r_after = [], r_pre = [(CHR ''v'', [''0''])],
      r_net = ''IN'', r_type = ''IP6'', r_addr = ''::'', r_mid = [], r_media = ''audio'', r_mport = ''4000'', r_rest = [''RTP''],
      r_post = []\<rparr>"

lemma demo_request_ok: "request_ok demo_request"
  by (simp add: request_ok_def demo_request_def via_ok_def address_ok_def plain_header_def via_char_def sdp_other_def sdp_ok_def
      word_def is_word_def is_lower_def is_name_def is_alpha_def is_digit_def is_blank_def is_eol_def carriage_def newline_def)

lemmas request_text_defs = request_text_def head_text_def body_text_def request_line_def header_line_def via_value_def
  headers_text_def session_def lines_text_def line_text_def

lemma demo_request_text:
  "request_text demo_request =
     ''INVITE u SIP/2.0'' @ crlf @ ''Via: SIP/2.0/UDP [::]:5060;branch=b'' @ crlf @ ''To: <u>'' @ crlf @
     ''Content-Length: 36'' @ crlf @ crlf @ ''v=0'' @ crlf @ ''c=IN IP6 ::'' @ crlf @ ''m=audio 4000 RTP'' @ crlf"
  by (simp add: request_text_defs demo_request_def crlf_def carriage_def newline_def)

lemma demo_request_len: "scan_int (r_length demo_request) = Some (int (length (body_text demo_request)))"
  by (simp add: demo_request_def body_text_def session_def lines_text_def line_text_def scan_int_def is_space_def is_digit_def
      digits_val_def digit_val_def)

lemma demo_second_pair:
  "external_pair demo_libc ''::'' ''4000'' (snd (mapped demo_libc ''[::]'' ''5060'' (demo_ready\<lparr>parser_heap := ps\<rparr>))) =
     (''10.20.30.40'', ''32001'')"
  "fst (mapped demo_libc ''::'' ''4000'' (snd (mapped demo_libc ''[::]'' ''5060'' (demo_ready\<lparr>parser_heap := ps\<rparr>)))) = Some 1"
proof -
  have u: "extract_u16 ''5060'' = Some 5060" "extract_u16 ''4000'' = Some 4000"
    by (simp_all add: extract_u16_def is_space_def is_digit_def digits_val_def digit_val_def)
  have n: "ntohs (5060 :: u16) \<noteq> ntohs 4000" by (simp add: ntohs_def)
  have s: "getPortString (IP4Port a (htons 32001)) = ''32001''" "getString4 demo_libc b = ''10.20.30.40''" for a b
    by (simp_all add: getPortString_def decimal.simps digit_def ntohs_def char_of_def bit_0 getString4_def demo_libc_def)
  have p: "pool demo_ready = IP4Port (IPv4Addr 0x281E140A) (htons 32000) # IP4Port (IPv4Addr 0x281E140A) (htons 32001) #
      pool_ports (IPv4Addr 0x281E140A) 32002"
    using pool_ports_Cons [of 32001 "IPv4Addr 0x281E140A"] by (simp add: demo_ready_def pool_ready_Cons)
  have f: "flows demo_ready = []" "map64 demo_ready = []" by (simp_all add: demo_ready_def)
  show "external_pair demo_libc ''::'' ''4000'' (snd (mapped demo_libc ''[::]'' ''5060'' (demo_ready\<lparr>parser_heap := ps\<rparr>))) =
     (''10.20.30.40'', ''32001'')"
    "fst (mapped demo_libc ''::'' ''4000'' (snd (mapped demo_libc ''[::]'' ''5060'' (demo_ready\<lparr>parser_heap := ps\<rparr>)))) = Some 1"
    using n by (simp_all add: external_pair_def doMapping_cur_def doMapping_def flow_at_def p f u s Let_def IP6Port_of_string_def)
qed

definition demo_answer :: "string \<Rightarrow> string \<Rightarrow> string" where
  "demo_answer p q =
     ''INVITE u SIP/2.0'' @ crlf @ ''Via: SIP/2.0/UDP 10.20.30.40:'' @ p @ '';branch=b'' @ crlf @ ''To: <u>'' @ crlf @
     ''Content-Length: 46'' @ crlf @ crlf @ ''v=0'' @ crlf @ ''c=IN IP4 10.20.30.40'' @ crlf @ ''m=audio '' @ q @ '' RTP'' @ crlf"

lemma demo_request_translated:
  assumes "via_pair demo_libc s demo_request = (''10.20.30.40'', p)" and "media_pair demo_libc s demo_request = (''10.20.30.40'', q)"
    and "length q = 5"
  shows "request_text (translated_request demo_libc s demo_request) = demo_answer p q"
proof -
  have "print_int 46 = ''46''" by (simp add: print_int_def decimal.simps digit_def char_of_def bit_0)
  with assms have "translated_request demo_libc s demo_request =
      demo_request\<lparr>r_host := ''10.20.30.40'', r_port := p, r_type := ''IP4'', r_addr := ''10.20.30.40'', r_mport := q,
        r_length := ''46''\<rparr>"
    by (simp add: translated_request_def demo_request_def body_text_def session_def lines_text_def line_text_def)
  then show ?thesis by (simp add: request_text_defs demo_request_def demo_answer_def crlf_def carriage_def newline_def)
qed

theorem sip_request_translated_witness:
  "\<exists>ts bs v s1.
     sip_lex (\<lambda>_ _. True) (''INVITE u SIP/2.0'' @ crlf @ ''Via: SIP/2.0/UDP [::]:5060;branch=b'' @ crlf @ ''To: <u>'' @ crlf @
       ''Content-Length: 36'' @ crlf @ crlf @ ''v=0'' @ crlf @ ''c=IN IP6 ::'' @ crlf @ ''m=audio 4000 RTP'' @ crlf)
       (new_sip_scan SIP_header) = Some (ts @ bs) \<and>
     sip_derived demo_libc 0 ts bs (demo_ready\<lparr>parser_heap := [demo_parser]\<rparr>) (v, s1) \<and>
     splice 0 0 (sort_key start_pos (ops (parser_heap (sip_message 0 0 v s1) ! 0))) (map byte_of (request_text demo_request)) =
     map byte_of (demo_answer ''32000'' ''32001'')"
proof -
  let ?s = "demo_ready\<lparr>parser_heap := [demo_parser]\<rparr>"
  have m: "fst (mapped demo_libc (r_host demo_request) (r_port demo_request) ?s) \<noteq> None"
    "fst (mapped demo_libc (r_addr demo_request) (r_mport demo_request)
       (snd (mapped demo_libc (r_host demo_request) (r_port demo_request) ?s))) \<noteq> None"
    using demo_pair(2) demo_second_pair(2) by (simp_all add: demo_request_def)
  have p: "0 < length (parser_heap ?s)" "ops (parser_heap ?s ! 0) = []"
    by (simp_all add: demo_parser_def new_parser_def)
  have a: "request_text (translated_request demo_libc ?s demo_request) = demo_answer ''32000'' ''32001''"
    by (rule demo_request_translated) (simp_all add: via_pair_def media_pair_def demo_request_def demo_pair demo_second_pair)
  from sip_request_translated [OF demo_request_ok _ std_sort_sort_key demo_request_len m p, of "\<lambda>_ _. True" SIP_header 0]
  show ?thesis unfolding a demo_request_text Let_def by blast
qed

end
