(* ===== verification/Sip_Run.thy ===== *)
theory Sip_Run
  imports Sip_Language
begin

text \<open>
  A recogniser of \<open>sip/grammar\<close>: it reads the tokens of a message once, from left to right, runs the actions as it
  goes, and computes exactly the derivations.  So the tokens determine what a parser does.
\<close>

section \<open>Lines\<close>

text \<open>The tokens start with the given kinds.\<close>

fun starts :: "sip_token list \<Rightarrow> sip_tokens \<Rightarrow> bool" where
  "starts [] ts = True"
| "starts (k # ks) [] = False"
| "starts (k # ks) (t # ts) = (fst t = k \<and> starts ks ts)"

lemma starts_Cons: "starts (k # ks) ts \<longleftrightarrow> (\<exists>t us. ts = (k, t) # us \<and> starts ks us)"
  by (cases ts) auto

text \<open>Words up to the end of the line.\<close>

fun run_words :: "sip_tokens \<Rightarrow> sip_tokens option" where
  "run_words [] = None"
| "run_words (t # ts) = (if fst t = SIP_TEXT then run_words ts else if fst t = CRLF then Some ts else None)"

definition run_trailing :: "sip_tokens \<Rightarrow> sip_tokens option" where
  "run_trailing ts = (if starts [SIP_TEXT] ts then run_words ts else None)"

lemma trailing_iff: "sip_trailing ts \<longleftrightarrow> ts \<noteq> [] \<and> list_all (\<lambda>t. fst t = SIP_TEXT) ts"
proof
  assume "ts \<noteq> [] \<and> list_all (\<lambda>t. fst t = SIP_TEXT) ts"
  then show "sip_trailing ts"
  proof (induction ts rule: rev_induct)
    case (snoc t ts)
    obtain a where "t = (SIP_TEXT, a)" using snoc.prems by (cases t) auto
    with snoc show ?case by (cases "ts = []") (auto intro: trailing_one trailing_more)
  qed simp
qed (induction rule: sip_trailing.induct; simp)

lemma run_words_iff:
  "run_words ts = Some rest \<longleftrightarrow> (\<exists>us t. ts = us @ (CRLF, t) # rest \<and> list_all (\<lambda>t. fst t = SIP_TEXT) us)"
proof (induction ts)
  case (Cons t ts)
  obtain k a where t: "t = (k, a)" by (cases t)
  have "(\<exists>us b. (k, a) # ts = us @ (CRLF, b) # rest \<and> list_all (\<lambda>t. fst t = SIP_TEXT) us) \<longleftrightarrow>
      k = CRLF \<and> ts = rest \<or> k = SIP_TEXT \<and> (\<exists>us b. ts = us @ (CRLF, b) # rest \<and> list_all (\<lambda>t. fst t = SIP_TEXT) us)"
    by (auto simp: Cons_eq_append_conv)
  with Cons.IH show ?case by (simp add: t)
qed simp

lemma run_trailing_iff: "run_trailing ts = Some rest \<longleftrightarrow> (\<exists>us t. ts = us @ (CRLF, t) # rest \<and> sip_trailing us)"
proof -
  have "starts [SIP_TEXT] (us @ (CRLF, t) # rest) \<longleftrightarrow> us \<noteq> []" if "list_all (\<lambda>t. fst t = SIP_TEXT) us" for us t
    using that by (cases us) auto
  then show ?thesis by (auto simp: run_trailing_def run_words_iff trailing_iff)
qed

definition run_header :: "libc \<Rightarrow> nat \<Rightarrow> sip_tokens \<Rightarrow> sip_state \<Rightarrow> (sip_tokens \<times> sip_state) option" where
  "run_header L pid ts x =
     (let t = (\<lambda>i. snd (ts ! i)); v = fst x; s = snd x in
      if starts [HEADER_IDENT, SIP_CHAR (CHR '':''), HEADER_VALUE, CRLF] ts then Some (drop 4 ts, sip_header (t 0) (t 2) v, s)
      else if starts [HEADER_IDENT_VIA, SIP_CHAR (CHR '':''), SIP_TEXT, IP6ADDR, SIP_TEXT] ts then
        do { rest \<leftarrow> run_trailing (drop 5 ts); s' \<leftarrow> sip_via L pid (t 3) (t 4) s; Some (rest, v, s') }
      else if starts [HEADER_IDENT_CONTACT, SIP_CHAR (CHR '':''), SIP_TEXT, SIP_CHAR (CHR '':''), SIP_TEXT, SIP_CHAR (CHR ''@''),
          IP6ADDR, SIP_CHAR (CHR '':''), SIP_TEXT, CRLF] ts then
        do { s' \<leftarrow> sip_contact L pid (t 6) (t 8) s; Some (drop 10 ts, v, s') }
      else None)"

lemma run_header_sound:
  assumes "run_header L pid ts (v, s) = Some (rest, y)"
  shows "\<exists>us. ts = us @ rest \<and> sip_header_line L pid us (v, s) y"
proof -
  consider (ident) "starts [HEADER_IDENT, SIP_CHAR (CHR '':''), HEADER_VALUE, CRLF] ts"
    | (via) "starts [HEADER_IDENT_VIA, SIP_CHAR (CHR '':''), SIP_TEXT, IP6ADDR, SIP_TEXT] ts"
    | (contact) "starts [HEADER_IDENT_CONTACT, SIP_CHAR (CHR '':''), SIP_TEXT, SIP_CHAR (CHR '':''), SIP_TEXT, SIP_CHAR (CHR ''@''),
        IP6ADDR, SIP_CHAR (CHR '':''), SIP_TEXT, CRLF] ts"
    using assms by (auto simp: run_header_def Let_def split: if_splits)
  then show ?thesis
  proof cases
    case ident
    then obtain a b c d us where "ts = [(HEADER_IDENT, a), (SIP_CHAR (CHR '':''), b), (HEADER_VALUE, c), (CRLF, d)] @ us"
      by (auto simp: starts_Cons)
    then show ?thesis using assms header_ident [of L pid a b c d v s] by (auto simp: run_header_def Let_def)
  next
    case via
    then obtain a b c d e us where ts: "ts = [(HEADER_IDENT_VIA, a), (SIP_CHAR (CHR '':''), b), (SIP_TEXT, c), (IP6ADDR, d),
        (SIP_TEXT, e)] @ us"
      by (auto simp: starts_Cons)
    then obtain s' where s': "run_trailing us = Some rest" "sip_via L pid d e s = Some s'" "y = (v, s')"
      using assms by (auto simp: run_header_def Let_def bind_eq_Some_conv)
    then obtain ws f where "us = ws @ (CRLF, f) # rest" "sip_trailing ws" by (auto simp: run_trailing_iff)
    with header_via [OF this(2) s'(2), of a b c f v] show ?thesis by (auto simp: ts s'(3))
  next
    case contact
    then obtain a b c d e f g h i j us where ts: "ts = [(HEADER_IDENT_CONTACT, a), (SIP_CHAR (CHR '':''), b), (SIP_TEXT, c),
        (SIP_CHAR (CHR '':''), d), (SIP_TEXT, e), (SIP_CHAR (CHR ''@''), f), (IP6ADDR, g), (SIP_CHAR (CHR '':''), h),
        (SIP_TEXT, i), (CRLF, j)] @ us"
      by (auto simp: starts_Cons)
    then show ?thesis
      using assms header_contact [of L pid g i s _ a b c d e f h j v] by (auto simp: run_header_def Let_def bind_eq_Some_conv)
  qed
qed

lemma run_header_complete:
  assumes "sip_header_line L pid us x y"
  shows "run_header L pid (us @ rest) x = Some (rest, y)"
  using assms
proof cases
  case (header_via ts t4 t5 s s' t1 t2 t3 t7 v)
  then have "run_trailing (ts @ (CRLF, t7) # rest) = Some rest" by (auto simp: run_trailing_iff)
  with header_via show ?thesis by (simp add: run_header_def)
qed (simp_all add: run_header_def)

lemma run_header_iff:
  "run_header L pid ts x = Some (rest, y) \<longleftrightarrow> (\<exists>us. ts = us @ rest \<and> sip_header_line L pid us x y)"
  using run_header_sound [of L pid ts "fst x" "snd x" rest y] run_header_complete by fastforce

definition run_sdp_line :: "libc \<Rightarrow> nat \<Rightarrow> sip_tokens \<Rightarrow> sip_state \<Rightarrow> (sip_tokens \<times> sip_state) option" where
  "run_sdp_line L pid ts x =
     (let t = (\<lambda>i. snd (ts ! i)); v = fst x; s = snd x in
      if starts [SDP_CHAR, SIP_CHAR (CHR ''='')] ts then map_option (\<lambda>rest. (rest, x)) (run_trailing (drop 2 ts))
      else if starts [CHAR_c, SIP_CHAR (CHR ''=''), SIP_TEXT, SIP_TEXT, SIP_TEXT, CRLF] ts
      then Some (drop 6 ts, sip_c_line pid (t 3) (t 4) v s)
      else if starts [CHAR_m, SIP_CHAR (CHR ''=''), SIP_TEXT, SIP_TEXT] ts then
        do { rest \<leftarrow> run_trailing (drop 4 ts); s' \<leftarrow> sip_m_line L pid (t 3) v s; Some (rest, v, s') }
      else None)"

lemma run_sdp_line_sound:
  assumes "run_sdp_line L pid ts (v, s) = Some (rest, y)"
  shows "\<exists>us. ts = us @ rest \<and> sip_sdp_line L pid us (v, s) y"
proof -
  consider (char) "starts [SDP_CHAR, SIP_CHAR (CHR ''='')] ts"
    | (c) "starts [CHAR_c, SIP_CHAR (CHR ''=''), SIP_TEXT, SIP_TEXT, SIP_TEXT, CRLF] ts"
    | (m) "starts [CHAR_m, SIP_CHAR (CHR ''=''), SIP_TEXT, SIP_TEXT] ts"
    using assms by (auto simp: run_sdp_line_def Let_def split: if_splits)
  then show ?thesis
  proof cases
    case char
    then obtain a b us where ts: "ts = [(SDP_CHAR, a), (SIP_CHAR (CHR ''=''), b)] @ us" by (auto simp: starts_Cons)
    then have y: "run_trailing us = Some rest" "y = (v, s)" using assms by (auto simp: run_sdp_line_def)
    then obtain ws f where "us = ws @ (CRLF, f) # rest" "sip_trailing ws" by (auto simp: run_trailing_iff)
    with sdp_char [OF this(2), of L pid a b f "(v, s)"] show ?thesis by (auto simp: ts y(2))
  next
    case c
    then obtain a b d e f g us where "ts = [(CHAR_c, a), (SIP_CHAR (CHR ''=''), b), (SIP_TEXT, d), (SIP_TEXT, e), (SIP_TEXT, f),
        (CRLF, g)] @ us"
      by (auto simp: starts_Cons)
    then show ?thesis using assms sdp_c [of L pid a b d e f g v s] by (auto simp: run_sdp_line_def Let_def)
  next
    case m
    then obtain a b c d us where ts: "ts = [(CHAR_m, a), (SIP_CHAR (CHR ''=''), b), (SIP_TEXT, c), (SIP_TEXT, d)] @ us"
      by (auto simp: starts_Cons)
    then obtain s' where s': "run_trailing us = Some rest" "sip_m_line L pid d v s = Some s'" "y = (v, s')"
      using assms by (auto simp: run_sdp_line_def Let_def bind_eq_Some_conv)
    then obtain ws f where "us = ws @ (CRLF, f) # rest" "sip_trailing ws" by (auto simp: run_trailing_iff)
    with sdp_m [OF this(2) s'(2), of a b c f] show ?thesis by (auto simp: ts s'(3))
  qed
qed

lemma run_sdp_line_complete:
  assumes "sip_sdp_line L pid us x y"
  shows "run_sdp_line L pid (us @ rest) x = Some (rest, y)"
  using assms
proof cases
  case (sdp_char ts t1 t2 t4)
  then have "run_trailing (ts @ (CRLF, t4) # rest) = Some rest" by (auto simp: run_trailing_iff)
  with sdp_char show ?thesis by (simp add: run_sdp_line_def)
next
  case (sdp_m ts t4 v s s' t1 t2 t3 t6)
  then have "run_trailing (ts @ (CRLF, t6) # rest) = Some rest" by (auto simp: run_trailing_iff)
  with sdp_m show ?thesis by (simp add: run_sdp_line_def)
qed (simp_all add: run_sdp_line_def)

lemma run_sdp_line_iff:
  "run_sdp_line L pid ts x = Some (rest, y) \<longleftrightarrow> (\<exists>us. ts = us @ rest \<and> sip_sdp_line L pid us x y)"
  using run_sdp_line_sound [of L pid ts "fst x" "snd x" rest y] run_sdp_line_complete by fastforce

section \<open>Lists of lines\<close>

type_synonym line_reader = "sip_tokens \<Rightarrow> sip_state \<Rightarrow> (sip_tokens \<times> sip_state) option"
type_synonym line_rel = "sip_tokens \<Rightarrow> sip_state \<Rightarrow> sip_state \<Rightarrow> bool"

text \<open>As many lines as there are.\<close>

function run_lines :: "line_reader \<Rightarrow> sip_tokens \<Rightarrow> sip_state \<Rightarrow> sip_tokens \<times> sip_state" where
  "run_lines g ts x =
     (case g ts x of
        Some (rest, y) \<Rightarrow> if length rest < length ts then run_lines g rest y else (ts, x)
      | None \<Rightarrow> (ts, x))"
  by auto
termination by (relation "measure (\<lambda>(g, ts, x). length ts)") auto

declare run_lines.simps [simp del]

definition run_some :: "line_reader \<Rightarrow> sip_tokens \<Rightarrow> sip_state \<Rightarrow> (sip_tokens \<times> sip_state) option" where
  "run_some g ts x = map_option (\<lambda>(rest, y). run_lines g rest y) (g ts x)"

inductive many :: "line_rel \<Rightarrow> sip_tokens \<Rightarrow> sip_state \<Rightarrow> sip_state \<Rightarrow> bool" for R where
  many_none: "many R [] x x"
| many_more: "R us x y \<Longrightarrow> many R ts y z \<Longrightarrow> many R (us @ ts) x z"

lemma many_snoc: "many R ts x y \<Longrightarrow> R us y z \<Longrightarrow> many R (ts @ us) x z"
proof (induction rule: many.induct)
  case (many_none x)
  from many_more [of R us x z "[]", OF this many.many_none] show ?case by simp
next
  case (many_more us' x y ts y')
  with many.many_more [of R us' x y "ts @ us" z] show ?case by simp
qed

definition some_lines :: "line_rel \<Rightarrow> sip_tokens \<Rightarrow> sip_state \<Rightarrow> sip_state \<Rightarrow> bool" where
  "some_lines R ts x z \<longleftrightarrow> (\<exists>us vs y. ts = us @ vs \<and> R us x y \<and> many R vs y z)"

lemma some_lines_one: "R ts x y \<Longrightarrow> some_lines R ts x y"
  unfolding some_lines_def using many_none [of R y] by (metis append_Nil2)

lemma some_lines_snoc: "some_lines R ts x y \<Longrightarrow> R us y z \<Longrightarrow> some_lines R (ts @ us) x z"
  unfolding some_lines_def by (metis append_assoc many_snoc)

text \<open>A reader of lines reads exactly the lines of a relation, none of which is empty.\<close>

locale line_grammar =
  fixes g :: line_reader and R :: line_rel
  assumes reads: "g ts x = Some (rest, y) \<longleftrightarrow> (\<exists>us. ts = us @ rest \<and> R us x y)"
    and line_nonempty: "R us x y \<Longrightarrow> us \<noteq> []"
begin

lemma run_lines_sound: "run_lines g ts x = (rest, y) \<Longrightarrow> \<exists>us. ts = us @ rest \<and> many R us x y"
proof (induction "length ts" arbitrary: ts x rule: less_induct)
  case less
  show ?case
  proof (cases "g ts x")
    case None
    with less.prems many_none [of R x] show ?thesis by (simp add: run_lines.simps)
  next
    case (Some p)
    obtain r z where p: "p = (r, z)" by (cases p)
    with Some obtain us where us: "ts = us @ r" "R us x z" by (auto simp: reads)
    with line_nonempty [OF us(2)] have l: "length r < length ts" by (cases us) auto
    with Some p less.prems have "run_lines g r z = (rest, y)" by (simp add: run_lines.simps [of g ts])
    with less.hyps [OF l] obtain vs where "r = vs @ rest" "many R vs z y" by blast
    with many_more [of R us x z vs y] us show ?thesis by fastforce
  qed
qed

lemma run_lines_complete: "many R us x y \<Longrightarrow> g rest y = None \<Longrightarrow> run_lines g (us @ rest) x = (rest, y)"
proof (induction rule: many.induct)
  case (many_more us x y ts z)
  from many_more(1) have "g (us @ ts @ rest) x = Some (ts @ rest, y)" by (auto simp: reads)
  with many_more line_nonempty [OF many_more(1)] show ?case by (simp add: run_lines.simps [of g "us @ ts @ rest"])
qed (simp add: run_lines.simps)

lemma run_some_sound: "run_some g ts x = Some (rest, y) \<Longrightarrow> \<exists>us. ts = us @ rest \<and> some_lines R us x y"
proof -
  assume "run_some g ts x = Some (rest, y)"
  then obtain r z where r: "g ts x = Some (r, z)" "run_lines g r z = (rest, y)" by (auto simp: run_some_def)
  with run_lines_sound obtain us vs where "ts = us @ r" "R us x z" "r = vs @ rest" "many R vs z y" by (metis reads)
  then show ?thesis unfolding some_lines_def by (metis append_assoc)
qed

lemma run_some_complete: "some_lines R us x y \<Longrightarrow> g rest y = None \<Longrightarrow> run_some g (us @ rest) x = Some (rest, y)"
proof -
  assume "some_lines R us x y" and n: "g rest y = None"
  then obtain ts vs z where us: "us = ts @ vs" "R ts x z" "many R vs z y" by (auto simp: some_lines_def)
  from us(2) have "g (us @ rest) x = Some (vs @ rest, z)" by (auto simp: reads us(1))
  with run_lines_complete [OF us(3) n] show ?thesis by (simp add: run_some_def)
qed

end

interpretation head: line_grammar "run_header L pid" "sip_header_line L pid"
  by unfold_locales (auto simp: run_header_iff elim: sip_header_line.cases)

interpretation body: line_grammar "run_sdp_line L pid" "sip_sdp_line L pid"
  by unfold_locales (auto simp: run_sdp_line_iff elim: sip_sdp_line.cases)

section \<open>Messages\<close>

lemma headers_lines: "sip_headers L pid ts x y \<longleftrightarrow> some_lines (sip_header_line L pid) ts x y"
proof
  assume "some_lines (sip_header_line L pid) ts x y"
  then obtain us vs z where *: "ts = us @ vs" "sip_header_line L pid us x z" "many (sip_header_line L pid) vs z y"
    by (auto simp: some_lines_def)
  have "sip_headers L pid us x z \<Longrightarrow> sip_headers L pid (us @ vs) x y"
    using *(3)
  proof (induction arbitrary: us)
    case (many_more ws z z' vs y)
    from many_more(3) [OF headers_more [OF many_more(4,1)]] show ?case by simp
  qed simp
  with *(1,2) show "sip_headers L pid ts x y" by (auto intro: headers_one)
qed (induction rule: sip_headers.induct; auto intro: some_lines_one some_lines_snoc)

lemma session_lines: "sip_sdp L pid ts x y \<longleftrightarrow> some_lines (sip_sdp_line L pid) ts x y"
proof
  assume "some_lines (sip_sdp_line L pid) ts x y"
  then obtain us vs z where *: "ts = us @ vs" "sip_sdp_line L pid us x z" "many (sip_sdp_line L pid) vs z y"
    by (auto simp: some_lines_def)
  have "sip_sdp L pid us x z \<Longrightarrow> sip_sdp L pid (us @ vs) x y"
    using *(3)
  proof (induction arbitrary: us)
    case (many_more ws z z' vs y)
    from many_more(3) [OF sdp_more [OF many_more(4,1)]] show ?case by simp
  qed simp
  with *(1,2) show "sip_sdp L pid ts x y" by (auto intro: sdp_one)
qed (induction rule: sip_sdp.induct; auto intro: some_lines_one some_lines_snoc)

definition sip_run :: "libc \<Rightarrow> nat \<Rightarrow> sip_tokens \<Rightarrow> state_manager \<Rightarrow> sip_state option" where
  "sip_run L pid ts s =
     (if starts [METHOD, SIP_TEXT, SIP_TEXT, CRLF] ts
      then do {
        (r, x) \<leftarrow> run_some (run_header L pid) (drop 4 ts) (new_sip, s);
        if starts [CRLF] r
        then do {
          (r', y) \<leftarrow> run_some (run_sdp_line L pid) (tl r) x;
          if r' = [] then Some y else None }
        else None }
      else None)"

lemma sip_run_sound:
  assumes "sip_run L pid ts s = Some y"
  shows "\<exists>hs bs. ts = hs @ bs \<and> sip_derived L pid hs bs s y"
proof -
  have "starts [METHOD, SIP_TEXT, SIP_TEXT, CRLF] ts" using assms by (auto simp: sip_run_def split: if_splits)
  then obtain a b c d us where ts: "ts = [(METHOD, a), (SIP_TEXT, b), (SIP_TEXT, c), (CRLF, d)] @ us"
    by (auto simp: starts_Cons)
  obtain r x where r: "run_some (run_header L pid) us (new_sip, s) = Some (r, x)" "starts [CRLF] r"
      "run_some (run_sdp_line L pid) (tl r) x = Some ([], y)"
    using assms by (auto simp: sip_run_def ts bind_eq_Some_conv split: if_splits)
  then obtain e bs where e: "r = (CRLF, e) # bs" by (auto simp: starts_Cons)
  obtain hs where hs: "us = hs @ r" "sip_headers L pid hs (new_sip, s) x"
    using head.run_some_sound [OF r(1)] by (auto simp: headers_lines)
  have "sip_sdp L pid bs x y" using body.run_some_sound [OF r(3)] by (simp add: session_lines e)
  from message [OF hs(2) this, of a b c d e] show ?thesis
    by (intro exI [of _ "[(METHOD, a), (SIP_TEXT, b), (SIP_TEXT, c), (CRLF, d)] @ hs @ [(CRLF, e)]"] exI [of _ bs])
      (simp add: ts hs(1) e)
qed

lemma sip_run_complete:
  assumes "sip_derived L pid hs bs s y"
  shows "sip_run L pid (hs @ bs) s = Some y"
  using assms
proof cases
  case (message hs' x t1 t2 t3 t4 t5)
  have "run_header L pid ((CRLF, t5) # bs) x = None" by (simp add: run_header_def)
  with head.run_some_complete [of L pid hs' "(new_sip, s)" x "(CRLF, t5) # bs"] message(2)
  have h: "run_some (run_header L pid) (hs' @ (CRLF, t5) # bs) (new_sip, s) = Some ((CRLF, t5) # bs, x)"
    by (simp add: headers_lines)
  have "run_sdp_line L pid [] y = None" by (simp add: run_sdp_line_def)
  with body.run_some_complete [of L pid bs x y "[]"] message(3)
  have "run_some (run_sdp_line L pid) bs x = Some ([], y)" by (simp add: session_lines)
  with h show ?thesis by (simp add: sip_run_def message(1))
qed

text \<open>
   The recogniser computes exactly the derivations of the SIP grammar.  It answers a state for the tokens
  of a message exactly when they split into a head and a body with a derivation that ends in that state: the tokens determine
  the actions and their order, and no message has two meanings.
\<close>

theorem sip_run_computes_grammar:
  "sip_run L pid ts s = Some y \<longleftrightarrow> (\<exists>hs bs. ts = hs @ bs \<and> sip_derived L pid hs bs s y)"
  using sip_run_sound sip_run_complete by blast

end
