(* ===== verification/Sip_Gateway.thy ===== *)
theory Sip_Gateway
  imports Sip_Request Sip_Run App_Gateway
begin

text \<open>
  The SIP gateway end to end: \<open>doApp\<close> on a client's UDP packet that carries a SIP request, with the stateless parser
  of the configuration, from the bytes received to the bytes to be sent.
\<close>

section \<open>Mappings and the tables\<close>

text \<open>Two states with the same table, pool and flows give the same mappings.\<close>

definition same_mappings :: "state_manager \<Rightarrow> state_manager \<Rightarrow> bool" where
  "same_mappings s s' \<longleftrightarrow> map64 s' = map64 s \<and> pool s' = pool s \<and> flows s' = flows s \<and> ip6srv_cur s' = ip6srv_cur s"

lemma same_mappings_mapping:
  assumes "same_mappings s s'"
  shows "fst (doMapping_cur L a s') = fst (doMapping_cur L a s)"
    and "same_mappings (snd (doMapping_cur L a s)) (snd (doMapping_cur L a s'))"
  using assms by (auto simp: same_mappings_def doMapping_cur_def doMapping_def Let_def split: option.split list.split)

lemma same_mappings_pair:
  assumes "same_mappings s s'"
  shows "external_pair L host port s' = external_pair L host port s"
proof -
  let ?a = "IP6Port_of_string L (IPv6Addr_of_string L host) port"
  have "flow_at (snd (doMapping_cur L ?a s')) i = flow_at (snd (doMapping_cur L ?a s)) i" for i
    using same_mappings_mapping(2) [OF assms, of L ?a] by (simp add: same_mappings_def flow_at_def)
  with same_mappings_mapping(1) [OF assms, of L ?a] show ?thesis
    by (cases "doMapping_cur L ?a s"; cases "doMapping_cur L ?a s'") (auto simp: external_pair_def split: option.split)
qed

lemma same_mappings_request:
  assumes "same_mappings s s'" shows "translated_request L s' r = translated_request L s r"
  using same_mappings_pair [OF assms] same_mappings_pair [OF same_mappings_mapping(2) [OF assms]]
  by (simp add: translated_request_def via_pair_def media_pair_def)

section \<open>Parsing\<close>

text \<open>
  What the build gives for SIP: the parser object of a stateless communicator cuts its data with the lexer and
  runs the actions of the grammar on the tokens.
\<close>

definition runs_sip :: "(nat \<Rightarrow> nat \<Rightarrow> bool) \<Rightarrow> app_env \<Rightarrow> bool" where
  "runs_sip wins e \<longleftrightarrow> (\<exists>unset. \<forall>pid c s ts v s1.
     p_protocol (parser_heap s ! pid) = ''sip'' \<longrightarrow> sip_lex wins c (new_sip_scan unset) = Some ts \<longrightarrow>
     sip_run (env_L e) pid ts s = Some (v, s1) \<longrightarrow> env_feed e pid c s = (0, sip_message (env_unset e) pid v s1))"

lemma parse_request:
  assumes "runs_sip wins e" and "getProtocol (flow_at s fid) = ''sip''" and "fid < length (flows s)"
    and "map_find (<) (protocols s) ''sip'' = Some conf" and "ptype_c2s conf = STATELESS"
    and "request_ok r" and "\<And>n k. wins n k" and "std_sort srt"
    and "scan_int (r_length r) = Some (int (length (body_text r)))"
    and "fst (mapped (env_L e) (r_host r) (r_port r) s) \<noteq> None"
    and "fst (mapped (env_L e) (r_addr r) (r_mport r) (snd (mapped (env_L e) (r_host r) (r_port r) s))) \<noteq> None"
  obtains g s' pid where "app_parse e p (request_text r) SERVER fid s = (g, s')" "g_parser g = Some pid"
    "maxPos (parser_heap s' ! pid) = -1" "fid < length (flows s')" "srt (g_ops g) \<noteq> []"
    "edits_ok 0 0 (srt (g_ops g)) (int (length (request_text r)))"
    "splice 0 0 (srt (g_ops g)) (map byte_of (request_text r)) = map byte_of (request_text (translated_request (env_L e) s r))"
    "same_tables s' (snd (mapped (env_L e) (r_addr r) (r_mport r) (snd (mapped (env_L e) (r_host r) (r_port r) s))))"
proof -
  let ?n = "length (parser_heap s)"
  define sA where "sA = (count1 ''parse'' s)
    \<lparr>parser_heap := parser_heap s @ [new_parser (env_unset e) ''sip'' StatelessCommunicator]\<rparr>"
  have sA: "flows sA = flows s" "parser_heap sA ! ?n = new_parser (env_unset e) ''sip'' StatelessCommunicator"
    "?n < length (parser_heap sA)" "ops (parser_heap sA ! ?n) = []"
    by (simp_all add: sA_def new_parser_def)
  have same: "same_mappings s sA" by (simp add: same_mappings_def sA_def)
  obtain unset where run: "\<And>pid c s ts v s1. p_protocol (parser_heap s ! pid) = ''sip'' \<Longrightarrow>
      sip_lex wins c (new_sip_scan unset) = Some ts \<Longrightarrow> sip_run (env_L e) pid ts s = Some (v, s1) \<Longrightarrow>
      env_feed e pid c s = (0, sip_message (env_unset e) pid v s1)"
    using assms(1) unfolding runs_sip_def by blast
  have "fst (mapped (env_L e) (r_host r) (r_port r) sA) \<noteq> None"
    "fst (mapped (env_L e) (r_addr r) (r_mport r) (snd (mapped (env_L e) (r_host r) (r_port r) sA))) \<noteq> None"
    using assms(10,11) same_mappings_mapping(1) [OF same] same_mappings_mapping(1) [OF same_mappings_mapping(2) [OF same]] by simp_all
  from sip_request_translated_run [where wins = wins and unset = unset and u = "env_unset e", OF assms(6-9) this sA(3,4)]
  obtain ts bs v s1 where lx: "sip_lex wins (request_text r) (new_sip_scan unset) = Some (ts @ bs)"
    and d: "sip_derived (env_L e) ?n ts bs sA (v, s1)"
    and t1: "same_tables s1 (snd (mapped (env_L e) (r_addr r) (r_mport r) (snd (mapped (env_L e) (r_host r) (r_port r) sA))))"
    and eff: "srt (ops (parser_heap (sip_message (env_unset e) ?n v s1) ! ?n)) \<noteq> []"
      "edits_ok 0 0 (srt (ops (parser_heap (sip_message (env_unset e) ?n v s1) ! ?n))) (int (length (request_text r)))"
      "splice 0 0 (srt (ops (parser_heap (sip_message (env_unset e) ?n v s1) ! ?n))) (map byte_of (request_text r)) =
        map byte_of (request_text (translated_request (env_L e) sA r))"
    unfolding Let_def by blast
  define sB where "sB = sip_message (env_unset e) ?n v s1"
  have feed: "env_feed e ?n (request_text r) sA = (0, sB)"
    using run [OF _ lx sip_run_complete [OF d]] sA(2) by (simp add: sB_def new_parser_def)
  have adds: "only_adds sA sB"
    using adds.R_trans [OF adds.R_actions [OF sip_derived_actions [OF d]] adds.R_message] by (simp add: sB_def)
  then have "length (parser_heap sB) = length (parser_heap sA)" by (metis only_adds_def length_map)
  with adds sA have sB: "?n < length (parser_heap sB)" "maxPos (parser_heap sB ! ?n) = -1" "fid < length (flows sB)"
    using assms(3) nth_map [of ?n "parser_heap sA" maxPos] nth_map [of ?n "parser_heap sB" maxPos]
    by (auto simp: only_adds_def new_parser_def)
  have "same_tables (snd (mapped (env_L e) (r_host r) (r_port r) sA)) (snd (mapped (env_L e) (r_host r) (r_port r) s))"
    by (rule doMapping_cur_same) (simp_all add: sA_def)
  from same_tables_trans [OF t1 doMapping_cur_same [OF this]]
  have tab: "same_tables s1 (snd (mapped (env_L e) (r_addr r) (r_mport r) (snd (mapped (env_L e) (r_host r) (r_port r) s))))"
    by (simp add: sA_def doMapping_cur_def)
  have tabB: "same_tables sB r' \<longleftrightarrow> same_tables s1 r'" for r'
    by (simp add: sB_def sip_message_def)
  have mp: "maxPos (parser_heap (upd_parser ?n (\<lambda>q. q\<lparr>ops := []\<rparr>) sB) ! ?n) = -1"
    using sB(1,2) by (simp add: upd_parser_def)
  show thesis
  proof (rule that)
    show "same_tables (snd (count2 ''parse'' (upd_parser ?n (\<lambda>q. q\<lparr>ops := []\<rparr>) sB)))
        (snd (mapped (env_L e) (r_addr r) (r_mport r) (snd (mapped (env_L e) (r_host r) (r_port r) s))))"
      by (rule same_tables_trans [OF same_tables_count(2)]) (simp add: tabB tab)
    show "app_parse e p (request_text r) SERVER fid s =
      (no_guess\<lparr>g_ops := ops (parser_heap sB ! ?n), g_parser := Some ?n, g_protocol := ''sip''\<rparr>,
       snd (count2 ''parse'' (upd_parser ?n (\<lambda>q. q\<lparr>ops := []\<rparr>) sB)))"
      by (rule app_parse_known [where d = SERVER, simplified, OF assms(2) _ _ assms(4,5) sA_def feed]) (simp_all add: built_protocols_def)
    show "maxPos (parser_heap (snd (count2 ''parse'' (upd_parser ?n (\<lambda>q. q\<lparr>ops := []\<rparr>) sB))) ! ?n) = -1"
      using mp by (simp only: count_fields)
  qed (use eff sB in \<open>simp_all add: sB_def [symmetric] same_mappings_request [OF same]\<close>)
qed

section \<open>The whole packet\<close>

lemma sip_packet_effect:
  assumes "runs_sip wins e" and "\<And>n k. wins n k" and "std_sort (env_sort e)" and "start_pos (env_junk e 0) < 0"
    and "request_ok r" and "scan_int (r_length r) = Some (int (length (body_text r)))"
    and "out = request_text (translated_request (env_L e) s r)"
    and "has_payload p h h'" and "isUDP p" and "getDEST p = SERVER" and "payload p h' = map byte_of (request_text r)"
    and "string_at (obuf p) (h + nat (getTransportHeaderLen p)) (length (request_text r)) = request_text r"
    and "h + nat (getTransportHeaderLen p) + length out \<le> 65536"
    and "getFlow (env_L e) p s = Some (Some fid, s)" and "fid < length (flows s)" and "\<not> analysisMode s"
    and "extra s \<noteq> EXTRA_SHIFT" and "\<not> ignored (flow_at s fid)" and "getProtocol (flow_at s fid) = ''sip''"
    and "map_find (<) (protocols s) ''sip'' = Some conf" and "ptype_c2s conf = STATELESS"
    and "fst (mapped (env_L e) (r_host r) (r_port r) s) \<noteq> None"
    and "fst (mapped (env_L e) (r_addr r) (r_mport r) (snd (mapped (env_L e) (r_host r) (r_port r) s))) \<noteq> None"
  shows "\<exists>p' s'. doApp e p n s = Some (p', n\<lparr>exttcpflow := Some fid, modified := True\<rparr>, s') \<and>
    bytes_at (obuf p') (h + nat (getTransportHeaderLen p)) (length out) = map byte_of out \<and>
    transport_len p' = getTransportHeaderLen p + int (length out) \<and>
    same_tables s' (snd (mapped (env_L e) (r_addr r) (r_mport r) (snd (mapped (env_L e) (r_host r) (r_port r) s)))) \<and>
    p' = edited p h (map byte_of out)"
proof -
  let ?hl = "getTransportHeaderLen p" and ?t = "request_text r"
  have tcp: "\<not> isTCP p" using assms(8,9) by (simp add: has_payload_def)
  then have adj: "p = adjust_seq SERVER (flow_at s fid) p" by (simp add: adjust_seq_def isTCP_def)
  obtain g s4 pid where parse: "app_parse e p ?t SERVER fid s = (g, s4)" and pid: "g_parser g = Some pid"
    and s4: "maxPos (parser_heap s4 ! pid) = -1" "fid < length (flows s4)"
    and sne: "env_sort e (g_ops g) \<noteq> []"
    and edits: "edits_ok 0 0 (env_sort e (g_ops g)) (int (length ?t))"
    and sp: "splice 0 0 (env_sort e (g_ops g)) (map byte_of ?t) = map byte_of out"
    and tab: "same_tables s4 (snd (mapped (env_L e) (r_addr r) (r_mport r) (snd (mapped (env_L e) (r_host r) (r_port r) s))))"
    unfolding assms(7)
    by (rule parse_request [where wins = wins, OF assms(1,19,15,20,21,5,2,3,6,22,23)])
  have len: "transport_len p = ?hl + int (length ?t)" "?t \<noteq> []"
    using length_payload [OF assms(8)] assms(11) by (simp_all add: request_text_def head_text_def)
  have d: "doApp e p n s = app_modify e p SERVER fid g (n\<lparr>exttcpflow := Some fid\<rparr>) s4"
    using doApp_payload [where d = SERVER, OF assms(14,16,17,18,8,10) _ len assms(12) adj] tcp parse by simp
  have "mset (env_sort e (g_ops g)) = mset (g_ops g)" using assms(3) by (simp add: std_sort_def)
  with sne have ne: "g_ops g \<noteq> []" by auto
  have fits: "isTCP p \<longrightarrow> \<not> init_seq_set (flow_at s4 fid) SERVER \<and>
      (length (payload p h') \<le> 1400 \<or> length (map byte_of out) \<le> length (payload p h'))"
    "edits_ok 0 0 (env_sort e (g_ops g)) (int (length (payload p h')))"
    "map byte_of out = splice 0 0 (env_sort e (g_ops g)) (payload p h')" "h + nat ?hl + length (map byte_of out) \<le> 65536"
    using tcp edits sp assms(11,13) by simp_all
  from app_modify_spliced [where d = SERVER, OF assms(3,8,10) refl ne pid s4(1) fits(1,2) assms(4) fits(3,4) s4(2)]
  obtain p' s' where "app_modify e p SERVER fid g (n\<lparr>exttcpflow := Some fid\<rparr>) s4 =
        Some (p', n\<lparr>exttcpflow := Some fid, modified := True\<rparr>, s')"
    "bytes_at (obuf p') (h + nat ?hl) (length (map byte_of out)) = map byte_of out"
    "transport_len p' = ?hl + int (length (map byte_of out))" "p' = edited p h (map byte_of out)"
    by fastforce
  with d same_tables_trans [OF tables_modify tab] show ?thesis by auto
qed

text \<open>
   The SIP gateway end to end.  A client's UDP packet of a flow known as SIP carries a well-formed request with a right
  length field; the configuration gives SIP a stateless parser, the ranking of rules has the names of headers, and
  the mappings can be made.  Then \<open>doApp\<close> leaves a packet that carries the translated request, whose length is the
  new transport length.
\<close>

theorem sip_packet_rewritten:
  assumes "runs_sip wins e" and "\<And>n k. wins n k" and "std_sort (env_sort e)" and "start_pos (env_junk e 0) < 0"
    and "request_ok r" and "scan_int (r_length r) = Some (int (length (body_text r)))"
    and "out = request_text (translated_request (env_L e) s r)"
    and "has_payload p h h'" and "isUDP p" and "getDEST p = SERVER" and "payload p h' = map byte_of (request_text r)"
    and "string_at (obuf p) (h + nat (getTransportHeaderLen p)) (length (request_text r)) = request_text r"
    and "h + nat (getTransportHeaderLen p) + length out \<le> 65536"
    and "getFlow (env_L e) p s = Some (Some fid, s)" and "fid < length (flows s)" and "\<not> analysisMode s"
    and "extra s \<noteq> EXTRA_SHIFT" and "\<not> ignored (flow_at s fid)" and "getProtocol (flow_at s fid) = ''sip''"
    and "map_find (<) (protocols s) ''sip'' = Some conf" and "ptype_c2s conf = STATELESS"
    and "fst (mapped (env_L e) (r_host r) (r_port r) s) \<noteq> None"
    and "fst (mapped (env_L e) (r_addr r) (r_mport r) (snd (mapped (env_L e) (r_host r) (r_port r) s))) \<noteq> None"
  shows "\<exists>p' s'. doApp e p n s = Some (p', n\<lparr>exttcpflow := Some fid, modified := True\<rparr>, s') \<and>
    bytes_at (obuf p') (h + nat (getTransportHeaderLen p)) (length out) = map byte_of out \<and>
    transport_len p' = getTransportHeaderLen p + int (length out)"
  using sip_packet_effect [where wins = wins, OF assms] by blast

text \<open>
  The \<open>INVITE\<close> of \<open>demo_request\<close> from a client whose flow has the external port 32000: its Via line and its session get the
  ports 32001 and 32002.
\<close>

definition sip_feed :: "libc \<Rightarrow> nat \<Rightarrow> string \<Rightarrow> state_manager \<Rightarrow> int \<times> state_manager" where
  "sip_feed L pid c s =
     (case Option.bind (sip_lex (\<lambda>_ _. True) c (new_sip_scan SIP_header)) (\<lambda>ts. sip_run L pid ts s) of
        Some (v, s1) \<Rightarrow> (0, sip_message 0 pid v s1)
      | None \<Rightarrow> (0, s))"

definition sip_env :: app_env where
  "sip_env = demo_env\<lparr>env_feed := sip_feed demo_libc\<rparr>"

lemma sip_env_fields [simp]:
  "env_L sip_env = demo_libc" "env_sort sip_env = sort_key start_pos" "start_pos (env_junk sip_env 0) = -1"
  "env_feed sip_env = sip_feed demo_libc" "env_unset sip_env = 0"
  by (simp_all add: sip_env_def demo_env_def)

lemma sip_env_runs: "runs_sip (\<lambda>_ _. True) sip_env"
  unfolding runs_sip_def by (rule exI [of _ SIP_header]) (simp add: sip_feed_def)

definition demo_invite :: packet where
  "demo_invite = (received ETHERTYPE_IPV6 (demo_ip6 8 @ map byte_of (request_text demo_request)))
     \<lparr>udp_hdr := Some 20, udp_old := Some 40, ipVersionBefore := 6, ip6_hdr := InI 0, ip_hdr := InO 0, ip_len := 20,
      transport_len := 8 + int (length (request_text demo_request)), obuf_len := 28 + int (length (request_text demo_request)),
      obuf := (\<lambda>i. if 28 \<le> i \<and> i < 28 + length (request_text demo_request)
                    then byte_of (request_text demo_request ! (i - 28)) else 0)\<rparr>"

definition demo_calls :: state_manager where
  "demo_calls = upd_flow 0 (setProtocol ''sip'') demo_sip"

lemma demo_request_length: "length (request_text demo_request) = 122"
  by (simp add: demo_request_text crlf_def)

lemma demo_invite_fields:
  "tcp_hdr demo_invite = None" "udp_hdr demo_invite = Some 20" "udp_old demo_invite = Some 40" "isTCP demo_invite = False"
  "isUDP demo_invite = True" "getDEST demo_invite = SERVER" "getTransportHeaderLen demo_invite = 8"
  "transport_len demo_invite = 130" "ip6_hdr demo_invite = InI 0" "ipVersionBefore demo_invite = 6"
  by (simp_all add: demo_invite_def isTCP_def isUDP_def getDEST_def getTransportHeaderLen_def received_def demo_request_length)

lemma demo_invite_payload:
  "has_payload demo_invite 20 40" "payload demo_invite 40 = map byte_of (request_text demo_request)"
  "string_at (obuf demo_invite) 28 (length (request_text demo_request)) = request_text demo_request"
proof -
  have "tcp_old demo_invite = None" by (simp add: demo_invite_def received_def)
  then show "has_payload demo_invite 20 40" by (simp add: has_payload_def seg_ptrs_def demo_invite_fields)
  have "ibuf demo_invite (48 + k) = byte_of (request_text demo_request ! k)" if "k < length (request_text demo_request)" for k
    using that by (simp add: demo_invite_def received_def nth_append)
  then have "bytes_at (ibuf demo_invite) 48 (length (request_text demo_request)) = map byte_of (request_text demo_request)"
    by (intro nth_equalityI) simp_all
  then show "payload demo_invite 40 = map byte_of (request_text demo_request)"
    by (simp add: payload_def demo_invite_fields demo_request_length)
  have "obuf demo_invite (28 + k) = byte_of (request_text demo_request ! k)" if "k < length (request_text demo_request)" for k
    using that by (simp add: demo_invite_def)
  then show "string_at (obuf demo_invite) 28 (length (request_text demo_request)) = request_text demo_request"
    by (intro nth_equalityI) (simp_all add: string_at_def char_of_byte_of)
qed

lemma demo_calls_fields:
  "map_find k64_lt (map64 demo_calls) (IP6Port a 0, v) = Some 0" "analysisMode demo_calls = False"
  "extra demo_calls = EXTRA_NONE" "length (flows demo_calls) = 1"
  "flow_at demo_calls 0 = setProtocol ''sip'' (Flow_new64 demo_libc (demo_client 1 0)
     (IP4Port (IPv4Addr 0x281E140A) (htons 32000)) demo_server (getServerAddr4 demo_server))"
  "map64 demo_calls = [((demo_client 1 0, demo_server), 0)]"
  "pool demo_calls = IP4Port (IPv4Addr 0x281E140A) (htons 32001) # IP4Port (IPv4Addr 0x281E140A) (htons 32002) #
     pool_ports (IPv4Addr 0x281E140A) 32003"
proof -
  have f: "flows demo_sip = [Flow_new64 demo_libc (demo_client 1 0) (IP4Port (IPv4Addr 0x281E140A) (htons 32000)) demo_server
      (getServerAddr4 demo_server)]"
    "map64 demo_sip = [((demo_client 1 0, demo_server), 0)]"
    "pool demo_sip = pool_ports (IPv4Addr 0x281E140A) 32001"
    by (simp_all add: demo_sip_def doMapping_def demo_ready_def pool_ready_Cons Let_def)
  show "map_find k64_lt (map64 demo_calls) (IP6Port a 0, v) = Some 0" "analysisMode demo_calls = False"
    "extra demo_calls = EXTRA_NONE"
    using demo_sip_fields by (simp_all add: demo_calls_def upd_flow_def)
  show "length (flows demo_calls) = 1" "map64 demo_calls = [((demo_client 1 0, demo_server), 0)]"
    "flow_at demo_calls 0 = setProtocol ''sip'' (Flow_new64 demo_libc (demo_client 1 0)
     (IP4Port (IPv4Addr 0x281E140A) (htons 32000)) demo_server (getServerAddr4 demo_server))"
    using f by (simp_all add: demo_calls_def upd_flow_def flow_at_def)
  show "pool demo_calls = IP4Port (IPv4Addr 0x281E140A) (htons 32001) # IP4Port (IPv4Addr 0x281E140A) (htons 32002) #
     pool_ports (IPv4Addr 0x281E140A) 32003"
    using pool_ports_Cons [of 32001 "IPv4Addr 0x281E140A"] pool_ports_Cons [of 32002 "IPv4Addr 0x281E140A"]
    by (simp add: demo_calls_def upd_flow_def f)
qed

lemma demo_invite_getFlow: "getFlow demo_libc demo_invite demo_calls = Some (Some 0, demo_calls)"
proof -
  have "getSourcePort demo_invite = 0" by (simp add: getSourcePort_def rd16_def demo_invite_fields) (simp add: demo_invite_def)
  then show ?thesis by (simp add: getFlow_def getMapping6_def demo_calls_fields(1) demo_invite_fields)
qed

lemma demo_calls_pairs:
  "via_pair demo_libc demo_calls demo_request = (''10.20.30.40'', ''32001'')"
  "media_pair demo_libc demo_calls demo_request = (''10.20.30.40'', ''32002'')"
  "fst (mapped demo_libc ''[::]'' ''5060'' demo_calls) = Some 1"
  "fst (mapped demo_libc ''::'' ''4000'' (snd (mapped demo_libc ''[::]'' ''5060'' demo_calls))) = Some 2"
proof -
  have u: "extract_u16 ''5060'' = Some 5060" "extract_u16 ''4000'' = Some 4000"
    by (simp_all add: extract_u16_def is_space_def is_digit_def digits_val_def digit_val_def)
  have n: "ntohs (5060 :: u16) \<noteq> ntohs 4000" "ntohs (5060 :: u16) \<noteq> 0" "ntohs (4000 :: u16) \<noteq> 0"
    "0 \<noteq> ntohs (5060 :: u16)" "0 \<noteq> ntohs (4000 :: u16)" by (simp_all add: ntohs_def)
  have s: "getPortString (IP4Port a (htons 32001)) = ''32001''" "getPortString (IP4Port a (htons 32002)) = ''32002''"
    "getString4 demo_libc b = ''10.20.30.40''" for a b
    by (simp_all add: getPortString_def decimal.simps digit_def ntohs_def char_of_def bit_0 getString4_def demo_libc_def)
  note simps = external_pair_def doMapping_cur_def doMapping_def flow_at_def demo_calls_fields(4,6,7) u s Let_def
    IP6Port_of_string_def demo_client_def nth_append
  show "via_pair demo_libc demo_calls demo_request = (''10.20.30.40'', ''32001'')"
    "media_pair demo_libc demo_calls demo_request = (''10.20.30.40'', ''32002'')"
    "fst (mapped demo_libc ''[::]'' ''5060'' demo_calls) = Some 1"
    "fst (mapped demo_libc ''::'' ''4000'' (snd (mapped demo_libc ''[::]'' ''5060'' demo_calls))) = Some 2"
    using n by (simp_all add: simps via_pair_def media_pair_def demo_request_def)
qed

theorem sip_packet_rewritten_witness:
  "\<exists>p' n' s'. doApp sip_env demo_invite demo_nat demo_calls = Some (p', n', s') \<and> modified n' \<and>
     string_at (obuf p') 28 (length (demo_answer ''32001'' ''32002'')) = demo_answer ''32001'' ''32002''"
proof -
  let ?out = "demo_answer ''32001'' ''32002''"
  have out: "request_text (translated_request demo_libc demo_calls demo_request) = ?out"
    by (rule demo_request_translated) (simp_all add: demo_calls_pairs)
  have small: "length ?out < 1000" by (simp add: demo_answer_def crlf_def)
  obtain p' s' where r: "doApp sip_env demo_invite demo_nat demo_calls =
        Some (p', demo_nat\<lparr>exttcpflow := Some 0, modified := True\<rparr>, s')"
    "bytes_at (obuf p') 28 (length ?out) = map byte_of ?out"
  proof (rule exE [OF sip_packet_rewritten [of "\<lambda>_ _. True" sip_env demo_request ?out demo_calls demo_invite 20 40 0
          "\<lparr>conf_protocol = ''udp'', ptype_c2s = STATELESS, ptype_s2c = STATELESS\<rparr>" demo_nat]])
    show "map_find (<) (protocols demo_calls) ''sip'' = Some \<lparr>conf_protocol = ''udp'', ptype_c2s = STATELESS, ptype_s2c = STATELESS\<rparr>"
      by (simp add: demo_calls_def demo_sip_def)
    show "fst (mapped (env_L sip_env) (r_host demo_request) (r_port demo_request) demo_calls) \<noteq> None"
      "fst (mapped (env_L sip_env) (r_addr demo_request) (r_mport demo_request)
        (snd (mapped (env_L sip_env) (r_host demo_request) (r_port demo_request) demo_calls))) \<noteq> None"
      using demo_calls_pairs(3,4) by (simp_all add: demo_request_def)
    show "getProtocol (flow_at demo_calls 0) = ''sip''" "\<not> ignored (flow_at demo_calls 0)"
      by (simp_all add: demo_calls_fields getProtocol_def setProtocol_def ignored_def Flow_new64_def Flow_default_def)
  qed (use sip_env_runs std_sort_sort_key demo_request_ok demo_request_len demo_invite_payload demo_invite_getFlow demo_calls_fields
      out small in \<open>auto simp: demo_invite_fields\<close>)
  then have "string_at (obuf p') 28 (length ?out) = ?out"
    by (simp add: string_at_def char_of_byte_of o_def)
  with r(1) show ?thesis by (intro exI conjI) (assumption, simp_all)
qed

end
