(* ===== verification/Sip_Routes.thy ===== *)
theory Sip_Routes
  imports Gateway_Routes Sip_Gateway
begin

text \<open>
  The SIP gateway and the translator together: answers to the Via address and media to the session's address that a
  rewritten request names reach the client.
\<close>

section \<open>The pairs that a request names\<close>

definition sip_gateway :: "(nat \<Rightarrow> nat \<Rightarrow> bool) \<Rightarrow> app_env \<Rightarrow> bool" where
  "sip_gateway wins e \<longleftrightarrow> runs_sip wins e \<and> runs_actions e \<and> (\<forall>n k. wins n k) \<and> std_sort (env_sort e) \<and>
     start_pos (env_junk e 0) < 0"

text \<open>A client's UDP packet with a request that has room for its translation \<open>out\<close>.\<close>

definition carries_request :: "packet \<Rightarrow> nat \<Rightarrow> nat \<Rightarrow> sip_request \<Rightarrow> string \<Rightarrow> bool" where
  "carries_request p h h' r out \<longleftrightarrow> request_ok r \<and> scan_int (r_length r) = Some (int (length (body_text r))) \<and>
     has_payload p h h' \<and> isUDP p \<and> getDEST p = SERVER \<and> payload p h' = map byte_of (request_text r) \<and>
     string_at (obuf p) (h + nat (getTransportHeaderLen p)) (length (request_text r)) = request_text r \<and>
     h + nat (getTransportHeaderLen p) + length out \<le> 65536"

text \<open>The packet's flow is known as SIP, whose parser is stateless.\<close>

definition sip_control :: "app_env \<Rightarrow> packet \<Rightarrow> state_manager \<Rightarrow> nat \<Rightarrow> bool" where
  "sip_control e p s fid \<longleftrightarrow> getFlow (env_L e) p s = Some (Some fid, s) \<and> fid < length (flows s) \<and> \<not> analysisMode s \<and>
     extra s \<noteq> EXTRA_SHIFT \<and> \<not> ignored (flow_at s fid) \<and> getProtocol (flow_at s fid) = ''sip'' \<and>
     (\<exists>conf. map_find (<) (protocols s) ''sip'' = Some conf \<and> ptype_c2s conf = STATELESS)"

text \<open>The two pairs a request announces, and the text of a pair.\<close>

definition via_addr :: "libc \<Rightarrow> sip_request \<Rightarrow> ip6port" where
  "via_addr L r = IP6Port_of_string L (IPv6Addr_of_string L (r_host r)) (r_port r)"

definition media_addr :: "libc \<Rightarrow> sip_request \<Rightarrow> ip6port" where
  "media_addr L r = IP6Port_of_string L (IPv6Addr_of_string L (r_addr r)) (r_mport r)"

definition pair_text :: "libc \<Rightarrow> ip4port \<Rightarrow> string \<times> string" where
  "pair_text L q = (getString4 L (getIP4 q), getPortString q)"

text \<open>Both announced pairs are new, and the pool has a pair for each.\<close>

definition pairs_new :: "libc \<Rightarrow> state_manager \<Rightarrow> sip_request \<Rightarrow> bool" where
  "pairs_new L s r \<longleftrightarrow> map_find k64_lt (map64 s) (via_addr L r, ip6srv_cur s) = None \<and>
     map_find k64_lt (map64 s) (media_addr L r, ip6srv_cur s) = None \<and>
     getPort6 (via_addr L r) \<noteq> getPort6 (media_addr L r) \<and> 2 \<le> length (pool s)"

text \<open>\<open>q\<close> is the external pair of \<open>a\<close>'s flow to the current server, in the tables of \<open>t\<close>, which extend those of \<open>s\<close>.\<close>

definition route :: "state_manager \<Rightarrow> state_manager \<Rightarrow> nat \<Rightarrow> ip6port \<Rightarrow> ip4port \<Rightarrow> bool" where
  "route s t i a q \<longleftrightarrow> extends s t \<and> flow_bound t i \<and> ip6p (flow_at t i) = a \<and>
     ip6srv (flow_at t i) = ip6srv_cur s \<and> ip4p (flow_at t i) = q"

lemma route_mapping:
  assumes "table_inv s" and "map_find k64_lt (map64 s) (a, ip6srv_cur s) = None" and "pool s \<noteq> []"
  obtains i s1 where "doMapping_cur L a s = (Some i, s1)" "route s s1 i a (hd (pool s))" "pool s1 = tl (pool s)"
    "ip6srv_cur s1 = ip6srv_cur s"
proof -
  obtain i s1 where m: "doMapping L a (ip6srv_cur s) s = (Some i, s1)"
    and f: "ip6p (flow_at s1 i) = a" "ip6srv (flow_at s1 i) = ip6srv_cur s" "ip4p (flow_at s1 i) = hd (pool s)"
    by (rule fresh_flow [OF assms(2,3)]) blast
  have "extends s s1" using extends_doMapping [OF assms(1), of L a "ip6srv_cur s"] m by simp
  with doMapping_bound(1) [OF assms(1) m] f have "route s s1 i a (hd (pool s))" by (simp add: route_def)
  moreover have "pool s1 = tl (pool s)" "ip6srv_cur s1 = ip6srv_cur s"
    using pool_doMapping [of L a "ip6srv_cur s" s] ip6srv_cur_doMapping [of L a "ip6srv_cur s" s] assms(2) m by simp_all
  ultimately show thesis using that m by (simp add: doMapping_cur_def)
qed

lemma route_extends:
  assumes "route s t i a q" and "extends t u" shows "route s u i a q"
  using assms extends_trans [of s t u] by (auto simp: route_def extends_def)

text \<open>The two mappings a request makes.\<close>

lemma request_routes:
  assumes "table_inv s" and "pairs_new L s r"
  obtains i s1 j s2 where "mapped L (r_host r) (r_port r) s = (Some i, s1)" "mapped L (r_addr r) (r_mport r) s1 = (Some j, s2)"
    "route s s1 i (via_addr L r) (pool s ! 0)" "route s s2 j (media_addr L r) (pool s ! 1)"
    "extends s1 s2" "ip6srv_cur s1 = ip6srv_cur s"
    "via_pair L s r = pair_text L (pool s ! 0)" "media_pair L s r = pair_text L (pool s ! 1)"
proof -
  obtain x y qs where pool: "pool s = x # y # qs"
    using assms(2) by (cases "pool s"; cases "tl (pool s)") (auto simp: pairs_new_def)
  obtain i s1 where via: "mapped L (r_host r) (r_port r) s = (Some i, s1)" "route s s1 i (via_addr L r) x"
    and s1: "pool s1 = y # qs" "ip6srv_cur s1 = ip6srv_cur s"
    by (rule route_mapping [of s "via_addr L r" L]) (use assms pool in \<open>auto simp: pairs_new_def via_addr_def\<close>)
  have "map_find k64_lt (map64 s1) (media_addr L r, ip6srv_cur s1) = None"
    using find64_doMapping [of L "via_addr L r" "ip6srv_cur s" s "(media_addr L r, ip6srv_cur s1)"] via(1) assms(2) s1(2)
    by (auto simp: pairs_new_def doMapping_cur_def via_addr_def)
  moreover have "table_inv s1" using via(2) by (auto simp: route_def intro: extends_inv)
  ultimately obtain j s2 where media: "mapped L (r_addr r) (r_mport r) s1 = (Some j, s2)"
      "route s1 s2 j (media_addr L r) y"
    by (elim route_mapping [of s1 "media_addr L r" L, rotated]) (use s1 in \<open>auto simp: media_addr_def\<close>)
  have e: "extends s1 s2" using media(2) by (simp add: route_def)
  have "extends s s2" using via(2) extends_trans [OF _ e] by (simp add: route_def)
  with media(2) s1(2) have r2: "route s s2 j (media_addr L r) y" by (simp add: route_def)
  have "via_pair L s r = pair_text L x" "media_pair L s r = pair_text L y"
    using via media by (simp_all add: via_pair_def media_pair_def external_pair_def pair_text_def route_def)
  with that [OF via(1) media(1) _ _ e s1(2)] via(2) r2 show thesis by (simp add: pool)
qed

lemma sip_promise:
  assumes "sip_gateway wins e" and "carries_request p h h' r (request_text named)" and "sip_control e p s fid"
    and "named = translated_request (env_L e) s r" and "table_inv s" and "pairs_new (env_L e) s r"
  obtains p' n' s' i j where "doApp e p n s = Some (p', n', s')"
    "bytes_at (obuf p') (h + nat (getTransportHeaderLen p)) (length (request_text named)) = map byte_of (request_text named)"
    "transport_len p' = getTransportHeaderLen p + int (length (request_text named))"
    "route s s' i (via_addr (env_L e) r) (pool s ! 0)" "(r_host named, r_port named) = pair_text (env_L e) (pool s ! 0)"
    "route s s' j (media_addr (env_L e) r) (pool s ! 1)" "(r_addr named, r_mport named) = pair_text (env_L e) (pool s ! 1)"
    "p' = edited p h (map byte_of (request_text named))"
proof -
  let ?L = "env_L e"
  obtain i s1 j s2 where m: "mapped ?L (r_host r) (r_port r) s = (Some i, s1)" "mapped ?L (r_addr r) (r_mport r) s1 = (Some j, s2)"
    and routes: "route s s1 i (via_addr ?L r) (pool s ! 0)" "route s s2 j (media_addr ?L r) (pool s ! 1)" "extends s1 s2"
    and named: "via_pair ?L s r = pair_text ?L (pool s ! 0)" "media_pair ?L s r = pair_text ?L (pool s ! 1)"
    by (rule request_routes [OF assms(5,6)])
  obtain conf where conf: "map_find (<) (protocols s) ''sip'' = Some conf" "ptype_c2s conf = STATELESS"
    using assms(3) by (auto simp: sip_control_def)
  obtain p' s' where d: "doApp e p n s = Some (p', n\<lparr>exttcpflow := Some fid, modified := True\<rparr>, s')"
    "bytes_at (obuf p') (h + nat (getTransportHeaderLen p)) (length (request_text named)) = map byte_of (request_text named)"
    "transport_len p' = getTransportHeaderLen p + int (length (request_text named))"
    and ed: "p' = edited p h (map byte_of (request_text named))" and same: "same_tables s' s2"
    using sip_packet_effect [where e = e and p = p and s = s and fid = fid and h = h and h' = h' and n = n and r = r and
        wins = wins and out = "request_text named" and conf = conf] assms(1-4) conf m
    unfolding sip_gateway_def carries_request_def sip_control_def by auto
  have "extends s2 s'"
    using routes(3) same by (intro extends_same) (auto intro: extends_inv)
  with routes route_extends extends_trans [OF routes(3)]
  have "route s s' i (via_addr ?L r) (pool s ! 0)" "route s s' j (media_addr ?L r) (pool s ! 1)" by blast+
  with that [OF d(1-3)] named ed show thesis by (simp add: assms(4) translated_request_def Let_def)
qed

text \<open>A packet to the pair of a route, after any run.\<close>

lemma route_reached:
  assumes "route s s' i b q" and "gateway_run L sendto e (w\<lparr>w_sm := s'\<rparr>) w2" and "runs_actions e"
    and "isAddrInRange6 (ip6srv_cur s) s" and "pool_addr (getIP4 q) s" and "inj_on (getString4 L) {x. pool_addr x s}"
    and "to_client a (w_sm w2)" and "exttcpflow m = None" and "server4_of a = getServerAddr4 (ip6srv_cur s)"
    and "pair_text L (ext_of a) = pair_text L q"
  shows "\<exists>q' m' w3. translate L sendto a m w2 = Some (1, q', m', w3) \<and>
    wire w3 = wire w2 @ [Sent6 (bytes_at (obuf q') 0 (40 + nat (transport_len a))) (getIP6 b)] \<and>
    translated6 a b (ip6srv_cur s) (obuf q')"
proof -
  have r: "extends s s'" "flow_bound s' i" and f: "ip6p (flow_at s' i) = b" "ip6srv (flow_at s' i) = ip6srv_cur s"
      "ip4p (flow_at s' i) = q"
    using assms(1) by (simp_all add: route_def)
  have e2: "extends s' (w_sm w2)"
    using gateway_run_extends [OF assms(2,3)] extends_inv [OF r(1)] by simp
  have "pool_addr (getIP4 (ext_of a)) s"
    using assms(7) extends_config(2) [OF e2] extends_config(2) [OF r(1)] by (simp add: to_client_def)
  moreover have "getString4 L (getIP4 (ext_of a)) = getString4 L (getIP4 q)" "getPort4 (ext_of a) = getPort4 q"
    using assms(10) getPortString_inj [of "ext_of a" q] by (simp_all add: pair_text_def)
  ultimately have ext: "ext_of a = ip4p (flow_at s' i)"
    using assms(5) inj_onD [OF assms(6)] unfolding f(3) by (cases "ext_of a"; cases q) simp
  have "isAddrInRange6 (ip6srv (flow_at s' i)) s'" using assms(4) by (simp add: f extends_config(1) [OF r(1)])
  with answer_reaches_flow [OF e2 r(2) assms(7,8) ext, of L sendto] assms(9) show ?thesis
    unfolding f by blast
qed

text \<open>
  C3: The promises of a rewritten SIP request are kept.  A client of a flow known as SIP sends a request whose Via
  line and whose session announce two new pairs, in the shape that \<open>request_text\<close> gives and with a scanner that prefers the rules
  for the beginning of a line; \<open>doApp\<close> leaves a packet with a translated request.  Let then any
  packets be translated and read by the application layer, in any order and by any threads.  A packet that the
  server sends to the address and port in the translated request's session, or to those of its Via line, is delivered
  by \<open>translate\<close>, as one IPv6 packet with its checksum recomputed, to the pair that the client announced
  in the same place, and it comes from the address under which the client knows the server.
\<close>

theorem sip_media_reaches_client:
  assumes "sip_gateway wins e" and "carries_request p h h' r (request_text named)" and "sip_control e p s fid"
    and "named = translated_request (env_L e) s r" and "table_inv s" and "pairs_new (env_L e) s r"
    and "isAddrInRange6 (ip6srv_cur s) s" and "pool_addr (getIP4 (pool s ! 0)) s" and "pool_addr (getIP4 (pool s ! 1)) s"
    and "inj_on (getString4 (env_L e)) {x. pool_addr x s}"
    and "doApp e p n s = Some (p', n', s')" and "gateway_run (env_L e) sendto e (w\<lparr>w_sm := s'\<rparr>) w2"
    and "to_client a (w_sm w2)" and "exttcpflow m = None" and "server4_of a = getServerAddr4 (ip6srv_cur s)"
    and "pair_text (env_L e) (ext_of a) = (r_addr named, r_mport named) \<and> announced = media_addr (env_L e) r \<or>
      pair_text (env_L e) (ext_of a) = (r_host named, r_port named) \<and> announced = via_addr (env_L e) r"
  shows "bytes_at (obuf p') (h + nat (getTransportHeaderLen p)) (length (request_text named)) = map byte_of (request_text named) \<and>
    (\<exists>q' m' w3. translate (env_L e) sendto a m w2 = Some (1, q', m', w3) \<and>
      wire w3 = wire w2 @ [Sent6 (bytes_at (obuf q') 0 (40 + nat (transport_len a))) (getIP6 announced)] \<and>
      translated6 a announced (ip6srv_cur s) (obuf q'))"
proof -
  let ?L = "env_L e"
  obtain i j where out: "bytes_at (obuf p') (h + nat (getTransportHeaderLen p)) (length (request_text named)) =
      map byte_of (request_text named)"
    and via: "route s s' i (via_addr ?L r) (pool s ! 0)" "(r_host named, r_port named) = pair_text ?L (pool s ! 0)"
    and media: "route s s' j (media_addr ?L r) (pool s ! 1)" "(r_addr named, r_mport named) = pair_text ?L (pool s ! 1)"
    by (rule sip_promise [OF assms(1-6), of n]) (use assms(11) in auto)
  have acts: "runs_actions e" using assms(1) by (simp add: sip_gateway_def)
  note to = route_reached [OF _ assms(12) acts assms(7) _ assms(10,13-15)]
  show ?thesis
    using out to [OF via(1) assms(8)] to [OF media(1) assms(9)] assms(16) via(2) media(2) by metis
qed

section \<open>The demonstration\<close>

text \<open>
  The \<open>INVITE\<close> of \<open>Sip_Gateway\<close>'s demonstration, with the server set; then the server sends a UDP packet to
  10.20.30.40, port 32002, the session's port in the translated request.
\<close>

lemma sip_env_actions: "runs_actions sip_env"
  unfolding runs_actions_def
proof (intro allI disjI1)
  fix pid c s
  let ?r = "Option.bind (sip_lex (\<lambda>_ _. True) c (new_sip_scan SIP_header)) (\<lambda>ts. sip_run demo_libc pid ts s)"
  show "actions (env_L sip_env) pid s (snd (env_feed sip_env pid c s))"
  proof (cases ?r)
    case (Some y)
    obtain v s1 where y: "y = (v, s1)" by (cases y)
    from Some obtain ts where "sip_run demo_libc pid ts s = Some y" by (auto simp: bind_eq_Some_conv)
    with sip_run_sound have "actions demo_libc pid s (snd y)" using sip_derived_actions by blast
    then have "actions demo_libc pid s (sip_message 0 pid v s1)"
      using do_message [of demo_libc pid s1 0 v] by (simp add: y)
    with Some y show ?thesis by (simp add: sip_feed_def)
  qed (simp add: sip_feed_def)
qed

lemma sip_env_gateway: "sip_gateway (\<lambda>_ _. True) sip_env"
  using sip_env_runs sip_env_actions std_sort_sort_key by (simp add: sip_gateway_def)

definition demo_dialog :: state_manager where
  "demo_dialog = demo_calls\<lparr>ip6srv_cur := demo_server\<rparr>"

lemma demo_dialog_tables: "same_tables demo_dialog demo_control"
proof -
  have "same_tables (upd_flow 0 (setProtocol ''sip'') demo_sip) demo_sip" by (rule same_tables_ends) simp
  moreover have "same_tables demo_sip demo_control" by (simp add: demo_sip_def same_tables_def endpoints_def)
  ultimately have "same_tables demo_calls demo_control" unfolding demo_calls_def by (rule same_tables_trans)
  then show ?thesis by (simp add: demo_dialog_def same_tables_def endpoints_def)
qed

lemmas demo_dialog_inv = demo_control_fields(1) [OF demo_dialog_tables]

lemma demo_dialog_fields:
  "ip6srv_cur demo_dialog = demo_server" "pool demo_dialog ! 0 = IP4Port (IPv4Addr 0x281E140A) (htons 32001)"
  "pool demo_dialog ! Suc 0 = IP4Port (IPv4Addr 0x281E140A) (htons 32002)"
  "pool_addr x demo_dialog \<longleftrightarrow> x = IPv4Addr 0x281E140A" "isAddrInRange6 demo_server demo_dialog"
  "pairs_new demo_libc demo_dialog demo_request" "\<not> analysisMode demo_dialog"
proof -
  have u: "extract_u16 ''5060'' = Some 5060" "extract_u16 ''4000'' = Some 4000"
    by (simp_all add: extract_u16_def is_space_def is_digit_def digits_val_def digit_val_def)
  then have p: "getPort6 (via_addr demo_libc demo_request) = htons 5060" "getPort6 (media_addr demo_libc demo_request) = htons 4000"
    by (simp_all add: via_addr_def media_addr_def demo_request_def IP6Port_of_string_def)
  have n: "htons 5060 \<noteq> htons 4000" "htons 5060 \<noteq> (0 :: u16)" "htons 4000 \<noteq> (0 :: u16)" by (simp_all add: ntohs_def)
  have pool: "pool demo_dialog = IP4Port (IPv4Addr 0x281E140A) (htons 32001) #
      IP4Port (IPv4Addr 0x281E140A) (htons 32002) # pool_ports (IPv4Addr 0x281E140A) 32003"
    using pool_ports_Cons [of 32001 "IPv4Addr 0x281E140A"] pool_ports_Cons [of 32002 "IPv4Addr 0x281E140A"]
    by (simp add: demo_control_fields(2) [OF demo_dialog_tables])
  then show "pool demo_dialog ! 0 = IP4Port (IPv4Addr 0x281E140A) (htons 32001)"
    "pool demo_dialog ! Suc 0 = IP4Port (IPv4Addr 0x281E140A) (htons 32002)"
    by simp_all
  show "pairs_new demo_libc demo_dialog demo_request"
    using p n pool demo_control_fields(5) [OF demo_dialog_tables] by (simp add: pairs_new_def)
  show "ip6srv_cur demo_dialog = demo_server" by (simp add: demo_dialog_def)
  show "\<not> analysisMode demo_dialog" using demo_calls_fields(2) by (simp add: demo_dialog_def)
qed (rule demo_control_fields(3,4) [OF demo_dialog_tables])+

abbreviation demo_named :: sip_request where
  "demo_named \<equiv> translated_request demo_libc demo_dialog demo_request"

lemma demo_dialog_carries: "carries_request demo_invite 20 40 demo_request (request_text demo_named)"
proof -
  have t: "getPortString (IP4Port a (htons 32001)) = ''32001''" "getPortString (IP4Port a (htons 32002)) = ''32002''"
    "getString4 demo_libc b = ''10.20.30.40''" for a b
    by (simp_all add: getPortString_def decimal.simps digit_def ntohs_def char_of_def bit_0 getString4_def demo_libc_def)
  have "request_text demo_named = demo_answer ''32001'' ''32002''"
    by (rule request_routes [OF demo_dialog_inv demo_dialog_fields(6)], rule demo_request_translated)
      (simp_all add: demo_dialog_fields(2,3) pair_text_def t)
  then have "length (request_text demo_named) < 1000" by (simp add: demo_answer_def crlf_def)
  then show ?thesis
    using demo_request_ok demo_request_len demo_invite_payload by (simp add: carries_request_def demo_invite_fields)
qed

lemma demo_dialog_control: "sip_control sip_env demo_invite demo_dialog 0"
proof -
  have f: "flow_at demo_dialog 0 = flow_at demo_calls 0" "map64 demo_dialog = map64 demo_calls"
    by (simp_all add: demo_dialog_def flow_at_def)
  have "getSourcePort demo_invite = 0" by (simp add: getSourcePort_def rd16_def demo_invite_fields) (simp add: demo_invite_def)
  then have "getFlow demo_libc demo_invite demo_dialog = Some (Some 0, demo_dialog)"
    by (simp add: getFlow_def getMapping6_def f demo_calls_fields(1) demo_invite_fields)
  moreover have "0 < length (flows demo_dialog)" "extra demo_dialog \<noteq> EXTRA_SHIFT"
    using demo_calls_fields(3,4) by (simp_all add: demo_dialog_def)
  moreover have "map_find (<) (protocols demo_dialog) ''sip'' =
      Some \<lparr>conf_protocol = ''udp'', ptype_c2s = STATELESS, ptype_s2c = STATELESS\<rparr>"
    by (simp add: demo_dialog_def demo_calls_def demo_sip_def)
  ultimately show ?thesis
    using demo_dialog_fields(7)
    by (simp add: sip_control_def f(1) demo_calls_fields(5))
      (simp add: ignored_def getProtocol_def setProtocol_def Flow_new64_def Flow_default_def)
qed

abbreviation demo_media :: packet where
  "demo_media \<equiv> demo_reply IPPROTO_UDP 0x7D 2"

theorem sip_media_reaches_client_witness:
  "\<exists>p' n' s' q' m' w3. doApp sip_env demo_invite demo_nat demo_dialog = Some (p', n', s') \<and>
     translate demo_libc demo_sendto demo_media demo_nat (demo_world\<lparr>w_sm := s'\<rparr>) = Some (1, q', m', w3) \<and>
     wire w3 = [Sent6 (bytes_at (obuf q') 0 60) (getIP6 (media_addr demo_libc demo_request))] \<and>
     translated6 demo_media (media_addr demo_libc demo_request) demo_server (obuf q')"
proof -
  note c = demo_dialog_fields
  have d: "ext_of demo_media = IP4Port (IPv4Addr 0x281E140A) (htons 32002)" "server4_of demo_media = IPv4Addr 0x0200000A"
    "transport_len demo_media = 20"
    using demo_reply_fields [of IPPROTO_UDP] by (simp_all add: rd16_def ntohs_def)
  have srv: "getServerAddr4 demo_server = IPv4Addr 0x0200000A" by (simp add: demo_server_def getServerAddr4_def)
  note env = sip_env_gateway demo_dialog_carries demo_dialog_control
  have named: "demo_named = translated_request (env_L sip_env) demo_dialog demo_request"
    and new: "pairs_new (env_L sip_env) demo_dialog demo_request" by (simp_all add: c(6))
  obtain p' n' s' j where r: "doApp sip_env demo_invite demo_nat demo_dialog = Some (p', n', s')"
    "route demo_dialog s' j (media_addr demo_libc demo_request) (pool demo_dialog ! 1)"
    "(r_addr demo_named, r_mport demo_named) = pair_text demo_libc (pool demo_dialog ! 1)"
    by (rule sip_promise [OF env named demo_dialog_inv new, of demo_nat]) simp
  have "extends demo_dialog s'" using r(2) by (simp add: route_def)
  from demo_reply_to_client [OF _ this] c(7) have a: "to_client demo_media s'" by (simp add: c(4))
  have p: "pair_text demo_libc (ext_of demo_media) = (r_addr demo_named, r_mport demo_named)"
    using r(3) by (simp add: d(1) c(3))
  have "\<exists>q' m' w3. translate (env_L sip_env) demo_sendto demo_media demo_nat (demo_world\<lparr>w_sm := s'\<rparr>) = Some (1, q', m', w3) \<and>
      wire w3 = wire (demo_world\<lparr>w_sm := s'\<rparr>) @ [Sent6 (bytes_at (obuf q') 0 (40 + nat (transport_len demo_media)))
        (getIP6 (media_addr demo_libc demo_request))] \<and>
      translated6 demo_media (media_addr demo_libc demo_request) (ip6srv_cur demo_dialog) (obuf q')"
  proof (rule conjunct2 [OF sip_media_reaches_client [OF env named demo_dialog_inv new _ _ _ _ r(1) rtranclp.rtrancl_refl]])
    show "inj_on (getString4 (env_L sip_env)) {x. pool_addr x demo_dialog}" by (simp add: c(4) inj_on_def)
    show "to_client demo_media (w_sm (demo_world\<lparr>w_sm := s'\<rparr>))" using a by simp
  qed (use p in \<open>simp_all add: c(1-5) d srv demo_nat_def\<close>)
  with r(1) show ?thesis by (simp add: c(1) d)
qed

end
