(* ===== verification/Gateway_Wire.thy ===== *)
theory Gateway_Wire
  imports Sip_Routes
begin

text \<open>
  The gateway and the translator one after the other: what is put on the wire for a packet whose payload \<open>doApp\<close>
  has rewritten.
\<close>

section \<open>A rewritten packet is still a packet for the server\<close>

lemma adjust_seq_envelope [simp]:
  "ipVersionBefore (adjust_seq d f p) = ipVersionBefore p" "ip6_hdr (adjust_seq d f p) = ip6_hdr p"
  "ip_hdr (adjust_seq d f p) = ip_hdr p" "ip_len (adjust_seq d f p) = ip_len p"
  "hw_protocol (adjust_seq d f p) = hw_protocol p" "obuf_len (adjust_seq d f p) = obuf_len p"
  by (auto simp: adjust_seq_def Let_def split: option.splits)

lemma edited_envelope [simp]:
  "ipVersionBefore (edited p h out) = ipVersionBefore p" "ip6_hdr (edited p h out) = ip6_hdr p"
  "ip_hdr (edited p h out) = ip_hdr p" "ip_len (edited p h out) = ip_len p"
  "hw_protocol (edited p h out) = hw_protocol p" "ibuf (edited p h out) = ibuf p"
  "tcp_hdr (edited p h out) = tcp_hdr p" "udp_hdr (edited p h out) = udp_hdr p"
  "transport_len (edited p h out) = int (length out) + getTransportHeaderLen p"
  "obuf_len (edited p h out) = ip_len p + (int (length out) + getTransportHeaderLen p)"
  by (simp_all add: edited_def setTransportLen_def Let_def split: option.split)

lemma edited_kind [simp]: "isTCP (edited p h out) = isTCP p" "isUDP (edited p h out) = isUDP p"
  by (simp_all add: isTCP_def isUDP_def)

text \<open>The header in front of the payload is as it was, but for the UDP length.\<close>

lemma edited_header:
  assumes "j < h + nat (getTransportHeaderLen p)" and "udp_hdr p = None \<or> udp_hdr p = Some h \<and> j \<notin> {h + 4, h + 5}"
  shows "obuf (edited p h out) j = obuf p j"
  using assms by (auto simp: edited_def setTransportLen_def Let_def put_before wr16_byte_ne split: option.split)

lemma edited_payload:
  assumes "has_payload p h h'" and "i < length out"
  shows "obuf (edited p h out) (h + nat (getTransportHeaderLen p) + i) = out ! i"
proof -
  let ?a = "h + nat (getTransportHeaderLen p)"
  have "bytes_at (obuf (edited p h out)) ?a (length out) = out"
    unfolding edited_def by (simp add: bytes_at_setTransportLen [OF assms(1)] bytes_at_put)
  then have "bytes_at (obuf (edited p h out)) ?a (length out) ! i = out ! i" by simp
  with assms(2) show ?thesis by simp
qed

text \<open>Where the segment is, and the length of its header.\<close>

lemma out4_segment:
  assumes "out4 p" and "has_payload p h h'" and "isTCP p \<longrightarrow> 20 \<le> getTransportHeaderLen p"
  shows "h = 20" and "isTCP p \<Longrightarrow> tcp_hdr p = Some 20 \<and> udp_hdr p = None \<and> 20 \<le> nat (getTransportHeaderLen p)"
    and "isUDP p \<Longrightarrow> tcp_hdr p = None \<and> udp_hdr p = Some 20 \<and> getTransportHeaderLen p = 8"
    and "8 \<le> nat (getTransportHeaderLen p)"
  using assms
  by (auto simp: out4_def has_payload_def seg_ptrs_def isTCP_def isUDP_def getTransportHeaderLen_def split: option.splits)

lemma edited_to_server:
  assumes "to_server p s" and "has_payload p h h'" and "isTCP p \<longrightarrow> 20 \<le> getTransportHeaderLen p"
    and "p' = edited (adjust_seq d f p) h out"
  shows "to_server p' s" and "client_of p' = client_of p" and "server_of p' = server_of p"
proof -
  have o: "out4 p" using assms(1) by (simp add: to_server_def)
  note seg = out4_segment [OF o assms(2,3)]
  have ports: "obuf p' j = obuf p j" if "j = 20 \<or> j = 21" for j
  proof -
    have "obuf p' j = obuf (adjust_seq d f p) j"
      unfolding assms(4) by (rule edited_header) (use seg assms(2) that in \<open>auto simp: has_payload_def isTCP_def isUDP_def\<close>)
    also have "\<dots> = obuf p j"
    proof (cases "isTCP p")
      case True
      with adjust_seq_byte [of p 20 j d f] seg(2) that show ?thesis by auto
    next
      case False
      then show ?thesis by (simp add: adjust_seq_def isTCP_def)
    qed
    finally show ?thesis .
  qed
  show "to_server p' s"
    using assms(1) seg header_len_nonneg [of p]
    by (auto simp: to_server_def assms(4) out4_def server_of_def check_end_def)
  show "server_of p' = server_of p" by (simp add: assms(4) server_of_def)
  have "rd16 (obuf p') 20 = rd16 (obuf p) 20" using ports by (simp add: rd16_def)
  then have "getSourcePort p' = getSourcePort p"
    using seg assms(2) by (auto simp: getSourcePort_def assms(4) has_payload_def isTCP_def isUDP_def split: option.split)
  then show "client_of p' = client_of p" by (simp add: client_of_def assms(4))
qed

section \<open>On the wire\<close>

lemma extends64:
  assumes "table_inv s" and "map_find k64_lt (map64 s) (a, srv) = Some fid" and "extends s t"
  shows "map_find k64_lt (map64 t) (a, srv) = Some fid"
proof -
  note b = table_inv64 [OF assms(1,2)]
  have t: "flow_bound t fid" "ip6p (flow_at t fid) = ip6p (flow_at s fid)"
    using assms(3) b(1) by (simp_all add: extends_def)
  have "map_find k64_lt (map64 t) (a, srv) = map_find k64_lt (map64 t) (ip6p (flow_at t fid), ip6srv (flow_at t fid))"
    by (rule find64_port) (simp add: t(2) b(2))
  then show ?thesis using t(1) by (simp add: flow_bound_def Let_def)
qed

text \<open>The flow of a packet keeps its external pair while the tables are extended.\<close>

lemma known_flow:
  assumes "table_inv s" and "map_find k64_lt (map64 s) (a, srv) = Some fid" and "extends s t"
  shows "doMapping L a srv t = (Some fid, t)" and "ip4p (flow_at t fid) = ip4p (flow_at s fid)"
proof -
  show "ip4p (flow_at t fid) = ip4p (flow_at s fid)"
    using assms(3) table_inv64 [OF assms(1,2)] by (simp add: extends_def)
  show "doMapping L a srv t = (Some fid, t)"
    using extends64 [OF assms] by (cases rule: doMapping_cases [of t a srv L]) simp_all
qed

lemma getFlow_out4:
  assumes "getFlow L p s = Some (Some fid, s)" and "out4 p"
  shows "map_find k64_lt (map64 s) (client_of p, server_of p) = Some fid"
  using assms by (auto simp: getFlow_def out4_def getMapping6_def client_of_def server_of_def bind_eq_Some_conv
      split: if_splits)

text \<open>
  The IPv4 packet \<open>m\<close> for the segment of \<open>p\<close> with the new payload \<open>out\<close>: from the pair \<open>x\<close> to the address
  \<open>srv\<close>, with a checksum that the receiver accepts.
\<close>

definition carries4 :: "packet \<Rightarrow> ip4port \<Rightarrow> ipv4addr \<Rightarrow> string \<Rightarrow> mem \<Rightarrow> bool" where
  "carries4 p x srv out m \<longleftrightarrow>
     (let hl = nat (getTransportHeaderLen p) in
      rd32 m 12 = getInt (getIP4 x) \<and> rd32 m 16 = getInt srv \<and> rd16 m 20 = getPort4 x \<and> m 9 = ibuf p 6 \<and>
      bytes_at m (20 + hl) (length out) = map byte_of out \<and>
      transport_valid m 20 (hl + length out) m 12 16 4 (transport_proto p))"

lemma edited_sent:
  assumes "to_server p s" and "has_payload p h h'" and "isTCP p \<longrightarrow> 20 \<le> getTransportHeaderLen p"
    and "p' = edited (adjust_seq d f p) h (map byte_of out)" and "table_inv s" and "extends s (w_sm w)"
    and "getFlow L p s = Some (Some fid, s)"
  obtains q n' w' where "translate L sendto p' n w = Some (1, q, n', w')"
    "wire w' = wire w @ [Sent4 (bytes_at (obuf q) 0 (20 + nat (getTransportHeaderLen p) + length out))
      (getServerAddr4 (server_of p))]"
    "carries4 p (ip4p (flow_at s fid)) (getServerAddr4 (server_of p)) out (obuf q)"
    "\<forall>j \<in> {22..<20 + nat (getTransportHeaderLen p) + length out} - {check_at p, check_at p + 1}.
      obuf q j = obuf p' j"
proof -
  have o: "out4 p" using assms(1) by (simp add: to_server_def)
  note seg = out4_segment [OF o assms(2,3)]
  note to = edited_to_server [OF assms(1-4)]
  have "\<not> analysisMode (w_sm w)" "isAddrInRange6 (server_of p) (w_sm w)"
    using assms(1,6) extends_config(1) [OF assms(6)] by (simp_all add: to_server_def extends_def)
  with to have to': "to_server p' (w_sm w)" by (simp add: to_server_def)
  note k = known_flow [OF assms(5) getFlow_out4 [OF assms(7) o] assms(6)]
  have m: "doMapping L (client_of p') (server_of p') (w_sm w) = (Some fid, w_sm w)"
    unfolding to(2,3) by (rule k(1))
  have len: "transport_len p' = getTransportHeaderLen p + int (length out)" by (simp add: assms(4))
  have l: "20 + nat (transport_len p') = 20 + nat (getTransportHeaderLen p) + length out"
    using header_len_nonneg [of p] by (simp add: len nat_add_distrib)
  have proto: "transport_proto p' = transport_proto p" "check_at p' = check_at p"
    by (simp_all add: transport_proto_def check_at_def assms(4))
  obtain q n' w' where t: "translate L sendto p' n w = Some (1, q, n', w')"
    "wire w' = wire w @ [Sent4 (bytes_at (obuf q) 0 (20 + nat (transport_len p'))) (getServerAddr4 (server_of p'))]"
    "translated4 p' (ip4p (flow_at (w_sm w) fid)) (getServerAddr4 (server_of p')) (obuf q)"
    using to' unfolding to_server_def
    by (elim conjE)
      (rule translate4_core [where sendto = sendto and n = n, OF _ _ _ _ _ _ extends_inv [OF assms(6)] m]; blast)
  have same: "\<forall>j \<in> {22..<20 + nat (getTransportHeaderLen p) + length out} - {check_at p, check_at p + 1}.
      obuf q j = obuf p' j"
    using t(3) unfolding translated4_def l proto by blast
  have c: "check_at p + 1 < 20 + nat (getTransportHeaderLen p)"
    using seg(2,3) assms(2) o by (auto simp: check_at_def out4_def has_payload_def)
  have "bytes_at (obuf q) (20 + nat (getTransportHeaderLen p)) (length out) = map byte_of out"
  proof (rule nth_equalityI)
    fix i assume "i < length (bytes_at (obuf q) (20 + nat (getTransportHeaderLen p)) (length out))"
    then have i: "i < length out" by simp
    have hp: "has_payload (adjust_seq d f p) h h'" using assms(2) by simp
    have "obuf p' (20 + nat (getTransportHeaderLen p) + i) = byte_of (out ! i)"
      using edited_payload [OF hp, of i "map byte_of out"] i seg(1) by (simp add: assms(4))
    moreover have "20 + nat (getTransportHeaderLen p) + i \<in>
        {22..<20 + nat (getTransportHeaderLen p) + length out} - {check_at p, check_at p + 1}"
      using c i seg(4) by auto
    ultimately show "bytes_at (obuf q) (20 + nat (getTransportHeaderLen p)) (length out) ! i = map byte_of out ! i"
      using same i by simp
  qed simp
  moreover have "nat (transport_len p') = nat (getTransportHeaderLen p) + length out" using l by simp
  ultimately have "carries4 p (ip4p (flow_at s fid)) (getServerAddr4 (server_of p)) out (obuf q)"
    using t(3) by (simp add: carries4_def translated4_def proto to(3) k(2)) (simp add: assms(4))
  with that [OF t(1) _ _ same] t(2) show thesis by (simp add: l to(3))
qed

text \<open>
  C7: What the server receives for an \<open>EPRT\<close> command.  After \<open>doApp\<close> has rewritten the client's packet, and whatever
  else is translated and rewritten before it is sent, \<open>translate\<close> sends exactly one IPv4 packet for it: to the
  server's address, from the external pair of the control connection, with the \<open>EPRT\<close> command of IPv4 that names
  the pair at the head of the pool as its whole payload, a TCP checksum over all of it that the receiver accepts,
  and the client's sequence number moved by what earlier commands were lengthened.
\<close>

theorem eprt_command_on_the_wire:
  assumes "ftp_gateway e" and "eprt_command gs hs port line" and "carries_line p h h' line" and "ftp_control e p s fid"
    and "announced = IP6Port_of_string (env_L e) (IPv6Addr_of_string (env_L e) (address_text gs hs)) port"
    and "table_inv s" and "map_find k64_lt (map64 s) (announced, ip6srv_cur s) = None" and "pool s \<noteq> []"
    and "to_server p s" and "doApp e p n s = Some (p', n', s')"
    and "gateway_run (env_L e) sendto e (w\<lparr>w_sm := s'\<rparr>) w2"
    and "out = eprt_line ''1'' (getString4 (env_L e) (getIP4 (hd (pool s)))) (getPortString (hd (pool s)))"
  shows "\<exists>q k w3. translate (env_L e) sendto p' m w2 = Some (1, q, k, w3) \<and>
    wire w3 = wire w2 @ [Sent4 (bytes_at (obuf q) 0 (20 + nat (getTransportHeaderLen p) + length out))
      (getServerAddr4 (server_of p))] \<and>
    carries4 p (ip4p (flow_at s fid)) (getServerAddr4 (server_of p)) out (obuf q) \<and>
    ntohl (rd32 (obuf q) 24) = seq_of p + of_int (getOffset SERVER (flow_at s fid))"
proof -
  obtain s1 where e: "extends s s1" "extends s1 s'"
    and p': "p' = edited (adjust_seq SERVER (flow_at s fid) p) h (map byte_of out)"
    by (rule eprt_promise [OF assms(1-8), of n]) (use assms(10,12) in auto)
  have l: "has_payload p h h'" "isTCP p" "20 \<le> getTransportHeaderLen p"
    using assms(3) by (simp_all add: carries_line_def)
  have o: "out4 p" using assms(9) by (simp add: to_server_def)
  note seg = out4_segment [OF o l(1)]
  have e2: "extends s (w_sm w2)"
    using gateway_run_extends [OF assms(11)] extends_inv [OF e(2)] assms(1) extends_trans [OF extends_trans [OF e]]
    by (simp add: ftp_gateway_def)
  have flow: "getFlow (env_L e) p s = Some (Some fid, s)" using assms(4) by (simp add: ftp_control_def)
  have tcp: "isTCP p \<longrightarrow> 20 \<le> getTransportHeaderLen p" using l by simp
  obtain q k w3 where sent: "translate (env_L e) sendto p' m w2 = Some (1, q, k, w3)"
    "wire w3 = wire w2 @ [Sent4 (bytes_at (obuf q) 0 (20 + nat (getTransportHeaderLen p) + length out))
      (getServerAddr4 (server_of p))]"
    "carries4 p (ip4p (flow_at s fid)) (getServerAddr4 (server_of p)) out (obuf q)"
    and same: "\<forall>j \<in> {22..<20 + nat (getTransportHeaderLen p) + length out} - {check_at p, check_at p + 1}.
      obuf q j = obuf p' j"
    by (rule edited_sent [where sendto = sendto and n = m, OF assms(9) l(1) tcp p' assms(6) e2 flow])
  let ?a = "adjust_seq SERVER (flow_at s fid) p"
  have "obuf q j = obuf ?a j" if "24 \<le> j" "j < 28" for j
  proof -
    have "check_at p = 36" using l(2) o by (simp add: check_at_def out4_def)
    with that l(3) have "obuf q j = obuf p' j" using same by auto
    also have "\<dots> = obuf ?a j"
      unfolding p' by (rule edited_header) (use seg tcp l(2) that in auto)
    finally show ?thesis .
  qed
  then have "rd32 (obuf q) 24 = rd32 (obuf ?a) 24" by (simp add: rd32_def rd16_def)
  moreover have "seq_of ?a = ntohl (rd32 (obuf ?a) 24)" using seg tcp l(2) by (simp add: seq_of_def)
  ultimately show ?thesis using sent adjust_seq_numbers(1) [OF l(2)] by auto
qed

text \<open>
  C8: What the server receives for a SIP request of the shape that \<open>request_text\<close> gives, read by a scanner that prefers the
  rules for the beginning of a line.  After \<open>doApp\<close> has rewritten the client's packet, and whatever else is
  translated and rewritten before it is sent, \<open>translate\<close> sends exactly one IPv4 packet for it: to the server's
  address, from the external pair of the client's flow, with the translated request as its whole payload, its length in
  the UDP header, and a UDP checksum over all of it that the receiver accepts.
\<close>

theorem sip_request_on_the_wire:
  assumes "sip_gateway wins e" and "carries_request p h h' r (request_text named)" and "sip_control e p s fid"
    and "named = translated_request (env_L e) s r" and "table_inv s" and "pairs_new (env_L e) s r"
    and "to_server p s" and "doApp e p n s = Some (p', n', s')"
    and "gateway_run (env_L e) sendto e (w\<lparr>w_sm := s'\<rparr>) w2"
  shows "\<exists>q k w3. translate (env_L e) sendto p' m w2 = Some (1, q, k, w3) \<and>
    wire w3 = wire w2 @ [Sent4 (bytes_at (obuf q) 0 (28 + length (request_text named))) (getServerAddr4 (server_of p))] \<and>
    carries4 p (ip4p (flow_at s fid)) (getServerAddr4 (server_of p)) (request_text named) (obuf q) \<and>
    ntohs (rd16 (obuf q) 24) = of_nat (8 + length (request_text named))"
proof -
  let ?out = "request_text named"
  obtain i where r: "route s s' i (via_addr (env_L e) r) (pool s ! 0)" and p0: "p' = edited p h (map byte_of ?out)"
    by (rule sip_promise [OF assms(1-6), of n]) (use assms(8) in auto)
  have l: "has_payload p h h'" "isUDP p" using assms(2) by (simp_all add: carries_request_def)
  then have tcp: "\<not> isTCP p" by (simp add: has_payload_def)
  have o: "out4 p" using assms(7) by (simp add: to_server_def)
  have seg: "h = 20" "udp_hdr p = Some 20" "getTransportHeaderLen p = 8"
    using out4_segment [OF o l(1)] tcp l(2) by auto
  have p': "p' = edited (adjust_seq SERVER (flow_at s fid) p) h (map byte_of ?out)"
    using p0 tcp by (simp add: adjust_seq_def isTCP_def)
  have e: "extends s s'" using r by (simp add: route_def)
  have e2: "extends s (w_sm w2)"
    using gateway_run_extends [OF assms(9)] extends_inv [OF e] assms(1) extends_trans [OF e]
    by (simp add: sip_gateway_def)
  have flow: "getFlow (env_L e) p s = Some (Some fid, s)" using assms(3) by (simp add: sip_control_def)
  obtain q k w3 where sent: "translate (env_L e) sendto p' m w2 = Some (1, q, k, w3)"
    "wire w3 = wire w2 @ [Sent4 (bytes_at (obuf q) 0 (20 + nat (getTransportHeaderLen p) + length ?out))
      (getServerAddr4 (server_of p))]"
    "carries4 p (ip4p (flow_at s fid)) (getServerAddr4 (server_of p)) ?out (obuf q)"
    and same: "\<forall>j \<in> {22..<20 + nat (getTransportHeaderLen p) + length ?out} - {check_at p, check_at p + 1}.
      obuf q j = obuf p' j"
    by (rule edited_sent [where sendto = sendto and n = m, OF assms(7) l(1) _ p' assms(5) e2 flow]) (use tcp in blast)+
  have "check_at p = 26" using tcp o by (simp add: check_at_def out4_def)
  then have "rd16 (obuf q) 24 = rd16 (obuf p') 24" using same by (simp add: rd16_def seg)
  also have "\<dots> = ntohs (of_int (int (length ?out) + 8))"
    by (simp add: p0 edited_def setTransportLen_def Let_def seg buf_simps)
  finally have "ntohs (rd16 (obuf q) 24) = of_nat (8 + length ?out)" by simp
  moreover have "20 + nat (getTransportHeaderLen p) = 28" by (simp add: seg)
  ultimately show ?thesis using sent by (simp only:) blast
qed

section \<open>The demonstration\<close>

text \<open>The two demonstration packets are for the server of the demonstration.\<close>

lemma demo_packets_to_server:
  assumes "\<not> analysisMode s" and "isAddrInRange6 demo_server s"
  shows "to_server demo_eprt s" and "to_server demo_invite s"
    and "server_of demo_eprt = demo_server" and "server_of demo_invite = demo_server"
proof -
  have "rd_in6 (ibuf demo_eprt) 24 = In6Addr 0x320 0 0 0x0200000A"
    by (rule demo_ip6_server [where n = 20 and bs = "map byte_of demo_line"]) (simp add: demo_eprt_def received_def)
  moreover have "rd_in6 (ibuf demo_invite) 24 = In6Addr 0x320 0 0 0x0200000A"
    by (rule demo_ip6_server [where n = 8 and bs = "map byte_of (request_text demo_request)"])
      (simp add: demo_invite_def received_def)
  ultimately show v: "server_of demo_eprt = demo_server" "server_of demo_invite = demo_server"
    by (simp_all add: server_of_def demo_server_def)
  show "to_server demo_eprt s"
    unfolding to_server_def v out4_def using assms
    by (simp add: demo_eprt_fields check_end_def) (simp add: demo_eprt_def received_def demo_line_length)
  show "to_server demo_invite s"
    unfolding to_server_def v out4_def using assms
    by (simp add: demo_invite_fields check_end_def) (simp add: demo_invite_def received_def demo_request_length)
qed

theorem eprt_command_on_the_wire_witness:
  "\<exists>p' n' s' q k w3. doApp ftp_env demo_eprt demo_nat demo_call = Some (p', n', s') \<and>
     translate demo_libc demo_sendto p' demo_nat (demo_world\<lparr>w_sm := s'\<rparr>) = Some (1, q, k, w3) \<and>
     length (wire w3) = 1 \<and>
     carries4 demo_eprt (IP4Port (IPv4Addr 0x281E140A) (htons 32000)) (IPv4Addr 0x0200000A)
       (eprt_line ''1'' ''10.20.30.40'' ''32001'') (obuf q)"
proof -
  note c = demo_call_fields
  have srv: "getServerAddr4 demo_server = IPv4Addr 0x0200000A" by (simp add: demo_server_def getServerAddr4_def)
  have new: "map_find k64_lt (map64 demo_call) (demo_announced, ip6srv_cur demo_call) = None" by (simp add: c)
  have ann: "demo_announced = IP6Port_of_string (env_L ftp_env)
      (IPv6Addr_of_string (env_L ftp_env) (address_text [''2001'', ''0''] [''1''])) ''80''"
    by (simp add: demo_announced_def)
  have to: "to_server demo_eprt demo_call" "server_of demo_eprt = demo_server"
    using demo_packets_to_server [of demo_call] demo_ftp_fields(3) c by (simp_all add: demo_call_to_def)
  have pair: "ip4p (flow_at demo_call 0) = IP4Port (IPv4Addr 0x281E140A) (htons 32000)"
    using demo_ftp_fields(6) by (simp add: demo_call_to_def flow_at_def setProtocol_def Flow_new64_def)
  have t: "getPortString (IP4Port a (htons 32001)) = ''32001''" "getString4 demo_libc a = ''10.20.30.40''" for a
    by (simp_all add: getPortString_def decimal.simps digit_def ntohs_def char_of_def bit_0 getString4_def demo_libc_def)
  obtain p' n' s' where r: "doApp ftp_env demo_eprt demo_nat demo_call = Some (p', n', s')"
    by (rule eprt_promise [OF ftp_env_gateway demo_command demo_carries demo_call_control ann demo_call_inv new c(3),
          of demo_nat])
  obtain q k w3 where "translate demo_libc demo_sendto p' demo_nat (demo_world\<lparr>w_sm := s'\<rparr>) = Some (1, q, k, w3)"
    "length (wire w3) = 1"
    "carries4 demo_eprt (ip4p (flow_at demo_call 0)) (getServerAddr4 demo_server)
       (eprt_line ''1'' ''10.20.30.40'' ''32001'') (obuf q)"
    using eprt_command_on_the_wire [where sendto = demo_sendto and m = demo_nat and w = demo_world, OF ftp_env_gateway demo_command
        demo_carries demo_call_control ann demo_call_inv new c(3) to(1) r rtranclp.rtrancl_refl refl]
    by (auto simp: c t to(2) demo_world_def)
  with r show ?thesis unfolding pair srv by blast
qed

theorem sip_request_on_the_wire_witness:
  "\<exists>p' n' s' q k w3. doApp sip_env demo_invite demo_nat demo_dialog = Some (p', n', s') \<and>
     translate demo_libc demo_sendto p' demo_nat (demo_world\<lparr>w_sm := s'\<rparr>) = Some (1, q, k, w3) \<and>
     length (wire w3) = 1 \<and>
     carries4 demo_invite (IP4Port (IPv4Addr 0x281E140A) (htons 32000)) (IPv4Addr 0x0200000A)
       (request_text demo_named) (obuf q)"
proof -
  note c = demo_dialog_fields
  have srv: "getServerAddr4 demo_server = IPv4Addr 0x0200000A" by (simp add: demo_server_def getServerAddr4_def)
  note env = sip_env_gateway demo_dialog_carries demo_dialog_control
  have named: "demo_named = translated_request (env_L sip_env) demo_dialog demo_request"
    and new: "pairs_new (env_L sip_env) demo_dialog demo_request" by (simp_all add: c(6))
  have to: "to_server demo_invite demo_dialog" "server_of demo_invite = demo_server"
    using demo_packets_to_server [of demo_dialog] c by simp_all
  have pair: "ip4p (flow_at demo_dialog 0) = IP4Port (IPv4Addr 0x281E140A) (htons 32000)"
    using demo_calls_fields(5) by (simp add: demo_dialog_def flow_at_def setProtocol_def Flow_new64_def)
  obtain p' n' s' where r: "doApp sip_env demo_invite demo_nat demo_dialog = Some (p', n', s')"
    by (rule sip_promise [OF env named demo_dialog_inv new, of demo_nat]) simp
  obtain q k w3 where "translate demo_libc demo_sendto p' demo_nat (demo_world\<lparr>w_sm := s'\<rparr>) = Some (1, q, k, w3)"
    "length (wire w3) = 1"
    "carries4 demo_invite (ip4p (flow_at demo_dialog 0)) (getServerAddr4 demo_server) (request_text demo_named) (obuf q)"
    using sip_request_on_the_wire [where sendto = demo_sendto and m = demo_nat and w = demo_world, OF env named demo_dialog_inv new to(1) r
        rtranclp.rtrancl_refl]
    by (auto simp: to(2) demo_world_def)
  with r show ?thesis unfolding pair srv by blast
qed

end
