(* ===== verification/Zero_Checksum.thy ===== *)
theory Zero_Checksum
  imports Gateway_Routes
begin

text \<open>
  The checksum of a UDP datagram sent over IPv6.  \<open>updateChecksum\<close> stores the complement of the sum as it is; when
  that is 0, the datagram is one that receivers refuse.
\<close>

section \<open>Bytes and words\<close>

lemma byte_of_rd16: "m i = ucast (rd16 m i)" "m (i + 1) = ucast (drop_bit 8 (rd16 m i))"
  by (rule bit_word_eqI; auto simp: rd16_def bit_simps dest: bit_imp_le_length)+

lemma rd16_of_rd32: "rd16 m i = ucast (rd32 m i)" "rd16 m (i + 2) = ucast (drop_bit 16 (rd32 m i))"
  by (rule bit_word_eqI; auto simp: rd32_def bit_simps dest: bit_imp_le_length)+

lemma rd_in6_words:
  assumes "rd_in6 m i = rd_in6 m' i"
  shows "words_sum m i 16 = words_sum m' i 16"
proof -
  have "rd32 m (i + k) = rd32 m' (i + k)" if "k \<in> {0, 4, 8, 12}" for k
    using assms that by (auto simp: rd_in6_def)
  then have "rd16 m (i + k) = rd16 m' (i + k)" "rd16 m (i + k + 2) = rd16 m' (i + k + 2)" if "k \<in> {0, 4, 8, 12}" for k
    using that rd16_of_rd32 [of m "i + k"] rd16_of_rd32 [of m' "i + k"] by simp_all
  from this [of 0] this [of 4] this [of 8] this [of 12] show ?thesis
    by (simp add: words_sum_unfold numeral_eq_Suc)
qed

section \<open>The datagram\<close>

text \<open>A datagram with \<open>x\<close> for the first two bytes of its payload.\<close>

definition with_word :: "u16 \<Rightarrow> packet \<Rightarrow> packet" where
  "with_word x p = p\<lparr>obuf := wr16 48 x (obuf p)\<rparr>"

lemma with_word_fields [simp]:
  "isTCP (with_word x p) = isTCP p" "isUDP (with_word x p) = isUDP p" "transport_len (with_word x p) = transport_len p"
  "obuf (with_word x p) = wr16 48 x (obuf p)" "server4_of (with_word x p) = server4_of p"
  "check_at (with_word x p) = check_at p" "transport_proto (with_word x p) = transport_proto p" "out6 (with_word x p) = out6 p"
  by (simp_all add: with_word_def server4_of_def)

lemma with_word_to_client:
  assumes "out6 p" and "isUDP p"
  shows "ext_of (with_word x p) = ext_of p" and "to_client (with_word x p) s \<longleftrightarrow> to_client p s"
proof -
  have u: "tcp_hdr p = None" "udp_hdr p = Some 40" using assms by (auto simp: out6_def isUDP_def)
  show e: "ext_of (with_word x p) = ext_of p"
    by (simp add: ext_of_def with_word_def getDestPort_def u buf_simps)
  show "to_client (with_word x p) s \<longleftrightarrow> to_client p s"
    unfolding to_client_def e by (simp add: with_word_def)
qed

lemma with_word_sum:
  assumes "translated6 (with_word 0 p) c srv m0" and "translated6 (with_word x p) c srv m"
    and "out6 p" and "isUDP p" and "10 \<le> transport_len p"
  shows "check_sum6 (with_word x p) m = check_sum6 (with_word 0 p) m0 + unat x"
proof -
  let ?n = "nat (transport_len p)"
  have k: "check_at p = 46" "10 \<le> ?n" using assms(3-5) by (auto simp: check_at_def out6_def isTCP_def isUDP_def)
  have pseudo: "pseudo_sum m 8 24 16 pr n = pseudo_sum m0 8 24 16 pr n" for pr n
    using rd_in6_words [of m 8 m0] rd_in6_words [of m 24 m0] assms(1,2)
    by (simp add: pseudo_sum_def addrs_sum_def translated6_def)
  have "rd16 m 42 = rd16 m0 42" using assms(1,2) by (simp add: translated6_def)
  then have port: "m 42 = m0 42" "m 43 = m0 43"
    using byte_of_rd16 [of m 42] byte_of_rd16 [of m0 42] by simp_all
  have "words_sum (wr16 46 0 m) 40 ?n = words_sum (wr16 48 x (wr16 46 0 m0)) 40 ?n"
  proof (rule words_sum_cong)
    fix j assume j: "40 \<le> j" "j < 40 + ?n"
    show "wr16 46 0 m j = wr16 48 x (wr16 46 0 m0) j"
    proof (cases "j \<in> {42, 43, 46, 47}")
      case True
      with port show ?thesis by (auto simp: wr16_def)
    next
      case False
      with j have "j \<in> {40, 41} \<union> {44..<40 + ?n} - {46, 46 + 1}" by auto
      then have "m j = wr16 48 x (obuf p) j" "m0 j = wr16 48 0 (obuf p) j"
        using assms(1,2) unfolding translated6_def with_word_fields k(1) by blast+
      with False show ?thesis by (auto simp: wr16_def)
    qed
  qed
  moreover have "words_sum (wr16 48 x (wr16 46 0 m0)) 40 ?n = words_sum (wr16 46 0 m0) 40 ?n + unat x"
  proof -
    have "48 \<in> {40, 41} \<union> {44..<40 + ?n} - {46, 46 + 1}" "49 \<in> {40, 41} \<union> {44..<40 + ?n} - {46, 46 + 1}"
      using k(2) by auto
    then have "m0 48 = wr16 48 0 (obuf p) 48" "m0 49 = wr16 48 0 (obuf p) 49"
      using assms(1) unfolding translated6_def with_word_fields k(1) by blast+
    then have "rd16 (wr16 46 0 m0) 48 = 0" by (simp add: rd16_def wr16_def)
    then show ?thesis using words_sum_wr16 [of 4 ?n 40 x "wr16 46 0 m0"] k(2) by simp
  qed
  ultimately show ?thesis by (simp add: check_sum6_def k(1) pseudo)
qed

lemma completing_word:
  obtains x :: u16 where "(n + unat x) mod 65535 = 0"
proof
  define k where "k = 65535 - n mod 65535"
  have "k < 65536" by (simp add: k_def)
  then have "unat (of_nat k :: u16) = 65535 - n mod 65535"
    by (simp add: unsigned_of_nat take_bit_nat_eq_self flip: k_def)
  moreover have "n mod 65535 < 65535" by simp
  then have "(n + (65535 - n mod 65535)) mod 65535 = 0"
    by (metis add_diff_inverse_nat less_imp_le_nat mod_add_left_eq mod_self not_less)
  ultimately show "(n + unat (of_nat k :: u16)) mod 65535 = 0" by simp
qed

text \<open>
  C30: A checksum of 0.  Take any UDP datagram of a server to a known external pair with at least two bytes of payload:
  with suitable values of those two bytes, \<open>translate\<close> sends a datagram with 0 in its checksum field, as exactly one IPv6
  packet to the client, and the client refuses it.
\<close>

theorem udp_zero_checksum_refused:
  assumes "to_client p (w_sm w)" and "isUDP p" and "10 \<le> transport_len p" and "table_inv (w_sm w)"
    and "exttcpflow n = None" and "getMapping4 (ext_of p) (server4_of p) (w_sm w) = Some fid"
  shows "\<exists>x q n' w'. translate L sendto (with_word x p) n w = Some (1, q, n', w') \<and>
    wire w' = wire w @ [Sent6 (bytes_at (obuf q) 0 (40 + nat (transport_len p))) (getIP6 (ip6p (flow_at (w_sm w) fid)))] \<and>
    rd16 (obuf q) 46 = 0 \<and> \<not> accepted6 (with_word x p) (obuf q)"
proof -
  let ?c = "ip6p (flow_at (w_sm w) fid)" and ?srv = "getServerAddr6 (server4_of p) (w_sm w)"
  have o: "out6 p" using assms(1) by (simp add: to_client_def)
  note t = with_word_to_client [OF o assms(2)]
  have run: "\<exists>q n' w'. translate L sendto (with_word x p) n w = Some (1, q, n', w') \<and>
      wire w' = wire w @ [Sent6 (bytes_at (obuf q) 0 (40 + nat (transport_len p))) (getIP6 ?c)] \<and>
      translated6 (with_word x p) ?c ?srv (obuf q)" for x
    using translate_answer [of "with_word x p" w n fid L sendto] assms(1,4-6) t by auto
  obtain q0 :: packet where q0: "translated6 (with_word 0 p) ?c ?srv (obuf q0)" using run [of 0] by blast
  obtain x :: u16 where x: "(check_sum6 (with_word 0 p) (obuf q0) + unat x) mod 65535 = 0" by (rule completing_word)
  obtain q n' w' where q: "translate L sendto (with_word x p) n w = Some (1, q, n', w')"
    "wire w' = wire w @ [Sent6 (bytes_at (obuf q) 0 (40 + nat (transport_len p))) (getIP6 ?c)]"
    "translated6 (with_word x p) ?c ?srv (obuf q)"
    using run [of x] by blast
  have "check_sum6 (with_word x p) (obuf q) mod 65535 = 0"
    using x with_word_sum [OF q0 q(3) o assms(2,3)] by simp
  moreover have "check_at p = 46" using o assms(2) by (auto simp: check_at_def out6_def isTCP_def isUDP_def)
  ultimately have "rd16 (obuf q) 46 = 0" "\<not> accepted6 (with_word x p) (obuf q)"
    using translated6_field [OF q(3)] translated6_accepted [OF q(3)] assms(2) by simp_all
  with q show ?thesis by blast
qed

text \<open>The server's answer of 20 bytes to the pair of the demonstration's flow.\<close>

theorem udp_zero_checksum_refused_witness:
  "\<exists>x q n' w'. translate demo_libc demo_sendto (with_word x (demo_reply IPPROTO_UDP 0x7D 0)) demo_nat
       (demo_world\<lparr>w_sm := demo_control\<rparr>) = Some (1, q, n', w') \<and>
     rd16 (obuf q) 46 = 0 \<and> length (wire w') = 1"
proof -
  let ?p = "demo_reply IPPROTO_UDP 0x7D 0" and ?w = "demo_world\<lparr>w_sm := demo_control\<rparr>"
  note p = demo_reply_fields [of IPPROTO_UDP "0x7D" 0]
  have inv: "table_inv demo_control" by (rule demo_control_fields(1)) (simp add: same_tables_def)
  have b: "flow_bound demo_control 0" by (rule doMapping_bound(1) [OF demo_inv demo_mapping])
  have f: "ip4p (flow_at demo_control 0) = IP4Port (IPv4Addr 0x281E140A) (htons 32000)"
    "ip4srv (flow_at demo_control 0) = IPv4Addr 0x0200000A"
    by (simp_all add: doMapping_def demo_ready_def pool_ready_Cons Let_def flow_at_def Flow_new64_def demo_server_def
        getServerAddr4_def)
  have "ext_of ?p = ip4p (flow_at demo_control 0)" using p by (simp add: f rd16_def ntohs_def)
  moreover have "server4_of ?p = ip4srv (flow_at demo_control 0)" using p by (simp add: f)
  ultimately have m: "getMapping4 (ext_of ?p) (server4_of ?p) (w_sm ?w) = Some 0"
    using extends_flow(1) [of demo_control demo_control 0] b inv by (simp add: extends_refl)
  have "pool_addr (IPv4Addr 0x281E140A) demo_control" "\<not> analysisMode demo_control"
    using demo_control_fields(4) [of demo_control] by (simp_all add: same_tables_def) (simp add: doMapping_def demo_ready_def pool_ready_Cons Let_def)
  then have c: "to_client ?p (w_sm ?w)"
    using demo_reply_to_client [of IPPROTO_UDP demo_control demo_control] inv by (simp add: extends_refl)
  have e: "isUDP ?p" "10 \<le> transport_len ?p" "exttcpflow demo_nat = None" using p by (simp_all add: demo_nat_def)
  have i: "table_inv (w_sm ?w)" using inv by simp
  obtain x q n' w' where "translate demo_libc demo_sendto (with_word x ?p) demo_nat ?w = Some (1, q, n', w')"
    "wire w' = wire ?w @ [Sent6 (bytes_at (obuf q) 0 (40 + nat (transport_len ?p))) (getIP6 (ip6p (flow_at (w_sm ?w) 0)))]"
    "rd16 (obuf q) 46 = 0"
    using udp_zero_checksum_refused [OF c e(1,2) i e(3) m, of demo_libc demo_sendto] by blast
  moreover have "wire ?w = []" by (simp add: demo_world_def)
  ultimately show ?thesis by (intro exI [of _ x] exI [of _ q] exI [of _ n'] exI [of _ w']) simp
qed

end
