(* ===== verification/Streams.thy ===== *)
theory Streams
  imports Gateway_Wire
begin

text \<open>
  The TCP streams of a flow whose packets \<open>doApp\<close> edits: what the endpoints see are streams without gaps, and an
  acknowledgement means the byte it was meant for.
\<close>

section \<open>What modify leaves alone\<close>

lemma edit_loop_before:
  "edit_loop n offset at src pd st m = Some m' \<Longrightarrow> j < pd \<Longrightarrow> m' j = m j"
proof (induction n arbitrary: pd st m)
  case (Suc n)
  from Suc.prems(1) obtain b st1 where
    "edit_loop n offset at src (pd + 1) st1 (m(pd := b)) = Some m'"
    by (auto simp: bind_eq_Some_conv split: if_splits)
  from Suc.IH [OF this] Suc.prems(2) show ?case by simp
qed simp

lemma exceed_tail_before: "exceed_tail g d k len m = Some (len', m') \<Longrightarrow> j < d \<Longrightarrow> m' j = m j"
  by (auto simp: exceed_tail_def Let_def memcpy_out split: if_splits)

text \<open>The header of a TCP segment stays.\<close>

lemma modify_header:
  assumes "modify srt junk gcle extra' p os ps f = Some (delta, p', ps', f')"
    and "tcp_hdr p = Some t" and "udp_hdr p = None" and "j < t + nat (getTransportHeaderLen p)"
  shows "obuf p' j = obuf p j" and "tcp_hdr p' = Some t"
proof -
  have "obuf p' j = obuf p j \<and> tcp_hdr p' = Some t"
  proof (cases "os = [] \<or> seg_ptrs p = None")
    case True
    with assms show ?thesis by (auto simp: modify_def Let_def split: if_splits)
  next
    case False
    then obtain h h' where h: "seg_ptrs p = Some (h, h')" by auto
    then have "h = t" using assms(2,3) by (auto simp: seg_ptrs_def split: option.splits)
    let ?d = "t + nat (getTransportHeaderLen p)"
    from False h assms(1) obtain off st n m1 k len1 m2 len2 where
      m1: "edit_loop n off (ops_at junk (srt os)) (ibuf_at p (h' + nat (getTransportHeaderLen p))) ?d st (obuf p) = Some m1"
      and m2: "exceed_tail (gcle (p_protocol ps)) ?d k len1 m1 = Some (len2, m2)"
      and p': "\<exists>l. p' = setTransportLen l (p\<lparr>obuf := m2\<rparr>)"
      unfolding modify_def \<open>h = t\<close> by (auto simp: Let_def bind_eq_Some_conv split_beta) blast
    have "m2 j = obuf p j"
      using edit_loop_before [OF m1 assms(4)] exceed_tail_before [OF m2 assms(4)] by simp
    with p' assms(2,3) show ?thesis by (auto simp: setTransportLen_def Let_def)
  qed
  then show "obuf p' j = obuf p j" and "tcp_hdr p' = Some t" by simp_all
qed

lemma shift_loop_before: "j < d \<Longrightarrow> shift_loop n d k m j = m j"
  by (induction n arbitrary: m) simp_all

lemma app_shift_header:
  assumes "app_shift p len fid s = Some (p', s')" and "tcp_hdr p = Some t" and "j < t + nat (getTransportHeaderLen p)"
  shows "obuf p' j = obuf p j" and "tcp_hdr p' = Some t" and "udp_hdr p' = udp_hdr p"
  using assms
  by (auto simp: app_shift_def shift_def bind_eq_Some_conv Let_def split_beta memcpy_out shift_loop_before split: if_splits)

section \<open>Segments of a flow\<close>

text \<open>A TCP segment of the live flow \<open>fid\<close>, with a whole header.\<close>

definition segment :: "app_env \<Rightarrow> nat \<Rightarrow> packet \<Rightarrow> state_manager \<Rightarrow> bool" where
  "segment e fid p s \<longleftrightarrow>
     \<not> analysisMode s \<and> getFlow (env_L e) p s = Some (Some fid, s) \<and>
     isTCP p \<and> udp_hdr p = None \<and> 20 \<le> getTransportHeaderLen p"

definition data_len :: "packet \<Rightarrow> int" where
  "data_len p = transport_len p - getTransportHeaderLen p"

lemma doApp_header:
  assumes "doApp e p n s = Some (p', n', s')" and "segment e fid p s"
  shows "seq_of p' = seq_of (adjust_seq (getDEST p) (flow_at s fid) p)"
    and "ack_of p' = ack_of (adjust_seq (getDEST p) (flow_at s fid) p)"
    and "getTransportHeaderLen p' = getTransportHeaderLen p"
proof -
  let ?p1 = "adjust_seq (getDEST p) (flow_at s fid) p"
  obtain t where t: "tcp_hdr p = Some t" using assms(2) by (auto simp: segment_def isTCP_def)
  have p1: "tcp_hdr ?p1 = Some t" "udp_hdr ?p1 = None" "getTransportHeaderLen ?p1 = getTransportHeaderLen p"
    using t assms(2) by (simp_all add: segment_def)
  have hl: "20 \<le> nat (getTransportHeaderLen p)" using assms(2) unfolding segment_def by linarith
  have steps: "p' = ?p1 \<or> (\<exists>p2 k s2. app_shift ?p1 k fid s = Some (p2, s2) \<and>
      (p' = p2 \<or> (\<exists>g n1 s4. app_modify e p2 (getDEST p) fid g n1 s4 = Some (p', n', s'))))"
    using assms
    by (auto simp: doApp_def app_dest_def segment_def Let_def bind_eq_Some_conv split_beta split: if_splits)
  have keep: "tcp_hdr p' = Some t \<and> (\<forall>j < t + nat (getTransportHeaderLen p). obuf p' j = obuf ?p1 j)"
  proof (cases "p' = ?p1")
    case True
    with p1 show ?thesis by simp
  next
    case False
    with steps obtain p2 k s2 where shift: "app_shift ?p1 k fid s = Some (p2, s2)"
      and m: "p' = p2 \<or> (\<exists>g n1 s4. app_modify e p2 (getDEST p) fid g n1 s4 = Some (p', n', s'))" by blast
    note h = app_shift_header [OF shift p1(1)]
    have p2: "tcp_hdr p2 = Some t" "udp_hdr p2 = None" "\<And>j. j < t + nat (getTransportHeaderLen p) \<Longrightarrow> obuf p2 j = obuf ?p1 j"
      using h(1) h(2,3) [of t] hl p1(2,3) by simp_all
    have "obuf p2 (t + 12) = obuf ?p1 (t + 12)" by (rule p2(3)) (use hl in simp)
    then have hl2: "getTransportHeaderLen p2 = getTransportHeaderLen p"
      unfolding p1(3) [symmetric] using p2(1) p1(1) by (simp add: getTransportHeaderLen_def)
    show ?thesis
    proof (cases "p' = p2")
      case True
      with p2 show ?thesis by simp
    next
      case False
      with m obtain ex os ps f delta ps' f' where
        "modify (env_sort e) (env_junk e) (env_gcle e) ex p2 os ps f = Some (delta, p', ps', f')"
        by (auto simp: app_modify_def Let_def bind_eq_Some_conv split: if_splits)
      note m = modify_header [OF this p2(1,2)]
      show ?thesis using m(1) m(2) [of t] hl hl2 p2(3) by simp
    qed
  qed
  then have word: "rd32 (obuf p') (t + 4) = rd32 (obuf ?p1) (t + 4)" "rd32 (obuf p') (t + 8) = rd32 (obuf ?p1) (t + 8)"
    and doff: "obuf p' (t + 12) = obuf ?p1 (t + 12)"
    using hl by (simp_all add: rd32_def rd16_def)
  show "seq_of p' = seq_of ?p1" "ack_of p' = ack_of ?p1"
    using keep p1(1) word by (simp_all add: seq_of_def ack_of_def)
  show "getTransportHeaderLen p' = getTransportHeaderLen p"
    unfolding p1(3) [symmetric] using keep p1(1) doff by (simp add: getTransportHeaderLen_def)
qed

section \<open>Streams without gaps\<close>

text \<open>
  C24: A flow's streams have no gaps.  Let \<open>doApp\<close> edit a TCP segment \<open>p\<close> of a flow, in either direction, and later,
  with the flow's offsets as it left them, handle another segment \<open>q\<close> of the flow.  If \<open>q\<close> continues \<open>p\<close> in its
  sender's numbering, then what leaves for \<open>q\<close> continues what left for \<open>p\<close>, whatever length that has now.  If it
  comes from the other side and acknowledges what left for \<open>p\<close> up to its end, then it reaches the sender of \<open>p\<close> as
  an acknowledgement of \<open>p\<close> up to its end.
\<close>

theorem doApp_streams_continue:
  assumes "env_ok e" and "segment e fid p s" and "fid < length (flows s)" and "doApp e p n s = Some (p', n', s')"
    and "\<And>d. getOffset d (flow_at r fid) = getOffset d (flow_at s' fid)"
    and "segment e fid q r" and "doApp e q m r = Some (q', m', r')"
  shows "(getDEST q = getDEST p \<and> seq_of q = seq_of p + of_int (data_len p) \<longrightarrow>
      seq_of q' = seq_of p' + of_int (data_len p')) \<and>
    (getDEST q \<noteq> getDEST p \<and> ack_of q = seq_of p' + of_int (data_len p') \<longrightarrow>
      ack_of q' = seq_of p + of_int (data_len p))"
proof -
  have live: "\<not> analysisMode s" "getFlow (env_L e) p s = Some (Some fid, s)" "isTCP p" "isTCP q"
    using assms(2,6) by (simp_all add: segment_def)
  have "moves_offset s fid (getDEST p) (transport_len p' - transport_len p) s'"
    by (rule doApp_moves_offset [OF assms(4,1) live(1,2)])
  then have off: "getOffset d (flow_at r fid) =
      getOffset d (flow_at s fid) + (if d = getDEST p then data_len p' - data_len p else 0)" for d
    using assms(3,5) doApp_header(3) [OF assms(4,2)] by (simp add: moves_offset_def data_len_def)
  note head = doApp_header(1,2) [OF assms(4,2)] doApp_header(1,2) [OF assms(7,6)]
  show ?thesis
    using off [of SERVER] off [of CLIENT] live(3,4)
    by (cases "getDEST p"; cases "getDEST q") (auto simp: head adjust_seq_numbers)
qed

section \<open>The demonstration\<close>

interpretation stream_actions: action_relation same_offsets
proof unfold_locales
  fix s fid L a
  show "same_offsets s (upd_flow fid setIgnore s)"
    by (rule same_offsets_upd) (simp add: getOffset_def setIgnore_def)
  show "same_offsets s (snd (doMapping_cur L a s))"
    by (cases rule: doMapping_cases [of s a "ip6srv_cur s" L])
      (auto simp: doMapping_cur_def same_offsets_def flow_at_def nth_append)
qed (auto simp: upd_parser_def intro: same_offsets_trans same_offsets_flows)

lemma runs_actions_env_ok:
  assumes "runs_actions e" shows "env_ok e"
  unfolding env_ok_def
proof (intro allI)
  fix pid c s
  have "same_offsets s (upd_parser pid g s)" for g by (rule same_offsets_flows) (simp add: upd_parser_def)
  with assms stream_actions.R_actions show "same_offsets s (snd (env_feed e pid c s))"
    unfolding runs_actions_def by metis
qed

text \<open>After the client's \<open>EPRT\<close> command of 23 bytes, an empty segment at number 23.\<close>

definition demo_next :: packet where
  "demo_next = demo_eprt\<lparr>transport_len := 20, obuf_len := 40, obuf := wr32 24 (ntohl 23) (obuf demo_eprt)\<rparr>"

lemma demo_segments:
  "segment ftp_env 0 demo_eprt demo_call" "seq_of demo_eprt = 0" "data_len demo_eprt = 23" "seq_of demo_next = 23"
  "data_len demo_next = 0" "getDEST demo_next = SERVER"
proof -
  have flow: "getFlow demo_libc demo_eprt demo_call = Some (Some 0, demo_call)"
    using demo_call_control [of demo_server] by (simp add: ftp_control_def)
  show "segment ftp_env 0 demo_eprt demo_call"
    using demo_ftp_fields(3,4) flow by (simp add: segment_def demo_eprt_fields demo_call_to_def)
  show "data_len demo_eprt = 23" by (simp add: data_len_def demo_eprt_fields)
  show "seq_of demo_eprt = 0" by (simp add: seq_of_def demo_eprt_fields rd32_def rd16_def) (simp add: demo_eprt_def ntohl_def ntohs_def)
  have "tcp_hdr demo_next = Some 20" by (simp add: demo_next_def demo_eprt_fields)
  then show "seq_of demo_next = 23" by (simp add: seq_of_def) (simp add: demo_next_def buf_simps)
  have "getTransportHeaderLen demo_next = 20"
    using demo_eprt_fields(1,7) by (simp add: getTransportHeaderLen_def demo_next_def wr32_byte_other)
  then show "data_len demo_next = 0" by (simp add: data_len_def) (simp add: demo_next_def)
  show "getDEST demo_next = SERVER" using demo_eprt_fields(6) by (simp add: demo_next_def getDEST_def)
qed

theorem doApp_streams_continue_witness:
  "\<exists>p' n' s' q' m' r'. doApp ftp_env demo_eprt demo_nat demo_call = Some (p', n', s') \<and> data_len p' = 28 \<and>
     doApp ftp_env demo_next demo_nat s' = Some (q', m', r') \<and> seq_of q' = seq_of p' + 28"
proof -
  note c = demo_call_fields
  have new: "map_find k64_lt (map64 demo_call) (demo_announced, ip6srv_cur demo_call) = None" by (simp add: c)
  have ann: "demo_announced = IP6Port_of_string (env_L ftp_env)
      (IPv6Addr_of_string (env_L ftp_env) (address_text [''2001'', ''0''] [''1''])) ''80''"
    by (simp add: demo_announced_def)
  have t: "getPortString (IP4Port a (htons 32001)) = ''32001''" "getString4 demo_libc a = ''10.20.30.40''" for a
    by (simp_all add: getPortString_def decimal.simps digit_def ntohs_def char_of_def bit_0 getString4_def demo_libc_def)
  obtain p' n' s' s1 where r: "doApp ftp_env demo_eprt demo_nat demo_call = Some (p', n', s')"
    "transport_len p' = 48" "extends demo_call s1" "extends s1 s'"
    by (rule eprt_promise [OF ftp_env_gateway demo_command demo_carries demo_call_control ann demo_call_inv new c(3),
          of demo_nat]) (auto simp: c t demo_eprt_fields eprt_line_def)
  have e: "extends demo_call s'" by (rule extends_trans [OF r(3,4)])
  note seg = demo_segments(1)
  have len: "data_len p' = 28" using doApp_header(3) [OF r(1) seg] r(2) by (simp add: data_len_def demo_eprt_fields)
  have flow: "getFlow demo_libc demo_eprt demo_call = Some (Some 0, demo_call)"
    using demo_call_control [of demo_server] by (simp add: ftp_control_def)
  have o: "out4 demo_eprt" using demo_packets_to_server(1) [of demo_call] demo_ftp_fields(3) c
    by (simp add: to_server_def demo_call_to_def)
  have "map_find k64_lt (map64 s') (client_of demo_eprt, server_of demo_eprt) = Some 0"
    by (rule extends64 [OF demo_call_inv getFlow_out4 [OF flow o] e])
  moreover have next_fields: "tcp_hdr demo_next = Some 20" "udp_hdr demo_next = None" "ibuf demo_next = ibuf demo_eprt"
    "isTCP demo_next" "ip6_hdr demo_next = InI 0" "ipVersionBefore demo_next = 6" "getSourcePort demo_next = getSourcePort demo_eprt"
    "getTransportHeaderLen demo_next = 20"
    using demo_eprt_fields
    by (simp_all add: demo_next_def isTCP_def getSourcePort_def rd16_def wr32_byte_other getTransportHeaderLen_def)
  ultimately have flow': "getFlow demo_libc demo_next s' = Some (Some 0, s')"
    by (simp add: getFlow_def getMapping6_def client_of_def server_of_def)
  have mode: "\<not> analysisMode s'" using e demo_ftp_fields(3) by (simp add: extends_def demo_call_to_def)
  have seg': "segment ftp_env 0 demo_next s'"
    using flow' mode by (simp add: segment_def next_fields)
  obtain q' m' r' where q: "doApp ftp_env demo_next demo_nat s' = Some (q', m', r')"
    using flow' mode by (simp add: doApp_def app_dest_def Let_def next_fields) (simp add: demo_next_def)
  have "env_ok ftp_env" by (rule runs_actions_env_ok [OF ftp_env_actions])
  moreover have "0 < length (flows demo_call)" using demo_ftp_fields(5) by (simp add: demo_call_to_def)
  ultimately have "seq_of q' = seq_of p' + of_int (data_len p')"
    using doApp_streams_continue [OF _ seg _ r(1) refl seg' q] demo_segments demo_eprt_fields(6) by simp
  with r(1) q len show ?thesis by auto
qed

end
