(* ===== verification/Http_Language.thy ===== *)
theory Http_Language
  imports Lexer
begin

text \<open>
  HTTP responses as \<open>http/lexer\<close> and \<open>http/grammar\<close> describe them: the rules of every start condition, and the
  productions of the grammar as derivations that run the actions of \<open>Protocol_Actions\<close>.  The parser runs while
  a response arrives, so the derivations include those of a response read up to some token; and they include
  what the production \<open>error\<close> allows: tokens that are read and thrown away.
\<close>

section \<open>The lexer\<close>

datatype http_token = STATUS_IDENT | HTTP_INTEGER | HTTP_HEADER_IDENT | HTTP_HEADER_VALUE | TAG_IDENT | TAG_IGNORE
  | ATT_VALUE | TAG_IDENT_HREF | URL_NAME | URL_IDENT | HTTP_CHAR char

type_synonym http_tokens = "(http_token \<times> tokentype) list"

datatype http_condition = HTTP_INITIAL | HTTP_header | HTTP_body | HTTP_tag_start | HTTP_tag_att | HTTP_tag_attvalue
  | HTTP_tag_attvalue_href

text \<open>The variables of \<open>HTTPScanner\<close> with the start condition; the constructor leaves two of them unset.\<close>

record http_scan =
  http_cond :: http_condition
  inURL :: bool
  urlFirst :: bool
  scan_ignore :: bool

definition new_http_scan :: "bool \<Rightarrow> bool \<Rightarrow> http_scan" where
  "new_http_scan unset unset' = \<lparr>http_cond = HTTP_INITIAL, inURL = unset, urlFirst = unset', scan_ignore = False\<rparr>"

type_synonym http_rule = "(http_scan, http_token) rule"

definition is_alnum :: "char \<Rightarrow> bool" where
  "is_alnum c \<longleftrightarrow> is_alpha c \<or> is_digit c"

abbreviation blank :: "char \<Rightarrow> bool" where
  "blank c \<equiv> c = CHR '' '' \<or> c = CHR 0x09"

abbreviation begin_http :: "http_condition \<Rightarrow> http_scan \<Rightarrow> http_scan" where
  "begin_http c v \<equiv> v\<lparr>http_cond := c\<rparr>"

text \<open>Rules with a simple action: to return \<open>matched()[0]\<close> in a condition, to skip.\<close>

definition char_rule :: "bool \<Rightarrow> rexp \<Rightarrow> (http_scan \<Rightarrow> http_scan) \<Rightarrow> http_rule" where
  "char_rule b r g = Rule b r (\<lambda>m v. (Some (HTTP_CHAR (m ! 0)), g v))"

definition skip_rule :: "rexp \<Rightarrow> http_rule" where
  "skip_rule r = Rule False r (\<lambda>m v. (None, v))"

definition token_rule :: "bool \<Rightarrow> rexp \<Rightarrow> http_token \<Rightarrow> (http_scan \<Rightarrow> http_scan) \<Rightarrow> http_rule" where
  "token_rule b r k g = Rule b r (\<lambda>m v. (Some k, g v))"

definition http_initial_rules :: "http_rule list" where
  "http_initial_rules =
     [token_rule False (plus (\<lambda>c. is_alnum c \<or> c = CHR ''/'' \<or> c = CHR ''.'')) STATUS_IDENT id,
      char_rule False (one_of [newline]) (begin_http HTTP_header),
      skip_rule (one_of [carriage]),
      skip_rule (Chars (\<lambda>c. c \<noteq> newline))]"

definition http_header_rules :: "http_rule list" where
  "http_header_rules =
     [Rule True (two carriage newline) (\<lambda>m v. (Some (HTTP_CHAR (m ! 1)), begin_http HTTP_body v)),
      char_rule True (one_of [newline]) (begin_http HTTP_body),
      Rule True (plus (\<lambda>c. is_alpha c \<or> c = CHR ''-''))
        (\<lambda>m v. (Some HTTP_HEADER_IDENT, if m = [] then v\<lparr>scan_ignore := True\<rparr> else v)),
      char_rule False (one_of '':'') id,
      skip_rule (Star (Chars blank)),
      token_rule False (Seq (Chars (\<lambda>c. c \<noteq> CHR '':'' \<and> \<not> blank c \<and> \<not> is_eol c)) (Star (Chars (\<lambda>c. \<not> is_eol c))))
        HTTP_HEADER_VALUE id,
      char_rule False (one_of [newline]) id,
      skip_rule (one_of [carriage])]"

definition http_body_rules :: "http_rule list" where
  "http_body_rules =
     [char_rule False (one_of ''<'') (begin_http HTTP_tag_start),
      skip_rule (one_of [newline]),
      skip_rule (Chars (\<lambda>c. c \<noteq> newline))]"

definition http_tag_start_rules :: "http_rule list" where
  "http_tag_start_rules =
     [char_rule False (one_of ''/'') id,
      token_rule False (Seq (Chars is_alpha) (Star (Chars is_alnum))) TAG_IDENT (begin_http HTTP_tag_att),
      token_rule False
        (Seq (Chars (\<lambda>c. \<not> is_alpha c \<and> c \<noteq> CHR ''/'')) (Seq (Star (Chars (\<lambda>c. c \<noteq> CHR ''>''))) (Alt (one_of ''>'') One)))
        TAG_IGNORE (begin_http HTTP_body)]"

definition http_tag_att_rules :: "http_rule list" where
  "http_tag_att_rules =
     [Rule False (Seq (Chars is_alpha) (Star (Chars is_alnum)))
        (\<lambda>m v. if m = ''href'' then (Some TAG_IDENT_HREF, begin_http HTTP_tag_attvalue_href v) else (Some TAG_IDENT, v)),
      Rule False (two (CHR ''/'') (CHR ''>'')) (\<lambda>m v. (Some (HTTP_CHAR (m ! 1)), begin_http HTTP_body v)),
      char_rule False (one_of ''>'') (begin_http HTTP_body),
      char_rule False (one_of ''='') (begin_http HTTP_tag_attvalue),
      skip_rule (plus blank)]"

definition quoted :: "char \<Rightarrow> rexp" where
  "quoted q = Seq (Chars (\<lambda>c. c = q)) (Seq (Star (Chars (\<lambda>c. c \<noteq> q))) (Chars (\<lambda>c. c = q)))"

definition http_attvalue_rules :: "http_rule list" where
  "http_attvalue_rules =
     [token_rule False (plus (\<lambda>c. \<not> blank c \<and> c \<noteq> CHR 0x27 \<and> c \<noteq> CHR 0x22 \<and> c \<noteq> CHR ''>'')) ATT_VALUE (begin_http HTTP_tag_att),
      token_rule False (quoted (CHR 0x27)) ATT_VALUE (begin_http HTTP_tag_att),
      token_rule False (quoted (CHR 0x22)) ATT_VALUE (begin_http HTTP_tag_att),
      char_rule False (one_of ''>'') (begin_http HTTP_body),
      skip_rule (Star (Chars blank))]"

text \<open>What a quote does inside the value of \<open>href\<close>.\<close>

definition href_quote :: "http_scan \<Rightarrow> http_scan" where
  "href_quote v = (if \<not> inURL v then v\<lparr>inURL := True\<rparr> else v\<lparr>inURL := False, http_cond := HTTP_tag_att\<rparr>)"

definition http_href_rules :: "http_rule list" where
  "http_href_rules =
     [char_rule False (one_of ''='') (\<lambda>v. v\<lparr>urlFirst := True, inURL := False\<rparr>),
      Rule False (Star (Chars blank))
        (\<lambda>m v. (None, if inURL v then v\<lparr>inURL := False, http_cond := HTTP_tag_att\<rparr> else v)),
      Rule False (one_of [CHR 0x27]) (\<lambda>m v. (None, href_quote v)),
      Rule False (one_of [CHR 0x22]) (\<lambda>m v. (None, href_quote v)),
      Rule False (Seq (Chars is_alpha) (Star (Chars is_alnum)))
        (\<lambda>m v. if urlFirst v then (Some URL_NAME, v\<lparr>urlFirst := False\<rparr>) else (Some URL_IDENT, v)),
      token_rule False (plus is_digit) HTTP_INTEGER (\<lambda>v. v\<lparr>urlFirst := False\<rparr>),
      char_rule False (one_of ''>'') (begin_http HTTP_body),
      char_rule False (Chars (\<lambda>c. c \<noteq> newline)) (\<lambda>v. v\<lparr>urlFirst := False\<rparr>)]"

definition http_rules :: "http_scan \<Rightarrow> http_rule list" where
  "http_rules v =
     (case http_cond v of
        HTTP_INITIAL \<Rightarrow> http_initial_rules
      | HTTP_header \<Rightarrow> http_header_rules
      | HTTP_body \<Rightarrow> http_body_rules
      | HTTP_tag_start \<Rightarrow> http_tag_start_rules
      | HTTP_tag_att \<Rightarrow> http_tag_att_rules
      | HTTP_tag_attvalue \<Rightarrow> http_attvalue_rules
      | HTTP_tag_attvalue_href \<Rightarrow> http_href_rules)"

text \<open>The tokens of a response; \<open>wins\<close> is the ranking of flexc++, which matters in the header only.\<close>

definition http_lex :: "(nat \<Rightarrow> nat \<Rightarrow> bool) \<Rightarrow> string \<Rightarrow> http_scan \<Rightarrow> http_tokens option" where
  "http_lex wins s v = lex_by (ranked_rule wins) http_rules True s v new_scanner"

section \<open>The grammar\<close>

type_synonym http_state = "http_vars \<times> parser"

abbreviation ch :: "char \<Rightarrow> http_token" where
  "ch \<equiv> HTTP_CHAR"

inductive http_httpheader :: "http_tokens \<Rightarrow> http_vars \<Rightarrow> http_vars \<Rightarrow> bool" where
  header: "http_httpheader
     [(HTTP_HEADER_IDENT, t1), (ch (CHR '':''), t2), (HTTP_HEADER_VALUE, t3), (ch newline, t4)] h (http_header t1 t3 h)"

inductive http_httpheaders :: "http_tokens \<Rightarrow> http_vars \<Rightarrow> http_vars \<Rightarrow> bool" where
  http_headers_one: "http_httpheader ts h h' \<Longrightarrow> http_httpheaders ts h h'"
| http_headers_more: "http_httpheaders ts h h' \<Longrightarrow> http_httpheader us h' h'' \<Longrightarrow> http_httpheaders (ts @ us) h h''"

text \<open>The tokens of an address in a URL, up to the slash behind it, as the production numbers them.\<close>

definition url_address :: "tokentype list \<Rightarrow> http_tokens" where
  "url_address ts =
     zip [URL_NAME, ch (CHR '':''), ch (CHR ''/''), ch (CHR ''/''), HTTP_INTEGER, ch (CHR ''.''), HTTP_INTEGER,
          ch (CHR ''.''), HTTP_INTEGER, ch (CHR ''.''), HTTP_INTEGER, ch (CHR ''/'')] ts"

inductive url_trailing :: "http_tokens \<Rightarrow> bool" where
  url_trailing_none: "url_trailing []"
| url_trailing_more: "url_trailing ts \<Longrightarrow>
    k = URL_IDENT \<or> k = HTTP_INTEGER \<or> k = ch (CHR ''/'') \<or> k = ch (CHR ''.'') \<Longrightarrow> url_trailing (ts @ [(k, t)])"

text \<open>
  \<open>url\<close>.  Its second production is \<open>error\<close>, whatever tokens the parser throws away for it; they may start with
  an address, whose action has run when the error is found behind it.
\<close>

inductive http_url_derived :: "http_tokens \<Rightarrow> http_state \<Rightarrow> http_state \<Rightarrow> bool" where
  url_ip: "url_trailing ts \<Longrightarrow> http_url_derived
     (url_address [t1, t2, t3, t4, t5, t6, t7, t8, t9, t10, t11, t12] @ ts) (h, p) (h, http_url t5 t7 t9 t11 h p)"
| url_error: "http_url_derived ts x x"
| url_error_after: "http_url_derived
     (url_address [t1, t2, t3, t4, t5, t6, t7, t8, t9, t10, t11, t12] @ ts) (h, p) (h, http_url t5 t7 t9 t11 h p)"

inductive http_attribute :: "http_tokens \<Rightarrow> http_state \<Rightarrow> http_state \<Rightarrow> bool" where
  attribute_href: "http_url_derived ts x y \<Longrightarrow>
    http_attribute ([(TAG_IDENT_HREF, t1), (ch (CHR ''=''), t2)] @ ts) x y"
| attribute_other: "http_attribute [(TAG_IDENT, t1), (ch (CHR ''=''), t2), (ATT_VALUE, t3)] x x"

inductive http_attributes :: "http_tokens \<Rightarrow> http_state \<Rightarrow> http_state \<Rightarrow> bool" where
  attributes_none: "http_attributes [] x x"
| attributes_more: "http_attributes ts x y \<Longrightarrow> http_attribute us y z \<Longrightarrow> http_attributes (ts @ us) x z"

inductive http_tag_derived :: "http_tokens \<Rightarrow> http_state \<Rightarrow> http_state \<Rightarrow> bool" where
  tag_open: "http_attributes ts (beginTag t2 h, p) y \<Longrightarrow>
    http_tag_derived ([(ch (CHR ''<''), t1), (TAG_IDENT, t2)] @ ts @ [(ch (CHR ''>''), t5)]) (h, p) y"
| tag_close: "http_tag_derived
    [(ch (CHR ''<''), t1), (ch (CHR ''/''), t2), (TAG_IDENT, t3), (ch (CHR ''>''), t5)] (h, p) (endTag t3 h, p)"
| tag_ignore: "http_tag_derived [(ch (CHR ''<''), t1), (TAG_IGNORE, t2)] x x"

inductive http_httpbody :: "http_tokens \<Rightarrow> http_state \<Rightarrow> http_state \<Rightarrow> bool" where
  body_none: "http_httpbody [] x x"
| body_more: "http_httpbody ts x y \<Longrightarrow> http_tag_derived us y z \<Longrightarrow> http_httpbody (ts @ us) x z"

text \<open>The last tag of what was read, or the tag with a syntax error: the actions that have run in it.\<close>

inductive http_tag_begun :: "http_tokens \<Rightarrow> http_state \<Rightarrow> http_state \<Rightarrow> bool" where
  begun_nothing: "http_tag_begun ts x x"
| begun_open: "http_attributes ts (beginTag t2 h, p) y \<Longrightarrow>
    http_tag_begun ([(ch (CHR ''<''), t1), (TAG_IDENT, t2)] @ ts @ us) (h, p) y"
| begun_close: "http_tag_begun
    ([(ch (CHR ''<''), t1), (ch (CHR ''/''), t2), (TAG_IDENT, t3)] @ us) (h, p) (endTag t3 h, p)"

text \<open>\<open>httpmessage\<close>: the tokens of its head (to the empty line) and of its body apart.\<close>

inductive http_head :: "http_tokens \<Rightarrow> http_state \<Rightarrow> http_state \<Rightarrow> bool" where
  head: "http_httpheaders hs (http_statusline h) h' \<Longrightarrow>
    http_head ([(STATUS_IDENT, t1), (STATUS_IDENT, t2), (STATUS_IDENT, t3), (ch newline, t4)] @ hs @ [(ch newline, t5)])
      (h, p) (http_emptyline t5 h' p)"

text \<open>A response read up to some token: in its body, in its head, or before the first action.\<close>

inductive http_read :: "http_tokens \<Rightarrow> http_state \<Rightarrow> http_state \<Rightarrow> bool" where
  read_body: "http_head hs x y \<Longrightarrow> http_httpbody bs y z \<Longrightarrow> http_tag_begun us z w \<Longrightarrow> http_read (hs @ bs @ us) x w"
| read_head: "http_httpheaders hs (http_statusline h) h' \<Longrightarrow> http_read
    ([(STATUS_IDENT, t1), (STATUS_IDENT, t2), (STATUS_IDENT, t3), (ch newline, t4)] @ hs @ us) (h, p) (h', p)"
| read_status: "http_read ([(STATUS_IDENT, t1), (STATUS_IDENT, t2), (STATUS_IDENT, t3), (ch newline, t4)] @ us)
    (h, p) (http_statusline h, p)"
| read_nothing: "http_read us x x"

end
