(* ===== verification/Http_Props.thy ===== *)
theory Http_Props
  imports Http_Language Edit_Ranges
begin

text \<open>
  What the parser does to a response: it only ever puts bars for the dots of addresses in links, whatever the
  response is and however far it has been read; and how a link is cut into tokens and understood.
\<close>

section \<open>Tokens of a rule table\<close>

lemma best_rule_in: "best_rule bol s rs = Some (n, r) \<Longrightarrow> r \<in> set rs \<and> longest s (pattern r) = Some n"
proof (induction rs arbitrary: n r)
  case (Cons a rs)
  then show ?case
    by (cases "rule_match bol s a"; cases "best_rule bol s rs")
      (auto simp: rule_match_def split: if_splits)
qed simp

lemma ranked_rule_in: "ranked_rule wins bol s rs = Some (n, r) \<Longrightarrow> r \<in> set rs \<and> longest s (pattern r) = Some n"
  unfolding ranked_rule_def
  by (auto dest!: best_rule_in split: option.splits if_splits)

text \<open>What every rule guarantees of the text of its token holds of all tokens.\<close>

lemma lex_by_tokens:
  assumes "\<And>bol s v n r t v1. B bol s (R v) = Some (n, r) \<Longrightarrow> action r (take n s) v = (Some t, v1) \<Longrightarrow> Q t (take n s)"
  shows "lex_by B R bol s v sc = Some ts \<Longrightarrow> list_all (\<lambda>(k, t). Q k (tok_s t)) ts"
proof (induction "length s" arbitrary: bol s v sc ts rule: less_induct)
  case less
  show ?case
  proof (cases "s = []")
    case False
    with less.prems obtain n r where b: "B bol s (R v) = Some (n, r)" "n \<noteq> 0"
      by (auto simp: lex_by.simps split: option.splits if_splits)
    obtain t v1 where a: "action r (take n s) v = (t, v1)" by fastforce
    from less.prems False b a obtain us where
      us: "lex_by B R (last (take n s) = newline) (drop n s) v1 (postCode (take n s) sc) = Some us"
      and ts: "ts = (case t of None \<Rightarrow> us | Some k \<Rightarrow> (k, d_val (postCode (take n s) sc)) # us)"
      by (auto simp: lex_by.simps [of B R bol] bind_eq_Some_conv Let_def)
    have "list_all (\<lambda>(k, t). Q k (tok_s t)) us"
      by (rule less.hyps [OF _ us]) (use False b in auto)
    then show ?thesis
      using assms [OF b(1)] a by (cases t) (auto simp: ts postCode_def TokenType_def)
  qed (use less.prems in simp)
qed

text \<open>The tokens of a text are laid out in it.\<close>

lemma pieces_laid:
  "list_all (piece_of 0 s) ts \<Longrightarrow> in_order k ts \<Longrightarrow> 0 \<le> k \<Longrightarrow> k \<le> int (length s) \<Longrightarrow> laid k ts (int (length s))"
proof (induction ts arbitrary: k)
  case (Cons t ts)
  have t: "tok_pos_end t = tok_pos t + int (length (tok_s t))" "k \<le> tok_pos t" "tok_pos t < tok_pos_end t"
    "take (length (tok_s t)) (drop (nat (tok_pos t)) s) = tok_s t"
    using Cons.prems by (auto simp: piece_of_def)
  have "length (take (length (tok_s t)) (drop (nat (tok_pos t)) s)) = length (tok_s t)" using t(4) by simp
  then have "length (tok_s t) \<le> length s - nat (tok_pos t)" by simp
  then have "tok_pos_end t \<le> int (length s)" using t(1-3) Cons.prems(3) by linarith
  with Cons t show ?case by auto
qed simp

section \<open>Masked addresses\<close>

definition bar_dot :: "char \<Rightarrow> char" where
  "bar_dot c = (if c \<noteq> CHR ''.'' then c else CHR ''|'')"

definition between :: "string \<Rightarrow> int \<Rightarrow> int \<Rightarrow> string" where
  "between s a b = take (nat (b - a)) (drop (nat a) s)"

lemma between_append: "0 \<le> a \<Longrightarrow> a \<le> b \<Longrightarrow> b \<le> c \<Longrightarrow> between s a b @ between s b c = between s a c"
proof -
  assume "0 \<le> a" "a \<le> b" "b \<le> c"
  then have "nat (c - a) = nat (b - a) + nat (c - b)" "nat b = nat (b - a) + nat a" by auto
  then show ?thesis by (simp add: between_def take_add)
qed

lemma between_piece: "piece_of 0 s t \<Longrightarrow> between s (tok_pos t) (tok_pos_end t) = tok_s t"
  by (simp add: piece_of_def between_def)

text \<open>An edit that only puts bars for dots.\<close>

definition mask_edit :: "string \<Rightarrow> operation \<Rightarrow> bool" where
  "mask_edit s o' \<longleftrightarrow> newdata o' = map bar_dot (between s (start_pos o') (end_pos o'))"

text \<open>One byte and what may stand for it.\<close>

definition masked :: "u8 \<Rightarrow> u8 \<Rightarrow> bool" where
  "masked a b \<longleftrightarrow> b = a \<or> a = byte_of (CHR ''.'') \<and> b = byte_of (CHR ''|'')"

lemma masked_refl [simp]: "masked a a"
  by (simp add: masked_def)

lemma masked_bar_dot [simp]: "masked (byte_of c) (byte_of (bar_dot c))"
  by (simp add: masked_def bar_dot_def)

lemma splice_masks:
  assumes "edits_ok 0 k os (int (length s))" and "\<forall>o'\<in>set os. mask_edit s o'"
  shows "list_all2 masked (map byte_of (drop (nat k) s)) (splice 0 k os (map byte_of s))"
  using assms
proof (induction os arbitrary: k)
  case Nil
  then show ?case by (simp add: drop_map list.rel_refl)
next
  case (Cons a os)
  let ?i = "start_pos a" and ?j = "end_pos a"
  have k: "0 \<le> k" "k \<le> ?i" "?i \<le> ?j" using Cons.prems(1) by auto
  have IH: "list_all2 masked (map byte_of (drop (nat ?j) s)) (splice 0 ?j os (map byte_of s))"
    using Cons by simp
  have "drop (nat k) s = between s k ?i @ between s ?i ?j @ drop (nat ?j) s"
  proof -
    have "between s k ?i @ between s ?i ?j = between s k ?j" using k by (intro between_append)
    moreover have "drop (nat k) s = between s k ?j @ drop (nat ?j) s"
    proof -
      have "nat ?j = nat (?j - k) + nat k" using k by auto
      then show ?thesis by (simp add: between_def flip: drop_drop)
    qed
    ultimately show ?thesis by simp
  qed
  moreover have "list_all2 masked (map byte_of (between s k ?i)) (map byte_of (between s k ?i))"
    "list_all2 masked (map byte_of (between s ?i ?j)) (map byte_of (map bar_dot (between s ?i ?j)))"
    by (simp_all add: list_all2_conv_all_nth)
  moreover have "splice 0 k (a # os) (map byte_of s) = map byte_of (between s k ?i) @
      map byte_of (map bar_dot (between s ?i ?j)) @ splice 0 ?j os (map byte_of s)"
    using Cons.prems(2) by (simp add: mask_edit_def between_def take_map drop_map)
  ultimately show ?case
    using IH by (simp only: map_append list_all2_appendI)
qed

section \<open>What holds of the tokens\<close>

text \<open>The numbers and dots of an address stand side by side; the token of a dot is a dot.\<close>

fun tight :: "http_tokens \<Rightarrow> bool" where
  "tight ((k, t) # (k', t') # ts) \<longleftrightarrow>
     (k = HTTP_INTEGER \<and> k' = ch (CHR ''.'') \<or> k = ch (CHR ''.'') \<and> k' = HTTP_INTEGER \<longrightarrow> tok_pos_end t = tok_pos t') \<and>
     tight ((k', t') # ts)"
| "tight ts \<longleftrightarrow> True"

definition dots :: "http_tokens \<Rightarrow> bool" where
  "dots ts \<longleftrightarrow> list_all (\<lambda>(k, t). k = ch (CHR ''.'') \<longrightarrow> tok_s t = ''.'') ts"

definition placed :: "string \<Rightarrow> int \<Rightarrow> http_tokens \<Rightarrow> int \<Rightarrow> bool" where
  "placed s k ts n \<longleftrightarrow> laid k (map snd ts) n \<and> list_all (piece_of 0 s) (map snd ts) \<and> dots ts \<and> tight ts"

lemma tight_append: "tight (xs @ ys) \<Longrightarrow> tight xs \<and> tight ys"
proof (induction xs)
  case (Cons x xs)
  then show ?case by (cases x; cases xs; cases ys) (auto split: prod.splits)
qed simp

lemma placed_append: "placed s k (xs @ ys) n \<Longrightarrow> \<exists>j. placed s k xs j \<and> placed s j ys n"
  using tight_append [of xs ys] by (auto simp: placed_def dots_def laid_append)

lemma placed_le: "placed s k ts n \<Longrightarrow> k \<le> n"
  unfolding placed_def using laid_le by blast

lemma http_lex_dots:
  assumes "http_lex wins s v = Some ts" shows "dots ts"
proof -
  have "list_all (\<lambda>(k, t). k = ch (CHR ''.'') \<longrightarrow> tok_s t = ''.'') ts"
  proof (rule lex_by_tokens [OF _ assms [unfolded http_lex_def], of "\<lambda>k m. k = ch (CHR ''.'') \<longrightarrow> m = ''.''"], rule impI)
    fix bol s v n r t v1
    assume r: "ranked_rule wins bol s (http_rules v) = Some (n, r)" and a: "action r (take n s) v = (Some t, v1)"
      and t: "t = ch (CHR ''.'')"
    from ranked_rule_in [OF r] have r: "r \<in> set (http_rules v)" and n: "longest s (pattern r) = Some n" by auto
    show "take n s = ''.''"
    proof (cases s)
      case (Cons c s')
      with r a n show ?thesis unfolding t
        by (cases "http_cond v"; cases s')
          (auto simp: http_rules_def http_initial_rules_def http_header_rules_def http_body_rules_def
            http_tag_start_rules_def http_tag_att_rules_def http_attvalue_rules_def http_href_rules_def
            char_rule_def token_rule_def skip_rule_def longest_Seq_Chars newline_def split: if_splits)
    next
      case Nil
      with r a n show ?thesis unfolding t
        by (cases "http_cond v")
          (auto simp: http_rules_def http_initial_rules_def http_header_rules_def http_body_rules_def
            http_tag_start_rules_def http_tag_att_rules_def http_attvalue_rules_def http_href_rules_def
            char_rule_def token_rule_def skip_rule_def longest_Seq_Chars split: if_splits)
    qed
  qed
  then show ?thesis by (simp add: dots_def)
qed

lemma http_lex_placed:
  assumes "http_lex wins s v = Some ts" and "tight ts"
  shows "placed s 0 ts (int (length s))"
proof -
  have "list_all (piece_of 0 s) (map snd ts) \<and> in_order 0 (map snd ts)"
    using lex_by_pieces [OF assms(1) [unfolded http_lex_def]] by (simp add: new_scanner_def)
  with pieces_laid [of s "map snd ts" 0] http_lex_dots [OF assms(1)] assms(2) show ?thesis
    by (simp add: placed_def)
qed


section \<open>What the actions add\<close>

definition masks :: "string \<Rightarrow> int \<Rightarrow> http_state \<Rightarrow> bool" where
  "masks s k x \<longleftrightarrow> tidy 0 k (map op_range (ops (snd x))) \<and> (\<forall>o'\<in>set (ops (snd x)). mask_edit s o' \<and> newdata o' \<noteq> [])"

lemma masks_mono: "masks s k x \<Longrightarrow> k \<le> n \<Longrightarrow> masks s n x"
  unfolding masks_def using tidy_mono [of 0 k _ 0 n] by blast

lemma address_between:
  assumes "placed s k (url_address [t1, t2, t3, t4, t5, t6, t7, t8, t9, t10, t11, t12]) n" and "0 \<le> k"
  shows "between s (tok_pos t5) (tok_pos_end t11) = tok_s t5 @ ''.'' @ tok_s t7 @ ''.'' @ tok_s t9 @ ''.'' @ tok_s t11"
    and "k \<le> tok_pos t5" and "tok_pos t5 < tok_pos_end t11" and "tok_pos_end t11 \<le> n"
proof -
  have tt: "tok_pos_end t5 = tok_pos t6" "tok_pos_end t6 = tok_pos t7" "tok_pos_end t7 = tok_pos t8"
    "tok_pos_end t8 = tok_pos t9" "tok_pos_end t9 = tok_pos t10" "tok_pos_end t10 = tok_pos t11"
    using assms by (simp_all add: placed_def url_address_def)
  have dd: "tok_s t6 = ''.''" "tok_s t8 = ''.''" "tok_s t10 = ''.''"
    using assms by (simp_all add: placed_def url_address_def dots_def)
  have pp: "piece_of 0 s t5" "piece_of 0 s t6" "piece_of 0 s t7" "piece_of 0 s t8" "piece_of 0 s t9" "piece_of 0 s t10" "piece_of 0 s t11"
    using assms by (simp_all add: placed_def url_address_def)
  have l: "laid k [t1, t2, t3, t4, t5, t6, t7, t8, t9, t10, t11, t12] n"
    using assms by (simp add: placed_def url_address_def)
  have less: "tok_pos t < tok_pos_end t" if "t \<in> {t5, t6, t7, t8, t9, t10, t11}" for t
    using l that by auto
  then have le: "tok_pos t5 < tok_pos_end t5" "tok_pos t6 < tok_pos_end t6" "tok_pos t7 < tok_pos_end t7"
    "tok_pos t8 < tok_pos_end t8" "tok_pos t9 < tok_pos_end t9" "tok_pos t10 < tok_pos_end t10" "tok_pos t11 < tok_pos_end t11"
    by simp_all
  show k: "k \<le> tok_pos t5" and "tok_pos_end t11 \<le> n"
    using l by auto
  show "tok_pos t5 < tok_pos_end t11" using le tt by linarith
  note b = pp [THEN between_piece]
  have "tok_s t5 @ tok_s t6 @ tok_s t7 @ tok_s t8 @ tok_s t9 @ tok_s t10 @ tok_s t11 = between s (tok_pos t5) (tok_pos_end t11)"
    unfolding b [symmetric] using le k assms(2) unfolding tt by (simp add: between_append)
  then show "between s (tok_pos t5) (tok_pos_end t11) = tok_s t5 @ ''.'' @ tok_s t7 @ ''.'' @ tok_s t9 @ ''.'' @ tok_s t11"
    unfolding dd by (rule sym)
qed

lemma http_url_ops:
  "ops (http_url t5 t7 t9 t11 h p) = ops p @
     (if curTag h = ''a''
      then [\<lparr>start_pos = tok_pos t5, end_pos = tok_pos_end t11, op = REPLACE,
             newdata = map bar_dot (tok_s t5 @ ''.'' @ tok_s t7 @ ''.'' @ tok_s t9 @ ''.'' @ tok_s t11), op_cnt = False\<rparr>]
      else [])"
  by (simp add: http_url_def reportIP_def addOperation_def tok_concat_def tok_append_def TokenType_def bar_dot_def)

lemma masks_url:
  assumes "placed s k (url_address [t1, t2, t3, t4, t5, t6, t7, t8, t9, t10, t11, t12] @ ts) n"
    and "masks s k (h, p)" and "0 \<le> k"
  shows "masks s n (h, http_url t5 t7 t9 t11 h p)"
proof -
  obtain j where j: "placed s k (url_address [t1, t2, t3, t4, t5, t6, t7, t8, t9, t10, t11, t12]) j" "placed s j ts n"
    using placed_append [OF assms(1)] by blast
  note a = address_between [OF j(1) assms(3)]
  have n: "j \<le> n" by (rule placed_le [OF j(2)])
  let ?r = "(tok_pos t5, tok_pos_end t11)"
  have "tidy k j [?r]" using a(2-4) by (simp add: tidy_def within_def)
  with assms(2,3) have "tidy 0 j (map op_range (ops p) @ [?r])"
    using tidy_append [of 0 k "map op_range (ops p)" j "[?r]"] placed_le [OF j(1)] by (simp add: masks_def)
  moreover have "mask_edit s \<lparr>start_pos = tok_pos t5, end_pos = tok_pos_end t11, op = REPLACE,
      newdata = map bar_dot (tok_s t5 @ ''.'' @ tok_s t7 @ ''.'' @ tok_s t9 @ ''.'' @ tok_s t11), op_cnt = False\<rparr>"
    by (simp only: mask_edit_def operation.simps a(1))
  ultimately have "masks s j (h, http_url t5 t7 t9 t11 h p)"
    using masks_mono [OF assms(2) placed_le [OF j(1)]] assms(2)
    by (auto simp: masks_def http_url_ops op_range_def)
  with n masks_mono show ?thesis by blast
qed

lemma masks_url_derived:
  assumes "http_url_derived ts x y" and "placed s k ts n" and "masks s k x" and "0 \<le> k"
  shows "masks s n y"
  using assms
proof (induction rule: http_url_derived.induct)
  case (url_error ts x)
  then show ?case using masks_mono placed_le by blast
qed (rule masks_url; assumption)+

lemma masks_attribute:
  assumes "http_attribute ts x y" and "placed s k ts n" and "masks s k x" and "0 \<le> k"
  shows "masks s n y"
  using assms(1)
proof cases
  case (attribute_href us t1 t2)
  from assms(2) obtain j where "placed s k [(TAG_IDENT_HREF, t1), (ch (CHR ''=''), t2)] j" "placed s j us n"
    unfolding attribute_href(1) using placed_append by blast
  then show ?thesis
    using masks_url_derived [OF attribute_href(2)] masks_mono [OF assms(3)] placed_le assms(4) by (meson order_trans)
next
  case attribute_other
  then show ?thesis using masks_mono [OF assms(3)] placed_le [OF assms(2)] by simp
qed

lemma masks_attributes:
  assumes "http_attributes ts x y" and "placed s k ts n" and "masks s k x" and "0 \<le> k"
  shows "masks s n y"
  using assms(1-3)
proof (induction arbitrary: n)
  case (attributes_none x)
  then show ?case using masks_mono placed_le by blast
next
  case (attributes_more ts x y us z)
  then obtain j where j: "placed s k ts j" "placed s j us n" using placed_append by blast
  from masks_attribute [OF attributes_more.hyps(2) j(2)] attributes_more.IH [OF j(1)] attributes_more.prems(2) placed_le [OF j(1)] assms(4)
  show ?case by simp
qed

text \<open>The variables do not matter to the edits so far.\<close>

lemma masks_vars: "masks s k (h, p) \<Longrightarrow> masks s k (h', p)"
  by (simp add: masks_def)

lemma masks_opened:
  assumes "http_attributes as (beginTag t2 h, p) y" and "placed s k ([(ch (CHR ''<''), t1), (TAG_IDENT, t2)] @ as @ us) n"
    and "masks s k (h, p)" and "0 \<le> k"
  shows "masks s n y"
proof -
  from assms(2) obtain i where i: "placed s k [(ch (CHR ''<''), t1), (TAG_IDENT, t2)] i" "placed s i (as @ us) n"
    using placed_append by blast
  then obtain j where j: "placed s i as j" "placed s j us n" using placed_append by blast
  have "masks s i (beginTag t2 h, p)"
    by (rule masks_vars [OF masks_mono [OF assms(3) placed_le [OF i(1)]]])
  from masks_attributes [OF assms(1) j(1) this] placed_le [OF i(1)] assms(4) masks_mono placed_le [OF j(2)]
  show ?thesis by (meson order_trans)
qed

lemma masks_tag:
  assumes "http_tag_derived ts x y \<or> http_tag_begun ts x y" and "placed s k ts n" and "masks s k x" and "0 \<le> k"
  shows "masks s n y"
  using assms(1)
proof
  assume "http_tag_derived ts x y"
  then show ?thesis
  proof cases
    case (tag_open as t2 h p t1 t5)
    with masks_opened [OF tag_open(3)] assms show ?thesis by simp
  qed (use masks_mono [OF assms(3) placed_le [OF assms(2)]] masks_vars in auto)
next
  assume "http_tag_begun ts x y"
  then show ?thesis
  proof cases
    case (begun_open as t2 h p t1 us)
    with masks_opened [OF begun_open(3)] assms show ?thesis by simp
  qed (use masks_mono [OF assms(3) placed_le [OF assms(2)]] masks_vars in auto)
qed

lemma masks_httpbody:
  assumes "http_httpbody ts x y" and "placed s k ts n" and "masks s k x" and "0 \<le> k"
  shows "masks s n y"
  using assms(1-3)
proof (induction arbitrary: n)
  case (body_none x)
  then show ?case using masks_mono placed_le by blast
next
  case (body_more ts x y us z)
  then obtain j where j: "placed s k ts j" "placed s j us n" using placed_append by blast
  with masks_tag [of us y z s j n] body_more.IH [OF j(1)] body_more placed_le [OF j(1)] assms(4)
  show ?case by simp
qed

text \<open>The head of a response adds no edit: the length that \<open>emptyline\<close> tests is never set.\<close>

lemma httpheaders_len: "http_httpheaders ts h h' \<Longrightarrow> http_len h' = http_len h"
proof (induction rule: http_httpheaders.induct)
  case (http_headers_one ts h h')
  then show ?case by cases (simp add: http_header_def)
next
  case (http_headers_more ts h h' us h'')
  from http_headers_more(2) have "http_len h'' = http_len h'" by cases (simp add: http_header_def)
  with http_headers_more show ?case by simp
qed

lemma http_head_ops: "http_head ts x y \<Longrightarrow> snd y = snd x"
proof (induction rule: http_head.induct)
  case (head hs h h')
  with httpheaders_len [OF head] show ?case by (simp add: http_emptyline_def http_statusline_def Let_def)
qed

lemma masks_read:
  assumes "http_read ts x y" and "placed s 0 ts n" and "ops (snd x) = []"
  shows "masks s n y"
  using assms(1)
proof cases
  have m: "masks s 0 x" using assms(3) by (simp add: masks_def tidy_def)
  have n: "0 \<le> n" by (rule placed_le [OF assms(2)])
  {
    case (read_body hs z bs w us)
    then obtain i j where p: "placed s 0 hs i" "placed s i bs j" "placed s j us n"
      using assms(2) placed_append by blast
    note le = placed_le [OF p(1)] placed_le [OF p(2)]
    have "masks s i z"
      using http_head_ops [OF read_body(2)] masks_mono [OF m le(1)] by (simp add: masks_def)
    from masks_httpbody [OF read_body(3) p(2) this le(1)] have "masks s j w" .
    with masks_tag [OF disjI2 [OF read_body(4)] p(3) this] le show ?thesis by simp
  next
    case read_head
    with masks_mono [OF m n] show ?thesis by (simp add: masks_def)
  next
    case read_status
    with masks_mono [OF m n] show ?thesis by (simp add: masks_def)
  next
    case read_nothing
    with masks_mono [OF m n] show ?thesis by simp
  }
qed


lemma http_masks:
  assumes "http_lex wins s v = Some ts" and "tight ts" and "http_read ts (h, p) (h', p')" and "ops p = []"
    and "std_sort srt"
  shows "edits_ok 0 0 (srt (ops p')) (int (length s))"
    and "list_all2 masked (map byte_of s) (splice 0 0 (srt (ops p')) (map byte_of s))"
proof -
  have m: "masks s (int (length s)) (h', p')"
    by (rule masks_read [OF assms(3) http_lex_placed [OF assms(1,2)]]) (simp add: assms(4))
  show ok: "edits_ok 0 0 (srt (ops p')) (int (length s))"
    by (rule sorted_edits_ok [OF assms(5)]) (use m in \<open>simp_all add: masks_def\<close>)
  have "\<forall>o'\<in>set (srt (ops p')). mask_edit s o'"
    using m by (simp add: masks_def sort_set(1) [OF assms(5)])
  then show "list_all2 masked (map byte_of s) (splice 0 0 (srt (ops p')) (map byte_of s))"
    using splice_masks [OF ok] by simp
qed

text \<open>
   A response keeps its length and all its bytes but the dots of addresses in links.  However a
  response is cut into tokens under whatever ranking, however far it has been read and whatever syntax errors
  it has, the edits its actions leave do not overlap, and the edited response has the same length and differs
  from the one received only in bars for some of its dots.  (The numbers and dots of an address have to stand
  side by side; the scanner skips blanks between them.)
\<close>

theorem http_only_masks_dots:
  assumes "http_lex wins s v = Some ts" and "tight ts" and "http_read ts (h, p) (h', p')" and "ops p = []"
    and "std_sort srt"
  shows "edits_ok 0 0 (srt (ops p')) (int (length s)) \<and>
    list_all2 masked (map byte_of s) (splice 0 0 (srt (ops p')) (map byte_of s))"
  using http_masks [OF assms] by (rule conjI)

section \<open>A link\<close>

lemma is_alpha_simps [simp]:
  "\<not> is_alpha (CHR '' '')" "\<not> is_alpha (CHR '':'')" "\<not> is_alpha (CHR ''/'')" "\<not> is_alpha (CHR ''.'')" "\<not> is_alpha (CHR 0x22)"
  "\<not> is_alpha (CHR ''='')" "\<not> is_alpha (CHR ''>'')" "\<not> is_alpha (CHR ''<'')" "\<not> is_alpha newline" "\<not> is_alpha carriage"
  "is_alpha (CHR ''a'')" "is_alpha (CHR ''h'')" "is_alpha (CHR ''r'')" "is_alpha (CHR ''e'')" "is_alpha (CHR ''f'')"
  by (simp_all add: is_alpha_def newline_def carriage_def)

lemma is_digit_more [simp]:
  "\<not> is_digit (CHR ''/'')" "\<not> is_digit (CHR ''.'')" "\<not> is_digit (CHR 0x22)" "\<not> is_digit (CHR ''='')" "\<not> is_digit (CHR ''>'')"
  by (simp_all add: is_digit_def)

lemma alpha_not_digit [simp]: "is_alpha c \<Longrightarrow> \<not> is_digit c"
  by (auto simp: is_alpha_def is_digit_def Let_def)

text \<open>In the body of a response no rule is for the beginning of a line, so the ranking plays no part.\<close>

lemma http_rules_body:
  "http_cond v \<noteq> HTTP_header \<Longrightarrow> ranked_rule wins b s (http_rules v) = best_rule b s (http_rules v)"
  by (rule ranked_rule_best; cases "http_cond v")
    (auto simp: http_rules_def http_initial_rules_def http_body_rules_def
      http_tag_start_rules_def http_tag_att_rules_def http_attvalue_rules_def http_href_rules_def
      char_rule_def token_rule_def skip_rule_def)

abbreviation http_lexed :: "(nat \<Rightarrow> nat \<Rightarrow> bool) \<Rightarrow> bool \<Rightarrow> string \<Rightarrow> http_scan \<Rightarrow> int \<Rightarrow> http_tokens option" where
  "http_lexed wins \<equiv> lexed_by (ranked_rule wins) http_rules"

lemma http_step:
  assumes "best_rule b (m @ s) (http_rules v) = Some (length m, r)" and "m \<noteq> []" and "http_cond v \<noteq> HTTP_header"
  shows "action r m v = (None, v1) \<Longrightarrow>
      http_lexed wins b (m @ s) v k = http_lexed wins (last m = newline) s v1 (k + int (length m))"
    and "action r m v = (Some a, v1) \<Longrightarrow>
      http_lexed wins b (m @ s) v k =
        map_option ((#) (a, TokenType m k (k + int (length m)))) (http_lexed wins (last m = newline) s v1 (k + int (length m)))"
  using lexed_by_step [where B = "ranked_rule wins" and R = http_rules and v = v and r = r and bol = b and m = m and s = s]
    assms http_rules_body [OF assms(3)] by simp_all

lemmas http_rule_simps [lex_simps] = http_rules_def http_body_rules_def http_tag_start_rules_def http_tag_att_rules_def
  http_href_rules_def char_rule_def token_rule_def skip_rule_def

definition in_href :: "bool \<Rightarrow> bool \<Rightarrow> http_scan \<Rightarrow> http_scan" where
  "in_href u f v = v\<lparr>http_cond := HTTP_tag_attvalue_href, inURL := u, urlFirst := f\<rparr>"

lemma in_href_simps [simp]:
  "http_cond (in_href u f v) = HTTP_tag_attvalue_href" "inURL (in_href u f v) = u" "urlFirst (in_href u f v) = f"
  "(in_href u f v)\<lparr>urlFirst := f'\<rparr> = in_href u f' v" "(in_href u f v)\<lparr>inURL := u'\<rparr> = in_href u' f v"
  by (simp_all add: in_href_def)

lemma takeWhile_stop: "list_all p xs \<Longrightarrow> s = [] \<or> \<not> p (hd s) \<Longrightarrow> takeWhile p (xs @ s) = xs"
  by (cases s) (auto simp: list_all_iff takeWhile_append)

text \<open>A number, a name and a single character in the value of \<open>href\<close>.\<close>

lemma href_number:
  assumes "number ds" and "s \<noteq> []" and "\<not> is_digit (hd s)"
  shows "http_lexed wins False (ds @ s) (in_href u f v) k =
    map_option ((#) (HTTP_INTEGER, TokenType ds k (k + int (length ds)))) (http_lexed wins False s (in_href u False v) (k + int (length ds)))"
proof -
  obtain d ds' where ds: "ds = d # ds'" using assms(1) by (cases ds) (auto simp: number_def)
  have d: "is_digit d" "list_all is_digit ds'" using assms(1) by (auto simp: ds number_def)
  then have n: "d \<noteq> CHR ''=''" "d \<noteq> CHR 0x27" "d \<noteq> CHR 0x22" "d \<noteq> CHR ''>''" "d \<noteq> newline" "\<not> blank d" "\<not> is_alpha d"
    by (auto simp: is_digit_def newline_def is_alpha_def)
  have tw: "takeWhile is_digit (ds' @ s) = ds'" using takeWhile_stop [OF d(2)] assms(3) by blast
  have "last ds \<noteq> newline" using assms(1) by (metis is_digit_simps(4) last_in_set list_all_iff number_def)
  with http_step(2) [of False ds s "in_href u f v" "http_href_rules ! 5" HTTP_INTEGER "in_href u False v" wins k] n tw d(1)
  show ?thesis by (simp add: ds lex_simps)
qed


lemma href_char:
  assumes "\<not> is_digit c" and "\<not> is_alpha c" and "\<not> blank c" and "c \<notin> {CHR ''='', CHR ''>'', CHR 0x27, CHR 0x22, newline}"
  shows "http_lexed wins False (c # s) (in_href u f v) k =
    map_option ((#) (ch c, TokenType [c] k (k + 1))) (http_lexed wins False s (in_href u False v) (k + 1))"
  using http_step(2) [of False "[c]" s "in_href u f v" "http_href_rules ! 7" "ch c" "in_href u False v" wins k] assms
  by (simp add: lex_simps)

lemma href_name:
  assumes "is_alpha a" and "list_all is_alnum as" and "\<not> is_alnum c"
  shows "http_lexed wins False (a # as @ c # s) (in_href u True v) k =
    map_option ((#) (URL_NAME, TokenType (a # as) k (k + 1 + int (length as))))
      (http_lexed wins False (c # s) (in_href u False v) (k + 1 + int (length as)))"
proof -
  have n: "a \<noteq> CHR ''=''" "a \<noteq> CHR 0x27" "a \<noteq> CHR 0x22" "a \<noteq> CHR ''>''" "a \<noteq> newline" "\<not> blank a" "\<not> is_digit a"
    using assms(1) by (auto simp: is_digit_def newline_def is_alpha_def)
  have tw: "takeWhile is_alnum (as @ c # s) = as" using takeWhile_stop [OF assms(2), of "c # s"] assms(3) by simp
  have "newline \<notin> set as" using assms(2) by (auto simp: list_all_iff is_alnum_def)
  then have "last (a # as) \<noteq> newline" using n(5) by (metis last_in_set list.distinct(1) set_ConsD)
  with http_step(2) [of False "a # as" "c # s" "in_href u True v" "http_href_rules ! 4" URL_NAME "in_href u False v" wins k] n tw assms(1)
  show ?thesis by (simp add: lex_simps algebra_simps)
qed

lemma tag_opened_plain:
  assumes "http_cond v = HTTP_body"
  shows "http_lexed wins b (''<a href='' @ s) v k =
    map_option ((@) [(ch (CHR ''<''), TokenType ''<'' k (k + 1)), (TAG_IDENT, TokenType ''a'' (k + 1) (k + 2)),
        (TAG_IDENT_HREF, TokenType ''href'' (k + 3) (k + 7)), (ch (CHR ''=''), TokenType ''='' (k + 7) (k + 8))])
      (http_lexed wins False s (in_href False True v) (k + 8))"
proof -
  let ?at = "begin_http HTTP_tag_att v" and ?hr = "begin_http HTTP_tag_attvalue_href v"
  have an: "is_alnum (CHR ''r'')" "is_alnum (CHR ''e'')" "is_alnum (CHR ''f'')" "\<not> is_alnum (CHR ''='')" "\<not> is_alnum (CHR '' '')"
    by (simp_all add: is_alnum_def is_digit_def)
  have nl: "CHR ''<'' \<noteq> newline" "CHR ''a'' \<noteq> newline" "CHR '' '' \<noteq> newline" "CHR ''f'' \<noteq> newline" "CHR ''='' \<noteq> newline" "CHR 0x22 \<noteq> newline"
    by (simp_all add: newline_def)
  have eq: "?hr\<lparr>urlFirst := True, inURL := False\<rparr> = in_href False True v" by (cases v) (simp add: in_href_def)
  have 1: "http_lexed wins b (''<a href='' @ s) v k = map_option ((#) (ch (CHR ''<''), TokenType ''<'' k (k + 1)))
      (http_lexed wins False (''a href='' @ s) (begin_http HTTP_tag_start v) (k + 1))"
    using http_step(2) [of b "''<''" "''a href='' @ s" v "http_body_rules ! 0"] assms nl
    by (simp add: lex_simps)
  have 2: "http_lexed wins False (''a href='' @ s) (begin_http HTTP_tag_start v) j =
      map_option ((#) (TAG_IDENT, TokenType ''a'' j (j + 1))) (http_lexed wins False ('' href='' @ s) ?at (j + 1))" for j
    using http_step(2) [of False "''a''" "'' href='' @ s" "begin_http HTTP_tag_start v" "http_tag_start_rules ! 1"] an nl
    by (simp add: lex_simps)
  have 3: "http_lexed wins False ('' href='' @ s) ?at j = http_lexed wins False (''href='' @ s) ?at (j + 1)" for j
    using http_step(1) [of False "'' ''" "''href='' @ s" ?at "http_tag_att_rules ! 4"] nl
    by (simp add: lex_simps)
  have 4: "http_lexed wins False (''href='' @ s) ?at j =
      map_option ((#) (TAG_IDENT_HREF, TokenType ''href'' j (j + 4))) (http_lexed wins False (''='' @ s) ?hr (j + 4))" for j
    using http_step(2) [of False "''href''" "''='' @ s" ?at "http_tag_att_rules ! 0"] an nl
    by (simp add: lex_simps)
  have 5: "http_lexed wins False (''='' @ s) ?hr j =
      map_option ((#) (ch (CHR ''=''), TokenType ''='' j (j + 1))) (http_lexed wins False (s) (in_href False True v) (j + 1))" for j
    using http_step(2) [of False "''=''" "s" ?hr "http_href_rules ! 0"] nl eq
    by (simp add: lex_simps)
  show ?thesis
    unfolding 1 2 3 4 5 by (simp add: append_fun option.map_comp comp_def add.assoc)
qed

lemma tag_opened:
  assumes "http_cond v = HTTP_body"
  shows "http_lexed wins b (''<a href='' @ CHR 0x22 # s) v k =
    map_option ((@) [(ch (CHR ''<''), TokenType ''<'' k (k + 1)), (TAG_IDENT, TokenType ''a'' (k + 1) (k + 2)),
        (TAG_IDENT_HREF, TokenType ''href'' (k + 3) (k + 7)), (ch (CHR ''=''), TokenType ''='' (k + 7) (k + 8))])
      (http_lexed wins False s (in_href True True v) (k + 9))"
proof -
  have nl: "CHR 0x22 \<noteq> newline" by (simp add: newline_def)
  have "http_lexed wins False (CHR 0x22 # s) (in_href False True v) j = http_lexed wins False s (in_href True True v) (j + 1)" for j
    using http_step(1) [of False "[CHR 0x22]" s "in_href False True v" "http_href_rules ! 3"] nl
    by (simp add: lex_simps href_quote_def)
  then show ?thesis unfolding tag_opened_plain [OF assms] by (simp add: add.assoc)
qed

lemma tag_closed:
  "http_lexed wins False [CHR 0x22, CHR ''>''] (in_href True u v) k = Some [(ch (CHR ''>''), TokenType ''>'' (k + 1) (k + 2))]"
proof -
  have nl: "CHR ''>'' \<noteq> newline" "CHR 0x22 \<noteq> newline" by (simp_all add: newline_def)
  let ?w = "(in_href True u v)\<lparr>inURL := False, http_cond := HTTP_tag_att\<rparr>"
  have "http_lexed wins False [CHR 0x22, CHR ''>''] (in_href True u v) k = http_lexed wins False ''>'' ?w (k + 1)"
    using http_step(1) [of False "[CHR 0x22]" "''>''" "in_href True u v" "http_href_rules ! 3"] nl
    by (simp add: lex_simps href_quote_def)
  also have "\<dots> = Some [(ch (CHR ''>''), TokenType ''>'' (k + 1) (k + 2))]"
    using http_step(2) [of False "''>''" "[]" ?w "http_tag_att_rules ! 2"] nl
    by (simp add: lex_simps add.commute)
  finally show ?thesis .
qed

text \<open>The address in a link and its tokens.\<close>

definition dotted :: "string \<Rightarrow> string \<Rightarrow> string \<Rightarrow> string \<Rightarrow> string" where
  "dotted a b c d = a @ ''.'' @ b @ ''.'' @ c @ ''.'' @ d"

definition link_text :: "string \<Rightarrow> string \<Rightarrow> string" where
  "link_text nm addr = ''<a href='' @ [CHR 0x22] @ nm @ ''://'' @ addr @ ''/'' @ [CHR 0x22] @ ''>''"

lemma href_number_char:
  assumes "number ds"
  shows "http_lexed wins False (ds @ CHR ''.'' # s) (in_href u f v) k =
      map_option ((@) [(HTTP_INTEGER, tok_at k ds), (ch (CHR ''.''), tok_at (k + int (length ds)) ''.'')])
        (http_lexed wins False s (in_href u False v) (k + int (length ds) + 1))"
    and "http_lexed wins False (ds @ CHR ''/'' # s) (in_href u f v) k =
      map_option ((@) [(HTTP_INTEGER, tok_at k ds), (ch (CHR ''/''), tok_at (k + int (length ds)) ''/'')])
        (http_lexed wins False s (in_href u False v) (k + int (length ds) + 1))"
  using href_number [OF assms, of "_ # s" wins u f v k]
    href_char [of _ wins s u False v "k + int (length ds)"]
  by (simp_all add: append_fun option.map_comp comp_def tok_at_def newline_def)

lemma href_address_lexed:
  assumes "number a" and "number b" and "number c" and "number d"
    and k: "k2 = k + int (length a)" "k3 = k2 + 1 + int (length b)" "k4 = k3 + 1 + int (length c)" "k5 = k4 + 1 + int (length d)"
  shows "http_lexed wins False (dotted a b c d @ ''/'' @ s) (in_href i u v) k =
    map_option ((@) [(HTTP_INTEGER, tok_at k a), (ch (CHR ''.''), tok_at k2 ''.''), (HTTP_INTEGER, tok_at (k2 + 1) b),
        (ch (CHR ''.''), tok_at k3 ''.''), (HTTP_INTEGER, tok_at (k3 + 1) c), (ch (CHR ''.''), tok_at k4 ''.''),
        (HTTP_INTEGER, tok_at (k4 + 1) d), (ch (CHR ''/''), tok_at k5 ''/'')])
      (http_lexed wins False s (in_href i False v) (k5 + 1))"
  unfolding dotted_def k append_assoc append_Cons append_Nil
    href_number_char [OF assms(1)] href_number_char [OF assms(2)] href_number_char [OF assms(3)] href_number_char [OF assms(4)]
  by (simp add: append_fun option.map_comp comp_def)

lemma link_derived:
  assumes "http_cond v = HTTP_body" and "is_alpha n" and "list_all is_alnum ns"
    and "number a" and "number b" and "number c" and "number d" and "http_ignore h = 0"
    and "q = k + 12 + int (length (n # ns))"
  shows "\<exists>ts. http_lexed wins bol (link_text (n # ns) (dotted a b c d)) v k = Some ts \<and> tight ts \<and> fst (hd ts) = ch (CHR ''<'') \<and> ts \<noteq> [] \<and>
    http_tag_derived ts (h, p) (h\<lparr>curTag := ''a''\<rparr>,
      addOperation_range q (q + int (length (dotted a b c d))) REPLACE (map bar_dot (dotted a b c d)) False p)"
proof -
  let ?j = "k + 9 + int (length (n # ns))"
  have al: "\<not> is_alnum (CHR '':'')" by (simp add: is_alnum_def)
  have nl: "CHR '':'' \<noteq> newline" "CHR ''/'' \<noteq> newline" by (simp_all add: newline_def)
  let ?rest = "dotted a b c d @ ''/'' @ [CHR 0x22, CHR ''>'']"
  have 1: "http_lexed wins bol (link_text (n # ns) (dotted a b c d)) v k =
    map_option ((@) [(ch (CHR ''<''), TokenType ''<'' k (k + 1)), (TAG_IDENT, TokenType ''a'' (k + 1) (k + 2)),
        (TAG_IDENT_HREF, TokenType ''href'' (k + 3) (k + 7)), (ch (CHR ''=''), TokenType ''='' (k + 7) (k + 8))])
      (http_lexed wins False (n # ns @ CHR '':'' # ''//'' @ ?rest) (in_href True True v) (k + 9))"
    using tag_opened [OF assms(1), of wins bol "n # ns @ CHR '':'' # ''//'' @ ?rest" k] by (simp add: link_text_def)
  have 2: "http_lexed wins False (n # ns @ CHR '':'' # ''//'' @ ?rest) (in_href True True v) (k + 9) =
    map_option ((@) [(URL_NAME, tok_at (k + 9) (n # ns)), (ch (CHR '':''), tok_at ?j '':''), (ch (CHR ''/''), tok_at (?j + 1) ''/''),
        (ch (CHR ''/''), tok_at (?j + 2) ''/'')]) (http_lexed wins False ?rest (in_href True False v) q)"
    using nl by (simp add: href_name [OF assms(2,3) al] href_char append_fun option.map_comp comp_def tok_at_def assms(9) algebra_simps)
  let ?k2 = "q + int (length a)"
  let ?k3 = "?k2 + 1 + int (length b)"
  let ?k4 = "?k3 + 1 + int (length c)"
  let ?k5 = "?k4 + 1 + int (length d)"
  let ?addr = "url_address [tok_at (k + 9) (n # ns), tok_at ?j '':'', tok_at (?j + 1) ''/'', tok_at (?j + 2) ''/'', tok_at q a,
    tok_at ?k2 ''.'', tok_at (?k2 + 1) b, tok_at ?k3 ''.'', tok_at (?k3 + 1) c, tok_at ?k4 ''.'', tok_at (?k4 + 1) d, tok_at ?k5 ''/'']"
  let ?ts = "[(ch (CHR ''<''), TokenType ''<'' k (k + 1)), (TAG_IDENT, TokenType ''a'' (k + 1) (k + 2))] @
    ([] @ [(TAG_IDENT_HREF, TokenType ''href'' (k + 3) (k + 7)), (ch (CHR ''=''), TokenType ''='' (k + 7) (k + 8))] @ ?addr @ []) @
    [(ch (CHR ''>''), TokenType ''>'' (?k5 + 2) (?k5 + 3))]"
  have "http_lexed wins bol (link_text (n # ns) (dotted a b c d)) v k = Some ?ts"
    unfolding 1 2 href_address_lexed [OF assms(4-7) refl refl refl refl] tag_closed
    by (simp add: url_address_def add.assoc)
  moreover have "http_tag_derived ?ts (h, p) (beginTag (TokenType ''a'' (k + 1) (k + 2)) h,
      http_url (tok_at q a) (tok_at (?k2 + 1) b) (tok_at (?k3 + 1) c) (tok_at (?k4 + 1) d) (beginTag (TokenType ''a'' (k + 1) (k + 2)) h) p)"
    by (intro tag_open attributes_more [OF attributes_none] attribute_href url_ip url_trailing_none)
  moreover have "tight ?ts \<and> fst (hd ?ts) = ch (CHR ''<'') \<and> ?ts \<noteq> []"
    by (simp add: url_address_def tok_at_def TokenType_def assms(9))
  moreover have "beginTag (TokenType ''a'' (k + 1) (k + 2)) h = h\<lparr>curTag := ''a''\<rparr>"
    using assms(8) by (simp add: beginTag_def TokenType_def)
  moreover have "http_url (tok_at q a) (tok_at (?k2 + 1) b) (tok_at (?k3 + 1) c) (tok_at (?k4 + 1) d) (h\<lparr>curTag := ''a''\<rparr>) p =
      addOperation_range q (q + int (length (dotted a b c d))) REPLACE (map bar_dot (dotted a b c d)) False p"
    by (simp add: http_url_def reportIP_def tok_concat_def tok_append_def tok_at_def TokenType_def dotted_def
        addOperation_range_def bar_dot_def [abs_def] algebra_simps)
  ultimately show ?thesis by (intro exI [of _ ?ts] conjI) simp_all
qed


text \<open>
  C29: A link to an address is masked.  The start tag of a link to \<open>nm://a.b.c.d/\<close> with lower-case \<open>a\<close> and
  \<open>href\<close>, anywhere in the body of a response and outside ignored elements, is cut into the tokens of a tag, and
  the actions of that tag add exactly one edit, which puts bars for the dots of the address.
\<close>

theorem http_link_masked:
  assumes "http_cond v = HTTP_body" and "is_alpha n" and "list_all is_alnum ns"
    and "number a" and "number b" and "number c" and "number d" and "http_ignore h = 0"
    and "q = k + 12 + int (length (n # ns))"
  shows "\<exists>ts. http_lexed wins bol (link_text (n # ns) (dotted a b c d)) v k = Some ts \<and>
    http_tag_derived ts (h, p) (h\<lparr>curTag := ''a''\<rparr>,
      addOperation_range q (q + int (length (dotted a b c d))) REPLACE (map bar_dot (dotted a b c d)) False p)"
  using link_derived [OF assms] by blast

definition demo_scan :: http_scan where
  "demo_scan = new_http_scan False False"

definition demo_vars :: http_vars where
  "demo_vars = \<lparr>curTag = [], http_ignore = 0, chunked = False, http_len = 0\<rparr>"

lemma number_simps: "number ''1''" "number ''2''" "number ''34''" "number ''5''"
  by (simp_all add: number_def is_digit_def)

theorem http_link_masked_witness:
  "\<exists>ts. http_lexed (\<lambda>_ _. True) False (link_text ''h'' ''1.2.34.5'') (begin_http HTTP_body demo_scan) 20 = Some ts \<and>
    http_tag_derived ts (demo_vars, demo_parser)
      (demo_vars\<lparr>curTag := ''a''\<rparr>, addOperation_range 33 41 REPLACE ''1|2|34|5'' False demo_parser)"
  using http_link_masked [of "begin_http HTTP_body demo_scan" "CHR ''h''" "[]" "''1''" "''2''" "''34''" "''5''" demo_vars 33 20
      "\<lambda>_ _. True" False demo_parser] number_simps
  by (simp add: demo_vars_def dotted_def bar_dot_def)

section \<open>Blanks inside an address\<close>

text \<open>Outside quotes the scanner skips blanks in the value of \<open>href\<close>, and the value goes on behind them.\<close>

lemma href_blanks:
  assumes "bl \<noteq> []" and "list_all blank bl" and "s \<noteq> []" and "\<not> blank (hd s)"
  shows "http_lexed wins False (bl @ s) (in_href False f v) k = http_lexed wins False s (in_href False f v) (k + int (length bl))"
proof -
  obtain x xs where bl: "bl = x # xs" using assms(1) by (cases bl) auto
  have b: "blank x" "list_all blank xs" using assms(2) by (auto simp: bl)
  then have n: "x \<noteq> CHR ''=''" "x \<noteq> CHR 0x27" "x \<noteq> CHR 0x22" "x \<noteq> CHR ''>''" "\<not> is_alpha x" "\<not> is_digit x"
    by (auto simp: is_digit_def is_alpha_def)
  have tw: "takeWhile blank (xs @ s) = xs" using takeWhile_stop [OF b(2)] assms(4) by blast
  have nl: "\<not> blank newline" by (simp add: newline_def)
  have "blank (last bl)" using assms(2) last_in_set [OF assms(1)] by (simp only: list_all_iff)
  with nl have "last bl \<noteq> newline" by fastforce
  moreover have "best_rule False (bl @ s) (http_rules (in_href False f v)) = Some (length bl, http_href_rules ! 1)"
    using n tw b(1) by (elim disjE) (simp_all add: bl lex_simps)
  moreover have "action (http_href_rules ! 1) bl (in_href False f v) = (None, in_href False f v)"
    by (simp add: lex_simps)
  ultimately show ?thesis
    using http_step(1) [of False bl s "in_href False f v" "http_href_rules ! 1" "in_href False f v" wins k] assms(1) by simp
qed

text \<open>The start tag of a link without quotes, with blanks behind the first number of the address.\<close>

definition blank_link :: "string \<Rightarrow> string \<Rightarrow> string \<Rightarrow> string \<Rightarrow> string \<Rightarrow> string \<Rightarrow> string" where
  "blank_link nm a bl b c d = ''<a href='' @ nm @ ''://'' @ a @ bl @ ''.'' @ b @ ''.'' @ c @ ''.'' @ d @ ''/>''"

lemma blank_link_lexed:
  assumes "http_cond v = HTTP_body" and "is_alpha n" and "list_all is_alnum ns"
    and "number a" and "number b" and "number c" and "number d" and "bl \<noteq> []" and "list_all blank bl"
    and k: "j = k + 8 + int (length (n # ns))" "q = j + 3" "k2 = q + int (length a) + int (length bl)"
      "k3 = k2 + 1 + int (length b)" "k4 = k3 + 1 + int (length c)" "k5 = k4 + 1 + int (length d)"
  shows "http_lexed wins bol (blank_link (n # ns) a bl b c d) v k = Some (
    [(ch (CHR ''<''), TokenType ''<'' k (k + 1)), (TAG_IDENT, TokenType ''a'' (k + 1) (k + 2))] @
    ([] @ [(TAG_IDENT_HREF, TokenType ''href'' (k + 3) (k + 7)), (ch (CHR ''=''), TokenType ''='' (k + 7) (k + 8))] @
      url_address [tok_at (k + 8) (n # ns), tok_at j '':'', tok_at (j + 1) ''/'', tok_at (j + 2) ''/'', tok_at q a,
        tok_at k2 ''.'', tok_at (k2 + 1) b, tok_at k3 ''.'', tok_at (k3 + 1) c, tok_at k4 ''.'', tok_at (k4 + 1) d, tok_at k5 ''/''] @ []) @
    [(ch (CHR ''>''), tok_at (k5 + 1) ''>'')])"
proof -
  have al: "\<not> is_alnum (CHR '':'')" by (simp add: is_alnum_def)
  have nl: "CHR '':'' \<noteq> newline" "CHR ''/'' \<noteq> newline" "CHR ''.'' \<noteq> newline" "CHR ''>'' \<noteq> newline" by (simp_all add: newline_def)
  have "\<not> is_digit (hd (bl @ s))" for s using assms(8,9) by (cases bl) (auto simp: is_digit_def)
  note number = href_number [OF assms(4) _ this]
  note blanks = href_blanks [OF assms(8,9)]
  note numbers = href_number_char [OF assms(5)] href_number_char [OF assms(6)] href_number_char [OF assms(7)]
  have close: "http_lexed wins False ''>'' (in_href False False v) i = Some [(ch (CHR ''>''), tok_at i ''>'')]" for i
    using http_step(2) [of False "''>''" "[]" "in_href False False v" "http_href_rules ! 6"] nl
    by (simp add: lex_simps tok_at_def)
  let ?rest = "b @ CHR ''.'' # c @ CHR ''.'' # d @ CHR ''/'' # ''>''"
  have 1: "http_lexed wins False (?rest) (in_href False False v) (k2 + 1) = Some
    [(HTTP_INTEGER, tok_at (k2 + 1) b), (ch (CHR ''.''), tok_at k3 ''.''), (HTTP_INTEGER, tok_at (k3 + 1) c), (ch (CHR ''.''), tok_at k4 ''.''),
     (HTTP_INTEGER, tok_at (k4 + 1) d), (ch (CHR ''/''), tok_at k5 ''/''), (ch (CHR ''>''), tok_at (k5 + 1) ''>'')]"
    unfolding numbers by (simp add: k close algebra_simps)
  have 2: "http_lexed wins False (a @ bl @ CHR ''.'' # ?rest) (in_href False False v) q =
    map_option ((@) [(HTTP_INTEGER, tok_at q a), (ch (CHR ''.''), tok_at k2 ''.'')]) (http_lexed wins False ?rest (in_href False False v) (k2 + 1))"
    using nl assms(8) by (simp add: number blanks href_char append_fun option.map_comp comp_def tok_at_def k(3) algebra_simps)
  have 3: "http_lexed wins False (n # ns @ CHR '':'' # ''//'' @ s) (in_href False True v) (k + 8) =
    map_option ((@) [(URL_NAME, tok_at (k + 8) (n # ns)), (ch (CHR '':''), tok_at j '':''), (ch (CHR ''/''), tok_at (j + 1) ''/''),
        (ch (CHR ''/''), tok_at (j + 2) ''/'')]) (http_lexed wins False s (in_href False False v) q)" for s
    using nl by (simp add: href_name [OF assms(2,3) al] href_char append_fun option.map_comp comp_def tok_at_def k(1,2) algebra_simps)
  have "http_lexed wins bol (blank_link (n # ns) a bl b c d) v k =
    map_option ((@) [(ch (CHR ''<''), TokenType ''<'' k (k + 1)), (TAG_IDENT, TokenType ''a'' (k + 1) (k + 2)),
        (TAG_IDENT_HREF, TokenType ''href'' (k + 3) (k + 7)), (ch (CHR ''=''), TokenType ''='' (k + 7) (k + 8))])
      (http_lexed wins False (n # ns @ CHR '':'' # ''//'' @ a @ bl @ CHR ''.'' # ?rest) (in_href False True v) (k + 8))"
    using tag_opened_plain [OF assms(1), of wins bol "n # ns @ CHR '':'' # ''//'' @ a @ bl @ CHR ''.'' # ?rest" k]
    by (simp add: blank_link_def)
  then show ?thesis
    unfolding 3 2 1 by (simp add: url_address_def)
qed

text \<open>The text as the gateway sends it: the address without its blanks and with bars for its dots.\<close>

definition blank_link_sent :: "string \<Rightarrow> string \<Rightarrow> string \<Rightarrow> string \<Rightarrow> string \<Rightarrow> string" where
  "blank_link_sent nm a b c d = ''<a href='' @ nm @ ''://'' @ map bar_dot (dotted a b c d) @ ''/>''"

lemma splice_once:
  assumes "0 \<le> x" and "length pre = nat x" and "y = x + int (length mid)" and "op_cnt e = False"
    and "start_pos e = x" and "end_pos e = y"
  shows "splice 0 0 [e] (map byte_of (pre @ mid @ post)) = map byte_of (pre @ newdata e @ post)"
proof -
  have "nat y = length pre + length mid" using assms(1-3) by simp
  then show ?thesis using assms by simp
qed

text \<open>
  C31: Blanks inside an address break the promise that a masked response keeps its length.  In a start tag
  of a link without quotes, anywhere in the body of a response, with blanks behind the first number of the address in it,
  the scanner skips the blanks; the actions of the tag add the one edit of an address, from its first to its last byte,
  with the address as newly put together.  If that is the only edit, the text sent has lost the blanks: it is shorter by their number.  No
  action of the grammar changes the length that the head of the response announces.
\<close>
theorem http_blanks_shorten:
  assumes "http_cond v = HTTP_body" and "is_alpha n" and "list_all is_alnum ns"
    and "number a" and "number b" and "number c" and "number d" and "bl \<noteq> []" and "list_all blank bl"
    and "http_ignore h = 0" and "ops p = []"
  shows "\<exists>ts p'. http_lexed wins bol (blank_link (n # ns) a bl b c d) v (int (length pre)) = Some ts \<and>
    http_tag_derived ts (h, p) (h\<lparr>curTag := ''a''\<rparr>, p') \<and>
    splice 0 0 (ops p') (map byte_of (pre @ blank_link (n # ns) a bl b c d @ post)) =
      map byte_of (pre @ blank_link_sent (n # ns) a b c d @ post) \<and>
    length (blank_link_sent (n # ns) a b c d) + length bl = length (blank_link (n # ns) a bl b c d)"
proof -
  define k where "k = int (length pre)"
  define j where "j = k + 8 + int (length (n # ns))"
  define q where "q = j + 3"
  define k2 where "k2 = q + int (length a) + int (length bl)"
  define k3 where "k3 = k2 + 1 + int (length b)"
  define k4 where "k4 = k3 + 1 + int (length c)"
  define k5 where "k5 = k4 + 1 + int (length d)"
  note lexed = blank_link_lexed [OF assms(1-9) j_def q_def k2_def k3_def k4_def k5_def, of wins bol]
  let ?h = "beginTag (TokenType ''a'' (k + 1) (k + 2)) h"
  let ?p = "http_url (tok_at q a) (tok_at (k2 + 1) b) (tok_at (k3 + 1) c) (tok_at (k4 + 1) d) ?h p"
  let ?e = "\<lparr>start_pos = q, end_pos = k5, op = REPLACE, newdata = map bar_dot (dotted a b c d), op_cnt = False\<rparr>"
  have h: "?h = h\<lparr>curTag := ''a''\<rparr>" using assms(10) by (simp add: beginTag_def TokenType_def)
  have ops: "ops ?p = [?e]"
    unfolding h using assms(11) by (simp add: http_url_ops dotted_def tok_at_def TokenType_def k5_def)
  let ?pre = "pre @ ''<a href='' @ (n # ns) @ ''://''" and ?mid = "a @ bl @ ''.'' @ b @ ''.'' @ c @ ''.'' @ d"
  have "splice 0 0 [?e] (map byte_of (?pre @ ?mid @ ''/>'' @ post)) = map byte_of (?pre @ newdata ?e @ ''/>'' @ post)"
    by (rule splice_once [of q _ k5])
      (simp_all add: k_def j_def q_def k2_def k3_def k4_def k5_def)
  then have sent: "splice 0 0 (ops ?p) (map byte_of (pre @ blank_link (n # ns) a bl b c d @ post)) =
      map byte_of (pre @ blank_link_sent (n # ns) a b c d @ post)"
    unfolding ops by (simp add: blank_link_def blank_link_sent_def)
  have len: "length (blank_link_sent (n # ns) a b c d) + length bl = length (blank_link (n # ns) a bl b c d)"
    by (simp add: blank_link_def blank_link_sent_def dotted_def)
  show ?thesis
    unfolding k_def [symmetric]
    by (intro exI [of _ ?p] exI conjI, rule lexed, unfold h [symmetric],
        intro tag_open attributes_more [OF attributes_none] attribute_href url_ip url_trailing_none)
      (rule sent len)+
qed

theorem http_blanks_shorten_witness:
  "\<exists>ts p'. http_lexed (\<lambda>_ _. True) False (blank_link ''h'' ''1'' ''  '' ''2'' ''34'' ''5'') (begin_http HTTP_body demo_scan) 0 = Some ts \<and>
    http_tag_derived ts (demo_vars, demo_parser) (demo_vars\<lparr>curTag := ''a''\<rparr>, p') \<and>
    splice 0 0 (ops p') (map byte_of ''<a href=h://1  .2.34.5/>'') = map byte_of ''<a href=h://1|2|34|5/>''"
proof -
  have "ops demo_parser = []" by (simp add: demo_parser_def new_parser_def)
  from http_blanks_shorten [of "begin_http HTTP_body demo_scan" "CHR ''h''" "[]" "''1''" "''2''" "''34''" "''5''" "''  ''" demo_vars
      demo_parser "\<lambda>_ _. True" False "[]" "[]", OF _ _ _ number_simps _ _ _ this]
  show ?thesis
    by (auto simp: demo_vars_def blank_link_sent_def blank_link_def dotted_def bar_dot_def)
qed

text \<open>A response with one header and a link in its body.\<close>

definition demo_response :: string where
  "demo_response = ''A B C'' @ [newline] @ ''x:y'' @ [newline, newline] @ link_text ''h'' ''1.2.34.5''"

lemma demo_head_lexed:
  "http_lexed (\<lambda>_ _. True) True (''A B C'' @ [newline] @ ''x:y'' @ [newline, newline] @ s) demo_scan 0 =
    map_option ((@) [(STATUS_IDENT, tok_at 0 ''A''), (STATUS_IDENT, tok_at 2 ''B''), (STATUS_IDENT, tok_at 4 ''C''),
       (ch newline, tok_at 5 [newline]), (HTTP_HEADER_IDENT, tok_at 6 ''x''), (ch (CHR '':''), tok_at 7 '':''),
       (HTTP_HEADER_VALUE, tok_at 8 ''y''), (ch newline, tok_at 9 [newline]), (ch newline, tok_at 10 [newline])])
      (http_lexed (\<lambda>_ _. True) True s (begin_http HTTP_body demo_scan) 11)"
proof -
  let ?w = "\<lambda>_ _. True" and ?h = "begin_http HTTP_header demo_scan"
  have an: "is_alnum (CHR ''A'')" "is_alnum (CHR ''B'')" "is_alnum (CHR ''C'')" "\<not> is_alnum (CHR '' '')" "\<not> is_alnum newline"
    by (simp_all add: is_alnum_def) (simp_all add: is_alpha_def)
  have nl: "CHR ''A'' \<noteq> newline" "CHR ''B'' \<noteq> newline" "CHR ''C'' \<noteq> newline" "CHR '' '' \<noteq> newline" "newline \<noteq> CHR ''/''" "newline \<noteq> CHR ''.''"
    "CHR ''x'' \<noteq> newline" "CHR ''y'' \<noteq> newline" "CHR '':'' \<noteq> newline" "CHR ''x'' \<noteq> carriage" "CHR ''y'' \<noteq> carriage"
    "newline \<noteq> CHR '':''" "newline \<noteq> CHR ''-''" "newline \<noteq> CHR 0x09" "CHR '':'' \<noteq> carriage" "is_alpha (CHR ''x'')"
    "\<not> is_eol (CHR ''x'')" "\<not> is_eol (CHR ''y'')"
    by (simp_all add: newline_def carriage_def is_eol_def is_alpha_def)
  have c: "http_cond demo_scan = HTTP_INITIAL" by (simp add: demo_scan_def new_http_scan_def)
  have st: "http_lexed ?w b (x # y # t) demo_scan k =
      map_option ((#) (STATUS_IDENT, tok_at k [x])) (http_lexed ?w False (y # t) demo_scan (k + 1))"
    if "x \<in> {CHR ''A'', CHR ''B'', CHR ''C''}" "y \<in> {CHR '' '', newline}" for x y t b k
    using http_step(2) [of b "[x]" "y # t" demo_scan "http_initial_rules ! 0" STATUS_IDENT demo_scan ?w k] that an nl c
    by (auto simp: lex_simps http_initial_rules_def tok_at_def)
  have sp: "http_lexed ?w b (CHR '' '' # t) demo_scan k = http_lexed ?w False t demo_scan (k + 1)" for t b k
    using http_step(1) [of b "'' ''" t demo_scan "http_initial_rules ! 3"] an nl c
    by (simp add: lex_simps http_initial_rules_def)
  have n1: "http_lexed ?w b (newline # t) demo_scan k =
      map_option ((#) (ch newline, tok_at k [newline])) (http_lexed ?w True t ?h (k + 1))" for t b k
    using http_step(2) [of b "[newline]" t demo_scan "http_initial_rules ! 1"] an nl c
    by (simp add: lex_simps http_initial_rules_def tok_at_def)
  note step = lexed_by_step(2) [where B = "ranked_rule ?w" and R = http_rules and v = ?h]
  have hx: "http_lexed ?w True (CHR ''x'' # CHR '':'' # t) ?h k =
      map_option ((#) (HTTP_HEADER_IDENT, tok_at k ''x'')) (http_lexed ?w False (CHR '':'' # t) ?h (k + 1))" for t k
    using step [of True "''x''" "CHR '':'' # t" "http_header_rules ! 2"] nl
    by (simp add: lex_simps http_header_rules_def ranked_rule_def tok_at_def)
  have hc: "http_lexed ?w False (CHR '':'' # t) ?h k = map_option ((#) (ch (CHR '':''), tok_at k '':'')) (http_lexed ?w False t ?h (k + 1))" for t k
    using step [of False "'':''" t "http_header_rules ! 3"] nl
    by (simp add: lex_simps http_header_rules_def ranked_rule_def tok_at_def)
  have hy: "http_lexed ?w False (CHR ''y'' # newline # t) ?h k =
      map_option ((#) (HTTP_HEADER_VALUE, tok_at k ''y'')) (http_lexed ?w False (newline # t) ?h (k + 1))" for t k
    using step [of False "''y''" "newline # t" "http_header_rules ! 5"] nl
    by (simp add: lex_simps http_header_rules_def ranked_rule_def tok_at_def)
  have hn: "http_lexed ?w False (newline # t) ?h k = map_option ((#) (ch newline, tok_at k [newline])) (http_lexed ?w True t ?h (k + 1))" for t k
    using step [of False "[newline]" t "http_header_rules ! 6"] nl
    by (simp add: lex_simps http_header_rules_def ranked_rule_def tok_at_def)
  have he: "http_lexed ?w True (newline # t) ?h k =
      map_option ((#) (ch newline, tok_at k [newline])) (http_lexed ?w True t (begin_http HTTP_body demo_scan) (k + 1))" for t k
    using step [of True "[newline]" t "http_header_rules ! 1"] nl
    by (simp add: lex_simps http_header_rules_def ranked_rule_def tok_at_def)
  show ?thesis by (simp add: st sp n1 hx hc hy hn he append_fun option.map_comp comp_def)
qed


lemma demo_response_read:
  obtains ts where "http_lex (\<lambda>_ _. True) demo_response demo_scan = Some ts" "tight ts"
    "http_read ts (demo_vars, demo_parser)
      (demo_vars\<lparr>curTag := ''a''\<rparr>, addOperation_range 24 32 REPLACE ''1|2|34|5'' False demo_parser)"
proof -
  obtain us where us: "http_lexed (\<lambda>_ _. True) True (link_text ''h'' ''1.2.34.5'') (begin_http HTTP_body demo_scan) 11 = Some us"
    "tight us" "us \<noteq> []" "fst (hd us) = ch (CHR ''<'')"
    "http_tag_derived us (demo_vars, demo_parser)
      (demo_vars\<lparr>curTag := ''a''\<rparr>, addOperation_range 24 32 REPLACE ''1|2|34|5'' False demo_parser)"
    using link_derived [of "begin_http HTTP_body demo_scan" "CHR ''h''" "[]" "''1''" "''2''" "''34''" "''5''" demo_vars 24 11
        "\<lambda>_ _. True" True demo_parser] number_simps
    by (auto simp: demo_vars_def dotted_def bar_dot_def)
  let ?st = "[(STATUS_IDENT, tok_at 0 ''A''), (STATUS_IDENT, tok_at 2 ''B''), (STATUS_IDENT, tok_at 4 ''C''), (ch newline, tok_at 5 [newline])]"
  let ?hs = "[(HTTP_HEADER_IDENT, tok_at 6 ''x''), (ch (CHR '':''), tok_at 7 '':''), (HTTP_HEADER_VALUE, tok_at 8 ''y''), (ch newline, tok_at 9 [newline])]"
  let ?ts = "(?st @ ?hs @ [(ch newline, tok_at 10 [newline])]) @ us @ []"
  have "http_header (tok_at 6 ''x'') (tok_at 8 ''y'') (http_statusline demo_vars) = demo_vars"
    by (simp add: http_header_def http_statusline_def demo_vars_def tok_at_def TokenType_def)
  then have h: "http_httpheaders ?hs (http_statusline demo_vars) demo_vars"
    using http_headers_one [OF header [of "tok_at 6 ''x''" "tok_at 7 '':''" "tok_at 8 ''y''" "tok_at 9 [newline]" "http_statusline demo_vars"]]
    by simp
  have e: "http_emptyline (tok_at 10 [newline]) demo_vars demo_parser = (demo_vars, demo_parser)"
    by (simp add: http_emptyline_def demo_vars_def Let_def)
  have "http_read ?ts (demo_vars, demo_parser)
      (demo_vars\<lparr>curTag := ''a''\<rparr>, addOperation_range 24 32 REPLACE ''1|2|34|5'' False demo_parser)"
    using read_body [OF head [OF h, of "tok_at 0 ''A''" "tok_at 2 ''B''" "tok_at 4 ''C''" "tok_at 5 [newline]" "tok_at 10 [newline]" demo_parser]
        body_more [OF body_none, unfolded append_Nil] begun_nothing [of "[]"], unfolded e, OF us(5)]
    by simp
  moreover have "http_lex (\<lambda>_ _. True) demo_response demo_scan = Some ?ts"
    using demo_head_lexed [of "link_text ''h'' ''1.2.34.5''"] us(1)
    by (simp add: http_lex_def new_scanner_at lexed_by_def [symmetric] demo_response_def)
  moreover have "tight ?ts"
    using us(2-4) by (cases us) (auto simp: newline_def)
  ultimately show thesis by (rule that [rotated -1])
qed

theorem http_only_masks_dots_witness:
  "\<exists>ts p'. http_lex (\<lambda>_ _. True) demo_response demo_scan = Some ts \<and>
     http_read ts (demo_vars, demo_parser) (demo_vars\<lparr>curTag := ''a''\<rparr>, p') \<and> length (ops p') = 1 \<and>
     list_all2 masked (map byte_of demo_response) (splice 0 0 (sort_key start_pos (ops p')) (map byte_of demo_response))"
proof -
  obtain ts where ts: "http_lex (\<lambda>_ _. True) demo_response demo_scan = Some ts" "tight ts"
    "http_read ts (demo_vars, demo_parser)
      (demo_vars\<lparr>curTag := ''a''\<rparr>, addOperation_range 24 32 REPLACE ''1|2|34|5'' False demo_parser)"
    by (rule demo_response_read)
  have "ops demo_parser = []" by (simp add: demo_parser_def new_parser_def)
  with http_only_masks_dots [OF ts _ std_sort_sort_key] ts show ?thesis
    by (auto simp: addOperation_range_def addOperation_def)
qed

end
