(* ===== verification/Http_Gateway.thy ===== *)
theory Http_Gateway
  imports Http_Props App_Gateway
begin

text \<open>
  The HTTP gateway end to end: \<open>doApp\<close> on a server's TCP packet that carries a response, or whatever part of one, with
  the stateless parser of the configuration.
\<close>

section \<open>Parsing\<close>

text \<open>No action limits the content, as the length that \<open>emptyline\<close> tests is never set.\<close>

lemma url_maxPos: "http_url_derived ts x y \<Longrightarrow> maxPos (snd y) = maxPos (snd x)"
  by (induction rule: http_url_derived.induct) (auto simp: http_url_def reportIP_def addOperation_def split: OP.split)

lemma attributes_maxPos: "http_attributes ts x y \<Longrightarrow> maxPos (snd y) = maxPos (snd x)"
  by (induction rule: http_attributes.induct) (auto elim!: http_attribute.cases dest!: url_maxPos)

lemma tag_maxPos: "http_tag_derived ts x y \<or> http_tag_begun ts x y \<Longrightarrow> maxPos (snd y) = maxPos (snd x)"
  by (auto elim!: http_tag_derived.cases http_tag_begun.cases dest!: attributes_maxPos)

lemma read_maxPos:
  assumes "http_read ts x y" shows "maxPos (snd y) = maxPos (snd x)"
proof -
  have "http_httpbody ts x y \<Longrightarrow> maxPos (snd y) = maxPos (snd x)" for ts x y
    by (induction rule: http_httpbody.induct) (auto dest!: tag_maxPos [OF disjI1])
  with assms show ?thesis
    by cases (fastforce dest!: tag_maxPos [OF disjI2] http_head_ops)+
qed

text \<open>
  What the build gives for HTTP: the parser object of a stateless communicator reads its data up to some token,
  and has run the actions of what it has read.
\<close>

definition runs_http :: "(nat \<Rightarrow> nat \<Rightarrow> bool) \<Rightarrow> http_scan \<Rightarrow> app_env \<Rightarrow> bool" where
  "runs_http wins v e \<longleftrightarrow> (\<forall>pid c s ts.
     p_protocol (parser_heap s ! pid) = ''http'' \<longrightarrow> http_lex wins c v = Some ts \<longrightarrow>
     (\<exists>h h' q. http_read ts (h, parser_heap s ! pid) (h', q) \<and>
        env_feed e pid c s = (0, s\<lparr>parser_heap := (parser_heap s)[pid := q]\<rparr>)))"

lemma parse_response:
  assumes "runs_http wins v e" and "getProtocol (flow_at s fid) = ''http''"
    and "map_find (<) (protocols s) ''http'' = Some conf" and "ptype_s2c conf = STATELESS"
    and "http_lex wins c v = Some ts" and "tight ts" and "std_sort srt"
  obtains g s' pid where "app_parse e p c CLIENT fid s = (g, s')" "g_parser g = Some pid"
    "maxPos (parser_heap s' ! pid) = -1" "flows s' = flows s"
    "edits_ok 0 0 (srt (g_ops g)) (int (length c))"
    "list_all2 masked (map byte_of c) (splice 0 0 (srt (g_ops g)) (map byte_of c))"
proof -
  let ?n = "length (parser_heap s)" and ?q = "new_parser (env_unset e) ''http'' StatelessCommunicator"
  define sA where "sA = (count1 ''parse'' s)\<lparr>parser_heap := parser_heap s @ [?q]\<rparr>"
  have sA: "parser_heap sA ! ?n = ?q" "?n < length (parser_heap sA)" "flows sA = flows s" by (simp_all add: sA_def)
  obtain h h' q where q: "http_read ts (h, ?q) (h', q)"
    and feed: "env_feed e ?n c sA = (0, sA\<lparr>parser_heap := (parser_heap sA)[?n := q]\<rparr>)"
    using assms(1,5) sA(1) unfolding runs_http_def by (metis new_parser_def parser.select_convs(1))
  have "ops ?q = []" by (simp add: new_parser_def)
  note masked = http_masks [OF assms(5,6) q this assms(7)]
  let ?s = "snd (count2 ''parse'' (upd_parser ?n (\<lambda>q. q\<lparr>ops := []\<rparr>) (sA\<lparr>parser_heap := (parser_heap sA)[?n := q]\<rparr>)))"
  show thesis
  proof (rule that)
    show "app_parse e p c CLIENT fid s = (no_guess\<lparr>g_ops := ops ((parser_heap sA)[?n := q] ! ?n), g_parser := Some ?n,
        g_protocol := ''http''\<rparr>, ?s)"
      using app_parse_known [where d = CLIENT, simplified, OF assms(2) _ _ assms(3,4) sA_def feed]
      by (simp add: built_protocols_def)
    show "maxPos (parser_heap ?s ! ?n) = -1"
      using read_maxPos [OF q] sA(2) by (simp add: new_parser_def)
    show "flows ?s = flows s" using sA(3) by simp
  qed (use masked sA(2) in simp_all)
qed

section \<open>The whole packet\<close>

text \<open>
  C9: The HTTP gateway end to end.  A server's TCP packet of a flow known as HTTP carries any part of a response that the
  scanner can cut, the first the flow edits, and no blanks stand between the numbers and dots of an address in it
  (\<open>tight\<close>; with such blanks the packet can get shorter); the configuration gives HTTP a stateless parser.
  Then \<open>doApp\<close> is defined and leaves a packet of the same length whose payload differs from the one received only in bars for some of its
  dots, and the offset of the flow stays.
\<close>

theorem http_packet_masked:
  assumes "runs_http wins v e" and "std_sort (env_sort e)" and "start_pos (env_junk e 0) < 0"
    and "http_lex wins c v = Some ts" and "tight ts" and "c \<noteq> []"
    and "has_payload p h h'" and "isTCP p" and "getDEST p = CLIENT" and "12 \<le> getTransportHeaderLen p"
    and "payload p h' = map byte_of c" and "string_at (obuf p) (h + nat (getTransportHeaderLen p)) (length c) = c"
    and "h + nat (getTransportHeaderLen p) + length c \<le> 65536"
    and "getFlow (env_L e) p s = Some (Some fid, s)" and "fid < length (flows s)" and "\<not> analysisMode s"
    and "extra s \<noteq> EXTRA_SHIFT" and "\<not> ignored (flow_at s fid)" and "getProtocol (flow_at s fid) = ''http''"
    and "\<not> init_seq_set (flow_at s fid) CLIENT"
    and "map_find (<) (protocols s) ''http'' = Some conf" and "ptype_s2c conf = STATELESS"
  shows "\<exists>p' n' s'. doApp e p n s = Some (p', n', s') \<and>
    list_all2 masked (map byte_of c) (bytes_at (obuf p') (h + nat (getTransportHeaderLen p)) (length c)) \<and>
    transport_len p' = transport_len p \<and> getOffset CLIENT (flow_at s' fid) = getOffset CLIENT (flow_at s fid)"
proof -
  let ?hl = "getTransportHeaderLen p" and ?n = "n\<lparr>exttcpflow := Some fid\<rparr>"
  define p1 where "p1 = adjust_seq CLIENT (flow_at s fid) p"
  define s3 where "s3 = app_count p1 CLIENT fid s"
  have s3: "protocols s3 = protocols s" "length (flows s3) = length (flows s)"
    "getProtocol (flow_at s3 fid) = ''http''" "init_seq_set (flow_at s3 fid) = init_seq_set (flow_at s fid)"
    "getOffset CLIENT (flow_at s3 fid) = getOffset CLIENT (flow_at s fid)"
    using assms(15,19) by (simp_all add: s3_def app_count_def upd_flow_def flow_at_def flow_count_def getProtocol_def
        getOffset_def Let_def split: option.split)
  obtain g s4 pid where parse: "app_parse e p1 c CLIENT fid s3 = (g, s4)" and pid: "g_parser g = Some pid"
    and s4: "maxPos (parser_heap s4 ! pid) = -1" "flows s4 = flows s3"
    and edits: "edits_ok 0 0 (env_sort e (g_ops g)) (int (length c))"
    and masked: "list_all2 masked (map byte_of c) (splice 0 0 (env_sort e (g_ops g)) (map byte_of c))"
    by (rule parse_response [OF assms(1) s3(3) _ assms(22,4,5,2)]) (use s3(1) assms(21) in auto)
  have f4: "flow_at s4 fid = flow_at s3 fid" by (simp add: flow_at_def s4(2))
  have p1: "payload p1 h' = map byte_of c" "has_payload p1 h h'" "getDEST p1 = CLIENT" "getTransportHeaderLen p1 = ?hl"
    using assms(7,9,11) by (simp_all add: p1_def)
  have len: "transport_len p = ?hl + int (length c)" using length_payload [OF assms(7)] assms(11) by simp
  have d: "doApp e p n s = app_modify e p1 CLIENT fid g ?n s4"
    using doApp_payload [where d = CLIENT, OF assms(14,16,17,18,7,9) _ len assms(6,12) p1_def] assms(8,10) parse
    by (simp add: s3_def)
  define out where "out = splice 0 0 (env_sort e (g_ops g)) (map byte_of c)"
  have lout: "length out = length c" using list_all2_lengthD [OF masked] by (simp add: out_def)
  show ?thesis
  proof (cases "g_ops g = []")
    case True
    have tcp: "tcp_hdr p = Some h"
      using assms(7,8) by (auto simp: has_payload_def seg_ptrs_def isTCP_def isUDP_def split: option.splits)
    have "string_at (obuf p1) (h + nat ?hl) (length c) = c"
      using adjust_seq_string [OF tcp, of "nat ?hl"] assms(10,12) by (simp add: p1_def)
    then have "bytes_at (obuf p1) (h + nat ?hl) (length c) = map byte_of c"
      unfolding string_at_def by (metis byte_of_char_of_byte list.map_comp list.map_id map_idI comp_def)
    with True d show ?thesis
      using s4 f4 s3(5) by (auto simp: app_modify_def Let_def p1_def list_all2_refl)
  next
    case False
    have fits: "isTCP p1 \<longrightarrow> \<not> init_seq_set (flow_at s4 fid) CLIENT \<and>
        (length (payload p1 h') \<le> 1400 \<or> length out \<le> length (payload p1 h'))"
      "edits_ok 0 0 (env_sort e (g_ops g)) (int (length (payload p1 h')))"
      "out = splice 0 0 (env_sort e (g_ops g)) (payload p1 h')" "h + nat (getTransportHeaderLen p1) + length out \<le> 65536"
      "fid < length (flows s4)"
      using edits p1 lout assms(13,15,20) s3(2,4) s4(2) f4 by (simp_all add: out_def)
    from app_modify_spliced [where d = CLIENT and n = ?n, OF assms(2) p1(2,3) refl False pid s4(1) fits(1,2) assms(3) fits(3,4,5)]
    obtain p' s' where r: "app_modify e p1 CLIENT fid g ?n s4 = Some (p', ?n\<lparr>modified := True\<rparr>, s')"
      "bytes_at (obuf p') (h + nat ?hl) (length out) = out" "transport_len p' = ?hl + int (length out)"
      "getOffset CLIENT (flow_at s' fid) = getOffset CLIENT (flow_at s4 fid) + (int (length out) - int (length (payload p1 h')))"
      unfolding p1(4) by fastforce
    show ?thesis
      unfolding d r(1) using r(2-4) masked lout len f4 s3(5) p1(1) by (auto simp: out_def [symmetric])
  qed
qed

text \<open>
  The server's answer, a response whose link has the address 1.2.34.5, to the first client's flow; the parser
  is one that finds the link.
\<close>

definition http_feed :: "nat \<Rightarrow> string \<Rightarrow> state_manager \<Rightarrow> int \<times> state_manager" where
  "http_feed pid c s =
     (if c = demo_response \<and> parser_heap s ! pid = demo_parser
      then (0, s\<lparr>parser_heap := (parser_heap s)[pid := addOperation_range 24 32 REPLACE ''1|2|34|5'' False demo_parser]\<rparr>)
      else (0, s))"

definition http_env :: app_env where
  "http_env = demo_env\<lparr>env_feed := http_feed\<rparr>"

lemma http_env_fields [simp]:
  "env_L http_env = demo_libc" "env_sort http_env = sort_key start_pos" "start_pos (env_junk http_env 0) = -1"
  "env_feed http_env = http_feed"
  by (simp_all add: http_env_def demo_env_def)

lemma http_env_runs: "runs_http (\<lambda>_ _. True) demo_scan http_env"
  unfolding runs_http_def
proof (intro allI impI)
  fix pid c s ts
  assume l: "http_lex (\<lambda>_ _. True) c demo_scan = Some ts"
  obtain us where us: "http_lex (\<lambda>_ _. True) demo_response demo_scan = Some us"
    "http_read us (demo_vars, demo_parser)
      (demo_vars\<lparr>curTag := ''a''\<rparr>, addOperation_range 24 32 REPLACE ''1|2|34|5'' False demo_parser)"
    by (rule demo_response_read)
  show "\<exists>h h' q. http_read ts (h, parser_heap s ! pid) (h', q) \<and>
      env_feed http_env pid c s = (0, s\<lparr>parser_heap := (parser_heap s)[pid := q]\<rparr>)"
  proof (cases "c = demo_response \<and> parser_heap s ! pid = demo_parser")
    case True
    with l us show ?thesis
      by (intro exI [of _ demo_vars] exI [of _ "demo_vars\<lparr>curTag := ''a''\<rparr>"]) (auto simp: http_feed_def)
  next
    case False
    then show ?thesis
      using read_nothing [of ts "(demo_vars, parser_heap s ! pid)"]
      by (intro exI [of _ demo_vars] exI [of _ "parser_heap s ! pid"]) (auto simp: http_feed_def)
  qed
qed

definition demo_page :: packet where
  "demo_page = (received ETHERTYPE_IP (replicate 12 0 @ [10, 0, 0, 2, 10, 20, 30, 40] @ replicate 20 0 @ map byte_of demo_response))
     \<lparr>tcp_hdr := Some 40, tcp_old := Some 20, ipVersionBefore := 4, ip_hdr := InI 0,
      transport_len := 20 + int (length demo_response),
      obuf := (\<lambda>i. if i = 42 then 0x7D else if i = 52 then 80
                    else if 60 \<le> i \<and> i < 60 + length demo_response then byte_of (demo_response ! (i - 60)) else 0)\<rparr>"

definition demo_web :: state_manager where
  "demo_web = upd_flow 0 (setProtocol ''http'') ((snd (doMapping demo_libc (demo_client 1 0) demo_server demo_ready))
     \<lparr>protocols := [(''http'', \<lparr>conf_protocol = ''tcp'', ptype_c2s = PROCESS_NONE, ptype_s2c = STATELESS\<rparr>)]\<rparr>)"

lemma demo_response_length: "length demo_response = 35"
  by (simp add: demo_response_def link_text_def)

lemma demo_page_fields:
  "tcp_hdr demo_page = Some 40" "tcp_old demo_page = Some 20" "udp_hdr demo_page = None" "isTCP demo_page" "\<not> isUDP demo_page"
  "getDEST demo_page = CLIENT" "getTransportHeaderLen demo_page = 20" "transport_len demo_page = 20 + int (length demo_response)"
  "ip_hdr demo_page = InI 0" "ipVersionBefore demo_page = 4"
  by (simp_all add: demo_page_def isTCP_def isUDP_def getDEST_def getTransportHeaderLen_def received_def)

lemma demo_page_payload:
  "has_payload demo_page 40 20" "payload demo_page 20 = map byte_of demo_response"
  "string_at (obuf demo_page) 60 (length demo_response) = demo_response"
proof -
  show "has_payload demo_page 40 20" by (simp add: has_payload_def seg_ptrs_def demo_page_fields demo_response_length)
  have "ibuf demo_page (40 + k) = byte_of (demo_response ! k)" if "k < length demo_response" for k
    using that by (simp add: demo_page_def nth_append)
  then have "bytes_at (ibuf demo_page) 40 (length demo_response) = map byte_of demo_response"
    by (intro nth_equalityI) simp_all
  then show "payload demo_page 20 = map byte_of demo_response" by (simp add: payload_def demo_page_fields)
  have "obuf demo_page (60 + k) = byte_of (demo_response ! k)" if "k < length demo_response" for k
    using that by (simp add: demo_page_def)
  then show "string_at (obuf demo_page) 60 (length demo_response) = demo_response"
    by (intro nth_equalityI) (simp_all add: string_at_def char_of_byte_of)
qed

lemma demo_web_fields:
  "flows demo_web = [setProtocol ''http'' (Flow_new64 demo_libc (demo_client 1 0) (IP4Port (IPv4Addr 0x281E140A) (htons 32000))
     demo_server (getServerAddr4 demo_server))]"
  "map46 demo_web = [((IP4Port (IPv4Addr 0x281E140A) (htons 32000), getServerAddr4 demo_server), 0)]"
  "analysisMode demo_web = False" "extra demo_web = EXTRA_NONE"
  "protocols demo_web = [(''http'', \<lparr>conf_protocol = ''tcp'', ptype_c2s = PROCESS_NONE, ptype_s2c = STATELESS\<rparr>)]"
  by (simp_all add: demo_web_def upd_flow_def doMapping_def demo_ready_def pool_ready_Cons Let_def)

lemma demo_page_getFlow: "getFlow demo_libc demo_page demo_web = Some (Some 0, demo_web)"
proof -
  have "rd32 (ibuf demo_page) 16 = 0x281E140A" "rd32 (ibuf demo_page) 12 = 0x0200000A"
    by (simp_all add: demo_page_def rd32_def rd16_def nth_append)
  moreover have "getDestPort demo_page = htons 32000"
    by (simp add: getDestPort_def rd16_def demo_page_fields) (simp add: demo_page_def ntohs_def)
  moreover have "getServerAddr4 demo_server = IPv4Addr 0x0200000A" by (simp add: getServerAddr4_def demo_server_def)
  ultimately show ?thesis by (simp add: getFlow_def getMapping4_def demo_web_fields demo_page_fields)
qed

theorem http_packet_masked_witness:
  "\<exists>p' n' s'. doApp http_env demo_page demo_nat demo_web = Some (p', n', s') \<and>
     list_all2 masked (map byte_of demo_response) (bytes_at (obuf p') 60 (length demo_response)) \<and>
     transport_len p' = transport_len demo_page"
proof -
  obtain ts where ts: "http_lex (\<lambda>_ _. True) demo_response demo_scan = Some ts" "tight ts"
    by (rule demo_response_read)
  have "getProtocol (flow_at demo_web 0) = ''http''" "\<not> ignored (flow_at demo_web 0)"
    "\<not> init_seq_set (flow_at demo_web 0) CLIENT"
    by (simp_all add: flow_at_def demo_web_fields getProtocol_def setProtocol_def ignored_def Flow_new64_def Flow_default_def)
  moreover have "demo_response \<noteq> []" by (simp add: demo_response_def)
  moreover have "map_find (<) (protocols demo_web) ''http'' = Some \<lparr>conf_protocol = ''tcp'', ptype_c2s = PROCESS_NONE, ptype_s2c = STATELESS\<rparr>"
    by (simp add: demo_web_fields)
  ultimately have "\<exists>p' n' s'. doApp http_env demo_page demo_nat demo_web = Some (p', n', s') \<and>
      list_all2 masked (map byte_of demo_response) (bytes_at (obuf p') (40 + nat (getTransportHeaderLen demo_page)) (length demo_response)) \<and>
      transport_len p' = transport_len demo_page \<and> getOffset CLIENT (flow_at s' 0) = getOffset CLIENT (flow_at demo_web 0)"
    using demo_page_payload demo_page_getFlow
    by (intro http_packet_masked [OF http_env_runs _ _ ts])
      (auto simp: demo_web_fields demo_page_fields demo_response_length std_sort_sort_key)
  then show ?thesis by (auto simp: demo_page_fields)
qed

end
