(* ===== verification/Tun_Liveness.thy ===== *)
theory Tun_Liveness
  imports Tun_Props
begin

text \<open>
  Progress of the dispatcher: in an execution in which no thread is neglected for ever, every packet the main
  thread has taken from the tunnel is translated in the end.  An execution is a sequence of states, each one
  step after the one before or the same; the history fields of the state say what was queued and finished.
\<close>

section \<open>Executions\<close>

definition tun_exec :: "libc \<Rightarrow> (datagram \<Rightarrow> int) \<Rightarrow> (nat \<Rightarrow> tun_state) \<Rightarrow> bool" where
  "tun_exec L sendto run \<longleftrightarrow> (\<forall>i. tun_step L sendto (run i) (run (Suc i)) \<or> run (Suc i) = run i)"

definition worker_step :: "libc \<Rightarrow> (datagram \<Rightarrow> int) \<Rightarrow> nat \<Rightarrow> tun_state \<Rightarrow> tun_state \<Rightarrow> bool" where
  "worker_step L sendto t st st' \<longleftrightarrow> worker_pop t st = Some st' \<or> worker_translate L sendto t st = Some st'"

text \<open>Again and again the worker is idle or does something (so its translations are never undefined).\<close>

definition worker_fair :: "libc \<Rightarrow> (datagram \<Rightarrow> int) \<Rightarrow> nat \<Rightarrow> (nat \<Rightarrow> tun_state) \<Rightarrow> bool" where
  "worker_fair L sendto t run \<longleftrightarrow>
     (\<forall>i. \<exists>j\<ge>i. t_queue (run j) t = [] \<and> t_busy (run j) t = None \<or> worker_step L sendto t (run j) (run (Suc j)))"

text \<open>Again and again the main thread cannot push, or it pushes.\<close>

definition main_fair :: "(nat \<Rightarrow> tun_state) \<Rightarrow> bool" where
  "main_fair run \<longleftrightarrow> (\<forall>i. \<exists>j\<ge>i. tun_push (run j) = None \<or> tun_push (run j) = Some (run (Suc j)))"

section \<open>What a step does to a worker's packets\<close>

text \<open>What is left of the first \<open>n\<close> packets of a worker, counted in steps.\<close>

definition left :: "nat \<Rightarrow> nat \<Rightarrow> tun_state \<Rightarrow> nat" where
  "left t n st = 2 * (n - length (t_finished st t)) - (if t_busy st t = None then 0 else 1)"

lemma finished_step:
  "tun_step L sendto st st' \<Longrightarrow> \<exists>ps. t_finished st' t = t_finished st t @ ps"
  by (erule tun_stepE) (auto simp: tun_receive_def set_sm_def tun_push_def worker_pop_def worker_translate_def bind_eq_Some_conv
      split: if_splits option.splits list.splits)

lemma arrived_step:
  "tun_step L sendto st st' \<Longrightarrow> \<exists>ps. t_arrived st' t = t_arrived st t @ ps"
  by (erule tun_stepE) (auto simp: tun_receive_def set_sm_def tun_push_def worker_pop_def worker_translate_def bind_eq_Some_conv
      split: if_splits option.splits list.splits)

lemma left_step:
  assumes "tun_step L sendto st st'" shows "left t n st' \<le> left t n st"
  using assms
proof (rule tun_stepE)
  fix u assume "worker_pop u st = Some st'"
  then show ?thesis by (auto simp: worker_pop_def left_def split: if_splits list.splits)
next
  fix u assume "worker_translate L sendto u st = Some st'"
  then show ?thesis by (auto simp: worker_translate_def bind_eq_Some_conv left_def split: option.splits)
qed (auto simp: tun_receive_def set_sm_def tun_push_def bind_eq_Some_conv left_def split: if_splits option.splits)

lemma left_worker:
  assumes "worker_step L sendto t st st'" and "queue_ok t st" and "length (t_finished st t) < n" and "n \<le> length (t_arrived st t)"
  shows "left t n st' < left t n st"
  using assms
  by (auto simp: worker_step_def worker_pop_def worker_translate_def bind_eq_Some_conv left_def split: if_splits list.splits option.splits)

lemma queue_ok_exec: "tun_exec L sendto run \<Longrightarrow> queue_ok t (run 0) \<Longrightarrow> queue_ok t (run i)"
proof (induction i)
  case (Suc i)
  then have "tun_step L sendto (run i) (run (Suc i)) \<or> run (Suc i) = run i" by (simp add: tun_exec_def)
  with Suc queue_ok_step show ?case by metis
qed simp

lemma exec_mono:
  assumes "tun_exec L sendto run" and "i \<le> j"
  shows "(\<exists>ps. t_finished (run j) t = t_finished (run i) t @ ps) \<and> (\<exists>ps. t_arrived (run j) t = t_arrived (run i) t @ ps) \<and>
    left t n (run j) \<le> left t n (run i)"
  using assms(2)
proof (induction rule: dec_induct)
  case (step j)
  then have "tun_step L sendto (run j) (run (Suc j)) \<or> run (Suc j) = run j" using assms(1) by (simp add: tun_exec_def)
  with step.IH show ?case
    using finished_step [of L sendto "run j" "run (Suc j)" t] arrived_step [of L sendto "run j" "run (Suc j)" t]
      left_step [of L sendto "run j" "run (Suc j)" t n] by fastforce
qed simp

section \<open>Every queued packet is translated\<close>

lemma drains:
  assumes "tun_exec L sendto run" and "\<And>i. queue_ok t (run i)" and "worker_fair L sendto t run" and "n \<le> length (t_arrived (run i) t)"
  shows "\<exists>j\<ge>i. n \<le> length (t_finished (run j) t)"
  using assms(4)
proof (induction "left t n (run i)" arbitrary: i rule: less_induct)
  case less
  show ?case
  proof (cases "n \<le> length (t_finished (run i) t)")
    case False
    obtain j where j: "i \<le> j"
      "t_queue (run j) t = [] \<and> t_busy (run j) t = None \<or> worker_step L sendto t (run j) (run (Suc j))"
      using assms(3) unfolding worker_fair_def by blast
    have arr: "n \<le> length (t_arrived (run j) t)" using exec_mono [OF assms(1) j(1), of t n] less.prems by auto
    show ?thesis
    proof (cases "n \<le> length (t_finished (run j) t)")
      case True
      with j(1) show ?thesis by blast
    next
      case False
      then have "\<not> (t_queue (run j) t = [] \<and> t_busy (run j) t = None)"
        using arr assms(2) [of j] by (intro notI) (simp add: queue_ok_def)
      with j(2) left_worker [OF _ assms(2) _ arr] False have "left t n (run (Suc j)) < left t n (run j)" by simp
      with exec_mono [OF assms(1) j(1), of t n] have "left t n (run (Suc j)) < left t n (run i)" by simp
      moreover have "n \<le> length (t_arrived (run (Suc j)) t)"
        using exec_mono [OF assms(1), of j "Suc j" t n] arr by auto
      ultimately obtain k where "Suc j \<le> k" "n \<le> length (t_finished (run k) t)" using less.hyps by blast
      with j(1) show ?thesis by (meson Suc_leD order_trans)
    qed
  qed blast
qed

text \<open>What is finished by then are those packets, in their order.\<close>

lemma drains_prefix:
  assumes "tun_exec L sendto run" and "\<And>i. queue_ok t (run i)" and "worker_fair L sendto t run"
  shows "\<exists>j\<ge>i. \<exists>ps. t_finished (run j) t = t_arrived (run i) t @ ps"
proof -
  obtain j where j: "i \<le> j" "length (t_arrived (run i) t) \<le> length (t_finished (run j) t)"
    using drains [OF assms order_refl] by blast
  obtain ps where "t_arrived (run j) t = t_arrived (run i) t @ ps"
    using exec_mono [OF assms(1) j(1)] by blast
  moreover have "t_arrived (run j) t = t_finished (run j) t @ in_hand (t_busy (run j) t) @ t_queue (run j) t"
    using assms(2) [of j] by (simp add: queue_ok_def)
  ultimately have "take (length (t_arrived (run i) t)) (t_arrived (run i) t @ ps) =
      take (length (t_arrived (run i) t)) (t_finished (run j) t @ in_hand (t_busy (run j) t) @ t_queue (run j) t)" by simp
  then have "t_arrived (run i) t = take (length (t_arrived (run i) t)) (t_finished (run j) t)" using j(2) by simp
  with j(1) show ?thesis by (metis append_take_drop_id)
qed

section \<open>The main thread gets rid of its packet\<close>

text \<open>While a packet is pending and not pushed, only workers move.\<close>

lemma pending_step:
  assumes "tun_step L sendto st st'" and "t_pending st = Some (t, p)" and "tun_push st \<noteq> Some st'"
  shows "t_pending st' = Some (t, p) \<and> t_arrived st' = t_arrived st \<and> length (t_queue st' t) \<le> length (t_queue st t)"
  using assms(1)
proof (rule tun_stepE)
  fix raw buf len assume "tun_receive L raw buf len st = Some st'"
  with assms(2) show ?thesis by (simp add: tun_receive_def)
next
  assume "tun_push st = Some st'"
  with assms(3) show ?thesis by blast
next
  fix u assume "worker_pop u st = Some st'"
  with assms(2) show ?thesis by (auto simp: worker_pop_def split: if_splits list.splits)
next
  fix u assume "worker_translate L sendto u st = Some st'"
  with assms(2) show ?thesis by (auto simp: worker_translate_def bind_eq_Some_conv split: option.splits)
qed

lemma pending_stays:
  assumes "tun_exec L sendto run" and "t_pending (run i) = Some (t, p)" and "\<forall>j\<ge>i. tun_push (run j) \<noteq> Some (run (Suc j))" and "i \<le> j"
  shows "t_pending (run j) = Some (t, p) \<and> t_arrived (run j) = t_arrived (run i)"
  using assms(4)
proof (induction rule: dec_induct)
  case (step j)
  have "tun_step L sendto (run j) (run (Suc j)) \<or> run (Suc j) = run j" using assms(1) by (simp add: tun_exec_def)
  with step assms(3) pending_step [of L sendto "run j" "run (Suc j)" t p] show ?case by (metis less_imp_le)
qed (use assms(2) in simp)

lemma pushed:
  assumes "tun_exec L sendto run" and "\<And>i. queue_ok t (run i)" and "worker_fair L sendto t run" and "main_fair run"
    and "t_pending (run i) = Some (t, p)"
  shows "\<exists>j\<ge>i. t_arrived (run (Suc j)) t = t_arrived (run i) t @ [p]"
proof -
  have "\<exists>j\<ge>i. tun_push (run j) = Some (run (Suc j))"
  proof (rule ccontr)
    assume "\<not> (\<exists>j\<ge>i. tun_push (run j) = Some (run (Suc j)))"
    then have no: "\<forall>j\<ge>i. tun_push (run j) \<noteq> Some (run (Suc j))" by blast
    note stays = pending_stays [OF assms(1,5) no]
    obtain k ps where k: "i \<le> k" "t_finished (run k) t = t_arrived (run i) t @ ps"
      using drains_prefix [OF assms(1-3)] by blast
    have free: "t_queue (run j) t = []" if kj: "k \<le> j" for j
    proof -
      have "t_arrived (run j) = t_arrived (run i)" using stays [of j] k(1) kj by simp
      moreover obtain qs where "t_finished (run j) t = t_finished (run k) t @ qs" using exec_mono [OF assms(1) kj] by blast
      ultimately show ?thesis using k(2) assms(2) [of j] by (simp add: queue_ok_def)
    qed
    obtain j where j: "k \<le> j" "tun_push (run j) = None \<or> tun_push (run j) = Some (run (Suc j))"
      using assms(4) unfolding main_fair_def by blast
    with no k(1) have "tun_push (run j) = None" by (meson order_trans)
    moreover have "t_pending (run j) = Some (t, p)" using stays [of j] k(1) j(1) by simp
    ultimately show False using free [OF j(1)] by (simp add: tun_push_def)
  qed
  then obtain j where j: "i \<le> j" "tun_push (run j) = Some (run (Suc j))"
    and least: "\<forall>j'<j. i \<le> j' \<longrightarrow> tun_push (run j') \<noteq> Some (run (Suc j'))"
    using exists_least_iff [of "\<lambda>j. i \<le> j \<and> tun_push (run j) = Some (run (Suc j))"] by blast
  have "t_pending (run k) = Some (t, p) \<and> t_arrived (run k) = t_arrived (run i)" if "i \<le> k" "k \<le> j" for k
    using that
  proof (induction rule: dec_induct)
    case (step k)
    have "tun_step L sendto (run k) (run (Suc k)) \<or> run (Suc k) = run k" using assms(1) by (simp add: tun_exec_def)
    with step least pending_step [of L sendto "run k" "run (Suc k)" t p] show ?case by (metis Suc_le_eq less_imp_le)
  qed (use assms(5) in simp)
  from this [OF j(1) order_refl] j(2) have "t_arrived (run (Suc j)) t = t_arrived (run i) t @ [p]"
    by (auto simp: tun_push_def split: if_splits dest!: sym [of _ "run (Suc j)"])
  with j(1) show ?thesis by blast
qed

text \<open>
  C10: Every packet is translated in the end.  In an execution in which the worker of the packet's flow and
  the main thread are not neglected for ever, a packet the main thread has taken from the tunnel is, at some
  later time, finished by the worker chosen for it, after all the packets queued for that worker before it;
  a full queue delays it but is no deadlock.
\<close>

theorem tun_every_packet_translated:
  assumes "tun_exec L sendto run" and "run 0 = tun_start w ns" and "worker_fair L sendto t run" and "main_fair run"
    and "t_pending (run i) = Some (t, p)"
  shows "\<exists>j\<ge>i. \<exists>ps. t_finished (run j) t = t_arrived (run i) t @ p # ps"
proof -
  have ok: "queue_ok t (run j)" for j
    by (rule queue_ok_exec [OF assms(1)]) (simp add: assms(2) queue_ok_def tun_start_def)
  obtain j where j: "i \<le> j" "t_arrived (run (Suc j)) t = t_arrived (run i) t @ [p]"
    using pushed [OF assms(1) ok assms(3,4,5)] by blast
  obtain k ps where "Suc j \<le> k" "t_finished (run k) t = t_arrived (run (Suc j)) t @ ps"
    using drains_prefix [OF assms(1) ok assms(3)] by blast
  with j show ?thesis by (intro exI [of _ k]) auto
qed


text \<open>The concrete client's packet: received, pushed, popped and translated, then nothing more happens.\<close>

definition five :: "tun_state \<Rightarrow> tun_state \<Rightarrow> tun_state \<Rightarrow> tun_state \<Rightarrow> tun_state \<Rightarrow> nat \<Rightarrow> tun_state" where
  "five s0 s1 s2 s3 s4 i = (if i = 0 then s0 else if i = 1 then s1 else if i = 2 then s2 else if i = 3 then s3 else s4)"

lemma five_exec:
  assumes "tun_step L sendto s0 s1" and "tun_step L sendto s1 s2" and "tun_step L sendto s2 s3" and "tun_step L sendto s3 s4"
  shows "tun_exec L sendto (five s0 s1 s2 s3 s4)"
  using assms by (auto simp: tun_exec_def five_def)

theorem tun_every_packet_translated_witness:
  "\<exists>run t. tun_exec demo_libc demo_sendto run \<and> run 0 = tun_start demo_world (\<lambda>_. demo_nat) \<and>
     t_pending (run 1) = Some (t, demo_out4) \<and> (\<exists>j\<ge>1. \<exists>ps. t_finished (run j) t = t_arrived (run 1) t @ demo_out4 # ps)"
proof -
  let ?s0 = "tun_start demo_world (\<lambda>_. demo_nat)"
  let ?t = "unat (port_t demo_out4) mod THREADS"
  have t: "?t < THREADS" by (simp add: THREADS_def)
  have "tun_thread demo_libc demo_out4 demo_ready = Some (?t, demo_ready)"
    by (simp add: tun_thread_def demo_out4_flow getMapping6_def demo_ready_def)
  then obtain s1 where r: "tun_receive demo_libc (received 0 []) (ibuf (received ETHERTYPE_IPV6 udp6_bytes)) 48 ?s0 = Some s1"
    and s1: "s1 = (set_sm demo_ready ?s0)\<lparr>t_pending := Some (?t, demo_out4)\<rparr>"
    by (simp add: tun_receive_def demo_tun_packet tun_start_def)
  obtain s2 where p: "tun_push s1 = Some s2" and s2: "t_queue s2 ?t = [demo_out4]" "t_pending s2 = None" "t_busy s2 ?t = None"
    "t_world s2 = demo_world"
    by (simp add: s1 tun_push_def tun_start_def set_sm_def demo_world_def)
  obtain s3 where w: "worker_pop ?t s2 = Some s3" and s3: "t_queue s3 ?t = []" "t_pending s3 = None" "t_busy s3 ?t = Some demo_out4"
    "t_world s3 = demo_world"
    using s2 t by (simp add: worker_pop_def)
  have m: "doMapping demo_libc (client_of demo_out4) (server_of demo_out4) (w_sm demo_world) = (Some 0, demo_mapped)"
    unfolding demo_world_fields by (rule demo_mapping)
  have "translate demo_libc demo_sendto demo_out4 n demo_world \<noteq> None" for n
    by (rule translate4_core [where sendto = demo_sendto and n = n and w = demo_world, OF _ _ _ _ _ _ _ m])
      (use demo_to_server demo_inv in \<open>auto simp: to_server_def\<close>)
  then obtain r q n w where "translate demo_libc demo_sendto demo_out4 (t_nat s3 ?t) demo_world = Some (r, q, n, w)"
    by (metis not_None_eq prod_cases4)
  then obtain s4 where x: "worker_translate demo_libc demo_sendto ?t s3 = Some s4"
    and s4: "t_queue s4 ?t = []" "t_pending s4 = None" "t_busy s4 ?t = None"
    using s3 by (simp add: worker_translate_def)
  let ?run = "five ?s0 s1 s2 s3 s4"
  have e: "tun_exec demo_libc demo_sendto ?run"
    by (rule five_exec) (rule tun_step.receive [OF r] tun_step.push [OF p] tun_step.pop [OF w] tun_step.translate [OF x])+
  have late: "?run (i + 4) = s4" for i by (simp add: five_def)
  have wf: "worker_fair demo_libc demo_sendto ?t ?run" unfolding worker_fair_def
  proof
    fix i show "\<exists>j\<ge>i. t_queue (?run j) ?t = [] \<and> t_busy (?run j) ?t = None \<or> worker_step demo_libc demo_sendto ?t (?run j) (?run (Suc j))"
      by (rule exI [of _ "i + 4"]) (simp add: late s4)
  qed
  have mf: "main_fair ?run" unfolding main_fair_def
  proof
    fix i show "\<exists>j\<ge>i. tun_push (?run j) = None \<or> tun_push (?run j) = Some (?run (Suc j))"
      by (rule exI [of _ "i + 4"]) (simp add: late s4 tun_push_def)
  qed
  have r0: "?run 0 = ?s0" and p1: "t_pending (?run 1) = Some (?t, demo_out4)" by (simp_all add: five_def s1)
  from tun_every_packet_translated [OF e r0 wf mf p1] e r0 p1 show ?thesis by blast
qed

end
