(* ===== verification/App_Types.thy ===== *)
theory App_Types
  imports App_Props
begin

text \<open>
  The typing of the parser objects: what a flow's table of parsers says of a parser (its protocol, and that
  it keeps its state between packets) is true of the object it points to, and no two entries share one.
  \<open>Flow::getParser\<close> makes parsers, \<open>doApp\<close> runs and changes them; all of it respects the typing.
\<close>

section \<open>Entries and kinds\<close>

definition parsers_of :: "DEST \<Rightarrow> flow \<Rightarrow> (string, nat option) std_map" where
  "parsers_of d f = (if d = CLIENT then parsers_s2c f else parsers_c2s f)"

definition set_parsers :: "DEST \<Rightarrow> (string, nat option) std_map \<Rightarrow> flow \<Rightarrow> flow" where
  "set_parsers d m f = (if d = CLIENT then f\<lparr>parsers_s2c := m\<rparr> else f\<lparr>parsers_c2s := m\<rparr>)"

text \<open>An entry is a flow, a direction and a protocol name; it holds a parser or nothing.\<close>

definition slot :: "state_manager \<Rightarrow> nat \<times> DEST \<times> string \<Rightarrow> nat option" where
  "slot s k =
     (case k of (fid, d, proto) \<Rightarrow>
        if fid < length (flows s) then Option.bind (map_find (<) (parsers_of d (flow_at s fid)) proto) id
        else None)"

definition well_kinded :: "parser list \<Rightarrow> nat \<times> DEST \<times> string \<Rightarrow> nat \<Rightarrow> bool" where
  "well_kinded h k pid \<longleftrightarrow>
     pid < length h \<and> p_protocol (h ! pid) = snd (snd k) \<and> p_comm (h ! pid) = StatefulCommunicator"

definition parsers_typed :: "state_manager \<Rightarrow> bool" where
  "parsers_typed s \<longleftrightarrow>
     (\<forall>k pid. slot s k = Some pid \<longrightarrow> well_kinded (parser_heap s) k pid) \<and>
     (\<forall>k k' pid. slot s k = Some pid \<longrightarrow> slot s k' = Some pid \<longrightarrow> k = k')"

text \<open>A parser object never changes its protocol or its communicator, and none goes away.\<close>

definition same_kinds :: "parser list \<Rightarrow> parser list \<Rightarrow> bool" where
  "same_kinds h h' \<longleftrightarrow>
     length h \<le> length h' \<and>
     (\<forall>i<length h. p_protocol (h' ! i) = p_protocol (h ! i) \<and> p_comm (h' ! i) = p_comm (h ! i))"

definition keeps_typing :: "state_manager \<Rightarrow> state_manager \<Rightarrow> bool" where
  "keeps_typing s s' \<longleftrightarrow>
     same_kinds (parser_heap s) (parser_heap s') \<and> (parsers_typed s \<longrightarrow> parsers_typed s')"

text \<open>
  What is relied on of the generated parsers: their actions may change parser objects and create flows, but no
  parser's kind and no entry.
\<close>

definition env_types :: "app_env \<Rightarrow> bool" where
  "env_types e \<longleftrightarrow>
     (\<forall>pid c s. same_kinds (parser_heap s) (parser_heap (snd (env_feed e pid c s))) \<and>
        slot (snd (env_feed e pid c s)) = slot s)"

section \<open>Steps that respect the typing\<close>

lemma same_kinds_refl [simp]: "same_kinds h h"
  by (simp add: same_kinds_def)

lemma same_kinds_trans: "same_kinds h h' \<Longrightarrow> same_kinds h' h'' \<Longrightarrow> same_kinds h h''"
  by (simp add: same_kinds_def)

lemma same_kinds_append [simp]: "same_kinds h (h @ ps)"
  by (simp add: same_kinds_def nth_append)

lemma same_kinds_update:
  "p_protocol p = p_protocol (h ! i) \<Longrightarrow> p_comm p = p_comm (h ! i) \<Longrightarrow> same_kinds h (h[i := p])"
  by (auto simp: same_kinds_def) (metis nth_list_update_eq nth_list_update_neq)+

lemma well_kinded_mono: "well_kinded h k pid \<Longrightarrow> same_kinds h h' \<Longrightarrow> well_kinded h' k pid"
  by (auto simp: well_kinded_def same_kinds_def)

lemma keeps_typing_trans: "keeps_typing s s' \<Longrightarrow> keeps_typing s' s'' \<Longrightarrow> keeps_typing s s''"
  by (auto simp: keeps_typing_def intro: same_kinds_trans)

lemma keeps_typing_slots:
  "same_kinds (parser_heap s) (parser_heap s') \<Longrightarrow> slot s' = slot s \<Longrightarrow> keeps_typing s s'"
  unfolding keeps_typing_def parsers_typed_def by (metis well_kinded_mono)

lemma keeps_typing_removes:
  "parser_heap s' = parser_heap s \<Longrightarrow> slot s' = (slot s)(k := None) \<Longrightarrow> keeps_typing s s'"
  unfolding keeps_typing_def parsers_typed_def by (auto split: if_splits)

lemma keeps_typing_adds:
  assumes "parser_heap s' = parser_heap s @ [p]" and "slot s' = (slot s)(k := Some (length (parser_heap s)))"
    and "p_protocol p = snd (snd k)" and "p_comm p = StatefulCommunicator"
  shows "keeps_typing s s'"
proof -
  have new: "well_kinded (parser_heap s') k (length (parser_heap s))"
    using assms by (simp add: well_kinded_def)
  have old: "well_kinded (parser_heap s) k' pid \<Longrightarrow> well_kinded (parser_heap s') k' pid \<and> pid \<noteq> length (parser_heap s)" for k' pid
    using well_kinded_mono [OF _ same_kinds_append] by (auto simp: assms(1) well_kinded_def)
  have "parsers_typed s'" if "parsers_typed s"
    using that new old unfolding parsers_typed_def assms(2) fun_upd_apply by (metis option.inject)
  then show ?thesis by (simp add: keeps_typing_def assms(1))
qed

section \<open>How entries change\<close>

lemma slot_flows: "flows s' = flows s \<Longrightarrow> slot s' = slot s"
  by (simp add: slot_def fun_eq_iff flow_at_def)

lemma heap_upd_flow [simp]: "parser_heap (upd_flow i g s) = parser_heap s"
  by (simp add: upd_flow_def)

lemma slot_heap [simp]: "slot (s\<lparr>parser_heap := h\<rparr>) = slot s" "slot (s\<lparr>protocols := ps\<rparr>) = slot s"
  by (simp_all add: slot_def fun_eq_iff flow_at_def)

lemma flow_at_heap [simp]: "flow_at (s\<lparr>parser_heap := h\<rparr>) i = flow_at s i"
  by (simp add: flow_at_def)

lemma keeps_typing_flows:
  "flows s' = flows s \<Longrightarrow> same_kinds (parser_heap s) (parser_heap s') \<Longrightarrow> keeps_typing s s'"
  by (rule keeps_typing_slots) (simp_all add: slot_flows [of s' s])

lemma slot_upd_flow:
  "(\<And>d. parsers_of d (g (flow_at s fid)) = parsers_of d (flow_at s fid)) \<Longrightarrow> slot (upd_flow fid g s) = slot s"
  by (rule ext, cases "fid < length (flows s)")
    (auto simp: slot_def upd_flow_def flow_at_def nth_list_update)

lemma slot_new_flow:
  "parsers_of CLIENT f = [] \<Longrightarrow> parsers_of SERVER f = [] \<Longrightarrow> flows s' = flows s @ [f] \<Longrightarrow> slot s' = slot s"
proof (rule ext)
  fix k :: "nat \<times> DEST \<times> string"
  assume f: "parsers_of CLIENT f = []" "parsers_of SERVER f = []" and s': "flows s' = flows s @ [f]"
  obtain i d pr where k: "k = (i, d, pr)" by (cases k)
  have "parsers_of d f = []" using f by (cases d) simp_all
  then show "slot s' k = slot s k"
    by (auto simp: k slot_def flow_at_def s' nth_append less_Suc_eq)
qed

lemma slot_put:
  assumes "fid < length (flows s)"
  shows "slot (upd_flow fid (set_parsers d (map_put (<) proto v (parsers_of d (flow_at s fid)))) s) =
    (slot s)((fid, d, proto) := v)"
proof
  fix k :: "nat \<times> DEST \<times> string"
  obtain i d' pr where k: "k = (i, d', pr)" by (cases k)
  have eq: "key_equiv (<) a b \<longleftrightarrow> a = b" for a b :: string
    by (auto simp: key_equiv_def)
  show "slot (upd_flow fid (set_parsers d (map_put (<) proto v (parsers_of d (flow_at s fid)))) s) k =
      ((slot s)((fid, d, proto) := v)) k"
    using assms by (cases d; cases d') (auto simp: k slot_def upd_flow_def flow_at_def nth_list_update
      set_parsers_def parsers_of_def lin.find_put eq)
qed

lemma slot_upd_outside: "\<not> fid < length (flows s) \<Longrightarrow> slot (upd_flow fid g s) = slot s"
  by (rule slot_flows) (simp add: upd_flow_def list_update_beyond)

section \<open>Making a parser\<close>

lemma make_parser_kind:
  "make_parser u proto c = Some p \<Longrightarrow> p_protocol p = proto \<and> p_comm p = c"
  by (auto simp: make_parser_def new_parser_def split: if_splits)

lemma stateful_parser_cases:
  assumes "stateful_parser u proto m0 h0 = (r, m, h)"
  obtains (old) "m = m0" "h = h0"
    | (none) "m = map_put (<) proto None m0" "h = h0"
    | (new) p where "make_parser u proto StatefulCommunicator = Some p"
        "m = map_put (<) proto (Some (length h0)) m0" "h = h0 @ [p]"
proof -
  define usable where "usable \<longleftrightarrow> (case map_find (<) m0 proto of Some (Some p) \<Rightarrow> \<not> parser_end (h0 ! p) | _ \<Rightarrow> False)"
  have st: "(if usable then (Option.bind (map_find (<) m0 proto) id, m0, h0)
      else case make_parser u proto StatefulCommunicator of
             None \<Rightarrow> (None, map_put (<) proto None m0, h0)
           | Some p \<Rightarrow> (Some (length h0), map_put (<) proto (Some (length h0)) m0, h0 @ [p])) = (r, m, h)"
    using assms by (simp only: stateful_parser_def Let_def usable_def)
  show thesis
  proof (cases usable)
    case True
    then have "m = m0" "h = h0" using st by simp_all
    then show thesis by (rule old)
  next
    case False
    note st' = st [unfolded if_not_P [OF False]]
    show thesis
    proof (cases "make_parser u proto StatefulCommunicator")
      case None
      with st' have "m = map_put (<) proto None m0" "h = h0" by simp_all
      then show thesis by (rule none)
    next
      case (Some p)
      with st' have "m = map_put (<) proto (Some (length h0)) m0" "h = h0 @ [p]" by auto
      with Some show thesis by (rule new)
    qed
  qed
qed

lemma typing_stateful:
  assumes "stateful_parser u proto (parsers_of d (flow_at s fid)) (parser_heap s) = (r, m, h)"
  shows "keeps_typing s (upd_flow fid (set_parsers d m) (s\<lparr>parser_heap := h\<rparr>))"
proof -
  let ?m = "parsers_of d (flow_at s fid)"
  from assms show ?thesis
  proof (cases rule: stateful_parser_cases)
    case old
    have "slot (upd_flow fid (set_parsers d m) (s\<lparr>parser_heap := h\<rparr>)) = slot s"
      using slot_upd_flow [of "set_parsers d m" "s\<lparr>parser_heap := h\<rparr>" fid]
      by (simp add: old parsers_of_def set_parsers_def)
    then show ?thesis by (rule keeps_typing_slots [rotated]) (simp add: old)
  next
    case none
    show ?thesis
    proof (cases "fid < length (flows s)")
      case True
      with slot_put [of fid "s\<lparr>parser_heap := h\<rparr>" d proto None] none
      have "slot (upd_flow fid (set_parsers d m) (s\<lparr>parser_heap := h\<rparr>)) = (slot s)((fid, d, proto) := None)"
        by simp
      then show ?thesis by (rule keeps_typing_removes [rotated]) (simp add: none)
    next
      case False
      then have "slot (upd_flow fid (set_parsers d m) (s\<lparr>parser_heap := h\<rparr>)) = slot s"
        using slot_upd_outside [of fid "s\<lparr>parser_heap := h\<rparr>"] by simp
      then show ?thesis by (rule keeps_typing_slots [rotated]) (simp add: none)
    qed
  next
    case (new p)
    show ?thesis
    proof (cases "fid < length (flows s)")
      case True
      with slot_put [of fid "s\<lparr>parser_heap := h\<rparr>" d proto "Some (length (parser_heap s))"] new
      have "slot (upd_flow fid (set_parsers d m) (s\<lparr>parser_heap := h\<rparr>)) =
          (slot s)((fid, d, proto) := Some (length (parser_heap s)))"
        by simp
      with new(3) make_parser_kind [OF new(1)] show ?thesis
        by (intro keeps_typing_adds [where p = p and k = "(fid, d, proto)"]) simp_all
    next
      case False
      then have "slot (upd_flow fid (set_parsers d m) (s\<lparr>parser_heap := h\<rparr>)) = slot s"
        using slot_upd_outside [of fid "s\<lparr>parser_heap := h\<rparr>"] by simp
      then show ?thesis by (rule keeps_typing_slots [rotated]) (simp add: new)
    qed
  qed
qed

lemma getParser_stateful:
  assumes "map_index (<) Protocol_default proto (protocols s) = (conf, ps)"
    and "(if dest = CLIENT then ptype_s2c conf else ptype_c2s conf) = STATEFUL"
    and "stateful_parser u proto (parsers_of dest (flow_at s fid)) (parser_heap s) = (r, m, h)"
  shows "getParser u proto dest fid s =
    (r, upd_flow fid (set_parsers dest m) (s\<lparr>protocols := ps, parser_heap := h\<rparr>))"
  using assms by (cases dest) (auto simp: getParser_def set_parsers_def parsers_of_def flow_at_def upd_flow_def)

lemma typing_getParser: "keeps_typing s (snd (getParser u proto dest fid s))"
proof -
  obtain conf ps where i: "map_index (<) Protocol_default proto (protocols s) = (conf, ps)" by fastforce
  let ?s1 = "s\<lparr>protocols := ps\<rparr>" and ?t = "if dest = CLIENT then ptype_s2c conf else ptype_c2s conf"
  have s1: "keeps_typing s ?s1" by (rule keeps_typing_flows) simp_all
  show ?thesis
  proof (cases ?t)
    case STATEFUL
    obtain r m h where st: "stateful_parser u proto (parsers_of dest (flow_at s fid)) (parser_heap s) = (r, m, h)"
      by (metis prod_cases3)
    then have "stateful_parser u proto (parsers_of dest (flow_at ?s1 fid)) (parser_heap ?s1) = (r, m, h)"
      by (simp add: flow_at_def)
    from keeps_typing_trans [OF s1 typing_stateful [OF this]] show ?thesis
      unfolding getParser_stateful [OF i STATEFUL st] by simp
  next
    case STATELESS
    with i show ?thesis
      by (auto simp: getParser_def stateless_parser_def split_beta Let_def
          intro!: keeps_typing_flows split: option.splits)
  next
    case PROCESS_NONE
    with i s1 show ?thesis by (auto simp: getParser_def)
  qed
qed

lemma process_kind [simp]:
  "p_protocol (snd (process (\<lambda>_ q. (r, q)) c p)) = p_protocol p"
  "p_comm (snd (process (\<lambda>_ q. (r, q)) c p)) = p_comm p"
  by (simp_all add: process_def)

interpretation typing: app_relation keeps_typing env_types
proof unfold_locales
  fix s s' s'' e pid c r u proto d fid l
  show "keeps_typing s s' \<Longrightarrow> keeps_typing s' s'' \<Longrightarrow> keeps_typing s s''" by (rule keeps_typing_trans)
  show "env_types e \<Longrightarrow> keeps_typing s (snd (env_feed e pid c s))"
    by (simp add: env_types_def keeps_typing_slots)
  show "keeps_typing s (snd (getParser u proto d fid s))" by (rule typing_getParser)
  show "keeps_typing s (upd_flow fid (setProtocol proto) s)"
    by (rule keeps_typing_slots)
      (simp_all add: slot_upd_flow setProtocol_def parsers_of_def)
  show "keeps_typing s (s\<lparr>parser_heap := (parser_heap s)[pid := snd (process (\<lambda>_ q. (r, q)) c (parser_heap s ! pid))]\<rparr>)"
    by (rule keeps_typing_flows) (simp_all add: same_kinds_update)
qed (simp_all add: keeps_typing_flows count1_def count2_def gettimeofday_def split_beta Let_def)

section \<open>doApp\<close>

lemma typing_getFlow: "getFlow L p s = Some (fo, s') \<Longrightarrow> keeps_typing s s'"
proof -
  have d: "keeps_typing s (snd (doMapping44 L a b s))" for a b
  proof -
    have "parsers_of d (Flow_new44 L x y) = []" for d x y
      by (simp add: parsers_of_def Flow_new44_def Flow_default_def)
    then have "keeps_typing s (s\<lparr>flow_cnt := n, flows := flows s @ [Flow_new44 L x y], map44 := m\<rparr>)" for n x y m
      by (intro keeps_typing_slots slot_new_flow) simp_all
    then show ?thesis
      by (simp add: doMapping44_def Let_def keeps_typing_flows split: option.splits)
  qed
  assume "getFlow L p s = Some (fo, s')"
  then have "s' = s \<or> (\<exists>a b. s' = snd (doMapping44 L a b s))"
    by (auto simp: getFlow_def bind_eq_Some_conv split: if_splits) (metis snd_conv)+
  with d show ?thesis by (auto simp: keeps_typing_flows)
qed

lemma shift_parsers: "shift x p d l f = Some (m, f') \<Longrightarrow> parsers_of c f' = parsers_of c f"
  by (auto simp: shift_def split_beta Let_def parsers_of_def split: if_splits)

lemma typing_const:
  assumes "\<And>d. parsers_of d f = parsers_of d (flow_at s i)" shows "keeps_typing s (upd_flow i (\<lambda>_. f) s)"
  by (rule keeps_typing_slots) (simp_all add: slot_upd_flow assms)

lemma typing_shift:
  assumes "app_shift p len fid s = Some (q, s')" shows "keeps_typing s s'"
proof -
  have "keeps_typing s (upd_flow fid (\<lambda>_. f) s)"
    if "shift (extra s) p d l (flow_at s fid) = Some (m, f)" for d l m f
    by (rule typing_const) (rule shift_parsers [OF that])
  with assms show ?thesis
    by (auto simp: app_shift_def bind_eq_Some_conv keeps_typing_flows split: option.splits if_splits)
qed

lemma typing_count: "keeps_typing s (app_count p dest fid s)"
  by (auto simp: app_count_def flow_count_def Let_def parsers_of_def slot_upd_flow keeps_typing_flows
      split: option.splits intro!: keeps_typing_slots)

lemma parsers_of_simps [simp]:
  "parsers_of d (snd (getPktOffset b e q f)) = parsers_of d f"
  "parsers_of d (snd (keep_trail x p i l lo m f)) = parsers_of d f"
  "parsers_of d (addOffset e k f) = parsers_of d f"
  by (simp_all add: parsers_of_def getPktOffset_def keep_trail_def addOffset_def Let_def)

lemma modify_types:
  assumes "modify srt junk gcle x p os ps f = Some (delta, p', ps', f')"
  shows "p_protocol ps' = p_protocol ps" and "p_comm ps' = p_comm ps" and "parsers_of d f' = parsers_of d f"
  using assms by (auto simp: modify_def split_beta Let_def bind_eq_Some_conv split: if_splits option.splits)

lemma typing_modify:
  assumes "app_modify e p dest fid g n s = Some (p', n', s')" shows "keeps_typing s s'"
proof -
  have c1: "keeps_typing s (count1 l s)" and c2: "keeps_typing s (snd (count2 l s))" for l s
    by (rule typing.R_count1 typing.R_count2)+
  have m: "keeps_typing s (upd_flow fid (\<lambda>_. addOffset dest delta f) (s\<lparr>parser_heap := (parser_heap s)[pid := ps]\<rparr>))"
    if "modify (env_sort e) (env_junk e) (env_gcle e) (extra s) p (g_ops g) (parser_heap s ! pid) (flow_at s fid) =
      Some (delta, p1, ps, f)" for s pid delta p1 ps f
  proof (rule keeps_typing_trans)
    show "keeps_typing s (s\<lparr>parser_heap := (parser_heap s)[pid := ps]\<rparr>)"
      by (rule keeps_typing_flows) (simp_all add: same_kinds_update modify_types [OF that])
    show "keeps_typing (s\<lparr>parser_heap := (parser_heap s)[pid := ps]\<rparr>)
        (upd_flow fid (\<lambda>_. addOffset dest delta f) (s\<lparr>parser_heap := (parser_heap s)[pid := ps]\<rparr>))"
      by (rule typing_const) (simp add: modify_types(3) [OF that])
  qed
  show ?thesis
  proof (cases "g_ops g = []")
    case True
    with assms keeps_typing_trans [OF c1 c2] show ?thesis by (auto simp: app_modify_def Let_def)
  next
    case False
    with assms keeps_typing_trans [OF c1 keeps_typing_trans [OF m c2]] show ?thesis
      by (auto simp: app_modify_def Let_def bind_eq_Some_conv)
  qed
qed

interpretation typing: doApp_relation keeps_typing env_types
  by unfold_locales (rule typing_getFlow typing_shift typing_count typing_modify, assumption?)+

text \<open>
  C11: \<open>doApp\<close> respects the types of the parser objects: when every entry of a flow's parser tables holds a
  stateful parser of the entry's protocol, shared with no other entry, then so it is afterwards, whether the
  packet creates a flow, makes or replaces a parser, runs every configured one or is rewritten, and no parser
  ever made changes its protocol.
\<close>

theorem doApp_keeps_parser_types:
  assumes "doApp e p n s = Some (p', n', s')" and "env_types e" and "parsers_typed s"
  shows "parsers_typed s' \<and> same_kinds (parser_heap s) (parser_heap s')"
  using typing.R_doApp [OF assms(1,2)] assms(3) by (simp add: keeps_typing_def)

text \<open>A configuration in which SIP parsers keep their state: the packet makes the flow's first parser.\<close>

definition demo_stateful :: state_manager where
  "demo_stateful = demo_sip
     \<lparr>protocols := [(''sip'', \<lparr>conf_protocol = ''udp'', ptype_c2s = STATEFUL, ptype_s2c = STATEFUL\<rparr>)]\<rparr>"

lemma demo_stateful_fields:
  "flows demo_stateful = flows demo_sip" "parser_heap demo_stateful = []"
  "analysisMode demo_stateful = False" "extra demo_stateful = EXTRA_NONE"
  "flow_at demo_stateful 0 = flow_at demo_sip 0"
  by (simp_all add: demo_stateful_def demo_sip_fields flow_at_def)

lemma demo_flows: "flows demo_sip = [flow_at demo_sip 0]"
proof -
  note d = demo_ready_def sm_ready_def addIPv4Pool_def setIPv6Prefix_def sm_start_def
  show ?thesis
  proof (cases rule: doMapping_cases [of demo_ready "demo_client 1 0" demo_server demo_libc])
    case (known fid)
    then show ?thesis by (simp add: d)
  next
    case (fresh e rest)
    then show ?thesis by (simp add: demo_sip_def flow_at_def) (simp add: d)
  next
    case full
    with demo_mapping [of "demo_client 1 0" demo_server] show ?thesis by simp
  qed
qed

lemma demo_no_parsers: "parsers_of d (flow_at demo_sip 0) = []"
  by (simp add: demo_sip_fields parsers_of_def Flow_new64_def Flow_default_def)

lemma demo_typed: "parsers_typed demo_stateful"
proof -
  have "slot demo_stateful k = None" for k
    by (cases k) (simp add: slot_def demo_stateful_fields demo_flows demo_no_parsers)
  then show ?thesis by (simp add: parsers_typed_def)
qed

lemma demo_env_types: "env_types demo_env"
  by (simp add: env_types_def demo_env_def same_kinds_update addOperation_def split: OP.splits)

lemma demo_stateful_getFlow: "getFlow demo_libc demo_abc demo_stateful = Some (Some 0, demo_stateful)"
  using demo_getFlow
  by (auto simp: getFlow_def demo_stateful_def getMapping6_def demo_abc_def bind_eq_Some_conv isTCP_def isUDP_def)

lemma demo_stateful_parse:
  obtains s4 ps f4 where
    "app_parse demo_env demo_abc c SERVER 0 demo_stateful = (no_guess\<lparr>g_ops := [edit 1 2 ''xyz''], g_parser := Some 0, g_protocol := ''sip''\<rparr>, s4)"
    "parser_heap s4 = [ps]" "maxPos ps = -1" "extra s4 = EXTRA_NONE" "flows s4 = [f4]" "parsers_c2s f4 = [(''sip'', Some 0)]"
proof -
  note c = count1_def count2_def gettimeofday_def
  have "protocols demo_stateful = [(''sip'', \<lparr>conf_protocol = ''udp'', ptype_c2s = STATEFUL, ptype_s2c = STATEFUL\<rparr>)]"
    by (simp add: demo_stateful_def)
  moreover obtain f where f: "flows demo_sip = [f]" using demo_flows by blast
  moreover have "getProtocol f = []"
    using f demo_sip_fields(3) by (simp add: flow_at_def getProtocol_def Flow_new64_def Flow_default_def)
  moreover have "parsers_c2s f = []"
    using f demo_no_parsers [of SERVER] by (simp add: flow_at_def parsers_of_def)
  ultimately show ?thesis
    by (intro that [of "snd (app_parse demo_env demo_abc c SERVER 0 demo_stateful)" "new_parser 0 ''sip'' StatefulCommunicator"
          "setProtocol ''sip'' (f\<lparr>parsers_c2s := [(''sip'', Some 0)]\<rparr>)"])
      (simp_all add: app_parse_def c split_beta Let_def getParser_def map_index_def stateful_parser_def
        make_parser_def built_protocols_def process_at_def demo_env_def process_def new_parser_def
        demo_stateful_fields addOperation_def edit_def upd_flow_def flow_at_def no_guess_def setProtocol_def)
qed

theorem doApp_keeps_parser_types_witness:
  "\<exists>p' n' s'. doApp demo_env demo_abc demo_nat demo_stateful = Some (p', n', s') \<and>
     slot s' (0, SERVER, ''sip'') = Some 0 \<and> parsers_typed s'"
proof -
  obtain s4 ps f4 where s4: "app_parse demo_env demo_abc (string_at (obuf demo_abc) 28 3) SERVER 0 demo_stateful =
      (no_guess\<lparr>g_ops := [edit 1 2 ''xyz''], g_parser := Some 0, g_protocol := ''sip''\<rparr>, s4)"
    "parser_heap s4 = [ps]" "maxPos ps = -1" "extra s4 = EXTRA_NONE" "flows s4 = [f4]" "parsers_c2s f4 = [(''sip'', Some 0)]"
    by (rule demo_stateful_parse)
  have "\<exists>p' n' s'. doApp demo_env demo_abc demo_nat demo_stateful = Some (p', n', s') \<and>
      flows s' = [addOffset SERVER 2 f4]"
    by (simp add: demo_doApp_steps demo_stateful_getFlow demo_stateful_fields s4 Let_def)
      (simp add: upd_flow_def flow_at_def s4)
  then obtain p' n' s' where r: "doApp demo_env demo_abc demo_nat demo_stateful = Some (p', n', s')"
    "flows s' = [addOffset SERVER 2 f4]" by blast
  have "slot s' (0, SERVER, ''sip'') = Some 0"
    using s4(6) by (simp add: slot_def flow_at_def r(2)) (simp add: parsers_of_def)
  with r doApp_keeps_parser_types [OF r(1) demo_env_types demo_typed] show ?thesis by blast
qed

end
