(* ===== verification/Start_Up.thy ===== *)
theory Start_Up
  imports Main_Props "HOL-Library.Signed_Division"
begin

text \<open>
  The beginning and the end of a run: the raw sockets a \<open>NAT\<close> object opens (\<open>socket.h\<close>, \<open>socket.cc\<close>,
  \<open>nat.h\<close>), \<open>main\<close> from its first line to its last, and the figures \<open>analyze\<close> prints.
\<close>

section \<open>Raw sockets\<close>

text \<open>
  \<open>SocketRaw6\<close> has room for one packet that is kept back; the constructor leaves that part unset.  \<open>r\<close> is what
  the system's \<open>socket\<close> returns.
\<close>

record raw_socket6 =
  fd6 :: int
  buf6 :: "u8 list"
  len6 :: int
  daddr6 :: ipv6addr

definition init4 :: "int \<Rightarrow> ending + int" where
  "init4 r = (if r < 0 then Inl (Exit 1) else Inr r)"

definition init6 :: "int \<Rightarrow> raw_socket6 \<Rightarrow> ending + raw_socket6" where
  "init6 r s = (if r < 0 then Inl (Exit 1) else Inr (s\<lparr>len6 := 0, fd6 := r\<rparr>))"

text \<open>The constructor of \<open>NAT\<close>; the two results are asked for in turn.\<close>

definition NAT_new :: "bool \<Rightarrow> int \<Rightarrow> int \<Rightarrow> int \<times> raw_socket6 \<Rightarrow> ending + (int \<times> raw_socket6)" where
  "NAT_new open_them r4 r6 s =
     (if open_them
      then (case init4 r4 of
              Inl x \<Rightarrow> Inl x
            | Inr fd \<Rightarrow> (case init6 r6 (snd s) of Inl x \<Rightarrow> Inl x | Inr s6 \<Rightarrow> Inr (fd, s6)))
      else Inr s)"

text \<open>\<open>timeout\<close> sends the packet that is kept; what would forget it comes behind the \<open>return\<close>.\<close>

definition timeout6 :: "(datagram \<Rightarrow> int) \<Rightarrow> raw_socket6 \<Rightarrow> world \<Rightarrow> int \<times> raw_socket6 \<times> world" where
  "timeout6 sendto s w =
     (if len6 s \<le> 0 then (0, s, w)
      else let d = Sent6 (take (nat (len6 s)) (buf6 s)) (daddr6 s)
           in (if sendto d \<noteq> len6 s then -1 else 0, s, w\<lparr>wire := wire w @ [d]\<rparr>))"

primrec timeouts :: "(datagram \<Rightarrow> int) \<Rightarrow> nat \<Rightarrow> raw_socket6 \<Rightarrow> world \<Rightarrow> raw_socket6 \<times> world" where
  "timeouts sendto 0 s w = (s, w)"
| "timeouts sendto (Suc n) s w = (let (r, s1, w1) = timeout6 sendto s w in timeouts sendto n s1 w1)"

text \<open>A kept packet would be sent again by every call, and a socket just opened keeps none.\<close>

lemma timeouts_send_again:
  "wire (snd (timeouts sendto n s w)) =
     wire w @ (if len6 s \<le> 0 then [] else replicate n (Sent6 (take (nat (len6 s)) (buf6 s)) (daddr6 s)))"
  by (induction n arbitrary: w) (auto simp: timeout6_def Let_def)

lemma new_socket_keeps_nothing:
  "NAT_new True r4 r6 s = Inr (fd, s6) \<Longrightarrow> snd (timeouts sendto n s6 w) = w"
proof -
  assume "NAT_new True r4 r6 s = Inr (fd, s6)"
  then have "len6 s6 = 0" by (auto simp: NAT_new_def init4_def init6_def split: if_splits)
  then show ?thesis by (induction n) (simp_all add: timeout6_def)
qed

lemma NAT_new_exits_iff: "NAT_new True r4 r6 s = Inl (Exit 1) \<longleftrightarrow> r4 < 0 \<or> r6 < 0"
  by (simp add: NAT_new_def init4_def init6_def)

section \<open>main\<close>

text \<open>The flag \<open>tun\<close> of the state manager, which \<open>main\<close> sets.\<close>

definition tun_flag :: bool where
  "tun_flag = True"

record main_env =
  me_cap :: cap_env
  me_cfg :: config
  me_nfq :: nfq_results
  me_tun :: tun_results

definition main_state :: "world \<Rightarrow> world" where
  "main_state w = w\<lparr>w_sm := (w_sm w)\<lparr>extra := EXTRA_NONE\<rparr>\<rparr>"

text \<open>
  The gateway: without arguments.  \<open>start\<close> makes what the packets' handler \<open>h\<close> works on from the state that
  \<open>init\<close> has read; a descriptor below 0 is read from like any other.
\<close>

definition main_gateway ::
    "bool \<Rightarrow> main_env \<Rightarrow> (world \<Rightarrow> 's) \<Rightarrow> (u8 list \<Rightarrow> 's \<Rightarrow> 's option) \<Rightarrow> got list \<Rightarrow> world \<Rightarrow>
     (event list \<times> (init_error + ending option \<times> 's option)) option" where
  "main_gateway tun e start h gs w =
     (case init (ce_L (me_cap e)) (me_cfg e) (w_sm (main_state w)) of
        Inl err \<Rightarrow> Some ([], Inl err)
      | Inr s \<Rightarrow>
          (let s0 = start ((main_state w)\<lparr>w_sm := s\<rparr>) in
           if \<not> tun
           then (case nfqueue_init (me_nfq e) of
                   (ev, Inl x) \<Rightarrow> Some (ev, Inr (Some x, None))
                 | (ev, Inr fd) \<Rightarrow> do { (ev', x, s') \<leftarrow> main_nfq h gs s0; Some (ev @ ev', Inr (x, Some s')) })
           else (case tun_create (me_tun e) of
                   (ev, fd) \<Rightarrow> do { (x, s') \<leftarrow> main_tun h gs s0; Some (ev, Inr (x, Some s')) })))"

text \<open>With arguments, the files to analyse.\<close>

definition main_files ::
    "main_env \<Rightarrow> (u8 list option \<times> u8 list) list \<Rightarrow> world \<Rightarrow> ((init_error + ending \<times> capture list) \<times> world) option" where
  "main_files e fs w = do {
     (r, w1) \<leftarrow> analyze_files (me_cap e) (me_cfg e) fs (main_state w);
     Some (map_sum id (\<lambda>cs. (Return 0, cs)) r, w1) }"

lemma main_tun_handles_all:
  "list_all (\<lambda>g. \<exists>bs. g = Got bs) gs \<Longrightarrow> g = Lost \<or> g = Failed \<Longrightarrow>
   main_tun h (gs @ g # rest) s = map_option (\<lambda>s'. (Some (Return (-1)), s')) (handle_all h (packets_in gs) s)"
proof (induction gs arbitrary: s)
  case (Cons b gs)
  then obtain bs where "b = Got bs" by auto
  with Cons show ?case by (auto simp: map_option_bind split: bind_splits)
qed auto

text \<open>
   As \<open>main\<close> is written, it never touches the packet filter or the queue, whatever goes wrong: all it does to
  the system is to set up the tunnel.  It handles the packets it reads, each once and in order, until a read
  fails, which ends it with -1; that a tunnel could not be opened shows only there.
\<close>

theorem main_uses_tunnel_only:
  assumes "main_gateway tun_flag e start h (map Got ps @ Failed # rest) w = Some (ev, r)"
    and "init (ce_L (me_cap e)) (me_cfg e) (w_sm (main_state w)) = Inr s"
  shows "rules_left ev = {} \<and> set ev \<subseteq> {Tun_open, Tun_ioctl, Close_fd} \<union> Thread ` {..<THREADS} \<and>
    (\<exists>s'. r = Inr (Some (Return (-1)), Some s') \<and>
       handle_all h (map (take main_buf) ps) (start ((main_state w)\<lparr>w_sm := s\<rparr>)) = Some s')"
proof -
  have p: "packets_in (map Got ps) = map (take main_buf) ps" by (induction ps) simp_all
  have "list_all (\<lambda>g. \<exists>bs. g = Got bs) (map Got ps)" by (simp add: list_all_iff)
  from main_tun_handles_all [OF this, of Failed h rest] assms
  obtain s' where ev: "ev = fst (tun_create (me_tun e))" and r: "r = Inr (Some (Return (-1)), Some s')"
    and s': "handle_all h (map (take main_buf) ps) (start ((main_state w)\<lparr>w_sm := s\<rparr>)) = Some s'"
    by (auto simp: main_gateway_def tun_flag_def p bind_eq_Some_conv split_beta Let_def)
  have sub: "set ev \<subseteq> {Tun_open, Tun_ioctl, Close_fd} \<union> Thread ` {..<THREADS}"
    by (auto simp: ev tun_create_def lessThan_atLeast0)
  then have "ip6_rule_add \<notin> set ev" "ip6_rule_del \<notin> set ev" by (auto simp: rule_defs)
  moreover have "ip4_rule_add \<notin> set ev" "ip4_rule_del \<notin> set ev" using sub by (auto simp: rule_defs)
  ultimately have "rules_left ev = {}" by (simp add: rules_left_def in_force_other)
  with sub r s' show ?thesis by blast
qed

text \<open>The tunnel cannot be opened, and two packets come before the read fails.\<close>

theorem main_uses_tunnel_only_witness:
  "\<exists>ev r. main_gateway tun_flag \<lparr>me_cap = demo_cap, me_cfg = demo_config, me_nfq = \<lparr>nfq_opens = True, nfq_unbind_pf = 0,
       nfq_bind_pf = 0, nfq_creates = True, nfq_set_mode = 0, nfq_fd = 5\<rparr>, me_tun = \<lparr>tun_opens = -1, tun_setiff = 0\<rparr>\<rparr>
       (\<lambda>w. []) (\<lambda>b s. Some (s @ [b])) [Got [1], Got [2], Failed] demo_world = Some (ev, r) \<and>
     r = Inr (Some (Return (-1)), Some [[1], [2]]) \<and> rules_left ev = {}"
proof -
  let ?e = "\<lparr>me_cap = demo_cap, me_cfg = demo_config, me_nfq = \<lparr>nfq_opens = True, nfq_unbind_pf = 0,
       nfq_bind_pf = 0, nfq_creates = True, nfq_set_mode = 0, nfq_fd = 5\<rparr>, me_tun = \<lparr>tun_opens = -1, tun_setiff = 0\<rparr>\<rparr>"
  obtain s where i: "init (ce_L (me_cap ?e)) (me_cfg ?e) (w_sm (main_state demo_world)) = Inr s"
    by (simp add: init_def Let_def demo_config_def)
  then obtain ev r where m: "main_gateway tun_flag ?e (\<lambda>w. []) (\<lambda>b s. Some (s @ [b])) (map Got [[1], [2]] @ Failed # []) demo_world = Some (ev, r)"
    by (simp add: main_gateway_def tun_flag_def tun_create_def)
  from main_uses_tunnel_only [OF m i] m show ?thesis by (auto simp: main_buf_def)
qed

text \<open>
  C27: With the queue instead of the tunnel, \<open>main\<close> removes the two rules that send the traffic to the queue in one case
  only: when the queue could be set up and a read fails, it ends with 0 and leaves neither rule behind.  When setting up
  the queue fails, the program ends with 1 and leaves both behind, although nobody will ever serve the queue; and
  when it is interrupted while it waits for packets, both are left behind too, because the signal handler's first call
  is \<open>exit\<close> and not \<open>nfqueue_close\<close>.
\<close>

theorem rules_left_behind:
  assumes "main_gateway False e start h gs w = Some (ev, Inr (x, s'))" and "r = me_nfq e"
    and "failed \<longleftrightarrow> \<not> nfq_opens r \<or> nfq_unbind_pf r < 0 \<or> nfq_bind_pf r < 0 \<or> \<not> nfq_creates r \<or> nfq_set_mode r < 0"
  shows "x = (if failed then Some (Exit 1) else if Failed \<in> set gs then Some (Return 0) else None) \<and>
    rules_left ev = (if x = Some (Return 0) then {} else {ip6_rule_add, ip4_rule_add}) \<and>
    (x = None \<longrightarrow> rules_left (ev @ fst sigHandler) = {ip6_rule_add, ip4_rule_add} \<and> snd sigHandler = Some (Exit 0))"
proof -
  have init: "\<exists>s. init (ce_L (me_cap e)) (me_cfg e) (w_sm (main_state w)) = Inr s"
    using assms(1) by (auto simp: main_gateway_def split: sum.splits)
  have none: "fst sigHandler = []" "snd sigHandler = Some (Exit 0)" by (simp_all add: sigHandler_def)
  show ?thesis
  proof (cases "snd (nfqueue_init r)")
    case (Inl y)
    then have "ev = fst (nfqueue_init r)" "x = Some (Exit 1)"
      using assms(1,2) init init_fails_iff(2) [of r y]
      by (auto simp: main_gateway_def split: prod.splits)
    moreover have failed using Inl init_fails_iff [of r] assms(3) by simp
    ultimately show ?thesis by (simp add: rules_after_init)
  next
    case (Inr fd)
    then have "\<not> failed" using init_fails_iff(1) [of r] assms(3) by simp
    obtain ev' s0 s1 where m: "main_nfq h gs s0 = Some (ev', x, s1)" and ev: "ev = fst (nfqueue_init r) @ ev'"
      using assms(1,2) init Inr by (auto simp: main_gateway_def bind_eq_Some_conv split: prod.splits)
    show ?thesis
      using main_nfq_ends [OF m] ev \<open>\<not> failed\<close> none
      by (auto simp: rules_after_init rules_after_close split: if_splits)
  qed
qed

text \<open>A queue that is set up and waits after one packet.\<close>

theorem rules_left_behind_witness:
  "\<exists>ev s'. main_gateway False \<lparr>me_cap = demo_cap, me_cfg = demo_config, me_nfq = \<lparr>nfq_opens = True, nfq_unbind_pf = 0,
       nfq_bind_pf = 0, nfq_creates = True, nfq_set_mode = 0, nfq_fd = 5\<rparr>, me_tun = \<lparr>tun_opens = -1, tun_setiff = 0\<rparr>\<rparr>
       (\<lambda>w. []) (\<lambda>b s. Some (s @ [b])) [Got [1]] demo_world = Some (ev, Inr (None, s')) \<and>
     rules_left (ev @ fst sigHandler) = {ip6_rule_add, ip4_rule_add}"
proof -
  let ?r = "\<lparr>nfq_opens = True, nfq_unbind_pf = 0, nfq_bind_pf = 0, nfq_creates = True, nfq_set_mode = 0, nfq_fd = 5\<rparr>"
  let ?e = "\<lparr>me_cap = demo_cap, me_cfg = demo_config, me_nfq = ?r, me_tun = \<lparr>tun_opens = -1, tun_setiff = 0\<rparr>\<rparr>"
  obtain s where i: "init (ce_L (me_cap ?e)) (me_cfg ?e) (w_sm (main_state demo_world)) = Inr s"
    by (simp add: init_def Let_def demo_config_def)
  then obtain ev s' where m: "main_gateway False ?e (\<lambda>w. []) (\<lambda>b s. Some (s @ [b])) [Got [1]] demo_world = Some (ev, Inr (None, s'))"
    by (simp add: main_gateway_def nfqueue_init_def Let_def)
  from rules_left_behind [OF m refl refl] m show ?thesis by blast
qed

section \<open>The printed figures\<close>

definition gettime :: "timeval \<Rightarrow> timeval \<Rightarrow> int" where
  "gettime t1 t2 = (fst t2 - fst t1) * 1000000 + (snd t2 - snd t1)"

definition fits64 :: "int \<Rightarrow> bool" where
  "fits64 k \<longleftrightarrow> - (2 ^ 63) \<le> k \<and> k < 2 ^ 63"

text \<open>
  Megabits per second, in \<open>long long\<close>: a product that does not fit is undefined, a division by 0 ends the program.
\<close>

definition throughput :: "int \<Rightarrow> int \<Rightarrow> int option" where
  "throughput bytes time =
     (if \<not> fits64 (bytes * 8) \<or> \<not> fits64 (bytes * 8 * 1000000) \<or> time = 0 then None
      else Some (((bytes * 8 * 1000000) sdiv 1024 sdiv 1024) sdiv time))"

record report =
  rp_packets :: int
  rp_kbytes :: int
  rp_flow_cnt :: int
  rp_time :: int
  rp_mbps :: int
  rp_flows :: "int \<times> int \<times> int \<times> int"
  rp_literal :: int

definition capture_report :: "timeval \<Rightarrow> timeval \<Rightarrow> capture \<Rightarrow> report option" where
  "capture_report t1 t2 c =
     (let a = cp_an c; time = gettime t1 t2 in
      do {
        mbps \<leftarrow> throughput (cp_total c) time;
        Some \<lparr>rp_packets = cp_cnt c, rp_kbytes = cp_total c sdiv 1024, rp_flow_cnt = flow_cnt (w_sm (an_world a)),
          rp_time = time, rp_mbps = mbps, rp_flows = (total_flow a, http_flow a, ftp_flow a, sip_flow a),
          rp_literal = literal_flow a\<rparr> })"

text \<open>The bytes counted are bytes of the file.\<close>

definition counted :: "int \<Rightarrow> capture \<Rightarrow> bool" where
  "counted n c \<longleftrightarrow> 0 \<le> cp_total1 c \<and> cp_total1 c \<le> cp_total c \<and> cp_total c + int (length (cp_file c)) \<le> n"

lemma counted_frame:
  assumes "capture_frame e m d rest c = Some (r, c')" and "counted n c"
    and "length d + length rest \<le> length (cp_file c)"
  shows "counted n c'"
  using assms(1,2) of_nat_mono [OF assms(3), where 'a = int]
  by (auto simp: capture_frame_def add_increasing2 counted_def Let_def bind_eq_Some_conv split: if_split_asm)

lemma counted_step:
  assumes "capture_step e c = Some (r, c')" and "counted n c" shows "counted n c'"
proof (cases "length (take 16 (cp_file c)) = 16")
  case True
  let ?n = "incl_len (take 16 (cp_file c))"
  have "capture_frame e ?n (take (unat ?n) (drop 16 (cp_file c))) (drop (unat ?n) (drop 16 (cp_file c))) c = Some (r, c')"
    using assms(1) True by (cases "cp_file c = []") (simp_all add: capture_step_def fread_def Let_def)
  then show ?thesis by (rule counted_frame [OF _ assms(2)]) simp
next
  case False
  then have "c' = c\<lparr>cp_file := drop 16 (cp_file c)\<rparr>"
    using assms(1) by (auto simp: capture_step_def fread_def Let_def split: if_split_asm)
  moreover have "int (length (drop 16 (cp_file c))) \<le> int (length (cp_file c))" by simp
  ultimately show ?thesis using assms(2) by (simp add: counted_def del: length_drop)
qed

lemma counted_loop: "capture_loop e c = Some (r, c') \<Longrightarrow> counted n c \<Longrightarrow> counted n c'"
proof (induction e c rule: capture_loop.induct)
  case (1 e c)
  obtain x d where s: "capture_step e c = Some (x, d)"
    using 1(2) by (subst (asm) capture_loop.simps) (auto split: option.splits)
  note cd = counted_step [OF s 1(3)]
  show ?case
  proof (cases x)
    case None
    then have "capture_loop e d = Some (r, c')" using 1(2) s by (subst (asm) capture_loop.simps) simp
    then show ?thesis using 1(1) [OF s] None cd by simp
  next
    case (Some y)
    then show ?thesis using 1(2) s cd by (subst (asm) capture_loop.simps) simp
  qed
qed

text \<open>
   At the end of an analysed file of less than a tebibyte the report is printed unless no microsecond has
  passed on the clock, when the throughput is a division by zero, which ends the program without the rest of
  the figures.
\<close>

theorem report_fails_iff:
  assumes "analyze_file e buf file w = Some (r, c)" and "length file < 2 ^ 40"
  shows "capture_report t1 t2 c = None \<longleftrightarrow> gettime t1 t2 = 0"
proof -
  have "0 \<le> cp_total c \<and> cp_total c \<le> int (length file)"
  proof (cases "length (take 24 file) = 24")
    case True
    let ?c = "\<lparr>cp_file = drop 24 file, cp_buf = buf, cp_cnt = 0, cp_total = 24, cp_total1 = 0, cp_mxlen = 0,
      cp_an = new_analysis (w\<lparr>w_sm := (w_sm w)\<lparr>analysisMode := True\<rparr>\<rparr>)\<rparr>"
    obtain c' where c': "capture_loop e ?c = Some (r, c')" and c: "c = c'\<lparr>cp_total := cp_total c' - cp_total1 c'\<rparr>"
      using assms(1) True by (auto simp: analyze_file_def fread_def Let_def bind_eq_Some_conv)
    have "counted (int (length file)) ?c" using True by (simp add: counted_def)
    from counted_loop [OF c' this] show ?thesis by (simp add: c counted_def)
  next
    case False
    then have "length file < 24" by simp
    with assms(1) show ?thesis by (auto simp: analyze_file_def fread_def)
  qed
  moreover have "int (length file) < 2 ^ 40" using assms(2) by (metis of_nat_less_iff of_nat_numeral of_nat_power)
  ultimately have "0 \<le> cp_total c" "cp_total c < 2 ^ 40" by auto
  then have "fits64 (cp_total c * 8)" "fits64 (cp_total c * 8 * 1000000)" by (simp_all add: fits64_def)
  then show ?thesis by (simp add: capture_report_def throughput_def Let_def)
qed

text \<open>A capture of a header alone, and a clock that has not moved.\<close>

theorem report_fails_iff_witness:
  "\<exists>r c. analyze_file demo_cap [] (replicate 24 0) demo_world = Some (r, c) \<and> capture_report (7, 0) (7, 0) c = None \<and>
     capture_report (7, 0) (7, 1) c \<noteq> None"
proof -
  obtain r c where a: "analyze_file demo_cap [] (replicate 24 0) demo_world = Some (r, c)"
    by (simp add: analyze_file_def fread_def Let_def capture_loop.simps capture_step_def)
  have l: "length (replicate 24 0) < (2::nat) ^ 40" by simp
  from report_fails_iff [OF a l, of "(7, 0)" "(7, 0)"] report_fails_iff [OF a l, of "(7, 0)" "(7, 1)"] a
  show ?thesis by (auto simp: gettime_def)
qed

end
