(* ===== verification/Debug_Output.thy ===== *)
theory Debug_Output
  imports Modify
begin

text \<open>
  What the program writes as text: flows as \<open>operator<<\<close> of \<open>flow.cc\<close> shows them, the file \<open>Flow::save\<close> keeps
  for a flow, \<open>Packet::print\<close>, and the header \<open>parser_make.h\<close> that \<open>parser_make_maker.cc\<close> generates.
\<close>

section \<open>Flows\<close>

definition show_flow :: "libc \<Rightarrow> flow \<Rightarrow> string" where
  "show_flow L f =
     ''Flow('' @ show_ip6port L (ip6p f) @ ''<->'' @ getString6 L (ip6srv f) @ '' <=====> '' @
     show_ip4port L (ip4p f) @ ''<->'' @ getString4 L (ip4srv f) @ '')''"

definition show_flowptr :: "libc \<Rightarrow> FlowPtr \<Rightarrow> state_manager \<Rightarrow> string" where
  "show_flowptr L fo s = (case fo of None \<Rightarrow> ''Flow(NULL)'' | Some fid \<Rightarrow> show_flow L (flow_at s fid))"

text \<open>
  \<open>save\<close>: \<open>fout\<close> is the file the flow has open, by name, and \<open>fs\<close> the files' contents.  Opening empties a file;
  writing to one that could not be opened is undefined.
\<close>

definition save_name :: "libc \<Rightarrow> flow \<Rightarrow> string" where
  "save_name L f =
     ''Flow('' @ show_ip6port L (ip6p f) @ ''-'' @ getString6 L (ip6srv f) @ ''<->'' @
     show_ip4port L (ip4p f) @ ''-'' @ getString4 L (ip4srv f) @ '')''"

definition save_text :: "string \<Rightarrow> string" where
  "save_text content =
     [CHR 0x0A] @ ''-----------len='' @ decimal (length content) @ ''---------------'' @ [CHR 0x0A] @ content"

definition flow_save ::
    "libc \<Rightarrow> (string \<Rightarrow> bool) \<Rightarrow> flow \<Rightarrow> string \<Rightarrow> string option \<times> (string \<Rightarrow> string) \<Rightarrow>
     (string option \<times> (string \<Rightarrow> string)) option" where
  "flow_save L opens f content st =
     (let (fout, fs) = (case fst st of
            Some n \<Rightarrow> st
          | None \<Rightarrow> if opens (save_name L f) then (Some (save_name L f), (snd st)(save_name L f := [])) else (None, snd st))
      in case fout of
           None \<Rightarrow> None
         | Some n \<Rightarrow> Some (fout, fs(n := fs n @ save_text content)))"

primrec save_all ::
    "libc \<Rightarrow> (string \<Rightarrow> bool) \<Rightarrow> flow \<Rightarrow> string list \<Rightarrow> string option \<times> (string \<Rightarrow> string) \<Rightarrow>
     (string option \<times> (string \<Rightarrow> string)) option" where
  "save_all L opens f [] st = Some st"
| "save_all L opens f (c # cs) st = Option.bind (flow_save L opens f c st) (save_all L opens f cs)"

lemma save_all_open:
  "save_all L opens f cs (Some n, fs) = Some (Some n, fs(n := fs n @ concat (map save_text cs)))"
  by (induction cs arbitrary: fs) (simp_all add: flow_save_def)

text \<open>The file of a flow holds what was saved since it was opened, in order.\<close>

lemma save_all_file:
  assumes "opens (save_name L f)" and "cs \<noteq> []"
  shows "save_all L opens f cs (None, fs) =
    Some (Some (save_name L f), fs(save_name L f := concat (map save_text cs)))"
  using assms by (cases cs) (simp_all add: flow_save_def save_all_open)

section \<open>Packets\<close>

text \<open>The payload of a TCP packet between two lines, and an empty line.\<close>

definition packet_print :: "packet \<Rightarrow> string" where
  "packet_print p =
     (case tcp_hdr p of
        None \<Rightarrow> []
      | Some t \<Rightarrow>
          (let hl = getTransportHeaderLen p; tl = transport_len p in
           if hl < tl
           then [CHR 0x0A] @ ''hl='' @ print_int hl @ '' tl='' @ print_int tl @ [CHR 0x0A] @
             ''--------START------------'' @ [CHR 0x0A] @ string_at (obuf p) (t + nat hl) (nat (tl - hl)) @
             ''---------END-----------'' @ [CHR 0x0A]
           else [])) @ [CHR 0x0A]"

section \<open>The generated header\<close>

definition toupper :: "char \<Rightarrow> char" where
  "toupper c = (if 97 \<le> (of_char c :: nat) \<and> (of_char c :: nat) \<le> 122 then char_of ((of_char c :: nat) - 32) else c)"

definition puts :: "string \<Rightarrow> string" where
  "puts s = s @ [CHR 0x0A]"

definition quoted_text :: "string \<Rightarrow> string" where
  "quoted_text s = [CHR 0x22] @ s @ [CHR 0x22]"

definition parser_class :: "string \<Rightarrow> string" where
  "parser_class a = map toupper a @ ''Parser''"

definition make_include :: "string \<Rightarrow> string" where
  "make_include a = puts (''#include '' @ quoted_text (a @ ''/'' @ parser_class a @ ''.h''))"

definition make_case :: "string \<Rightarrow> string" where
  "make_case a =
     puts (''    if (protocol == '' @ quoted_text a @ '')'') @
     puts (''        ret = ParserPtr(new '' @ parser_class a @ ''(c));'')"

definition parser_make_h :: "string list \<Rightarrow> string" where
  "parser_make_h args =
     puts ''#pragma once'' @
     puts (puts (''#include '' @ quoted_text ''parser.h'')) @
     concat (map make_include args) @
     puts ''ParserPtr Parser::make(std::string protocol, Communicator *c, Flow* flow_) {'' @
     puts ''    ParserPtr ret = ParserPtr();'' @
     concat (map make_case args) @
     puts ''    if (ret) ret->flow = flow_;'' @
     puts (puts (puts ''    return ret;'' @ ''}''))"

text \<open>For the protocols that are built in, the classes the makefiles generate.\<close>

lemma built_parser_classes: "map parser_class built_protocols = [''HTTPParser'', ''FTPParser'', ''SIPParser'']"
  by (simp add: built_protocols_def parser_class_def toupper_def char_of_def bit_0)

end
