(* ===== verification/Spec2Isabelle.thy ===== *)
theory Spec2Isabelle
  imports Translation Modify_Props App_Props Protocol_Props Http_Input Communicator_Props Tun_Props Main_Props
    Gateway_Wire Zero_Checksum Streams Http_Gateway Tun_Liveness App_Types Start_Up Debug_Output
begin

text \<open>
  A verification development for \<open>alg\<close>, a NAT64 translator with application-level gateways for FTP, SIP
  and HTTP, written in C++.

  The program.  Packets come from a tunnel device (\<open>tun.h\<close>) or from the kernel's nfqueue
  (\<open>nfqueue.cc\<close>).  \<open>Packet::unpack\<close> copies the transport segment behind room for the other IP version's
  header, \<open>NAT::translate\<close> looks up or makes the flow in the tables of the global \<open>StateManager\<close>, rewrites
  port, header and checksum, and sends the result on a raw socket.  \<open>NAT::doApp\<close> (its call is commented out
  in \<open>translate\<close>) feeds the payload to a protocol parser through a communicator; the parser's actions add
  edits (\<open>Operation\<close>), \<open>Flow::modify\<close> applies them, and the flow's offsets keep the TCP numbers of both
  directions consistent.  \<open>main.cc\<close> also has an analysis mode that runs over captured packets.

  The theories, in order.
  \<^item> \<open>Alg_Prelude\<close>: bytes, memory as a function from addresses, loads and stores in the machine's (little
    endian) order, \<open>ntohs\<close> and \<open>ntohl\<close>, decimal and hexadecimal text, the C library as a parameter.
  \<^item> \<open>Std_Containers\<close>: \<open>std::map\<close> as a list of entries in the order of the code's own comparison; the locale
    of strict weak orders and what lookup after insertion gives.
  \<^item> \<open>Ip\<close> (\<open>ip.h\<close>, \<open>ip.cc\<close>), \<open>Parser\<close> (\<open>tokentype.h\<close>, \<open>parser.h\<close>, \<open>parser.cc\<close>), \<open>Flow\<close>
    (\<open>flow.h\<close> and the small operations of \<open>flow.cc\<close>), \<open>State\<close> (\<open>state.h\<close>, \<open>state.cc\<close> and
    \<open>Flow::getParser\<close>): the data, one record or datatype per class, and one definition per operation.
  \<^item> \<open>Tables\<close>: the invariant of the pool and the two tables, the allocator they implement, as a locale and
    its interpretation on the code's operations.
  \<^item> \<open>Packet\<close> (\<open>packet.h\<close>, \<open>packet.cc\<close>), \<open>Checksum_Props\<close> (ones' complement sums), \<open>Packet_Props\<close>.
  \<^item> \<open>Nat64\<close> (\<open>nat.h\<close>, \<open>nat.cc\<close>, the sending part of \<open>socket.cc\<close>), \<open>Nat64_Rewrite\<close> (what the rewriting
    does to the bytes), \<open>Nat64_Props\<close> (what one translation does to the tables, with the contract of a
    relation every part of \<open>translate\<close> respects as a locale), \<open>Translation\<close> (packets end to end).
  \<^item> \<open>Modify\<close> and \<open>Modify_Props\<close>: \<open>Flow::modify\<close> and \<open>Flow::shift\<close>, and the byte loop against the
    specification that splices the edits into the payload.
  \<^item> \<open>App_Layer\<close> and \<open>App_Props\<close>: \<open>NAT::doApp\<close>, with the contract of a relation every part of it
    respects as a locale and its extension to \<open>doApp\<close> as a whole; \<open>App_Types\<close>: the types of the parser objects the
    flows hold; \<open>App_Tables\<close>: the tables through \<open>doApp\<close> (two interpretations of that locale).
  \<^item> \<open>Protocol_Actions\<close> and \<open>Protocol_Props\<close>: the scanners' positions and the semantic actions of the
    three grammars.  \<open>Lexer\<close>: what a table of lexer rules means (longest match, first rule), with the
    ranking of a rule for the beginning of a line as a parameter, and that tokens are pieces of the input.
    \<open>Ftp_Language\<close>: \<open>ftp/lexer\<close> and \<open>ftp/grammar\<close>, with a recogniser that computes the grammar's
    derivations; \<open>Ftp_Props\<close>: command lines; \<open>App_Gateway\<close>: \<open>doApp\<close> on a flow whose protocol is known;
    \<open>Ftp_Gateway\<close>: an \<open>EPRT\<close> packet from the bytes received to
    the bytes sent.  \<open>Edit_Ranges\<close>: ranges of bytes in order, the edits that lie in them, and texts as edited pieces.
    \<open>Sip_Language\<close> and \<open>Sip_Props\<close>: \<open>sip/grammar\<close> over its tokens, and what the actions of a whole message
    do to it; \<open>Sip_Lexer\<close>: \<open>sip/lexer\<close> and the lines of a header; \<open>Sip_Session\<close>: the lines of a session
    description; \<open>Sip_Message\<close>: the request line, Via and Contact; \<open>Sip_Request\<close>: a request from its text to its
    translation; \<open>Sip_Run\<close>: a recogniser that computes the grammar's derivations, as a locale of readers of lines;
    \<open>Sip_Gateway\<close>: a request's packet from the bytes received to the bytes sent.  \<open>Http_Language\<close>: \<open>http/lexer\<close> and \<open>http/grammar\<close>; \<open>Http_Props\<close>: what the edits of a
    response do to it, and links; \<open>Http_Gateway\<close>: a response's packet.  \<open>Http_Input\<close>: the HTTP scanner's input (\<open>input.h\<close>,
    \<open>input.hpp\<close>).
  \<^item> \<open>Action_Relation\<close>: sequences of semantic actions, with the contract of a relation that all of them respect as a
    locale.  \<open>Gateway_Routes\<close> and \<open>Sip_Routes\<close>: runs in which \<open>translate\<close> and \<open>doApp\<close> alternate on the same tables, and
    the routes to the pairs that rewritten commands and requests name.  \<open>Gateway_Wire\<close>: \<open>doApp\<close> and then \<open>translate\<close> on
    one packet.  \<open>Streams\<close>: the sequence and acknowledgement numbers of the packets of an edited flow.  \<open>Zero_Checksum\<close>: the
    UDP datagrams over IPv6 whose checksum comes out as 0.
  \<^item> \<open>Communicator\<close> and \<open>Communicator_Props\<close> (\<open>communicator.h\<close>, \<open>communicator.cc\<close>): how packets' data
    reaches a parser that runs in a thread of its own, as a step relation over two pipes.
  \<^item> \<open>Analysis\<close>, \<open>Capture\<close> and \<open>Capture_Props\<close>: what \<open>main.cc\<close> does with a captured packet, and its loop
    over a capture file.
  \<^item> \<open>Tun_Dispatch\<close> and \<open>Tun_Props\<close>: the dispatcher and its worker threads as a step relation, and the
    nfqueue callback; \<open>Tun_Liveness\<close>: fair executions.
  \<^item> \<open>Main_Program\<close> and \<open>Main_Props\<close>: setting up and closing the queue (\<open>nfqueue.cc\<close>) and the tunnel
    (\<open>tun.h\<close>), the signal handler, the loops of \<open>main\<close> and the analysis of several files; \<open>Start_Up\<close>: the raw sockets, \<open>main\<close> as a whole, the printed figures.
  \<^item> \<open>Debug_Output\<close>: what is written as text, and the header \<open>parser_make_maker.cc\<close> generates.

  Conventions.  Machine integers that can wrap are words; an \<open>int\<close> that holds a length or a position is an
  integer.  A flow is its index in the list of flows, a parser its index in the parser heap, so that what
  the code shares through \<open>shared_ptr\<close> is shared.  \<^const>\<open>None\<close> is undefined behaviour: a null pointer
  dereferenced, a copy out of bounds, an exception nobody catches.  What the code takes from outside is an
  argument: the C library's conversions, the clock, the result of \<open>sendto\<close>, the memory behind a vector
  (read by \<open>Flow::modify\<close>), the order \<open>std::sort\<close> leaves equal elements in.

  What is shown.  \<open>Translation\<close>: a client's packet leaves as the IPv4 packet it should, the server's answer
  reaches that client, through any translations in between, and what is not translated sends nothing.
  \<open>Tables\<close>: reply routes are unique and stay.  \<open>Packet_Props\<close>: the stored checksum makes a receiver's sum come out
  right; a receiver accepts it but for UDP over IPv6 when it is 0 (\<open>translate_to_ipv6\<close>, \<open>Zero_Checksum\<close>).
  \<open>Modify_Props\<close>, \<open>App_Props\<close>: the edited payload is the spliced one, the offsets follow it, and what lies in memory behind
  the edits may be taken for one more.  \<open>Streams\<close>: so the TCP streams of both directions have no gaps.
  \<open>Ftp_Gateway\<close>: a client's \<open>EPRT\<close> command leaves as the command of the mapped IPv4 pair.
  \<open>Sip_Props\<close>: a SIP message's edits do not overlap and its length field follows its body; \<open>Sip_Request\<close> and
  \<open>Sip_Gateway\<close>: a client's request leaves with the mapped pairs and the length of the new body.  \<open>Http_Props\<close> and
  \<open>Http_Gateway\<close>: of a response only dots of addresses change, and its packet keeps its length, unless blanks stand inside
  an address (\<open>http_blanks_shorten\<close>).
  \<open>Gateway_Routes\<close>: whatever is translated, read and rewritten, bindings stay; a server that opens a data connection to the
  pair a rewritten \<open>EPRT\<close> command names reaches the client that announced it, and nobody else may answer.
  \<open>Sip_Routes\<close>: the same for the pairs of a SIP request.  \<open>Gateway_Wire\<close>: the one IPv4 packet the server receives for a
  rewritten command or request, with its addresses, numbers, length and checksum.  The mappings are made for the server of the last packet begun
  by any thread, a variable without a lock (\<open>other_server_voids_command\<close>).
  \<open>App_Types\<close>: a flow's parsers are of the protocol and kind they are kept for.
  \<open>Tun_Props\<close>: nothing is lost or overtaken between the threads and a flow stays on one of them;
  \<open>Tun_Liveness\<close>: every packet is translated in the end.
  \<open>Communicator_Props\<close>: packets reach the parser once and in order, and the two threads never block each
  other.  \<open>Capture_Props\<close>: the analysis covers every frame up to the limit the code sets, sends nothing, and what its printed
  numbers count.  \<open>Main_Props\<close> and \<open>Start_Up\<close>: when the packet filter's rules are removed.  Several
  properties show where the code departs from what it means to do; the findings of the manifest name them.

  Bounds.  No fuel is used: the loops are structural or have a measure, the loops that read packets recurse on
  the list of what they read, and threads are step relations; \<open>addData_returns\<close> bounds the steps of a call.

  The generated scanners.  flexc++ makes them from the lexers at build time.  Where a rule for the beginning of
  a line and a longer match of another rule compete, the repository does not say which wins: \<open>wins n k\<close> says it
  for a match of \<open>n\<close> characters against one of \<open>k\<close>.  In \<open>ftp/lexer\<close> and in the body of a SIP message they
  never compete (\<open>ftp_rules_any_ranking\<close>), in the headers of SIP and HTTP they always do
  (\<open>sip_header_needs_ranking\<close>).  A property that holds for every \<open>wins\<close> holds for the generated scanner.
  The three gateway theories take as a hypothesis (\<open>runs_ftp\<close>, \<open>runs_sip\<close>, \<open>runs_http\<close>) that the generated parser runs
  the actions of its grammar on the tokens of its lexer, and the two route theories that whatever it does is a sequence of
  actions (\<open>runs_actions\<close>); the recognisers \<open>ftp_run\<close> and \<open>sip_run\<close> are such parsers.

  Not modelled: what a generated parser does after a syntax error, except that \<open>Http_Language\<close> derives every run
  of tokens the production \<open>error\<close> could throw away and every prefix of a response; installing the signal handler;
  messages on the terminal; the programs under \<open>test\<close>.  In \<open>Tun_Dispatch\<close> one call of \<open>translate\<close> is one step, although only the operations of
  the tables hold a lock.  The total length the code writes into an IPv4 header leaves out the header
  itself; the kernel overwrites that field and the header checksum on a raw socket, so no property is
  stated of them.
\<close>

end
